(* ===== verification/Prelude.thy ===== *)
theory Prelude
  imports Main "HOL-Library.Word"
begin

unbundle bit_operations_syntax

text \<open>
  Shared vocabulary of the development: the C integer types as words, the two
  counted-loop shapes of the sources, and generic lemmas on words and folds.
\<close>

section \<open>The integer types of \<^verbatim>\<open>C/stdint.h\<close>\<close>

type_synonym u8 = "8 word"
type_synonym u16 = "16 word"
type_synonym u32 = "32 word"
type_synonym u64 = "64 word"

named_theorems word_facts "arithmetic facts on machine words shared by the components"

section \<open>Counted loops\<close>

text \<open>
  \<open>for_u32 i n body s\<close> is \<^verbatim>\<open>for (uint32_t k = i; k < n; k++) body\<close> over the state
  \<open>s\<close>; \<open>first_u32 i n f\<close> is the same loop over a body that only reads and may
  return a value out of the enclosing function (\<open>Some r\<close>).
\<close>

function for_u32 :: "u32 \<Rightarrow> u32 \<Rightarrow> (u32 \<Rightarrow> 's \<Rightarrow> 's) \<Rightarrow> 's \<Rightarrow> 's" where
  "for_u32 i n body s = (if i < n then for_u32 (i + 1) n body (body i s) else s)"
  by pat_completeness auto
termination
  by (relation "measure (\<lambda>(i, n, _, _). unat n - unat i)") (auto, unat_arith)

function first_u32 :: "u32 \<Rightarrow> u32 \<Rightarrow> (u32 \<Rightarrow> 'r option) \<Rightarrow> 'r option" where
  "first_u32 i n f =
     (if i < n then (case f i of Some r \<Rightarrow> Some r | None \<Rightarrow> first_u32 (i + 1) n f) else None)"
  by pat_completeness auto
termination
  by (relation "measure (\<lambda>(i, n, _). unat n - unat i)") (auto, unat_arith)

declare for_u32.simps [simp del] first_u32.simps [simp del]

lemma unat_of_nat_small [word_facts]:
  "n < 2 ^ LENGTH('a) \<Longrightarrow> unat (of_nat n :: 'a::len word) = n"
  by (simp add: unat_of_nat take_bit_nat_eq_self)

lemma unat_u32_bound [word_facts]: "unat (x::u32) < 2 ^ 32"
  using unsigned_less [of x] by simp

lemma of_nat_below:
  "k < unat (n::u32) \<Longrightarrow> of_nat k < n \<and> unat (of_nat k :: u32) = k"
  using unat_u32_bound [of n] by (simp add: word_less_nat_alt unat_of_nat_small)

lemma unat_Suc_less [word_facts]: "(i::'a::len word) < n \<Longrightarrow> unat (i + 1) = Suc (unat i)"
  by unat_arith

lemma unat_dec: "0 <s (b::u32) \<Longrightarrow> unat (b - 1) < unat b"
  by (cases "b = 0") (auto simp: unat_minus_one unat_gt_0)

lemma unat_pred_less: "(j::'a::len word) < i \<Longrightarrow> unat (i - 1) < unat i"
  by (intro measure_unat) auto

lemma unat_drop_bit_less: "0 < (w::'a::len word) \<Longrightarrow> 0 < n \<Longrightarrow> unat (drop_bit n w) < unat w"
proof -
  assume "0 < w" "0 < n"
  moreover from \<open>0 < n\<close> have "(1::nat) < 2 ^ n" by (intro one_less_power) simp_all
  ultimately have "unat w div 2 ^ n < unat w"
    by (intro div_less_dividend) (simp_all add: word_less_nat_alt)
  then show ?thesis by (simp add: unat_drop_bit_eq drop_bit_eq_div [of n "unat w"])
qed

lemma Suc_le_word [word_facts]: "(i::'a::len word) < n \<Longrightarrow> (i + 1 \<le> k) = (i < k)"
  by unat_arith

lemma for_u32_fold: "for_u32 i n body s = fold (\<lambda>k. body (of_nat k)) [unat i..<unat n] s"
proof (induction i n body s rule: for_u32.induct)
  case (1 i n body s)
  show ?case
  proof (cases "i < n")
    case True
    then have "unat i < unat n" by (simp add: word_less_nat_alt)
    with True 1 show ?thesis
      by (simp add: for_u32.simps [of i n] unat_Suc_less upt_conv_Cons)
  next
    case False
    then show ?thesis by (simp add: for_u32.simps [of i n] word_less_nat_alt)
  qed
qed

lemma first_u32_Some_iff:
  "first_u32 i n f = Some r \<longleftrightarrow>
     (\<exists>k. i \<le> k \<and> k < n \<and> f k = Some r \<and> (\<forall>j. i \<le> j \<and> j < k \<longrightarrow> f j = None))"
proof (induction i n f rule: first_u32.induct)
  case (1 i n f)
  show ?case
  proof (cases "i < n")
    case False
    then show ?thesis by (auto simp: first_u32.simps [of i n])
  next
    case lt: True
    show ?thesis
    proof (cases "f i")
      case (Some r')
      with lt show ?thesis
        by (auto simp: first_u32.simps [of i n]) (metis order_le_less option.discI option.sel)+
    next
      case None
      note succ = Suc_le_word [OF lt]
      have "(\<exists>k. i < k \<and> k < n \<and> f k = Some r \<and> (\<forall>j. i < j \<and> j < k \<longrightarrow> f j = None)) =
        (\<exists>k. i \<le> k \<and> k < n \<and> f k = Some r \<and> (\<forall>j. i \<le> j \<and> j < k \<longrightarrow> f j = None))"
        using None by (metis option.discI order_le_less)
      with 1 lt None show ?thesis
        by (simp add: first_u32.simps [of i n] succ)
    qed
  qed
qed

lemma first_u32_None_iff:
  "first_u32 i n f = None \<longleftrightarrow> (\<forall>k. i \<le> k \<and> k < n \<longrightarrow> f k = None)"
proof (induction i n f rule: first_u32.induct)
  case (1 i n f)
  show ?case
  proof (cases "i < n")
    case False
    then show ?thesis by (auto simp: first_u32.simps [of i n])
  next
    case lt: True
    note succ = Suc_le_word [OF lt]
    show ?thesis
    proof (cases "f i")
      case (Some r')
      with lt show ?thesis by (auto simp: first_u32.simps [of i n])
    next
      case None
      with 1 lt show ?thesis
        by (simp add: first_u32.simps [of i n] succ) (metis order_le_less)
    qed
  qed
qed

lemma first_u32_cong:
  "(\<And>k. i \<le> k \<Longrightarrow> k < n \<Longrightarrow> f k = g k) \<Longrightarrow> first_u32 i n f = first_u32 i n g"
proof (induction i n f rule: first_u32.induct)
  case (1 i n f)
  show ?case
  proof (cases "i < n")
    case lt: True
    have "first_u32 (i + 1) n f = first_u32 (i + 1) n g" if "f i = None"
      using that 1 lt by (simp add: Suc_le_word [OF lt])
    moreover have "f i = g i" using 1(2) lt by simp
    ultimately show ?thesis
      using lt by (simp add: first_u32.simps [of i n] split: option.split)
  qed (simp add: first_u32.simps)
qed

lemma for_u32_invariant:
  assumes "P s" and "\<And>k t. i \<le> k \<Longrightarrow> k < n \<Longrightarrow> P t \<Longrightarrow> P (body k t)"
  shows "P (for_u32 i n body s)"
  using assms
proof (induction i n body s rule: for_u32.induct)
  case (1 i n body s)
  show ?case
  proof (cases "i < n")
    case lt: True
    have "P (for_u32 (i + 1) n body (body i s))"
      using 1 lt by (simp add: Suc_le_word [OF lt])
    then show ?thesis using lt by (simp add: for_u32.simps [of i n])
  qed (use 1 in \<open>simp add: for_u32.simps [of i n]\<close>)
qed

lemma for_u32_rel:
  assumes "R s t" "\<And>k a b. i \<le> k \<Longrightarrow> k < n \<Longrightarrow> R a b \<Longrightarrow> R (f k a) (g k b)"
  shows "R (for_u32 i n f s) (for_u32 i n g t)"
  using assms
proof (induction i n f s arbitrary: t rule: for_u32.induct)
  case (1 i n f s)
  show ?case
  proof (cases "i < n")
    case lt: True
    have "R (for_u32 (i + 1) n f (f i s)) (for_u32 (i + 1) n g (g i t))"
      using 1 lt by (simp add: Suc_le_word [OF lt])
    then show ?thesis using lt by (simp add: for_u32.simps [of i n])
  qed (use 1 in \<open>simp add: for_u32.simps [of i n]\<close>)
qed

text \<open>One step of a loop that starts at \<open>align\<close> and runs over \<open>b\<close> elements.\<close>

lemma range_step:
  assumes "(b::u32) \<noteq> 0"
  shows "c - a < b \<longleftrightarrow> c = a \<or> c - (a + 1) < b - 1"
proof -
  have "d < b \<longleftrightarrow> d = 0 \<or> d - 1 < b - 1" for d
  proof (cases "d = 0")
    case False
    then have "0 < unat d" "0 < unat b" using assms by (simp_all add: unat_gt_0)
    then show ?thesis
      using False assms by (auto simp: word_less_nat_alt unat_minus_one)
  qed (use assms in \<open>simp add: word_gt_0\<close>)
  from this [of "c - a"] show ?thesis by (simp add: diff_diff_eq)
qed


lemma sless_small: "(b::u32) < 0x80000000 \<Longrightarrow> 0 <s b \<longleftrightarrow> b \<noteq> 0"
proof -
  assume "b < 0x80000000"
  then have "uint b < 2 ^ 31" by (simp add: word_less_alt)
  then have "sint b = uint b"
    using signed_take_bit_int_eq_self [of 31 "uint b"] order_trans [of "- (2 ^ 31)" 0 "uint b"]
    by (simp add: sint_uint)
  then show ?thesis
    using word_less_alt [of 0 b] word_gt_0 [of b] by (simp add: word_sless_alt)
qed

section \<open>Masks\<close>

text \<open>The bits of the masks that the sources use.\<close>

lemma low_masks:
  "bit (0xFF :: int) n \<longleftrightarrow> n < 8" "bit (0xFFFF :: int) n \<longleftrightarrow> n < 16" "bit (0xF :: int) n \<longleftrightarrow> n < 4"
  "bit (0xF0 :: int) n \<longleftrightarrow> 4 \<le> n \<and> n < 8" "bit (3 :: int) n \<longleftrightarrow> n < 2"
  "bit (0xFF00 :: int) n \<longleftrightarrow> 8 \<le> n \<and> n < 16"
proof -
  have "(0xFF :: int) = mask 8" "(0xFFFF :: int) = mask 16" "(0xF :: int) = mask 4"
    "(3 :: int) = mask 2" and hi: "(0xF0 :: int) = push_bit 4 (mask 4)" "(0xFF00 :: int) = push_bit 8 (mask 8)"
    by (simp_all add: mask_eq_exp_minus_1)
  then show "bit (0xFF :: int) n \<longleftrightarrow> n < 8" "bit (0xFFFF :: int) n \<longleftrightarrow> n < 16"
    "bit (0xF :: int) n \<longleftrightarrow> n < 4" "bit (3 :: int) n \<longleftrightarrow> n < 2"
    by (simp_all only: bit_mask_iff) simp_all
  show "bit (0xF0 :: int) n \<longleftrightarrow> 4 \<le> n \<and> n < 8" "bit (0xFF00 :: int) n \<longleftrightarrow> 8 \<le> n \<and> n < 16"
    by (simp_all only: hi bit_push_bit_iff_int bit_mask_iff) auto
qed

end
