(* ===== verification/Machine.thy ===== *)
theory Machine
  imports Prelude
begin

text \<open>
  The machine below the kernel: byte-addressed memory with the little-endian 16- and 32-bit
  accesses the C code makes through its pointers, the port instructions of
  \<^verbatim>\<open>ports/io.c\<close>, and \<^verbatim>\<open>memset\<close>/\<^verbatim>\<open>memcpy\<close> of \<^verbatim>\<open>C/string.c\<close>, which work on that memory.
  The devices behind the ports are not part of the sources: they are the field \<open>dev_b\<close>
  (\<open>dev_w\<close>), an arbitrary function from the whole port history and the port to the byte
  (word) that an \<open>in\<close> instruction delivers.
\<close>

unbundle bit_operations_syntax

section \<open>Memory\<close>

type_synonym memory = "u32 \<Rightarrow> u8"

definition load16 :: "memory \<Rightarrow> u32 \<Rightarrow> u16" where
  "load16 m a = ucast (m a) OR push_bit 8 (ucast (m (a + 1)))"

definition store16 :: "memory \<Rightarrow> u32 \<Rightarrow> u16 \<Rightarrow> memory" where
  "store16 m a v = m(a := ucast v, a + 1 := ucast (drop_bit 8 v))"

definition load32 :: "memory \<Rightarrow> u32 \<Rightarrow> u32" where
  "load32 m a = ucast (m a) OR push_bit 8 (ucast (m (a + 1)))
     OR push_bit 16 (ucast (m (a + 2))) OR push_bit 24 (ucast (m (a + 3)))"

definition store32 :: "memory \<Rightarrow> u32 \<Rightarrow> u32 \<Rightarrow> memory" where
  "store32 m a v = m(a := ucast v, a + 1 := ucast (drop_bit 8 v),
     a + 2 := ucast (drop_bit 16 v), a + 3 := ucast (drop_bit 24 v))"

text \<open>The \<open>n\<close> bytes from address \<open>p\<close> on, with the address wrap-around of a 32-bit machine.\<close>

definition in_region :: "u32 \<Rightarrow> u32 \<Rightarrow> u32 \<Rightarrow> bool" where
  "in_region p n x \<longleftrightarrow> x - p < n"

definition apart :: "u32 \<Rightarrow> u32 \<Rightarrow> u32 \<Rightarrow> u32 \<Rightarrow> bool" where
  "apart p n q k \<longleftrightarrow> n \<le> q - p \<and> k \<le> p - q"

text \<open>Two memories agree outside a region.\<close>

definition same_outside :: "u32 \<Rightarrow> u32 \<Rightarrow> memory \<Rightarrow> memory \<Rightarrow> bool" where
  "same_outside p n m m' \<longleftrightarrow> (\<forall>x. \<not> in_region p n x \<longrightarrow> m' x = m x)"

lemma load32_store32_same [simp]: "load32 (store32 m a v) a = v"
proof (rule bit_word_eqI)
  fix n assume n: "n < LENGTH(32)"
  consider "n < 8" | "8 \<le> n" "n < 16" | "16 \<le> n" "n < 24" | "24 \<le> n" by linarith
  then show "bit (load32 (store32 m a v) a) n = bit v n"
    by cases (use n in \<open>auto simp: load32_def store32_def bit_simps\<close>)
qed

lemma load16_store16_same [simp]: "load16 (store16 m a v) a = v"
  by (rule bit_word_eqI)
    (auto simp: load16_def store16_def bit_simps)

lemma in_region_4: "in_region a 4 x \<longleftrightarrow> x = a \<or> x = a + 1 \<or> x = a + 2 \<or> x = a + 3"
proof -
  have "(y < 4) = (y = 0 \<or> y = 1 \<or> y = 2 \<or> y = 3)" for y :: u32
    by unat_arith
  then show ?thesis
    by (auto simp: in_region_def diff_eq_eq add.commute)
qed

lemma in_region_2: "in_region a 2 x \<longleftrightarrow> x = a \<or> x = a + 1"
proof -
  have "(y < 2) = (y = 0 \<or> y = 1)" for y :: u32
    by unat_arith
  then show ?thesis
    by (auto simp: in_region_def diff_eq_eq add.commute)
qed

lemma store32_outside: "\<not> in_region a 4 x \<Longrightarrow> store32 m a v x = m x"
  by (simp add: in_region_4 store32_def)

lemma store16_outside: "\<not> in_region a 2 x \<Longrightarrow> store16 m a v x = m x"
  by (simp add: in_region_2 store16_def)

lemma load32_cong: "(\<And>x. in_region a 4 x \<Longrightarrow> m x = m' x) \<Longrightarrow> load32 m a = load32 m' a"
  by (simp add: load32_def in_region_4)

lemma apart_regions:
  assumes "apart p n q k" and "in_region p n x"
  shows "\<not> in_region q k x"
proof -
  have "d - e \<ge> k" if "d < n" "n \<le> e" "k \<le> 0 - e" for d e :: u32
    using that unat_sub_if' [of 0 e] unat_sub_if' [of d e]
    by (auto simp: word_less_nat_alt word_le_nat_alt split: if_splits)
  from this [of "x - p" "q - p"] assms have "k \<le> (x - p) - (q - p)"
    by (auto simp: apart_def in_region_def)
  then show ?thesis by (auto simp: in_region_def)
qed

lemma apart_sym: "apart p n q k \<longleftrightarrow> apart q k p n"
  by (auto simp: apart_def)

lemma load32_store32_apart: "apart a 4 b 4 \<Longrightarrow> load32 (store32 m a v) b = load32 m b"
  by (rule load32_cong, rule store32_outside) (auto dest: apart_regions)

text \<open>Distinct elements of a \<^verbatim>\<open>uint32_t\<close> array never overlap, wherever the array lies.\<close>

lemma element_distance:
  assumes "i < j" "j < (0x10000000 :: u32)"
  shows "4 \<le> 4 * (j - i)" "4 \<le> 4 * (i - j)"
proof -
  have nat: "unat i < unat j" "unat j < 0x10000000"
    using assms by (simp_all add: word_less_nat_alt)
  then have "unat (j - i) = unat j - unat i"
    by (simp add: unat_sub_if')
  then have d: "unat (4 * (j - i)) = 4 * (unat j - unat i)"
    using nat unat_word_ariths(2) [of 4 "j - i"] by (simp only:) simp
  have "4 * (i - j) = 0 - 4 * (j - i)" by (simp add: algebra_simps)
  then have "unat (4 * (i - j)) = 2 ^ 32 - 4 * (unat j - unat i)"
    using d nat by (simp only: unat_sub_if') simp
  with d nat show "4 \<le> 4 * (j - i)" "4 \<le> 4 * (i - j)"
    by (simp_all add: word_le_nat_alt)
qed

lemma elements_apart:
  assumes "i \<noteq> j" "i < 0x10000000" "j < 0x10000000"
  shows "apart (p + 4 * i) 4 (p + 4 * j) (4::u32)"
proof -
  have "p + 4 * j - (p + 4 * i) = 4 * (j - i)" "p + 4 * i - (p + 4 * j) = 4 * (i - j)"
    by (simp_all add: algebra_simps)
  then show ?thesis
    using assms element_distance [of i j] element_distance [of j i]
    by (cases "i < j") (auto simp: apart_def)
qed

text \<open>Distinct page frames never overlap.\<close>

lemma frames_apart:
  assumes "a mod 4096 = 0" "b mod 4096 = 0" "a div 4096 \<noteq> b div (4096::u32)"
  shows "apart a 4096 b 4096"
proof -
  have eq: "unat a = 4096 * (unat a div 4096)" "unat b = 4096 * (unat b div 4096)"
    using assms(1,2) by (simp_all add: word_unat_eq_iff unat_mod) (metis dvd_eq_mod_eq_0 dvd_mult_div_cancel)+
  have ne: "unat a div 4096 \<noteq> unat b div 4096"
    using assms(3) by (simp add: word_unat_eq_iff unat_div)
  have bound: "unat a < 2 ^ 32" "unat b < 2 ^ 32" by (rule unat_u32_bound)+
  have far: "4096 \<le> y - x" "y - x \<le> 2 ^ 32 - 4096"
    if "x < y" "x = 4096 * p" "y = 4096 * q" "y < 2 ^ 32" for x y p q :: nat
    using that by auto
  show ?thesis
  proof (cases "unat a < unat b")
    case True
    with far [of "unat a" "unat b", OF _ eq] bound show ?thesis
      by (simp add: apart_def word_le_nat_alt unat_sub_if')
  next
    case False
    with ne have "unat b < unat a" by (metis nat_neq_iff)
    with far [of "unat b" "unat a", OF _ eq(2,1)] bound show ?thesis
      by (simp add: apart_def word_le_nat_alt unat_sub_if')
  qed
qed

section \<open>Block operations of \<^verbatim>\<open>C/string.c\<close>\<close>

definition memset :: "u32 \<Rightarrow> u8 \<Rightarrow> u32 \<Rightarrow> memory \<Rightarrow> memory" where
  "memset buffer byte len = for_u32 0 len (\<lambda>i m. m(buffer + i := byte))"

definition memcpy :: "u32 \<Rightarrow> u32 \<Rightarrow> u32 \<Rightarrow> memory \<Rightarrow> memory" where
  "memcpy dst src count = for_u32 0 count (\<lambda>i m. m(dst + i := m (src + i)))"

lemma memset_apply:
  "memset p b n m x = (if in_region p n x then b else m x)"
proof -
  have "fold (\<lambda>k m. m(p + of_nat k := b)) [0..<j] m x = (if unat (x - p) < j then b else m x)"
    if "j \<le> unat n" for j
    using that
  proof (induction j)
    case (Suc j)
    have "unat (x - p) = j \<longleftrightarrow> x = p + of_nat j"
      using of_nat_below [of j n] Suc.prems by auto
    with Suc show ?case by auto
  qed simp
  from this [of "unat n"] show ?thesis
    by (simp add: memset_def for_u32_fold in_region_def word_less_nat_alt)
qed

lemma memcpy_apply:
  assumes "apart dst n src n"
  shows "memcpy dst src n m x = (if in_region dst n x then m (src + (x - dst)) else m x)"
proof -
  define body where "body k (m::memory) = m(dst + of_nat k := m (src + of_nat k))" for k m
  have "fold body [0..<j] m y = (if unat (y - dst) < j then m (src + (y - dst)) else m y)"
    if "j \<le> unat n" for j y
    using that
  proof (induction j arbitrary: y)
    case (Suc j)
    note IH = Suc.IH [OF Suc_leD [OF Suc.prems]]
    have j: "of_nat j < n" "unat (of_nat j :: u32) = j"
      using of_nat_below [of j n] Suc.prems by auto
    then have at: "unat (y - dst) = j \<longleftrightarrow> y = dst + of_nat j" by auto
    have "\<not> in_region dst n (src + of_nat j)"
      using apart_regions [OF assms [unfolded apart_sym [of dst]], of "src + of_nat j"] j
      by (simp add: in_region_def)
    then have "\<not> unat (src + of_nat j - dst) < j"
      using Suc.prems by (simp add: in_region_def word_less_nat_alt)
    then have "fold body [0..<j] m (src + of_nat j) = m (src + of_nat j)"
      by (simp only: IH if_False)
    then show ?case
      using at j by (simp add: body_def [of j] IH less_Suc_eq)
  qed simp
  from this [of "unat n"] show ?thesis
    by (simp add: memcpy_def body_def [abs_def] for_u32_fold in_region_def word_less_nat_alt)
qed

section \<open>The processor and its ports\<close>

text \<open>
  Besides memory and the port history, the machine has what the inline assembly of the sources
  touches: the control registers, the interrupt flag (\<^verbatim>\<open>cli\<close>, \<^verbatim>\<open>sti\<close>), whether \<^verbatim>\<open>hlt\<close> was
  executed, and the addresses given to \<^verbatim>\<open>invlpg\<close>.
\<close>

datatype io_event = Out_b u16 u8 | Out_w u16 u16 | In_b u16 u8 | In_w u16 u16

record machine =
  ram :: memory
  io_log :: "io_event list"
  dev_b :: "io_event list \<Rightarrow> u16 \<Rightarrow> u8"
  dev_w :: "io_event list \<Rightarrow> u16 \<Rightarrow> u16"
  cr0 :: u32
  cr2 :: u32
  cr3 :: u32
  int_flag :: bool
  halted :: bool
  invlpg_log :: "u32 list"

text \<open>\<open>modify32 p f\<close> is the effect of a call \<^verbatim>\<open>f(p, ...)\<close> that updates the word at \<open>p\<close> in place.\<close>

definition modify32 :: "u32 \<Rightarrow> (u32 \<Rightarrow> u32) \<Rightarrow> 'a machine_scheme \<Rightarrow> 'a machine_scheme" where
  "modify32 p f s = s\<lparr>ram := store32 (ram s) p (f (load32 (ram s) p))\<rparr>"

definition outb :: "u16 \<Rightarrow> u8 \<Rightarrow> 'a machine_scheme \<Rightarrow> 'a machine_scheme" where
  "outb port value s = s\<lparr>io_log := io_log s @ [Out_b port value]\<rparr>"

definition outw :: "u16 \<Rightarrow> u16 \<Rightarrow> 'a machine_scheme \<Rightarrow> 'a machine_scheme" where
  "outw port value s = s\<lparr>io_log := io_log s @ [Out_w port value]\<rparr>"

definition inb :: "u16 \<Rightarrow> 'a machine_scheme \<Rightarrow> u8 \<times> 'a machine_scheme" where
  "inb port s = (let v = dev_b s (io_log s) port in (v, s\<lparr>io_log := io_log s @ [In_b port v]\<rparr>))"

definition inw :: "u16 \<Rightarrow> 'a machine_scheme \<Rightarrow> u16 \<times> 'a machine_scheme" where
  "inw port s = (let v = dev_w s (io_log s) port in (v, s\<lparr>io_log := io_log s @ [In_w port v]\<rparr>))"

lemma outb_frame [simp]:
  "ram (outb p v s) = ram s" "dev_b (outb p v s) = dev_b s" "dev_w (outb p v s) = dev_w s"
  "io_log (outb p v s) = io_log s @ [Out_b p v]" "machine.more (outb p v s) = machine.more s"
  by (simp_all add: outb_def)

lemma inb_frame [simp]:
  "ram (snd (inb p s)) = ram s" "dev_b (snd (inb p s)) = dev_b s"
  "dev_w (snd (inb p s)) = dev_w s" "machine.more (snd (inb p s)) = machine.more s"
  "io_log (snd (inb p s)) = io_log s @ [In_b p (fst (inb p s))]"
  by (simp_all add: inb_def Let_def)

section \<open>Words inside page frames\<close>

text \<open>
  A page frame starts at a multiple of 4096; an address belongs to it when it has the same frame
  number. The 1024 words of a frame are the slots \<open>p + 4 * k\<close>.
\<close>

lemma in_frame_iff:
  assumes "p mod 4096 = (0::u32)"
  shows "in_region p 4096 x \<longleftrightarrow> x div 4096 = p div 4096"
proof -
  have "unat p = 4096 * (unat p div 4096)"
    using assms by (simp add: word_unat_eq_iff unat_mod) (metis dvd_eq_mod_eq_0 dvd_mult_div_cancel)
  then obtain q where q: "unat p = 4096 * q" by blast
  then have "q < 0x100000" using unat_u32_bound [of p] by simp
  moreover obtain d r where x: "unat x = 4096 * d + r" "r < 4096" "unat x div 4096 = d"
    by (metis div_mult_mod_eq mod_less_divisor mult.commute zero_less_numeral)
  ultimately have "unat (x - p) < 4096 \<longleftrightarrow> unat x div 4096 = q"
    using q unat_sub_if' [of x p] by (cases "q \<le> d"; cases "q = d") auto
  then show ?thesis
    by (simp add: in_region_def word_less_nat_alt word_unat_eq_iff unat_div q)
qed

lemma slot_unat:
  assumes "p mod 4096 = (0::u32)" "k < 1024" "i < 4"
  shows "unat (p + 4 * k + i) = unat p + 4 * unat k + unat i"
    "(p + 4 * k + i) div 4096 = p div 4096"
proof -
  have "unat p = 4096 * (unat p div 4096)"
    using assms(1) by (simp add: word_unat_eq_iff unat_mod) (metis dvd_eq_mod_eq_0 dvd_mult_div_cancel)
  then obtain q where q: "unat p = 4096 * q" by blast
  have k: "unat k < 1024" "unat i < 4" using assms(2,3) by (simp_all add: word_less_nat_alt)
  have "unat p + 4 * unat k + unat i < 2 ^ 32"
    using q k unat_u32_bound [of p] by simp
  then show u: "unat (p + 4 * k + i) = unat p + 4 * unat k + unat i"
    by (simp add: unat_word_ariths)
  then have "unat (p + 4 * k + i) div 4096 = q" using q k by (simp add: div_nat_eqI)
  then show "(p + 4 * k + i) div 4096 = p div 4096"
    by (simp add: word_unat_eq_iff unat_div q)
qed

lemma slot_in_frame:
  assumes "p mod 4096 = (0::u32)" "k < 1024" "in_region (p + 4 * k) 4 x"
  shows "x div 4096 = p div 4096"
proof -
  have "p + 4 * k + (x - (p + 4 * k)) = x" by simp
  then show ?thesis
    using slot_unat(2) [OF assms(1,2), of "x - (p + 4 * k)"] assms(3)
    by (simp add: in_region_def)
qed

lemma aligned_eq:
  assumes "p mod 4096 = 0" "q mod 4096 = (0::u32)" "p div 4096 = q div 4096"
  shows "p = q"
  by (metis assms word_mod_div_equality)

text \<open>Reading a slot after writing a slot.\<close>

lemma load32_store32_slot:
  assumes "p mod 4096 = 0" "q mod 4096 = (0::u32)" "k < 1024" "l < 1024"
  shows "load32 (store32 m (p + 4 * k) v) (q + 4 * l) =
    (if p = q \<and> k = l then v else load32 m (q + 4 * l))"
proof (cases "p = q")
  case True
  moreover have "apart (q + 4 * k) 4 (q + 4 * l) 4" if "k \<noteq> l"
    using that assms(3,4) by (intro elements_apart) (auto intro: less_trans)
  ultimately show ?thesis by (auto simp: load32_store32_apart)
next
  case False
  have "\<not> in_region (p + 4 * k) 4 x" if "in_region (q + 4 * l) 4 x" for x
    using False slot_in_frame [OF assms(1,3), of x] slot_in_frame [OF assms(2,4) that]
      aligned_eq [OF assms(1,2)] by auto
  then have "load32 (store32 m (p + 4 * k) v) (q + 4 * l) = load32 m (q + 4 * l)"
    by (intro load32_cong) (simp add: store32_outside)
  with False show ?thesis by simp
qed

lemma load32_slot_cong:
  assumes "q mod 4096 = (0::u32)" "l < 1024" "\<And>x. x div 4096 = q div 4096 \<Longrightarrow> m' x = m x"
  shows "load32 m' (q + 4 * l) = load32 m (q + 4 * l)"
  using assms(3) slot_in_frame [OF assms(1,2)] by (intro load32_cong) blast

lemma load32_zero: "(\<And>x. in_region a 4 x \<Longrightarrow> m x = 0) \<Longrightarrow> load32 m a = 0"
  by (simp add: load32_def in_region_4)

lemma load32_bytes:
  assumes "m a = ucast v" "m (a + 1) = ucast (drop_bit 8 v)" "m (a + 2) = ucast (drop_bit 16 v)" "m (a + 3) = ucast (drop_bit 24 v)"
  shows "load32 m a = v"
  using load32_store32_same [of m a v] assms by (simp add: store32_def fun_upd_idem)

lemma store32_store32 [simp]: "store32 (store32 m p v) p w = store32 m p w"
proof
  fix x
  show "store32 (store32 m p v) p w x = store32 m p w x"
    by (cases "in_region p 4 x") (auto simp: store32_outside in_region_4, auto simp: store32_def)
qed

lemma modify32_modify32 [simp]: "modify32 p f (modify32 p g s) = modify32 p (\<lambda>e. f (g e)) s"
  by (simp add: modify32_def)

lemma modify32_fields [simp]:
  "machine.more (modify32 p f s) = machine.more s" "io_log (modify32 p f s) = io_log s"
  "ram (modify32 p f s) = store32 (ram s) p (f (load32 (ram s) p))"
  by (simp_all add: modify32_def)

end
