(* ===== verification/Descriptors.thy ===== *)
theory Descriptors
  imports Machine "HOL-Library.Monad_Syntax"
begin

text \<open>
  The descriptor tables of the processor, \<^verbatim>\<open>hal/gdt.c\<close>, \<^verbatim>\<open>hal/idt.c\<close> and \<^verbatim>\<open>hal/tss.c\<close>. The
  tables are arrays of structs; a write past the end of an array is the result \<open>None\<close>. The
  addresses of the tables and of the handlers come from the linker and are arguments.
\<close>

unbundle bit_operations_syntax

section \<open>Data\<close>

abbreviation GDT_SIZE :: u32 where "GDT_SIZE \<equiv> 6"
abbreviation GDT_DESC_ACCESS :: u8 where "GDT_DESC_ACCESS \<equiv> 0x01"
abbreviation GDT_DESC_READWRITE :: u8 where "GDT_DESC_READWRITE \<equiv> 0x02"
abbreviation GDT_DESC_EXEC_CODE :: u8 where "GDT_DESC_EXEC_CODE \<equiv> 0x08"
abbreviation GDT_DESC_CODEDATA :: u8 where "GDT_DESC_CODEDATA \<equiv> 0x10"
abbreviation GDT_DESC_DPL :: u8 where "GDT_DESC_DPL \<equiv> 0x60"
abbreviation GDT_DESC_MEMORY :: u8 where "GDT_DESC_MEMORY \<equiv> 0x80"
abbreviation GDT_GRAND_LIMITHI_MASK :: u8 where "GDT_GRAND_LIMITHI_MASK \<equiv> 0x0F"
abbreviation GDT_GRAND_32BIT :: u8 where "GDT_GRAND_32BIT \<equiv> 0x40"
abbreviation GDT_GRAND_4K :: u8 where "GDT_GRAND_4K \<equiv> 0x80"

record gdt_descriptor =
  gd_limit :: u16
  gd_base_low :: u16
  gd_base_mid :: u8
  gd_flags :: u8
  gd_grand :: u8
  gd_base_high :: u8

record table_ptr = \<comment> \<open>\<^verbatim>\<open>gdtr\<close> and \<^verbatim>\<open>idtr\<close>\<close>
  tp_limit :: u16
  tp_base :: u32

abbreviation IDT_SIZE :: u32 where "IDT_SIZE \<equiv> 256"
abbreviation TRAP_GATE_FLAGS :: u16 where "TRAP_GATE_FLAGS \<equiv> 0x8F"
abbreviation INT_GATE_FLAGS :: u16 where "INT_GATE_FLAGS \<equiv> 0x8E"
abbreviation INT_GATE_USER_FLAGS :: u16 where "INT_GATE_USER_FLAGS \<equiv> 0xEE"

record idt_descriptor =
  id_base_low :: u16
  id_selector :: u16
  id_reserved :: u8
  id_flags :: u8
  id_base_high :: u16

record tss_entry =
  prev_tss :: u32
  esp0 :: u32
  ss0 :: u32
  esp1 :: u32
  ss1 :: u32
  esp2 :: u32
  ss2 :: u32
  tss_cr3 :: u32
  eip :: u32
  eflags :: u32
  eax :: u32
  ecx :: u32
  edx :: u32
  ebx :: u32
  esp :: u32
  ebp :: u32
  esi :: u32
  edi :: u32
  es :: u32
  cs :: u32
  ss :: u32
  ds :: u32
  fs :: u32
  gs :: u32
  ldt :: u32
  trap :: u16
  iomap :: u16

definition zero_gdt :: gdt_descriptor where
  "zero_gdt = \<lparr>gd_limit = 0, gd_base_low = 0, gd_base_mid = 0, gd_flags = 0, gd_grand = 0,
     gd_base_high = 0\<rparr>"

definition zero_idt :: idt_descriptor where
  "zero_idt = \<lparr>id_base_low = 0, id_selector = 0, id_reserved = 0, id_flags = 0, id_base_high = 0\<rparr>"

definition zero_tss :: tss_entry where
  "zero_tss = \<lparr>prev_tss = 0, esp0 = 0, ss0 = 0, esp1 = 0, ss1 = 0, esp2 = 0, ss2 = 0, tss_cr3 = 0,
     eip = 0, eflags = 0, eax = 0, ecx = 0, edx = 0, ebx = 0, esp = 0, ebp = 0, esi = 0, edi = 0,
     es = 0, cs = 0, ss = 0, ds = 0, fs = 0, gs = 0, ldt = 0, trap = 0, iomap = 0\<rparr>"

text \<open>
  The state: the three tables with their pointers, and the registers that \<^verbatim>\<open>lgdt\<close>, \<^verbatim>\<open>lidt\<close> and
  \<^verbatim>\<open>ltr\<close> load.
\<close>

record hal_state =
  gdt :: "gdt_descriptor list"
  gdt_ptr :: table_ptr
  idt :: "idt_descriptor list"
  idt_ptr :: table_ptr
  TSS :: tss_entry
  cpu_gdtr :: table_ptr
  cpu_idtr :: table_ptr
  cpu_tr :: u16

type_synonym 'a hal = "'a hal_state_scheme"

section \<open>Global descriptor table\<close>

definition gdt_set_descriptor :: "u32 \<Rightarrow> u64 \<Rightarrow> u64 \<Rightarrow> u8 \<Rightarrow> u8 \<Rightarrow> 'a hal \<Rightarrow> 'a hal option" where
  "gdt_set_descriptor i base limit access grand s =
     (if GDT_SIZE < i then Some s
      else if length (gdt s) \<le> unat i then None
      else let d = zero_gdt;
               d = d\<lparr>gd_limit := ucast (limit AND 0xFFFF)\<rparr>;
               d = d\<lparr>gd_base_low := ucast (base AND 0xFFFF)\<rparr>;
               d = d\<lparr>gd_base_mid := ucast (drop_bit 16 base AND 0xFF)\<rparr>;
               d = d\<lparr>gd_flags := access\<rparr>;
               d = d\<lparr>gd_grand := ucast (drop_bit 16 limit AND 0x0F)\<rparr>;
               d = d\<lparr>gd_grand := gd_grand d OR (grand AND 0xF0)\<rparr>;
               d = d\<lparr>gd_base_high := ucast (drop_bit 24 base AND 0xFF)\<rparr>
           in Some (s\<lparr>gdt := (gdt s)[unat i := d]\<rparr>))"

definition default_code_seg_access :: u8 where
  "default_code_seg_access = GDT_DESC_READWRITE OR GDT_DESC_EXEC_CODE OR GDT_DESC_CODEDATA
     OR GDT_DESC_MEMORY"

definition default_data_seg_access :: u8 where
  "default_data_seg_access = GDT_DESC_READWRITE OR GDT_DESC_CODEDATA OR GDT_DESC_MEMORY"

definition user_code_seg_access :: u8 where
  "user_code_seg_access = GDT_DESC_READWRITE OR GDT_DESC_EXEC_CODE OR GDT_DESC_CODEDATA
     OR GDT_DESC_MEMORY OR GDT_DESC_DPL"

definition user_data_seg_access :: u8 where
  "user_data_seg_access = GDT_DESC_READWRITE OR GDT_DESC_CODEDATA OR GDT_DESC_MEMORY
     OR GDT_DESC_DPL"

definition gdt_init :: "u32 \<Rightarrow> 'a hal \<Rightarrow> 'a hal option" where
  "gdt_init gdt_addr s = do {
     let s = s\<lparr>gdt_ptr := \<lparr>tp_limit = 8 * ucast GDT_SIZE - 1, tp_base = gdt_addr\<rparr>\<rparr>;
     let grand = GDT_GRAND_4K OR GDT_GRAND_32BIT OR GDT_GRAND_LIMITHI_MASK;
     s \<leftarrow> gdt_set_descriptor 0 0 0 0 0 s;
     s \<leftarrow> gdt_set_descriptor 1 0 0xFFFFFFFF default_code_seg_access grand s;
     s \<leftarrow> gdt_set_descriptor 2 0 0xFFFFFFFF default_data_seg_access grand s;
     s \<leftarrow> gdt_set_descriptor 3 0 0xFFFFFFFF user_code_seg_access grand s;
     s \<leftarrow> gdt_set_descriptor 4 0 0xFFFFFFFF user_data_seg_access grand s;
     Some (s\<lparr>cpu_gdtr := gdt_ptr s\<rparr>)
   }"

section \<open>Interrupt descriptor table\<close>

definition idt_set_descriptor :: "u32 \<Rightarrow> u32 \<Rightarrow> u16 \<Rightarrow> 'a hal \<Rightarrow> 'a hal option" where
  "idt_set_descriptor i irq flags s =
     (if IDT_SIZE < i \<or> irq = 0 then Some s
      else if length (idt s) \<le> unat i then None
      else let d = idt s ! unat i;
               d = d\<lparr>id_base_low := ucast (irq AND 0xFFFF)\<rparr>;
               d = d\<lparr>id_selector := 0x08\<rparr>;
               d = d\<lparr>id_reserved := 0\<rparr>;
               d = d\<lparr>id_flags := ucast flags\<rparr>;
               d = d\<lparr>id_base_high := ucast (drop_bit 16 irq AND 0xFFFF)\<rparr>
           in Some (s\<lparr>idt := (idt s)[unat i := d]\<rparr>))"

text \<open>
  \<^verbatim>\<open>memset(&idt, 0, sizeof(idt_descriptor) * IDT_SIZE - 1)\<close> clears all bytes but the last one,
  the high byte of the last \<^verbatim>\<open>base_high\<close>.
\<close>

definition idt_clear :: "idt_descriptor list \<Rightarrow> idt_descriptor list" where
  "idt_clear t = (if t = [] then []
     else replicate (length t - 1) zero_idt @
       [zero_idt\<lparr>id_base_high := id_base_high (last t) AND 0xFF00\<rparr>])"

text \<open>The two loops of \<open>idt_init\<close>, over \<^verbatim>\<open>entry\<close>.\<close>

definition excp_has_error_code :: "u32 \<Rightarrow> bool" where
  "excp_has_error_code entry \<longleftrightarrow> entry = 8 \<or> entry = 10 \<or> entry = 11 \<or> entry = 12 \<or>
     entry = 13 \<or> entry = 14 \<or> entry = 17 \<or> entry = 21"

definition idt_init :: "u32 \<Rightarrow> u32 \<Rightarrow> u32 \<Rightarrow> u32 \<Rightarrow> 'a hal \<Rightarrow> 'a hal option" where
  "idt_init idt_addr default_excp_handler default_excp_handler_err_code default_int_handler s = do {
     let s = s\<lparr>idt_ptr := \<lparr>tp_limit = 8 * ucast IDT_SIZE - 1, tp_base = idt_addr\<rparr>\<rparr>;
     let s = s\<lparr>idt := idt_clear (idt s)\<rparr>;
     s \<leftarrow> for_u32 0 32 (\<lambda>entry r. r \<bind>
            (if excp_has_error_code entry
             then idt_set_descriptor entry default_excp_handler_err_code TRAP_GATE_FLAGS
             else idt_set_descriptor entry default_excp_handler TRAP_GATE_FLAGS)) (Some s);
     s \<leftarrow> for_u32 32 IDT_SIZE (\<lambda>entry r. r \<bind>
            idt_set_descriptor entry default_int_handler INT_GATE_FLAGS) (Some s);
     Some (s\<lparr>cpu_idtr := idt_ptr s\<rparr>)
   }"

section \<open>Task state segment\<close>

text \<open>\<^verbatim>\<open>sizeof(tss_entry_t)\<close>: 25 words and two half words.\<close>

abbreviation sizeof_tss_entry :: u32 where "sizeof_tss_entry \<equiv> 104"

definition flush_tss :: "u16 \<Rightarrow> 'a hal \<Rightarrow> 'a hal" where
  "flush_tss sel s = s\<lparr>cpu_tr := sel\<rparr>"

definition tss_set_stack :: "u16 \<Rightarrow> u16 \<Rightarrow> 'a hal \<Rightarrow> 'a hal" where
  "tss_set_stack kernel_ss kernel_esp s =
     s\<lparr>TSS := (TSS s)\<lparr>ss0 := ucast kernel_ss, esp0 := ucast kernel_esp\<rparr>\<rparr>"

definition tss_init :: "u32 \<Rightarrow> u32 \<Rightarrow> u16 \<Rightarrow> u16 \<Rightarrow> 'a hal \<Rightarrow> 'a hal option" where
  "tss_init tss_addr idx kernel_ss kernel_esp s = do {
     let base = tss_addr;
     let access = GDT_DESC_ACCESS OR GDT_DESC_EXEC_CODE OR GDT_DESC_MEMORY OR GDT_DESC_DPL;
     s \<leftarrow> gdt_set_descriptor idx (ucast base) (ucast (base + sizeof_tss_entry)) access 0 s;
     let s = s\<lparr>TSS := zero_tss\<rparr>;
     let s = s\<lparr>TSS := (TSS s)\<lparr>ss0 := ucast kernel_ss, esp0 := ucast kernel_esp\<rparr>\<rparr>;
     let s = s\<lparr>TSS := (TSS s)\<lparr>cs := 0x0B, ss := 0x13, es := 0x13, ds := 0x13, fs := 0x13,
               gs := 0x13\<rparr>\<rparr>;
     Some (flush_tss (ucast (idx * 8) OR 3) s)
   }"

section \<open>What the processor reads\<close>

text \<open>Base, limit and privilege level of a segment descriptor, target of a gate.\<close>

definition seg_base :: "gdt_descriptor \<Rightarrow> u32" where
  "seg_base d = ucast (gd_base_low d) OR push_bit 16 (ucast (gd_base_mid d))
     OR push_bit 24 (ucast (gd_base_high d))"

definition seg_limit :: "gdt_descriptor \<Rightarrow> u32" where
  "seg_limit d = ucast (gd_limit d) OR push_bit 16 (ucast (gd_grand d AND 0x0F))"

definition seg_dpl :: "gdt_descriptor \<Rightarrow> u8" where
  "seg_dpl d = drop_bit 5 (gd_flags d) AND 3"

definition gate_target :: "idt_descriptor \<Rightarrow> u32" where
  "gate_target d = ucast (id_base_low d) OR push_bit 16 (ucast (id_base_high d))"

end
