(* ===== verification/Descriptor_props.thy ===== *)
theory Descriptor_props
  imports Descriptors
begin

text \<open>
  Correctness of the descriptor tables: the fields that the functions scatter over a descriptor
  are the values the processor reads back, and the tables that the initialisation loads.
\<close>

unbundle bit_operations_syntax

section \<open>Segment descriptors\<close>

definition make_descriptor :: "u64 \<Rightarrow> u64 \<Rightarrow> u8 \<Rightarrow> u8 \<Rightarrow> gdt_descriptor" where
  "make_descriptor base limit access grand =
     \<lparr>gd_limit = ucast (limit AND 0xFFFF), gd_base_low = ucast (base AND 0xFFFF),
      gd_base_mid = ucast (drop_bit 16 base AND 0xFF), gd_flags = access,
      gd_grand = ucast (drop_bit 16 limit AND 0x0F) OR (grand AND 0xF0),
      gd_base_high = ucast (drop_bit 24 base AND 0xFF)\<rparr>"

lemma gdt_set_descriptor_eq:
  "gdt_set_descriptor i base limit access grand s =
     (if 6 < i then Some s
      else if length (gdt s) \<le> unat i then None
      else Some (s\<lparr>gdt := (gdt s)[unat i := make_descriptor base limit access grand]\<rparr>))"
  by (simp add: gdt_set_descriptor_def make_descriptor_def zero_gdt_def Let_def)

lemma make_descriptor_reads:
  "seg_base (make_descriptor base limit access grand) = ucast base"
  "seg_limit (make_descriptor base limit access grand) = ucast (take_bit 20 limit)"
  "gd_flags (make_descriptor base limit access grand) = access"
  "gd_grand (make_descriptor base limit access grand) AND 0xF0 = grand AND 0xF0"
proof -
  show "seg_base (make_descriptor base limit access grand) = ucast base"
  proof (rule bit_word_eqI)
    fix n assume "n < LENGTH(32)"
    then show "bit (seg_base (make_descriptor base limit access grand)) n = bit (ucast base :: u32) n"
      by (cases "n < 24") (auto simp: seg_base_def make_descriptor_def bit_simps low_masks)
  qed
  show "seg_limit (make_descriptor base limit access grand) = ucast (take_bit 20 limit)"
    by (rule bit_word_eqI) (auto simp: seg_limit_def make_descriptor_def bit_simps low_masks)
  show "gd_flags (make_descriptor base limit access grand) = access"
    by (simp add: make_descriptor_def)
  show "gd_grand (make_descriptor base limit access grand) AND 0xF0 = grand AND 0xF0"
    by (rule bit_word_eqI) (auto simp: make_descriptor_def bit_simps low_masks)
qed

definition make_gate :: "u32 \<Rightarrow> u16 \<Rightarrow> idt_descriptor" where
  "make_gate irq flags =
     \<lparr>id_base_low = ucast (irq AND 0xFFFF), id_selector = 0x08, id_reserved = 0,
      id_flags = ucast flags, id_base_high = ucast (drop_bit 16 irq AND 0xFFFF)\<rparr>"

lemma make_gate_target: "gate_target (make_gate irq flags) = irq"
  by (rule bit_word_eqI) (auto simp: make_gate_def gate_target_def bit_simps low_masks)

lemma idt_set_descriptor_eq:
  "irq \<noteq> 0 \<Longrightarrow> i \<le> 256 \<Longrightarrow> unat i < length (idt s) \<Longrightarrow>
   idt_set_descriptor i irq flags s = Some (s\<lparr>idt := (idt s)[unat i := make_gate irq flags]\<rparr>)"
  by (cases "idt s ! unat i") (simp add: idt_set_descriptor_def make_gate_def Let_def)

section \<open>Filling the interrupt table\<close>

text \<open>A loop that sets one gate per vector sets exactly the gates of its range.\<close>

lemma idt_fill:
  assumes "length (idt s) = 256" "n \<le> 256" "\<And>v. handler v \<noteq> 0"
  shows "for_u32 i n (\<lambda>entry r. r \<bind> idt_set_descriptor entry (handler entry) flags) (Some s) =
    Some (s\<lparr>idt := map (\<lambda>v. if unat i \<le> v \<and> v < unat n then make_gate (handler (of_nat v)) flags
                     else idt s ! v) [0..<256]\<rparr>)"
  using assms
proof (induction "unat n - unat i" arbitrary: i s rule: less_induct)
  case 1: less
  show ?case
  proof (cases "i < n")
    case True
    have i: "unat i < 256" "i \<le> 256" "unat (i + 1) = Suc (unat i)" "unat i < unat n"
      using True 1(3) by (auto simp: word_less_nat_alt word_le_nat_alt unat_Suc_less)
    let ?s = "s\<lparr>idt := (idt s)[unat i := make_gate (handler i) flags]\<rparr>"
    have step: "idt_set_descriptor i (handler i) flags s = Some ?s"
      using i 1(2,4) by (intro idt_set_descriptor_eq) simp_all
    have "map (\<lambda>v. if Suc (unat i) \<le> v \<and> v < unat n then make_gate (handler (of_nat v)) flags
             else idt ?s ! v) [0..<256] =
          map (\<lambda>v. if unat i \<le> v \<and> v < unat n then make_gate (handler (of_nat v)) flags
             else idt s ! v) [0..<256]"
      using i 1(2) by (intro map_cong refl) (auto simp: nth_list_update)
    then show ?thesis
      using True 1(1) [of "i + 1" ?s] 1(2-4) step i
      by (simp add: for_u32.simps [of i n])
  next
    case False
    then have "map (\<lambda>v. if unat i \<le> v \<and> v < unat n then make_gate (handler (of_nat v)) flags
             else idt s ! v) [0..<256] = idt s"
      using 1(2) by (intro nth_equalityI) (auto simp: word_less_nat_alt)
    with False show ?thesis by (simp add: for_u32.simps [of i n])
  qed
qed

section \<open>Properties\<close>

definition demo_hal :: hal_state where
  "demo_hal = \<lparr>gdt = replicate 6 zero_gdt, gdt_ptr = \<lparr>tp_limit = 0, tp_base = 0\<rparr>,
     idt = replicate 256 zero_idt, idt_ptr = \<lparr>tp_limit = 0, tp_base = 0\<rparr>, TSS = zero_tss,
     cpu_gdtr = \<lparr>tp_limit = 0, tp_base = 0\<rparr>, cpu_idtr = \<lparr>tp_limit = 0, tp_base = 0\<rparr>, cpu_tr = 0\<rparr>"

text \<open>
  C32. A segment descriptor that \<open>gdt_set_descriptor\<close> writes reads back as the given base, the low
  20 bits of the limit, the access byte and the high half of the granularity, and no other entry
  changes; an index above the table size is ignored, and the index equal to the table size, which
  the guard lets through, is a write behind the table.
\<close>

theorem gdt_set_descriptor_reads_back:
  assumes "length (gdt s) = unat GDT_SIZE"
  shows "(i < GDT_SIZE \<longrightarrow> (\<exists>s'. gdt_set_descriptor i base limit access grand s = Some s' \<and>
      seg_base (gdt s' ! unat i) = ucast base \<and>
      seg_limit (gdt s' ! unat i) = ucast (take_bit 20 limit) \<and>
      gd_flags (gdt s' ! unat i) = access \<and> gd_grand (gdt s' ! unat i) AND 0xF0 = grand AND 0xF0 \<and>
      (\<forall>j. j \<noteq> unat i \<longrightarrow> gdt s' ! j = gdt s ! j) \<and> length (gdt s') = length (gdt s))) \<and>
    (i = GDT_SIZE \<longrightarrow> gdt_set_descriptor i base limit access grand s = None) \<and>
    (GDT_SIZE < i \<longrightarrow> gdt_set_descriptor i base limit access grand s = Some s)"
  using assms make_descriptor_reads [of base limit access grand]
  by (auto simp: gdt_set_descriptor_eq word_less_nat_alt)

theorem gdt_set_descriptor_reads_back_witness:
  "\<exists>s'. gdt_set_descriptor 5 0x12345678 0xABCDE 0xE9 0 demo_hal = Some s' \<and>
     seg_base (gdt s' ! 5) = 0x12345678 \<and> seg_limit (gdt s' ! 5) = 0xABCDE"
proof -
  have "length (gdt demo_hal) = unat GDT_SIZE" by (simp add: demo_hal_def)
  from gdt_set_descriptor_reads_back [OF this, of 5 "0x12345678" "0xABCDE" "0xE9" 0] show ?thesis
    by auto
qed

text \<open>
  C19. The table that \<open>gdt_init\<close> loads: a null entry, then flat code and data segments (base 0,
  20-bit limit all ones in 4 KiB units, 32-bit) for ring 0 at selectors 0x08 and 0x10 and for
  ring 3 at selectors 0x18 and 0x20, present, with the code segments executable.
\<close>

theorem gdt_init_segments:
  assumes "length (gdt s) = unat GDT_SIZE"
  shows "\<exists>s'. gdt_init addr s = Some s' \<and> gdt s' ! 0 = zero_gdt \<and>
    (\<forall>i \<in> {1, 2, 3, 4}. seg_base (gdt s' ! i) = 0 \<and> seg_limit (gdt s' ! i) = 0xFFFFF \<and>
       gd_grand (gdt s' ! i) AND 0xF0 = 0xC0 \<and> bit (gd_flags (gdt s' ! i)) 7 \<and>
       seg_dpl (gdt s' ! i) = (if i \<le> 2 then 0 else 3) \<and>
       (bit (gd_flags (gdt s' ! i)) 3 \<longleftrightarrow> i = 1 \<or> i = 3)) \<and>
    cpu_gdtr s' = \<lparr>tp_limit = 47, tp_base = addr\<rparr> \<and> gdt s' ! 5 = gdt s ! 5"
proof -
  let ?g = "0xCF :: u8" and ?L = "0xFFFFFFFF :: u64"
  let ?t = "(gdt s)[0 := make_descriptor 0 0 0 0,
     1 := make_descriptor 0 ?L default_code_seg_access ?g,
     2 := make_descriptor 0 ?L default_data_seg_access ?g,
     3 := make_descriptor 0 ?L user_code_seg_access ?g,
     4 := make_descriptor 0 ?L user_data_seg_access ?g]"
  have "gdt_init addr s = Some (s\<lparr>gdt_ptr := \<lparr>tp_limit = 47, tp_base = addr\<rparr>, gdt := ?t,
      cpu_gdtr := \<lparr>tp_limit = 47, tp_base = addr\<rparr>\<rparr>)"
    using assms by (auto simp: gdt_init_def gdt_set_descriptor_eq Let_def)
  moreover have "make_descriptor 0 0 0 0 = zero_gdt"
    by (simp add: make_descriptor_def zero_gdt_def)
  moreover have "take_bit 20 ?L = 0xFFFFF" by (simp add: take_bit_eq_mod)
  ultimately show ?thesis
    using assms make_descriptor_reads [of 0 ?L _ ?g]
    by (simp add: seg_dpl_def default_code_seg_access_def default_data_seg_access_def
        user_code_seg_access_def user_data_seg_access_def)
qed

theorem gdt_init_segments_witness:
  "\<exists>s'. gdt_init 0x5000 demo_hal = Some s' \<and> seg_dpl (gdt s' ! 3) = 3"
proof -
  have "length (gdt demo_hal) = unat GDT_SIZE" by (simp add: demo_hal_def)
  from gdt_init_segments [OF this, of "0x5000"] show ?thesis by auto
qed

text \<open>The table that \<open>idt_init\<close> builds.\<close>

definition default_gate :: "u32 \<Rightarrow> u32 \<Rightarrow> u32 \<Rightarrow> nat \<Rightarrow> idt_descriptor" where
  "default_gate excp excp_err irq v =
     make_gate (if v \<in> {8, 10, 11, 12, 13, 14, 17, 21} then excp_err else if v < 32 then excp else irq)
       (if v < 32 then TRAP_GATE_FLAGS else INT_GATE_FLAGS)"

definition default_gates :: "u32 \<Rightarrow> u32 \<Rightarrow> u32 \<Rightarrow> idt_descriptor list" where
  "default_gates excp excp_err irq = map (default_gate excp excp_err irq) [0..<256]"

lemma default_gates_nth [simp]: "length (default_gates a b c) = 256" "v < 256 \<Longrightarrow> default_gates a b c ! v = default_gate a b c v"
  by (simp_all add: default_gates_def)

lemma make_gate_reads [simp]: "id_flags (make_gate a f) = ucast f" "id_selector (make_gate a f) = 0x08"
  "id_reserved (make_gate a f) = 0"
  by (simp_all add: make_gate_def)

lemma idt_init_run:
  assumes "length (idt s) = unat IDT_SIZE" and "excp \<noteq> 0" and "excp_err \<noteq> 0" and "irq \<noteq> 0"
  shows "idt_init addr excp excp_err irq s = Some (s\<lparr>idt_ptr := \<lparr>tp_limit = 2047, tp_base = addr\<rparr>,
    idt := default_gates excp excp_err irq, cpu_idtr := \<lparr>tp_limit = 2047, tp_base = addr\<rparr>\<rparr>)"
proof -
  let ?p = "\<lparr>tp_limit = 2047, tp_base = addr\<rparr>"
  let ?h = "\<lambda>v. if excp_has_error_code v then excp_err else excp"
  define t where "t = idt_clear (idt s)"
  have len: "length t = 256" using assms(1) by (auto simp: t_def idt_clear_def)
  define t1 where "t1 = map (\<lambda>v. if v < 32 then make_gate (?h (of_nat v)) TRAP_GATE_FLAGS else t ! v) [0..<256]"
  define t2 where "t2 = map (\<lambda>v. if 32 \<le> v then make_gate irq INT_GATE_FLAGS else t1 ! v) [0..<256]"
  have t2: "map (\<lambda>v. if 32 \<le> v \<and> v < 256 then make_gate irq INT_GATE_FLAGS else t1 ! v) [0..<256] = t2"
    unfolding t2_def by (rule map_cong) auto
  have len1: "length t1 = 256" by (simp add: t1_def)
  have l1: "for_u32 0 32 (\<lambda>entry r. r \<bind> idt_set_descriptor entry (?h entry) TRAP_GATE_FLAGS)
      (Some (s\<lparr>idt_ptr := ?p, idt := t\<rparr>)) = Some (s\<lparr>idt_ptr := ?p, idt := t1\<rparr>)"
    using idt_fill [of "s\<lparr>idt_ptr := ?p, idt := t\<rparr>" 32 ?h 0 TRAP_GATE_FLAGS] len assms(2,3)
    by (simp add: t1_def)
  have l2: "for_u32 32 256 (\<lambda>entry r. r \<bind> idt_set_descriptor entry irq INT_GATE_FLAGS)
      (Some (s\<lparr>idt_ptr := ?p, idt := t1\<rparr>)) = Some (s\<lparr>idt_ptr := ?p, idt := t2\<rparr>)"
    using idt_fill [of "s\<lparr>idt_ptr := ?p, idt := t1\<rparr>" 256 "\<lambda>_. irq" 32 INT_GATE_FLAGS] assms(4) t2
    by (simp add: len1 cong del: if_weak_cong)
  have sel: "(if c then idt_set_descriptor e a f else idt_set_descriptor e b f) =
      idt_set_descriptor e (if c then a else b) f" for c e a b f by simp
  have run: "idt_init addr excp excp_err irq s = Some (s\<lparr>idt_ptr := ?p, idt := t2, cpu_idtr := ?p\<rparr>)"
    using l1 l2 by (simp add: idt_init_def sel t_def)
  have "excp_has_error_code (of_nat v) \<longleftrightarrow> v \<in> {8, 10, 11, 12, 13, 14, 17, 21}" if "v < 32" for v
    using that by (auto simp: excp_has_error_code_def word_unat_eq_iff unat_of_nat_small)
  then have "t2 = default_gates excp excp_err irq"
    unfolding t2_def default_gates_def by (intro map_cong refl) (auto simp: t1_def default_gate_def)
  then show ?thesis using run by simp
qed

text \<open>
  C20. After \<open>idt_init\<close> each of the 256 gates leads to its default handler, in the kernel's code
  segment: trap gates for the exceptions, to the variant that pops an error code exactly for those
  exceptions that push one, and interrupt gates for the rest, whatever the table held before.
\<close>

theorem idt_init_gates:
  assumes "length (idt s) = unat IDT_SIZE" and "excp \<noteq> 0" and "excp_err \<noteq> 0" and "irq \<noteq> 0"
  shows "\<exists>s'. idt_init addr excp excp_err irq s = Some s' \<and>
    cpu_idtr s' = \<lparr>tp_limit = 2047, tp_base = addr\<rparr> \<and> length (idt s') = 256 \<and>
    (\<forall>v < 256. gate_target (idt s' ! v) =
        (if v \<in> {8, 10, 11, 12, 13, 14, 17, 21} then excp_err else if v < 32 then excp else irq) \<and>
      id_flags (idt s' ! v) = (if v < 32 then 0x8F else 0x8E) \<and>
      id_selector (idt s' ! v) = 0x08 \<and> id_reserved (idt s' ! v) = 0)"
  using idt_init_run [OF assms] by (simp add: default_gate_def make_gate_target)

theorem idt_init_gates_witness:
  "\<exists>s'. idt_init 0x6000 0x100 0x200 0x300 demo_hal = Some s' \<and> gate_target (idt s' ! 14) = 0x200 \<and>
     gate_target (idt s' ! 255) = 0x300"
proof -
  have "length (idt demo_hal) = unat IDT_SIZE" by (simp add: demo_hal_def)
  from idt_init_gates [OF this, of "0x100" "0x200" "0x300" "0x6000"] show ?thesis by fastforce
qed

text \<open>
  The task segment's descriptor has the TSS's address plus its size as its limit, where the
  processor expects the offset of the last byte, 103; the two agree only when the TSS starts one
  byte below a 1 MiB boundary. Base, stack and selector are as intended.
\<close>

theorem tss_init_limit:
  assumes "length (gdt s) = unat GDT_SIZE" and "idx < GDT_SIZE"
  shows "\<exists>s'. tss_init addr idx kss kesp s = Some s' \<and> seg_base (gdt s' ! unat idx) = addr \<and>
    esp0 (TSS s') = ucast kesp \<and> ss0 (TSS s') = ucast kss \<and> cpu_tr s' = ucast idx * 8 + 3 \<and>
    (seg_limit (gdt s' ! unat idx) = 103 \<longleftrightarrow> addr mod 0x100000 = 0xFFFFF)"
proof -
  let ?d = "make_descriptor (ucast addr) (ucast (addr + 104)) 0xE9 0"
  obtain s' where s': "tss_init addr idx kss kesp s = Some s'"
    and g: "gdt s' ! unat idx = ?d" and t: "esp0 (TSS s') = ucast kesp" "ss0 (TSS s') = ucast kss"
    and tr: "cpu_tr s' = ucast (idx * 8) OR 3"
    using assms by (auto simp: tss_init_def gdt_set_descriptor_eq flush_tss_def word_less_nat_alt)
  have i: "idx = 0 \<or> idx = 1 \<or> idx = 2 \<or> idx = 3 \<or> idx = 4 \<or> idx = 5"
    using assms(2) by (auto simp: word_less_nat_alt word_unat_eq_iff)
  have "cpu_tr s' = ucast idx * 8 + 3" using i tr by (elim disjE) simp_all
  moreover have "(ucast (take_bit 20 (ucast (addr + 104) :: u64)) :: u32) = (addr + 104) mod 0x100000"
    by (rule bit_word_eqI)
      (auto simp: bit_simps take_bit_eq_mod [of 20 "addr + 104", simplified, symmetric])
  moreover have "(addr + 104) mod 0x100000 = 103 \<longleftrightarrow> addr mod 0x100000 = 0xFFFFF"
  proof -
    have "unat ((addr + 104) mod 0x100000) = (unat addr + 104) mod 0x100000"
      by (simp add: unat_mod unat_word_ariths mod_mod_cancel)
    also have "\<dots> = (unat addr mod 0x100000 + 104) mod 0x100000" by (simp add: mod_add_left_eq)
    finally have u: "unat ((addr + 104) mod 0x100000) = (unat addr mod 0x100000 + 104) mod 0x100000" .
    have "(r + 104) mod 0x100000 = 103 \<longleftrightarrow> r = 0xFFFFF" if "r < 0x100000" for r :: nat
      using that by (auto simp: mod_if)
    from this [of "unat addr mod 0x100000"] show ?thesis
      using u by (simp add: word_unat_eq_iff) (simp add: unat_mod)
  qed
  moreover have "seg_base ?d = addr"
    unfolding make_descriptor_reads by (rule bit_word_eqI) (auto simp: bit_simps)
  ultimately show ?thesis
    using s' g t by (simp add: make_descriptor_reads)
qed

theorem tss_init_limit_witness:
  "\<exists>s'. tss_init 0x109000 5 0x10 0 demo_hal = Some s' \<and> seg_limit (gdt s' ! 5) \<noteq> 103"
proof -
  have "length (gdt demo_hal) = unat GDT_SIZE" by (simp add: demo_hal_def)
  from tss_init_limit [OF this, of 5 "0x109000" "0x10" 0] show ?thesis by auto
qed

end
