(* ===== verification/Display.thy ===== *)
theory Display
  imports Machine "HOL-Library.Monad_Syntax"
begin

text \<open>
  The text display, \<^verbatim>\<open>debug/display.c\<close>: the cursor, the frame buffer at 0xB8000 and the printing
  of characters, strings and numbers. A string argument is the list of the bytes of the C object
  that the pointer designates; reading behind its end is the result \<open>None\<close>.
\<close>

unbundle bit_operations_syntax

section \<open>State\<close>

record display_state = machine +
  cursor_x :: u8
  cursor_y :: u8

type_synonym 'a display = "'a display_state_scheme"

abbreviation BG_COLOR :: u8 where "BG_COLOR \<equiv> 0x0"
abbreviation FG_COLOR :: u8 where "FG_COLOR \<equiv> 0xF"
abbreviation CURSOR_CMD :: u16 where "CURSOR_CMD \<equiv> 0x3D4"
abbreviation CURSOR_DATA :: u16 where "CURSOR_DATA \<equiv> 0x3D5"
abbreviation MAX_ROW :: u8 where "MAX_ROW \<equiv> 80"
abbreviation MAX_COL :: u8 where "MAX_COL \<equiv> 25"
abbreviation CT_WHT :: u8 where "CT_WHT \<equiv> 0x20"
abbreviation CT_BSP :: u8 where "CT_BSP \<equiv> 0x08"
abbreviation CT_TAB :: u8 where "CT_TAB \<equiv> 0x09"
abbreviation framebuffer :: u32 where "framebuffer \<equiv> 0xB8000"

definition framebuffer_read :: "u32 \<Rightarrow> 'a machine_scheme \<Rightarrow> u16" where
  "framebuffer_read i s = load16 (ram s) (framebuffer + 2 * i)"

definition framebuffer_write :: "u32 \<Rightarrow> u16 \<Rightarrow> 'a machine_scheme \<Rightarrow> 'a machine_scheme" where
  "framebuffer_write i v s = s\<lparr>ram := store16 (ram s) (framebuffer + 2 * i) v\<rparr>"

section \<open>Cursor and screen\<close>

definition get_cursor_location :: "'a display \<Rightarrow> u16" where
  "get_cursor_location s = ucast (cursor_y s) * ucast MAX_ROW + ucast (cursor_x s)"

definition get_attribute :: u8 where
  "get_attribute = push_bit 4 BG_COLOR OR (FG_COLOR AND 0x0F)"

definition display_cursor :: "'a display \<Rightarrow> 'a display" where
  "display_cursor s =
     (let cursor_loc = get_cursor_location s;
          s = outb CURSOR_CMD 0xE s;
          s = outb CURSOR_DATA (ucast (drop_bit 8 cursor_loc)) s;
          s = outb CURSOR_CMD 0xF s
      in outb CURSOR_DATA (ucast cursor_loc) s)"

definition position_cursor :: "u8 \<Rightarrow> u8 \<Rightarrow> 'a display \<Rightarrow> 'a display" where
  "position_cursor x y s = s\<lparr>cursor_x := x, cursor_y := y\<rparr>"

definition attributed :: "u8 \<Rightarrow> u16" where
  "attributed c = ucast c OR push_bit 8 (ucast get_attribute)"

definition scroll_screen :: "'a display \<Rightarrow> 'a display" where
  "scroll_screen s =
     (if cursor_y s < MAX_COL then s
      else let s = for_u32 0 (80 * 24) (\<lambda>i s. framebuffer_write i (framebuffer_read (i + 80) s) s) s;
               blank = attributed CT_WHT;
               s = for_u32 (24 * 80) (80 * 25) (\<lambda>i. framebuffer_write i blank) s
           in s\<lparr>cursor_y := MAX_COL - 1\<rparr>)"

definition clear_screen :: "'a display \<Rightarrow> 'a display" where
  "clear_screen s =
     (let blank = attributed CT_WHT;
          s = for_u32 0 (80 * 25) (\<lambda>i. framebuffer_write i blank) s;
          s = s\<lparr>cursor_x := 0, cursor_y := 0\<rparr>
      in display_cursor s)"

section \<open>Characters and strings\<close>

text \<open>
  \<open>print_char\<close> in its three steps: the action of the character (with \<open>back_space\<close> the cursor
  movement of its first branch), the wrap at the right margin, scrolling and the hardware cursor.
\<close>

definition back_space :: "'a display \<Rightarrow> 'a display" where
  "back_space s =
     (if cursor_x s \<noteq> 0 then s\<lparr>cursor_x := cursor_x s - 1\<rparr>
      else if cursor_y s \<noteq> 0 then s\<lparr>cursor_y := cursor_y s - 1, cursor_x := MAX_ROW - 1\<rparr>
      else s)"

definition type_char :: "u8 \<Rightarrow> 'a display \<Rightarrow> 'a display" where
  "type_char c s =
     (if c = CT_BSP \<and> (cursor_x s \<noteq> 0 \<or> cursor_y s \<noteq> 0) then
        let s = back_space s
        in framebuffer_write (ucast (get_cursor_location s)) (attributed CT_WHT) s
      else if c = CT_TAB then s\<lparr>cursor_x := (cursor_x s + 8) AND NOT (8 - 1)\<rparr>
      else if c = 0x0D then s\<lparr>cursor_x := 0\<rparr>
      else if c = 0x0A then s\<lparr>cursor_x := 0, cursor_y := cursor_y s + 1\<rparr>
      else if CT_WHT \<le> c then
        let s = framebuffer_write (ucast (get_cursor_location s)) (attributed c) s
        in s\<lparr>cursor_x := cursor_x s + 1\<rparr>
      else s)"

definition wrap_line :: "'a display \<Rightarrow> 'a display" where
  "wrap_line s =
     (if MAX_ROW \<le> cursor_x s then s\<lparr>cursor_x := 0, cursor_y := cursor_y s + 1\<rparr> else s)"

definition print_char :: "u8 \<Rightarrow> 'a display \<Rightarrow> 'a display" where
  "print_char c s = display_cursor (scroll_screen (wrap_line (type_char c s)))"

fun print_string :: "u8 list \<Rightarrow> 'a display \<Rightarrow> 'a display option" where
  "print_string [] s = None"
| "print_string (c # str) s = (if c = 0 then Some s else print_string str (print_char c s))"

text \<open>A string literal: its characters and the terminator.\<close>

definition cstr :: "string \<Rightarrow> u8 list" where
  "cstr cs = map of_char cs @ [0]"

section \<open>Numbers\<close>

text \<open>The loop of \<open>reverse_string\<close>, over \<^verbatim>\<open>j\<close> and \<^verbatim>\<open>i\<close>.\<close>

function reverse_loop :: "u8 \<Rightarrow> u8 \<Rightarrow> u8 list \<Rightarrow> u8 list option" where
  "reverse_loop j i str =
     (if j < i
      then if length str \<le> unat i then None
           else reverse_loop (j + 1) (i - 1) (str[unat j := str ! unat i, unat i := str ! unat j])
      else Some str)"
  by pat_completeness auto
termination
  by (relation "measure (\<lambda>(j, i, _). unat i)") (auto simp: unat_pred_less)

definition reverse_string :: "u8 \<Rightarrow> u8 list \<Rightarrow> u8 list option" where
  "reverse_string last_idx str = reverse_loop 0 last_idx str"

text \<open>A write to a local array: \<open>None\<close> behind its end.\<close>

definition put :: "u8 \<Rightarrow> u8 \<Rightarrow> u8 list \<Rightarrow> u8 list option" where
  "put i c a = (if unat i < length a then Some (a[unat i := c]) else None)"

text \<open>\<^verbatim>\<open>"0123456789ABCDEF"[n]\<close>.\<close>

definition ascii_numbers :: "u8 list" where
  "ascii_numbers = [0x30, 0x31, 0x32, 0x33, 0x34, 0x35, 0x36, 0x37, 0x38, 0x39,
     0x41, 0x42, 0x43, 0x44, 0x45, 0x46, 0]"

function hex_loop :: "u32 \<Rightarrow> u8 \<Rightarrow> u8 list \<Rightarrow> (u8 \<times> u8 list) option" where
  "hex_loop hex i hex_string =
     (if 0 < hex
      then case put i (ascii_numbers ! unat ((ucast hex :: u8) AND 0x0F)) hex_string of
             None \<Rightarrow> None
           | Some hex_string \<Rightarrow> hex_loop (drop_bit 4 hex) (i + 1) hex_string
      else Some (i, hex_string))"
  by pat_completeness auto
termination
  by (relation "measure (\<lambda>(h, _). unat h)")
    (auto simp: unat_drop_bit_less)

definition print_hex :: "u8 list \<Rightarrow> u32 \<Rightarrow> 'a display \<Rightarrow> 'a display option" where
  \<comment> \<open>the first argument is the uninitialised local \<^verbatim>\<open>hex_string[80]\<close>\<close>
  "print_hex hex_string hex s =
     (if hex = 0 then print_string [0x30, 0x78, 0x30, 0] s
      else do {
        (i, hex_string) \<leftarrow> hex_loop hex 0 hex_string;
        hex_string \<leftarrow> put i 0x78 hex_string;
        let i = i + 1;
        hex_string \<leftarrow> put i 0x30 hex_string;
        let i = i + 1;
        hex_string \<leftarrow> put i 0 hex_string;
        let i = i - 1;
        hex_string \<leftarrow> reverse_string i hex_string;
        print_string hex_string s
      })"

text \<open>
  \<open>num\<close> is an \<^verbatim>\<open>int32_t\<close>: \<open>wrap32\<close> is the value an expression of type \<^verbatim>\<open>int32_t\<close> has on this
  machine. The loop only runs on positive numbers, where C's division is \<open>div\<close>.
\<close>

definition wrap32 :: "int \<Rightarrow> int" where
  "wrap32 n = signed_take_bit 31 n"

function dec_loop :: "int \<Rightarrow> u8 \<Rightarrow> u8 list \<Rightarrow> (u8 \<times> u8 list) option" where
  "dec_loop num i dec_string =
     (if 0 < num
      then case put i (of_int (num mod 10) + 0x30) dec_string of
             None \<Rightarrow> None
           | Some dec_string \<Rightarrow> dec_loop (num div 10) (i + 1) dec_string
      else Some (i, dec_string))"
  by pat_completeness auto
termination
  by (relation "measure (\<lambda>(n, _). nat n)") auto

definition print_dec :: "u8 list \<Rightarrow> int \<Rightarrow> 'a display \<Rightarrow> 'a display option" where
  "print_dec dec_string num s =
     (if num = 0 then Some (print_char 0x30 s)
      else do {
        let (negative, num) = (if num < 0 then (True, wrap32 (- num)) else (False, num));
        (i, dec_string) \<leftarrow> dec_loop num 0 dec_string;
        (i, dec_string) \<leftarrow> (if negative
           then do { dec_string \<leftarrow> put i 0x2D dec_string; Some (i + 1, dec_string) }
           else Some (i, dec_string));
        dec_string \<leftarrow> put i 0 dec_string;
        let i = i - 1;
        dec_string \<leftarrow> reverse_string i dec_string;
        print_string dec_string s
      })"

declare reverse_loop.simps [simp del] hex_loop.simps [simp del] dec_loop.simps [simp del]

end
