(* ===== verification/Interfaces.thy ===== *)
theory Interfaces
  imports Machine
begin

text \<open>
  The contracts between the memory components, as locales: a set of block numbers with
  insertion and removal (what the allocator asks of its bitmap), an allocator of page
  frames (what the paging code asks of the physical memory manager), and step relations of
  clients that keep an invariant.
\<close>

section \<open>A set of blocks\<close>

locale block_set =
  fixes ins :: "u32 \<Rightarrow> 's \<Rightarrow> 's"
    and rem :: "u32 \<Rightarrow> 's \<Rightarrow> 's"
    and used :: "'s \<Rightarrow> u32 \<Rightarrow> bool"
  assumes used_ins: "used (ins b s) c \<longleftrightarrow> c = b \<or> used s c"
    and used_rem: "used (rem b s) c \<longleftrightarrow> c \<noteq> b \<and> used s c"
begin

lemma used_ins_range:
  "used (for_u32 0 n (\<lambda>i. ins (b + i)) s) c \<longleftrightarrow> c - b < n \<or> used s c"
proof -
  have "used (fold (\<lambda>k. ins (b + of_nat k)) [0..<j] s) c \<longleftrightarrow> unat (c - b) < j \<or> used s c"
    if "j \<le> unat n" for j
    using that
  proof (induction j)
    case (Suc j)
    have "c = b + of_nat j \<longleftrightarrow> unat (c - b) = j"
      using of_nat_below [of j n] Suc.prems by auto
    with Suc show ?case by (auto simp: used_ins less_Suc_eq)
  qed simp
  from this [of "unat n"] show ?thesis
    by (simp add: for_u32_fold word_less_nat_alt)
qed

lemma used_rem_range:
  "used (for_u32 0 n (\<lambda>i. rem (b + i)) s) c \<longleftrightarrow> \<not> c - b < n \<and> used s c"
proof -
  have "used (fold (\<lambda>k. rem (b + of_nat k)) [0..<j] s) c \<longleftrightarrow> \<not> unat (c - b) < j \<and> used s c"
    if "j \<le> unat n" for j
    using that
  proof (induction j)
    case (Suc j)
    have "c = b + of_nat j \<longleftrightarrow> unat (c - b) = j"
      using of_nat_below [of j n] Suc.prems by auto
    with Suc show ?case by (auto simp: used_rem less_Suc_eq)
  qed simp
  from this [of "unat n"] show ?thesis
    by (simp add: for_u32_fold word_less_nat_alt)
qed

lemma ins_rem_range:
  assumes "\<And>c. c - b < n \<Longrightarrow> \<not> used s c"
  shows "used (for_u32 0 n (\<lambda>i. rem (b + i)) (for_u32 0 n (\<lambda>i. ins (b + i)) s)) = used s"
  using assms by (auto simp: fun_eq_iff used_ins_range used_rem_range)

end

section \<open>An allocator of page frames\<close>

locale frame_allocator =
  fixes alloc :: "'s \<Rightarrow> u32 \<times> 's"
    and used :: "'s \<Rightarrow> u32 \<Rightarrow> bool"
    and invar :: "'s \<Rightarrow> bool"
  assumes alloc_aligned: "invar s \<Longrightarrow> alloc s = (a, s') \<Longrightarrow> a mod 4096 = 0"
    and alloc_fresh: "invar s \<Longrightarrow> alloc s = (a, s') \<Longrightarrow> a \<noteq> 0 \<Longrightarrow> \<not> used s (a div 4096)"
    and alloc_used: "invar s \<Longrightarrow> alloc s = (a, s') \<Longrightarrow> a \<noteq> 0 \<Longrightarrow>
      used s' c \<longleftrightarrow> c = a div 4096 \<or> used s c"
    and alloc_fail: "invar s \<Longrightarrow> alloc s = (0, s') \<Longrightarrow> s' = s"
    and alloc_invar: "invar s \<Longrightarrow> alloc s = (a, s') \<Longrightarrow> invar s'"
begin

lemma alloc_keeps_used:
  "invar s \<Longrightarrow> alloc s = (a, s') \<Longrightarrow> used s c \<Longrightarrow> used s' c"
  using alloc_used [of s a s' c] alloc_fail [of s s'] by (cases "a = 0") auto

lemma successive_frames_apart:
  assumes "invar s" "alloc s = (a, s')" "alloc s' = (b, s'')" "a \<noteq> 0" "b \<noteq> 0"
  shows "apart a 4096 b 4096"
proof (rule frames_apart)
  note invar' = alloc_invar [OF assms(1,2)]
  show "a mod 4096 = 0" "b mod 4096 = 0"
    using alloc_aligned assms invar' by blast+
  show "a div 4096 \<noteq> b div 4096"
    using alloc_used [OF assms(1,2,4), of "b div 4096"] alloc_fresh [OF invar' assms(3,5)] by auto
qed

end

section \<open>Steps that keep an invariant\<close>

locale invariant_steps =
  fixes step :: "'s \<Rightarrow> 's \<Rightarrow> bool"
    and invar :: "'s \<Rightarrow> bool"
  assumes step_invar: "step x y \<Longrightarrow> invar x \<Longrightarrow> invar y"
begin

lemma steps_invar: "step\<^sup>*\<^sup>* x y \<Longrightarrow> invar x \<Longrightarrow> invar y"
  by (induction rule: rtranclp_induct) (auto intro: step_invar)

end

end
