(* ===== verification/Physical_mmngr.thy ===== *)
theory Physical_mmngr
  imports Display Interfaces
begin

text \<open>
  The physical memory manager, \<^verbatim>\<open>memory/physical_mmngr.c\<close>: a bitmap of 4 KiB blocks that
  lies in memory at \<open>memory_map\<close> (bit set: block in use), a first-fit search for runs of free
  blocks, and the counters \<open>used_blocks\<close>, \<open>max_blocks\<close>.
\<close>

unbundle bit_operations_syntax

section \<open>State\<close>

record pmm_state = display_state +
  memory_size :: u32
  used_blocks :: u32
  max_blocks :: u32
  memory_map :: u32

type_synonym 'a pmm = "'a pmm_state_scheme"

abbreviation BLOCKS_PER_BYTE :: u32 where "BLOCKS_PER_BYTE \<equiv> 8"
abbreviation BLOCK_SIZE :: u32 where "BLOCK_SIZE \<equiv> 4096"

section \<open>Operations\<close>

text \<open>\<open>mmap_word s i\<close> is the array element \<^verbatim>\<open>memory_map[i]\<close>.\<close>

definition mmap_word :: "'a pmm \<Rightarrow> u32 \<Rightarrow> u32" where
  "mmap_word s i = load32 (ram s) (memory_map s + 4 * i)"

definition mmap_set :: "u32 \<Rightarrow> 'a pmm \<Rightarrow> 'a pmm" where
  "mmap_set n s = s\<lparr>ram := store32 (ram s) (memory_map s + 4 * (n div 32))
     (mmap_word s (n div 32) OR push_bit (unat (n mod 32)) 1)\<rparr>"

definition mmap_unset :: "u32 \<Rightarrow> 'a pmm \<Rightarrow> 'a pmm" where
  "mmap_unset n s = s\<lparr>ram := store32 (ram s) (memory_map s + 4 * (n div 32))
     (mmap_word s (n div 32) AND NOT (push_bit (unat (n mod 32)) 1))\<rparr>"

definition pmmngr_get_memory_size :: "'a pmm \<Rightarrow> u32" where
  "pmmngr_get_memory_size s = memory_size s"

definition pmmngr_get_block_count :: "'a pmm \<Rightarrow> u32" where
  "pmmngr_get_block_count s = max_blocks s"

definition pmmngr_get_used_block_count :: "'a pmm \<Rightarrow> u32" where
  "pmmngr_get_used_block_count s = used_blocks s"

definition pmmngr_get_free_block_count :: "'a pmm \<Rightarrow> u32" where
  "pmmngr_get_free_block_count s = max_blocks s - used_blocks s"

text \<open>
  The search: \<open>skip_words\<close> is the innermost loop, which moves the word index forward but not
  past the last word; \<open>run_free\<close> is the loop over \<^verbatim>\<open>count\<close> with its local \<^verbatim>\<open>free_blocks\<close>, true
  when it reaches the \<^verbatim>\<open>return\<close>.
\<close>

function skip_words :: "u32 \<Rightarrow> u32 \<Rightarrow> u32 \<Rightarrow> u32" where
  "skip_words mmap_size idx_count idx =
     (if 0 < idx_count \<and> idx + 1 < mmap_size
      then skip_words mmap_size (idx_count - 1) (idx + 1) else idx)"
  by pat_completeness auto
termination
  by (relation "measure (\<lambda>(_, c, _). unat c)") (auto, unat_arith)

definition probe_free :: "'a pmm \<Rightarrow> u32 \<Rightarrow> u32 \<Rightarrow> u32 \<Rightarrow> bool" where
  "probe_free s mmap_size i n =
     (mmap_word s (skip_words mmap_size (n div 32) i) AND push_bit (unat (n mod 32)) 1 = 0)"

function run_free :: "'a pmm \<Rightarrow> u32 \<Rightarrow> u32 \<Rightarrow> u32 \<Rightarrow> u32 \<Rightarrow> u32 \<Rightarrow> u32 \<Rightarrow> bool" where
  "run_free s blocks mmap_size i j count free_blocks =
     (if count < blocks
      then let free_blocks' = (if probe_free s mmap_size i (j + count) then free_blocks + 1
                               else free_blocks)
           in if free_blocks' = blocks then True
              else run_free s blocks mmap_size i j (count + 1) free_blocks'
      else False)"
  by pat_completeness auto
termination
  by (relation "measure (\<lambda>(_, b, _, _, _, c, _). unat b - unat c)") (auto, unat_arith)

declare skip_words.simps [simp del] run_free.simps [simp del]

definition mmap_first_free_blocks :: "u32 \<Rightarrow> 'a pmm \<Rightarrow> u32" where
  "mmap_first_free_blocks blocks s =
     (if blocks = 0 then - 1
      else let mmap_size = pmmngr_get_block_count s div 32
        in case first_u32 0 mmap_size (\<lambda>i.
               if mmap_word s i \<noteq> 0xFFFFFFFF then
                 first_u32 0 32 (\<lambda>j.
                   if mmap_word s i AND push_bit (unat (j mod 32)) 1 = 0 then
                     (if run_free s blocks mmap_size i j 0 0 then Some (i * 32 + j) else None)
                   else None)
               else None) of
             Some starting_block \<Rightarrow> starting_block
           | None \<Rightarrow> - 1)"

definition pmmngr_init :: "u32 \<Rightarrow> u32 \<Rightarrow> 'a pmm \<Rightarrow> 'a pmm" where
  "pmmngr_init start_address sz s =
     (let s = s\<lparr>memory_map := start_address\<rparr>;
          s = s\<lparr>memory_size := sz\<rparr>;
          s = s\<lparr>max_blocks := pmmngr_get_memory_size s div BLOCK_SIZE\<rparr>;
          s = s\<lparr>used_blocks := pmmngr_get_block_count s\<rparr>
      in s\<lparr>ram := memset (memory_map s) 0xFF (pmmngr_get_block_count s div BLOCKS_PER_BYTE) (ram s)\<rparr>)"

text \<open>The loops of the two region functions count the signed variable \<^verbatim>\<open>blocks\<close> down.\<close>

function init_region_loop :: "u32 \<Rightarrow> u32 \<Rightarrow> 'a pmm \<Rightarrow> 'a pmm" where
  "init_region_loop blocks align s =
     (if 0 <s blocks
      then let s = mmap_unset align s
           in init_region_loop (blocks - 1) (align + 1) (s\<lparr>used_blocks := used_blocks s - 1\<rparr>)
      else s)"
  by pat_completeness auto
termination
  by (relation "measure (\<lambda>(b, _, _). unat b)")
    (auto intro: unat_dec)

function deinit_region_loop :: "u32 \<Rightarrow> u32 \<Rightarrow> 'a pmm \<Rightarrow> 'a pmm" where
  "deinit_region_loop blocks align s =
     (if 0 <s blocks
      then let s = mmap_set align s
           in deinit_region_loop (blocks - 1) (align + 1) (s\<lparr>used_blocks := used_blocks s + 1\<rparr>)
      else s)"
  by pat_completeness auto
termination
  by (relation "measure (\<lambda>(b, _, _). unat b)")
    (auto intro: unat_dec)

declare init_region_loop.simps [simp del] deinit_region_loop.simps [simp del]

definition pmmngr_init_region :: "u32 \<Rightarrow> u32 \<Rightarrow> 'a pmm \<Rightarrow> 'a pmm" where
  "pmmngr_init_region base sz s =
     mmap_set 0 (init_region_loop (sz div BLOCK_SIZE) (base div BLOCK_SIZE) s)"

definition pmmngr_deinit_region :: "u32 \<Rightarrow> u32 \<Rightarrow> 'a pmm \<Rightarrow> 'a pmm" where
  "pmmngr_deinit_region base sz s =
     deinit_region_loop (sz div BLOCK_SIZE) (base div BLOCK_SIZE) s"

definition pmmngr_alloc_blocks :: "u32 \<Rightarrow> 'a pmm \<Rightarrow> u32 \<times> 'a pmm" where
  "pmmngr_alloc_blocks blocks s =
     (if pmmngr_get_free_block_count s \<le> blocks then (0, s)
      else let starting_block = mmap_first_free_blocks blocks s
        in if starting_block = - 1 then (0, s)
           else let s = for_u32 0 blocks (\<lambda>i. mmap_set (starting_block + i)) s;
                    s = s\<lparr>used_blocks := used_blocks s + blocks\<rparr>
                in (starting_block * BLOCK_SIZE, s))"

definition pmmngr_alloc_block :: "'a pmm \<Rightarrow> u32 \<times> 'a pmm" where
  "pmmngr_alloc_block s = pmmngr_alloc_blocks 1 s"

definition pmmngr_free_blocks :: "u32 \<Rightarrow> u32 \<Rightarrow> 'a pmm \<Rightarrow> 'a pmm" where
  "pmmngr_free_blocks address blocks s =
     (let starting_block = address div BLOCK_SIZE;
          s = for_u32 0 blocks (\<lambda>i. mmap_unset (starting_block + i)) s
      in s\<lparr>used_blocks := used_blocks s - blocks\<rparr>)"

definition pmmngr_free_block :: "u32 \<Rightarrow> 'a pmm \<Rightarrow> 'a pmm" where
  "pmmngr_free_block address s = pmmngr_free_blocks address 1 s"

definition pmmngr_display_blocks :: "u8 list \<Rightarrow> 'a pmm \<Rightarrow> 'a pmm option" where
  \<comment> \<open>the first argument is the uninitialised buffer of \<open>print_dec\<close>\<close>
  "pmmngr_display_blocks buf s = do {
     s \<leftarrow> print_string (cstr (CHR 0x0A # CHR 0x0A # ''pmm total allocation blocks: '')) s;
     s \<leftarrow> print_dec buf (sint (pmmngr_get_block_count s)) s;
     s \<leftarrow> print_string (cstr (CHR 0x0A # ''pmm used blocks: '')) s;
     s \<leftarrow> print_dec buf (sint (pmmngr_get_used_block_count s)) s;
     s \<leftarrow> print_string (cstr (CHR 0x0A # ''pmm free blocks: '')) s;
     print_dec buf (sint (pmmngr_get_free_block_count s)) s
   }"

section \<open>The bitmap as a set of blocks\<close>

definition block_used :: "'a pmm \<Rightarrow> u32 \<Rightarrow> bool" where
  "block_used s n = bit (mmap_word s (n div 32)) (unat (n mod 32))"

lemma div32_small: "(n::u32) div 32 < 0x10000000"
  using unat_u32_bound [of n] by (simp add: word_less_nat_alt unat_div)

lemma block_eq_iff: "(b::u32) = c \<longleftrightarrow> b div 32 = c div 32 \<and> unat (b mod 32) = unat (c mod 32)"
  by (metis word_mod_div_equality word_unat_eq_iff)

lemma mmap_word_set:
  "mmap_word (mmap_set b s) (c div 32) =
     (if c div 32 = b div 32 then mmap_word s (b div 32) OR push_bit (unat (b mod 32)) 1
      else mmap_word s (c div 32))"
  by (auto simp: mmap_set_def mmap_word_def load32_store32_apart elements_apart div32_small)

lemma mmap_word_unset:
  "mmap_word (mmap_unset b s) (c div 32) =
     (if c div 32 = b div 32 then mmap_word s (b div 32) AND NOT (push_bit (unat (b mod 32)) 1)
      else mmap_word s (c div 32))"
  by (auto simp: mmap_unset_def mmap_word_def load32_store32_apart elements_apart div32_small)

lemma unat_mod32: "unat ((n::u32) mod 32) < 32"
  by (simp add: unat_mod)

interpretation bitmap: block_set mmap_set mmap_unset block_used
proof
  fix b c :: u32 and s :: "'a pmm"
  show "block_used (mmap_set b s) c \<longleftrightarrow> c = b \<or> block_used s c"
    using unat_mod32 [of b] unat_mod32 [of c]
    by (auto simp: block_used_def mmap_word_set block_eq_iff [of c b] bit_simps)
  show "block_used (mmap_unset b s) c \<longleftrightarrow> c \<noteq> b \<and> block_used s c"
    using unat_mod32 [of b] unat_mod32 [of c]
    by (auto simp: block_used_def mmap_word_unset block_eq_iff [of c b] bit_simps)
qed

end
