(* ===== verification/Vmm_entries.thy ===== *)
theory Vmm_entries
  imports Machine
begin

text \<open>
  Page directory and page table entries, \<^verbatim>\<open>memory/vmmngr_pde.c\<close> and \<^verbatim>\<open>memory/vmmngr_pte.c\<close>:
  32-bit words with flag bits and a frame address. The functions that update an entry through a
  pointer return the new entry here.
\<close>

unbundle bit_operations_syntax

section \<open>Flags\<close>

datatype PAGE_PDE_FLAGES = PDE_PRESENT | PDE_WRITABLE | PDE_USER | PDE_PWT | PDE_PCD
  | PDE_ACCESSED | PDE_DIRTY | PDE_4MB | PDE_CPU_GLOBAL | PDE_LV4_GLOBAL | PDE_FRAME

primrec pde_flag :: "PAGE_PDE_FLAGES \<Rightarrow> u32" where
  "pde_flag PDE_PRESENT = 1"
| "pde_flag PDE_WRITABLE = 2"
| "pde_flag PDE_USER = 4"
| "pde_flag PDE_PWT = 8"
| "pde_flag PDE_PCD = 0x10"
| "pde_flag PDE_ACCESSED = 0x20"
| "pde_flag PDE_DIRTY = 0x40"
| "pde_flag PDE_4MB = 0x80"
| "pde_flag PDE_CPU_GLOBAL = 0x100"
| "pde_flag PDE_LV4_GLOBAL = 0x200"
| "pde_flag PDE_FRAME = 0x7FFFF000"

datatype PAGE_PTE_FLAGS = PTE_PRESENT | PTE_WRITABLE | PTE_USER | PTE_WRITETHOUGH
  | PTE_NOT_CACHEABLE | PTE_ACCESSED | PTE_DIRTY | PTE_PAT | PTE_CPU_GLOBAL | PTE_LV4_GLOBAL
  | PTE_FRAME

primrec pte_flag :: "PAGE_PTE_FLAGS \<Rightarrow> u32" where
  "pte_flag PTE_PRESENT = 1"
| "pte_flag PTE_WRITABLE = 2"
| "pte_flag PTE_USER = 4"
| "pte_flag PTE_WRITETHOUGH = 8"
| "pte_flag PTE_NOT_CACHEABLE = 0x10"
| "pte_flag PTE_ACCESSED = 0x20"
| "pte_flag PTE_DIRTY = 0x40"
| "pte_flag PTE_PAT = 0x80"
| "pte_flag PTE_CPU_GLOBAL = 0x100"
| "pte_flag PTE_LV4_GLOBAL = 0x200"
| "pte_flag PTE_FRAME = 0x7FFFF000"

section \<open>Directory entries\<close>

definition pd_entry_add_attrib :: "u32 \<Rightarrow> u32 \<Rightarrow> u32" where
  "pd_entry_add_attrib attrib e = e OR attrib"

definition pd_entry_del_attrib :: "u32 \<Rightarrow> u32 \<Rightarrow> u32" where
  "pd_entry_del_attrib attrib e = e AND NOT attrib"

definition pd_entry_set_frame :: "u32 \<Rightarrow> u32 \<Rightarrow> u32" where
  "pd_entry_set_frame addr e = (e AND NOT (pde_flag PDE_FRAME)) OR addr"

definition pd_entry_is_present :: "u32 \<Rightarrow> u8" where
  "pd_entry_is_present e = ucast (e AND pde_flag PDE_PRESENT)"

definition pd_entry_is_user :: "u32 \<Rightarrow> u8" where
  "pd_entry_is_user e = ucast (e AND pde_flag PDE_USER)"

definition pd_entry_is_4mb :: "u32 \<Rightarrow> u8" where
  "pd_entry_is_4mb e = ucast (e AND pde_flag PDE_4MB)"

definition pd_entry_is_writable :: "u32 \<Rightarrow> u8" where
  "pd_entry_is_writable e = ucast (e AND pde_flag PDE_WRITABLE)"

definition pd_entry_pfn :: "u32 \<Rightarrow> u32" where
  "pd_entry_pfn e = e AND pde_flag PDE_FRAME"

section \<open>Table entries\<close>

definition pt_entry_add_attrib :: "u32 \<Rightarrow> u32 \<Rightarrow> u32" where
  "pt_entry_add_attrib attrib e = e OR attrib"

definition pt_entry_del_attrib :: "u32 \<Rightarrow> u32 \<Rightarrow> u32" where
  "pt_entry_del_attrib attrib e = e AND NOT attrib"

definition pt_entry_set_frame :: "u32 \<Rightarrow> u32 \<Rightarrow> u32" where
  "pt_entry_set_frame addr e = (e AND NOT (pte_flag PTE_FRAME)) OR addr"

definition pt_entry_is_present :: "u32 \<Rightarrow> u8" where
  "pt_entry_is_present e = ucast (e AND pte_flag PTE_PRESENT)"

definition pt_entry_is_writable :: "u32 \<Rightarrow> u8" where
  "pt_entry_is_writable e = ucast (e AND pte_flag PTE_WRITABLE)"

definition pt_entry_pfn :: "u32 \<Rightarrow> u32" where
  "pt_entry_pfn e = e AND pte_flag PTE_FRAME"

section \<open>Bits of an entry\<close>

text \<open>The masks of the entry functions, bit by bit.\<close>

lemma bit_frame_mask [simp]: "bit (0x7FFFF000 :: int) n \<longleftrightarrow> 12 \<le> n \<and> n < 31"
proof -
  have "(0x7FFFF000 :: int) = push_bit 12 (mask 19)" by (simp add: mask_eq_exp_minus_1)
  then have "bit (0x7FFFF000 :: int) n \<longleftrightarrow> 12 \<le> n \<and> n - 12 < 19"
    by (simp only: bit_push_bit_iff_int bit_mask_iff) auto
  then show ?thesis by auto
qed

lemma bit_offset_mask [simp]: "bit (0xFFF :: int) n \<longleftrightarrow> n < 12"
proof -
  have "(0xFFF :: int) = mask 12" by (simp add: mask_eq_exp_minus_1)
  then show ?thesis by (simp only: bit_mask_iff) simp
qed

text \<open>Frame addresses: aligned to 4096, that is, with twelve low bits clear.\<close>

lemma aligned_bits: "(p::u32) mod 4096 = 0 \<longleftrightarrow> (\<forall>n<12. \<not> bit p n)"
proof -
  have "p mod 4096 = take_bit 12 p" by (simp add: take_bit_eq_mod)
  then show ?thesis
    by (auto simp: bit_eq_iff [of "take_bit 12 p"] bit_simps)
qed

definition entry_present :: "u32 \<Rightarrow> bool" where
  "entry_present e = bit e 0"

definition entry_frame :: "u32 \<Rightarrow> u32" where
  "entry_frame e = e AND NOT 0xFFF"

lemma bit_entry_frame: "bit (entry_frame e) n \<longleftrightarrow> 12 \<le> n \<and> bit e n"
  by (auto simp: entry_frame_def bit_simps dest: bit_imp_le_length)

lemma entry_frame_aligned [simp]: "entry_frame e mod 4096 = 0"
  by (simp add: aligned_bits bit_entry_frame)

lemma is_present_iff:
  "pd_entry_is_present e \<noteq> 0 \<longleftrightarrow> entry_present e"
  "pt_entry_is_present e \<noteq> 0 \<longleftrightarrow> entry_present e"
proof -
  have "ucast (e AND 1) \<noteq> (0 :: u8) \<longleftrightarrow> bit e 0"
    by (simp add: and_one_eq mod_2_eq_odd flip: bit_0)
  then show "pd_entry_is_present e \<noteq> 0 \<longleftrightarrow> entry_present e"
    "pt_entry_is_present e \<noteq> 0 \<longleftrightarrow> entry_present e"
    by (simp_all add: pd_entry_is_present_def pt_entry_is_present_def entry_present_def)
qed

lemma set_frame_frame:
  assumes "addr mod 4096 = 0" "\<not> bit e 31"
  shows "entry_frame (pt_entry_set_frame addr e) = addr"
    "entry_frame (pd_entry_set_frame addr e) = addr"
proof -
  have "bit (entry_frame ((e AND NOT 0x7FFFF000) OR addr)) n = bit addr n" for n
  proof (cases "n < 32")
    case True
    then have "n < 31 \<or> n = 31" by linarith
    then show ?thesis
      using assms by (auto simp: bit_entry_frame bit_simps aligned_bits not_less)
  qed (auto dest: bit_imp_le_length)
  then show "entry_frame (pt_entry_set_frame addr e) = addr"
    "entry_frame (pd_entry_set_frame addr e) = addr"
    by (auto simp: pt_entry_set_frame_def pd_entry_set_frame_def intro: bit_eqI)
qed

lemma set_frame_low:
  assumes "addr mod 4096 = 0" "n < 12"
  shows "bit (pt_entry_set_frame addr e) n = bit e n" "bit (pd_entry_set_frame addr e) n = bit e n"
  using assms by (auto simp: pt_entry_set_frame_def pd_entry_set_frame_def bit_simps aligned_bits)

end
