(* ===== verification/Virtual_mmngr.thy ===== *)
theory Virtual_mmngr
  imports Physical_mmngr Vmm_entries
begin

text \<open>
  The virtual memory manager, \<^verbatim>\<open>memory/virutal_mmngr.c\<close>: page directories and page tables in
  physical memory, mapping and unmapping of pages, and the initial address space. The tables are
  reached at their physical addresses, as the code does through the identity mapping of the first
  4 MiB once paging is on; \<open>Virtual_paged\<close> shows when that is the same. Pointers are addresses; the null
  pointer is 0.
\<close>

unbundle bit_operations_syntax

section \<open>State\<close>

record vmm_state = pmm_state +
  curdir :: u32

type_synonym 'a vmm = "'a vmm_state_scheme"

abbreviation PAGES_PER_TABLE :: u32 where "PAGES_PER_TABLE \<equiv> 1024"
abbreviation TABLES_PER_DIR :: u32 where "TABLES_PER_DIR \<equiv> 1024"
abbreviation PAGE_SIZE :: u32 where "PAGE_SIZE \<equiv> 4096"

text \<open>\<^verbatim>\<open>sizeof(ptable)\<close> and \<^verbatim>\<open>sizeof(pdirectory)\<close>: 1024 entries of four bytes.\<close>

abbreviation sizeof_ptable :: u32 where "sizeof_ptable \<equiv> 4 * PAGES_PER_TABLE"
abbreviation sizeof_pdirectory :: u32 where "sizeof_pdirectory \<equiv> 4 * TABLES_PER_DIR"

definition PAGE_DIR_INDEX :: "u32 \<Rightarrow> u32" where
  "PAGE_DIR_INDEX x = drop_bit 22 x AND 0x3FF"

definition PAGE_TABLE_INDEX :: "u32 \<Rightarrow> u32" where
  "PAGE_TABLE_INDEX x = drop_bit 12 x AND 0x3FF"

definition PAGE_GET_PHYSICAL_ADDRESS :: "u32 \<Rightarrow> 'a machine_scheme \<Rightarrow> u32" where
  "PAGE_GET_PHYSICAL_ADDRESS x s = load32 (ram s) x AND NOT 0xFFF"

section \<open>Operations\<close>

definition vmmngr_ptable_get_entry :: "u32 \<Rightarrow> u32 \<Rightarrow> u32" where
  "vmmngr_ptable_get_entry table addr = (if table \<noteq> 0 then table + 4 * PAGE_TABLE_INDEX addr else 0)"

definition vmmngr_pdirectory_get_entry :: "u32 \<Rightarrow> u32 \<Rightarrow> u32" where
  "vmmngr_pdirectory_get_entry dir addr = (if dir \<noteq> 0 then dir + 4 * PAGE_DIR_INDEX addr else 0)"

definition vmmngr_get_directory :: "'a vmm \<Rightarrow> u32" where
  "vmmngr_get_directory s = curdir s"

definition vmmngr_get_page :: "u32 \<Rightarrow> 'a vmm \<Rightarrow> u32" where
  "vmmngr_get_page addr s =
     (let dir = vmmngr_get_directory s;
          e = vmmngr_pdirectory_get_entry dir addr;
          table = PAGE_GET_PHYSICAL_ADDRESS e s
      in vmmngr_ptable_get_entry table addr)"

definition vmmngr_get_table :: "u32 \<Rightarrow> 'a vmm \<Rightarrow> u32" where
  "vmmngr_get_table addr s = vmmngr_pdirectory_get_entry (vmmngr_get_directory s) addr"

text \<open>
  \<open>vmmngr_alloc_page\<close> and \<open>vmmngr_free_page\<close> take the entry that the caller's pointer
  designates and return the updated one.
\<close>

definition vmmngr_alloc_page :: "u32 \<Rightarrow> 'a vmm \<Rightarrow> (u32 \<times> u32) \<times> 'a vmm" where
  "vmmngr_alloc_page e s =
     (let (p, s) = pmmngr_alloc_block s
      in if p = 0 then ((0, e), s)
         else ((p, pt_entry_add_attrib (pte_flag PTE_PRESENT) (pt_entry_set_frame p e)), s))"

definition vmmngr_free_page :: "u32 \<Rightarrow> 'a vmm \<Rightarrow> u32 \<times> 'a vmm" where
  "vmmngr_free_page e s =
     (let p = pt_entry_pfn e;
          s = (if p \<noteq> 0 then pmmngr_free_block p s else s)
      in (pt_entry_del_attrib (pte_flag PTE_PRESENT) e, s))"

definition vmmngr_switch_pdirectory :: "u32 \<Rightarrow> 'a vmm \<Rightarrow> u8 \<times> 'a vmm" where
  "vmmngr_switch_pdirectory dir s =
     (if dir = 0 then (0, s)
      else let s = s\<lparr>curdir := dir\<rparr> in (1, s\<lparr>cr3 := curdir s\<rparr>))"

definition vmmngr_map_page :: "u32 \<Rightarrow> u32 \<Rightarrow> 'a vmm \<Rightarrow> 'a vmm" where
  "vmmngr_map_page phys_addr virt_addr s =
     (let dir = vmmngr_get_directory s;
          e = vmmngr_pdirectory_get_entry dir virt_addr;
          r = (if pd_entry_is_present (load32 (ram s) e) = 0
               then let (table, s) = pmmngr_alloc_block s
                    in if table = 0 then Inl s
                       else let s = s\<lparr>ram := memset table 0 sizeof_ptable (ram s)\<rparr>;
                                entry = vmmngr_pdirectory_get_entry dir virt_addr;
                                s = modify32 entry (pd_entry_add_attrib (pde_flag PDE_PRESENT)) s;
                                s = modify32 entry (pd_entry_add_attrib (pde_flag PDE_WRITABLE)) s
                            in Inr (modify32 entry (pd_entry_set_frame table) s)
               else Inr s)
      in case r of
           Inl s \<Rightarrow> s
         | Inr s \<Rightarrow>
             (let table = PAGE_GET_PHYSICAL_ADDRESS e s;
                  page = vmmngr_ptable_get_entry table virt_addr;
                  s = modify32 page (pt_entry_add_attrib (pte_flag PTE_PRESENT)) s
              in modify32 page (pt_entry_set_frame phys_addr) s))"

definition vmmngr_unmap_page :: "u32 \<Rightarrow> 'a vmm \<Rightarrow> 'a vmm" where
  "vmmngr_unmap_page addr s =
     (let page = vmmngr_get_page addr s
      in if page = 0 then s
         else let s = modify32 page (pt_entry_set_frame 0) s
              in modify32 page (pt_entry_del_attrib (pte_flag PTE_PRESENT)) s)"

definition vmmngr_enable_paging :: "'a vmm \<Rightarrow> 'a vmm" where
  "vmmngr_enable_paging s = s\<lparr>cr0 := cr0 s OR 0x80000000\<rparr>"

definition vmmngr_flush_tlb_entry :: "u32 \<Rightarrow> 'a vmm \<Rightarrow> 'a vmm" where
  "vmmngr_flush_tlb_entry addr s =
     (let s = s\<lparr>int_flag := False\<rparr>;
          s = s\<lparr>invlpg_log := invlpg_log s @ [addr]\<rparr>
      in s\<lparr>int_flag := True\<rparr>)"

definition vmmngr_virt_to_phys :: "u32 \<Rightarrow> 'a vmm \<Rightarrow> u32" where
  \<comment> \<open>the result is \<^verbatim>\<open>frame + offset\<close> on a \<^verbatim>\<open>uint32_t *\<close>: the offset counts words\<close>
  "vmmngr_virt_to_phys addr s =
     (let page = vmmngr_get_page addr s;
          frame = PAGE_GET_PHYSICAL_ADDRESS page s;
          offset = addr AND 0xFFF
      in frame + 4 * offset)"

text \<open>
  The two loops of \<open>vmmngr_init\<close> fill a page table; the loop state is \<^verbatim>\<open>frame\<close>, \<^verbatim>\<open>virt\<close> and
  the memory.
\<close>

definition default_page :: "u32 \<Rightarrow> u32" where
  "default_page frame =
     (let page = 0;
          page = pt_entry_add_attrib (pte_flag PTE_PRESENT) page;
          page = pt_entry_add_attrib (pte_flag PTE_WRITABLE) page;
          page = pt_entry_add_attrib (pte_flag PTE_USER) page
      in pt_entry_set_frame frame page)"

definition kernel_page :: "u32 \<Rightarrow> u32" where
  "kernel_page frame =
     (let page = 0;
          page = pt_entry_add_attrib (pte_flag PTE_PRESENT) page;
          page = pt_entry_add_attrib (pte_flag PTE_USER) page
      in pt_entry_set_frame frame page)"

definition fill_table :: "(u32 \<Rightarrow> u32) \<Rightarrow> u32 \<Rightarrow> u32 \<Rightarrow> u32 \<Rightarrow> memory \<Rightarrow> memory" where
  "fill_table page table frame virt m =
     snd (snd (for_u32 0 PAGES_PER_TABLE
       (\<lambda>i (frame, virt, m).
          (frame + PAGE_SIZE, virt + PAGE_SIZE,
           store32 m (table + 4 * PAGE_TABLE_INDEX virt) (page frame)))
       (frame, virt, m)))"

definition init_pd_entry :: "u32 \<Rightarrow> u32 \<Rightarrow> 'a vmm \<Rightarrow> 'a vmm" where
  "init_pd_entry entry table s =
     (let s = modify32 entry (pd_entry_add_attrib (pde_flag PDE_PRESENT)) s;
          s = modify32 entry (pd_entry_add_attrib (pde_flag PDE_WRITABLE)) s;
          s = modify32 entry (pd_entry_add_attrib (pde_flag PDE_USER)) s
      in modify32 entry (pd_entry_set_frame table) s)"

definition vmmngr_init :: "'a vmm \<Rightarrow> 'a vmm" where
  "vmmngr_init s =
     (let (default_page_table, s) = pmmngr_alloc_block s
      in if default_page_table = 0 then s
         else let (kernel_page_table, s) = pmmngr_alloc_block s
      in if kernel_page_table = 0 then s
         else let s = s\<lparr>ram := memset default_page_table 0 sizeof_ptable (ram s)\<rparr>;
                  s = s\<lparr>ram := memset kernel_page_table 0 sizeof_ptable (ram s)\<rparr>;
                  s = s\<lparr>ram := fill_table default_page default_page_table 0 0 (ram s)\<rparr>;
                  s = s\<lparr>ram := fill_table kernel_page kernel_page_table 0x100000 0xC0000000 (ram s)\<rparr>;
                  (dir, s) = pmmngr_alloc_blocks 3 s
      in if dir = 0 then s
         else let s = s\<lparr>ram := memset dir 0 sizeof_pdirectory (ram s)\<rparr>;
                  default_entry = vmmngr_pdirectory_get_entry dir 0;
                  s = init_pd_entry default_entry default_page_table s;
                  kernel_entry = vmmngr_pdirectory_get_entry dir 0xC0000000;
                  s = init_pd_entry kernel_entry kernel_page_table s;
                  (_, s) = vmmngr_switch_pdirectory dir s
      in vmmngr_enable_paging s)"

end
