(* ===== verification/Timers.thy ===== *)
theory Timers
  imports Virtual_mmngr
begin

text \<open>
  The interrupt controllers and the timer, \<^verbatim>\<open>hal/pic.c\<close> and \<^verbatim>\<open>interrupts/pit.c\<close>, with the
  8259 controller as the specification of what the port writes mean.
\<close>

unbundle bit_operations_syntax

section \<open>Interrupt controllers\<close>

abbreviation PIC_1_CMD :: u16 where "PIC_1_CMD \<equiv> 0x20"
abbreviation PIC_1_DATA :: u16 where "PIC_1_DATA \<equiv> 0x21"
abbreviation PIC_2_CMD :: u16 where "PIC_2_CMD \<equiv> 0xA0"
abbreviation PIC_2_DATA :: u16 where "PIC_2_DATA \<equiv> 0xA1"
abbreviation PIC_EOI :: u8 where "PIC_EOI \<equiv> 0x20"

type_synonym 'a mach = "'a machine_scheme"

definition send_pic_eoi :: "u8 \<Rightarrow> 'a mach \<Rightarrow> 'a mach" where
  "send_pic_eoi irq s =
     (let s = (if 8 \<le> irq then outb PIC_2_CMD PIC_EOI s else s)
      in outb PIC_1_CMD PIC_EOI s)"

definition disable_pic :: "'a mach \<Rightarrow> 'a mach" where
  "disable_pic s = outb PIC_2_DATA 0xFF (outb PIC_1_DATA 0xFF s)"

definition pic_line :: "u8 \<Rightarrow> u16 \<times> u8" where
  \<comment> \<open>the port and the bit number of a line\<close>
  "pic_line irq = (if 8 \<le> irq then (PIC_2_DATA, irq - 8) else (PIC_1_DATA, irq))"

definition set_irq_mask :: "u8 \<Rightarrow> 'a mach \<Rightarrow> 'a mach" where
  "set_irq_mask irq s =
     (let (port, irq) = pic_line irq;
          (curmask, s) = inb port s;
          value = curmask OR ucast (push_bit (unat irq) (1::u32))
      in outb port value s)"

definition clear_irq_mask :: "u8 \<Rightarrow> 'a mach \<Rightarrow> 'a mach" where
  "clear_irq_mask irq s =
     (let (port, irq) = pic_line irq;
          (curmask, s) = inb port s;
          value = curmask AND ucast (NOT (push_bit (unat irq) (1::u32)))
      in outb port value s)"

definition pic_init :: "'a mach \<Rightarrow> 'a mach" where
  "pic_init s =
     (let (pic_1_mask, s) = inb PIC_1_DATA s;
          (pic_2_mask, s) = inb PIC_2_DATA s;
          s = outb PIC_1_CMD 0x11 s;
          s = outb PIC_2_CMD 0x11 s;
          s = outb PIC_1_DATA 0x20 s;
          s = outb PIC_2_DATA 0x28 s;
          s = outb PIC_1_DATA 0x04 s;
          s = outb PIC_2_DATA 0x02 s;
          s = outb PIC_1_DATA 0x01 s;
          s = outb PIC_2_DATA 0x01 s;
          s = outb PIC_1_DATA pic_1_mask s
      in outb PIC_2_DATA pic_2_mask s)"

section \<open>Timer\<close>

abbreviation PIT_CMD :: u16 where "PIT_CMD \<equiv> 0x43"
abbreviation PIT_CHANNEL_0 :: u16 where "PIT_CHANNEL_0 \<equiv> 0x40"
abbreviation PIT_OCW_MASK_MODE :: u8 where "PIT_OCW_MASK_MODE \<equiv> 0xE"
abbreviation PIT_OCW_MASK_RL :: u8 where "PIT_OCW_MASK_RL \<equiv> 0x30"
abbreviation PIT_OCW_MASK_CHANNEL :: u8 where "PIT_OCW_MASK_CHANNEL \<equiv> 0xC0"
abbreviation PIT_OCW_RL_DATA :: u8 where "PIT_OCW_RL_DATA \<equiv> 0x30"
abbreviation PIT_OCW_CHANNEL_0 :: u8 where "PIT_OCW_CHANNEL_0 \<equiv> 0"
abbreviation PIT_OCW_CHANNEL_1 :: u8 where "PIT_OCW_CHANNEL_1 \<equiv> 0x40"
abbreviation PIT_OCW_CHANNEL_2 :: u8 where "PIT_OCW_CHANNEL_2 \<equiv> 0x80"

record pit_state = vmm_state +
  pit_ticks :: u32

type_synonym 'a pit = "'a pit_state_scheme"

definition get_tick_count :: "'a pit \<Rightarrow> u32" where
  "get_tick_count s = pit_ticks s"

definition timer_irq0_handler :: "'a pit \<Rightarrow> 'a pit" where
  "timer_irq0_handler s = send_pic_eoi 0 (s\<lparr>pit_ticks := pit_ticks s + 1\<rparr>)"

text \<open>
  \<open>sleep\<close> polls the counter while the timer interrupt advances it. The interrupts that arrive
  between two polls are an argument: the list of their numbers, one per poll. \<open>None\<close>: the polls of
  the list did not suffice.
\<close>

fun sleep_until :: "u32 \<Rightarrow> nat list \<Rightarrow> 'a pit \<Rightarrow> 'a pit option" where
  "sleep_until ticks arrivals s =
     (if get_tick_count s < ticks
      then case arrivals of
             [] \<Rightarrow> None
           | n # arrivals \<Rightarrow> sleep_until ticks arrivals ((timer_irq0_handler ^^ n) s)
      else Some s)"

declare sleep_until.simps [simp del]

definition sleep :: "u32 \<Rightarrow> nat list \<Rightarrow> 'a pit \<Rightarrow> 'a pit option" where
  "sleep ms arrivals s = sleep_until (ms + get_tick_count s) arrivals s"

definition pit_set_channel_mode_frequency :: "u8 \<Rightarrow> u32 \<Rightarrow> u8 \<Rightarrow> 'a pit \<Rightarrow> 'a pit option" where
  \<comment> \<open>\<open>None\<close> is the division by zero\<close>
  "pit_set_channel_mode_frequency channel freq mode s =
     (if 2 < channel \<or> freq = 0 then Some s
      else if (ucast freq :: u16) = 0 then None
      else let divisor = (ucast ((1193181 :: u32) div ucast (ucast freq :: u16)) :: u16);
               cmd = 0;
               cmd = (cmd AND NOT PIT_OCW_MASK_CHANNEL) OR
                 (if channel = 0 then PIT_OCW_CHANNEL_0
                  else if channel = 1 then PIT_OCW_CHANNEL_1 else PIT_OCW_CHANNEL_2);
               cmd = (cmd AND NOT PIT_OCW_MASK_MODE) OR mode;
               cmd = (cmd AND NOT PIT_OCW_MASK_RL) OR PIT_OCW_RL_DATA;
               s = outb PIT_CMD cmd s;
               s = outb (PIT_CHANNEL_0 + ucast channel) (ucast (divisor AND 0xFF)) s;
               s = outb (PIT_CHANNEL_0 + ucast channel) (ucast (drop_bit 8 divisor AND 0xFF)) s
           in Some (s\<lparr>pit_ticks := 0\<rparr>))"

section \<open>The 8259 controller\<close>

text \<open>
  One controller of the pair as its data sheet describes it: a command byte with bit 4 starts the
  initialisation, which takes the vector offset, the cascade byte and, when bit 0 of the command
  was set, the mode byte from the data port; otherwise a data byte is the interrupt mask. Bit 5
  without bit 4 ends the interrupt in service.
\<close>

datatype pic_phase = Ready | Want_ICW2 bool | Want_ICW3 bool | Want_ICW4

record pic_chip =
  phase :: pic_phase
  offset :: u8
  cascade :: u8
  mask8 :: u8
  eois :: nat

fun chip_data :: "u8 \<Rightarrow> pic_chip \<Rightarrow> pic_chip" where
  "chip_data v c =
     (case phase c of
        Want_ICW2 icw4 \<Rightarrow> c\<lparr>offset := v AND 0xF8, phase := Want_ICW3 icw4\<rparr>
      | Want_ICW3 icw4 \<Rightarrow> c\<lparr>cascade := v, phase := if icw4 then Want_ICW4 else Ready\<rparr>
      | Want_ICW4 \<Rightarrow> c\<lparr>phase := Ready\<rparr>
      | Ready \<Rightarrow> c\<lparr>mask8 := v\<rparr>)"

fun chip_cmd :: "u8 \<Rightarrow> pic_chip \<Rightarrow> pic_chip" where
  "chip_cmd v c =
     (if bit v 4 then c\<lparr>phase := Want_ICW2 (bit v 0), mask8 := 0\<rparr>
      else if bit v 5 then c\<lparr>eois := eois c + 1\<rparr> else c)"

fun chip_step :: "u16 \<Rightarrow> u16 \<Rightarrow> io_event \<Rightarrow> pic_chip \<Rightarrow> pic_chip" where
  "chip_step cmd dat (Out_b p v) c =
     (if p = cmd then chip_cmd v c else if p = dat then chip_data v c else c)"
| "chip_step cmd dat _ c = c"

definition chip_run :: "u16 \<Rightarrow> u16 \<Rightarrow> io_event list \<Rightarrow> pic_chip \<Rightarrow> pic_chip" where
  "chip_run cmd dat es c = fold (chip_step cmd dat) es c"

end
