(* ===== verification/Timer_props.thy ===== *)
theory Timer_props
  imports Timers
begin

text \<open>
  Correctness of the interrupt controllers' set-up and masks, of the timer's programming and of
  waiting.
\<close>

unbundle bit_operations_syntax

section \<open>Ports\<close>

lemma outb_log: "io_log (outb p v s) = io_log s @ [Out_b p v]"
  by (simp add: outb_def)

lemma inb_log: "inb p s = (v, s') \<Longrightarrow> v = dev_b s (io_log s) p \<and> s' = s\<lparr>io_log := io_log s @ [In_b p v]\<rparr>"
  by (auto simp: inb_def Let_def)

lemma word_bytes:
  "unat (ucast (d AND 0xFF) :: u8) + 256 * unat (ucast (drop_bit 8 d AND 0xFF) :: u8) = unat (d::u16)"
proof -
  have "ucast (x AND 0xFF) = (ucast x :: u8)" for x :: u16
  proof -
    have "(0xFF :: u16) = mask 8" by (simp add: mask_eq_exp_minus_1)
    then show ?thesis by (simp only: bit_eq_iff) (auto simp: bit_simps)
  qed
  moreover have "unat (ucast x :: u8) = unat x mod 256" for x :: u16
    by (simp add: unsigned_ucast_eq take_bit_eq_mod)
  moreover have "unat (drop_bit 8 d) = unat d div 256"
    by (simp add: unat_drop_bit_eq drop_bit_eq_div [of 8 "unat d"])
  moreover have "unat d div 256 < 256" using unsigned_less [of d, where ?'a = nat] by simp
  ultimately show ?thesis by simp
qed

section \<open>Waiting\<close>

lemma handler_ticks: "pit_ticks ((timer_irq0_handler ^^ n) s) = pit_ticks s + of_nat n"
  by (induction n arbitrary: s)
    (simp_all add: timer_irq0_handler_def send_pic_eoi_def outb_def funpow_swap1)

lemma sleep_until_returns:
  assumes "unat (pit_ticks s) + sum_list arrivals < 2 ^ 32"
    "unat ticks \<le> unat (pit_ticks s) + sum_list arrivals"
  shows "\<exists>s'. sleep_until ticks arrivals s = Some s' \<and> ticks \<le> pit_ticks s'"
  using assms
proof (induction arrivals arbitrary: s)
  case Nil
  then show ?case
    by (simp add: sleep_until.simps get_tick_count_def word_le_nat_alt word_less_nat_alt)
next
  case (Cons n arrivals)
  let ?s = "(timer_irq0_handler ^^ n) s"
  have u: "unat (pit_ticks ?s) = unat (pit_ticks s) + n"
    using Cons.prems(1) by (simp add: handler_ticks unat_word_ariths unat_of_nat_small)
  show ?case
  proof (cases "get_tick_count s < ticks")
    case True
    with Cons.IH [of ?s] Cons.prems u show ?thesis
      by (simp add: sleep_until.simps [of ticks "n # arrivals"])
  next
    case False
    then show ?thesis
      by (simp add: sleep_until.simps [of ticks "n # arrivals"] get_tick_count_def)
  qed
qed

section \<open>Properties\<close>

definition demo_pit :: pit_state where
  "demo_pit = \<lparr>ram = (\<lambda>_. 0), io_log = [], dev_b = (\<lambda>_ p. if p = 0x21 then 0xB8 else 0x8E),
     dev_w = (\<lambda>_ _. 0), cr0 = 0, cr2 = 0, cr3 = 0, int_flag = False, halted = False,
     invlpg_log = [], cursor_x = 0, cursor_y = 0, memory_size = 0, used_blocks = 0, max_blocks = 0, memory_map = 0, curdir = 0, pit_ticks = 5\<rparr>"

text \<open>
  C35. After \<open>pic_init\<close> both controllers, whatever state they were in, have finished their
  initialisation with vectors from 0x20 and 0x28 on, the second one attached to line 2 of the
  first, and the masks are those that were read at the start.
\<close>

theorem pic_init_remaps:
  "\<exists>es m1 m2. io_log (pic_init s) = io_log s @ es \<and>
     m1 = dev_b s (io_log s) PIC_1_DATA \<and> m2 = dev_b s (io_log s @ [In_b PIC_1_DATA m1]) PIC_2_DATA \<and>
     chip_run PIC_1_CMD PIC_1_DATA es c =
       c\<lparr>phase := Ready, offset := 0x20, cascade := 0x04, mask8 := m1\<rparr> \<and>
     chip_run PIC_2_CMD PIC_2_DATA es c =
       c\<lparr>phase := Ready, offset := 0x28, cascade := 0x02, mask8 := m2\<rparr>"
proof -
  define m1 where "m1 = dev_b s (io_log s) PIC_1_DATA"
  define m2 where "m2 = dev_b s (io_log s @ [In_b PIC_1_DATA m1]) PIC_2_DATA"
  let ?es = "[In_b PIC_1_DATA m1, In_b PIC_2_DATA m2, Out_b PIC_1_CMD 0x11, Out_b PIC_2_CMD 0x11,
     Out_b PIC_1_DATA 0x20, Out_b PIC_2_DATA 0x28, Out_b PIC_1_DATA 0x04, Out_b PIC_2_DATA 0x02,
     Out_b PIC_1_DATA 0x01, Out_b PIC_2_DATA 0x01, Out_b PIC_1_DATA m1, Out_b PIC_2_DATA m2]"
  have "io_log (pic_init s) = io_log s @ ?es"
    by (simp add: pic_init_def inb_def outb_def m1_def m2_def Let_def)
  moreover have "chip_run PIC_1_CMD PIC_1_DATA ?es c =
       c\<lparr>phase := Ready, offset := 0x20, cascade := 0x04, mask8 := m1\<rparr>"
    "chip_run PIC_2_CMD PIC_2_DATA ?es c =
       c\<lparr>phase := Ready, offset := 0x28, cascade := 0x02, mask8 := m2\<rparr>"
    by (cases c; simp add: chip_run_def)+
  ultimately show ?thesis using m1_def m2_def by blast
qed

text \<open>
  Masking or unmasking an interrupt line reads the mask of the controller that serves the
  line and writes it back with exactly that line's bit changed.
\<close>

theorem irq_mask_one_line:
  assumes "irq < 16"
  shows "\<exists>port k m v w. port = (if irq < 8 then PIC_1_DATA else PIC_2_DATA) \<and> k = unat irq mod 8 \<and>
    m = dev_b s (io_log s) port \<and>
    io_log (set_irq_mask irq s) = io_log s @ [In_b port m, Out_b port v] \<and>
    io_log (clear_irq_mask irq s) = io_log s @ [In_b port m, Out_b port w] \<and>
    (\<forall>n < 8. bit v n = (bit m n \<or> n = k)) \<and> (\<forall>n < 8. bit w n = (bit m n \<and> n \<noteq> k))"
proof -
  let ?port = "if irq < 8 then PIC_1_DATA else PIC_2_DATA" and ?k = "unat irq mod 8"
  let ?m = "dev_b s (io_log s) ?port"
  let ?v = "?m OR ucast (push_bit ?k (1::u32))" and ?w = "?m AND ucast (NOT (push_bit ?k (1::u32)))"
  have "unat irq < 16" using assms by (simp add: word_less_nat_alt)
  then have line: "pic_line irq = (?port, of_nat ?k)"
    by (auto simp: pic_line_def word_le_nat_alt word_less_nat_alt word_unat_eq_iff mod_if
        unat_sub_if' unat_of_nat_small)
  have uk: "unat (of_nat ?k :: u8) = ?k" by (intro unat_of_nat_small) simp
  have "io_log (set_irq_mask irq s) = io_log s @ [In_b ?port ?m, Out_b ?port ?v]"
    "io_log (clear_irq_mask irq s) = io_log s @ [In_b ?port ?m, Out_b ?port ?w]"
    unfolding set_irq_mask_def clear_irq_mask_def line
    by (simp_all add: inb_def outb_def Let_def uk del: push_bit_of_1)
  moreover have "\<forall>n < 8. bit ?v n = (bit ?m n \<or> n = ?k)" "\<forall>n < 8. bit ?w n = (bit ?m n \<and> n \<noteq> ?k)"
    by (auto simp: bit_simps bit_1_iff simp del: push_bit_of_1)
  ultimately show ?thesis by blast
qed

theorem irq_mask_one_line_witness:
  "\<exists>v. io_log (clear_irq_mask 1 demo_pit) = [In_b PIC_1_DATA 0xB8, Out_b PIC_1_DATA v] \<and> \<not> bit v 1"
proof -
  from irq_mask_one_line [of 1 demo_pit] obtain w where
    "io_log (clear_irq_mask 1 demo_pit) = io_log demo_pit @ [In_b PIC_1_DATA (dev_b demo_pit (io_log demo_pit) PIC_1_DATA), Out_b PIC_1_DATA w]"
    "\<forall>n < 8. bit w n = (bit (dev_b demo_pit (io_log demo_pit) PIC_1_DATA) n \<and> n \<noteq> 1)"
    by auto
  then show ?thesis by (auto simp: demo_pit_def)
qed

text \<open>
  C34. Waiting ends once the timer has fired often enough and not before: with enough interrupts
  and no overflow of the counter \<open>sleep\<close> returns, and the counter has then advanced by at least the
  requested number of ticks.
\<close>

theorem sleep_waits:
  assumes "unat (pit_ticks s) + sum_list arrivals < 2 ^ 32" and "unat ms \<le> sum_list arrivals"
  shows "\<exists>s'. sleep ms arrivals s = Some s' \<and> unat (pit_ticks s) + unat ms \<le> unat (pit_ticks s')"
proof -
  have u: "unat (ms + pit_ticks s) = unat ms + unat (pit_ticks s)"
    using assms by (simp add: unat_word_ariths)
  with sleep_until_returns [OF assms(1), of "ms + pit_ticks s"] assms(2) show ?thesis
    by (auto simp: sleep_def get_tick_count_def word_le_nat_alt add.commute)
qed

theorem sleep_waits_witness:
  "\<exists>s'. sleep 3 [0, 2, 0, 1, 7] demo_pit = Some s' \<and> 8 \<le> unat (pit_ticks s')"
  using sleep_waits [of demo_pit "[0, 2, 0, 1, 7]" 3] by (simp add: demo_pit_def)

text \<open>
  Programming a timer channel sends the command byte of that channel and mode with both
  divisor bytes to follow, low byte first, and restarts the tick count; a frequency that is a
  nonzero multiple of 65536 passes the guard and divides by zero.
\<close>

theorem pit_programs_divisor:
  assumes "channel \<le> 2" and "freq \<noteq> 0"
  shows "(freq mod 0x10000 = 0 \<longrightarrow> pit_set_channel_mode_frequency channel freq mode s = None) \<and>
    (freq mod 0x10000 \<noteq> 0 \<longrightarrow>
      (\<exists>s' lo hi. pit_set_channel_mode_frequency channel freq mode s = Some s' \<and> pit_ticks s' = 0 \<and>
        io_log s' = io_log s @ [Out_b PIT_CMD (push_bit 6 channel OR 0x30 OR mode),
          Out_b (PIT_CHANNEL_0 + ucast channel) lo, Out_b (PIT_CHANNEL_0 + ucast channel) hi] \<and>
        unat lo + 256 * unat hi = 1193181 div unat (freq mod 0x10000) mod 0x10000))"
proof -
  have f: "unat (ucast freq :: u16) = unat (freq mod 0x10000)"
    by (simp add: unsigned_ucast_eq take_bit_eq_mod unat_mod)
  then have z: "(ucast freq :: u16) = 0 \<longleftrightarrow> freq mod 0x10000 = 0"
    by (simp add: word_unat_eq_iff)
  have ch: "\<not> 2 < channel" "channel = 0 \<or> channel = 1 \<or> channel = 2"
    using assms(1) by (auto simp: word_le_nat_alt word_less_nat_alt word_unat_eq_iff)
  have cmd: "((c AND NOT 0xE) OR mode) AND NOT 0x30 OR 0x30 = c OR 0x30 OR mode"
    if "c AND 0xE = 0" for c :: u8
    using that by (auto simp: bit_eq_iff bit_simps)
  show ?thesis
  proof (cases "freq mod 0x10000 = 0")
    case True
    with z ch(1) assms(2) show ?thesis by (simp add: pit_set_channel_mode_frequency_def)
  next
    case False
    define d :: u16 where "d = ucast ((1193181 :: u32) div ucast (ucast freq :: u16))"
    have "unat (ucast (ucast freq :: u16) :: u32) = unat (freq mod 0x10000)"
      using unsigned_less [of "ucast freq :: u16", where ?'a = nat] f
      by (simp add: unsigned_ucast_eq [of "ucast freq :: u16"] take_bit_nat_eq_self)
    then have "unat d = 1193181 div unat (freq mod 0x10000) mod 0x10000"
      by (simp add: d_def unsigned_ucast_eq take_bit_eq_mod unat_div)
    moreover have "unat (ucast (d AND 0xFF) :: u8) + 256 * unat (ucast (drop_bit 8 d AND 0xFF) :: u8) = unat d"
      by (rule word_bytes)
    moreover have "\<exists>s'. pit_set_channel_mode_frequency channel freq mode s = Some s' \<and> pit_ticks s' = 0 \<and>
        io_log s' = io_log s @ [Out_b PIT_CMD (push_bit 6 channel OR 0x30 OR mode),
          Out_b (PIT_CHANNEL_0 + ucast channel) (ucast (d AND 0xFF)),
          Out_b (PIT_CHANNEL_0 + ucast channel) (ucast (drop_bit 8 d AND 0xFF))]"
      using False z ch assms(2) cmd
      by (simp add: pit_set_channel_mode_frequency_def d_def Let_def outb_def del: push_bit_of_1) auto
    ultimately show ?thesis using False by metis
  qed
qed

theorem pit_programs_divisor_witness:
  "pit_set_channel_mode_frequency 0 0x10000 6 demo_pit = None \<and>
   (\<exists>s' lo hi. pit_set_channel_mode_frequency 0 1000 6 demo_pit = Some s' \<and>
      io_log s' = [Out_b PIT_CMD 0x36, Out_b PIT_CHANNEL_0 lo, Out_b PIT_CHANNEL_0 hi] \<and>
      unat lo + 256 * unat hi = 1193)"
proof -
  have "io_log demo_pit = []" by (simp add: demo_pit_def)
  then show ?thesis
    using pit_programs_divisor [of 0 "0x10000" 6 demo_pit] pit_programs_divisor [of 0 1000 6 demo_pit]
    by auto
qed

end
