(* ===== verification/Display_props.thy ===== *)
theory Display_props
  imports Display
begin

text \<open>
  Correctness of the display: the cursor stays on the screen, printing touches nothing but the
  frame buffer, scrolling moves every row up by one, and numbers print as their numerals.
\<close>

unbundle bit_operations_syntax

section \<open>Cells\<close>

lemma cell_address:
  assumes "unat i < 2000" "b < 2"
  shows "unat (framebuffer + 2 * i + b) = 0xB8000 + 2 * unat i + unat b"
proof -
  have "unat b < 2" using assms(2) by (simp add: word_less_nat_alt)
  then show ?thesis using assms(1) by (simp add: unat_word_ariths)
qed

lemma cell_bytes:
  assumes "unat i < 2000" "in_region (framebuffer + 2 * i) 2 x"
  obtains b :: u32 where "b < 2" "unat x = 0xB8000 + 2 * unat i + unat b"
proof -
  let ?b = "x - (framebuffer + 2 * i)"
  have b: "?b < 2" using assms(2) by (simp add: in_region_def)
  moreover have "framebuffer + 2 * i + ?b = x" by simp
  ultimately show ?thesis using that cell_address [OF assms(1) b] by metis
qed

lemma cell_read_write:
  assumes "unat i < 2000" "unat j < 2000"
  shows "framebuffer_read j (framebuffer_write i v s) = (if i = j then v else framebuffer_read j s)"
proof (cases "i = j")
  case False
  have "\<not> in_region (framebuffer + 2 * i) 2 (framebuffer + 2 * j + b)" if b: "b < 2" for b
  proof
    assume "in_region (framebuffer + 2 * i) 2 (framebuffer + 2 * j + b)"
    then obtain b' :: u32 where "b' < 2" "unat (framebuffer + 2 * j + b) = 0xB8000 + 2 * unat i + unat b'"
      using cell_bytes [OF assms(1)] by blast
    with cell_address [OF assms(2) b] b False show False
      by (auto simp: word_less_nat_alt word_unat_eq_iff less_2_cases_iff)
  qed
  from this [of 0] this [of 1] False show ?thesis
    by (simp add: framebuffer_read_def framebuffer_write_def load16_def store16_outside)
qed (simp add: framebuffer_read_def framebuffer_write_def)

definition on_screen :: "u32 \<Rightarrow> bool" where
  "on_screen x = in_region framebuffer 4000 x"

lemma cell_write_outside:
  assumes "unat i < 2000" "\<not> on_screen x"
  shows "ram (framebuffer_write i v s) x = ram s x"
proof -
  have "\<not> in_region (framebuffer + 2 * i) 2 x"
  proof
    assume "in_region (framebuffer + 2 * i) 2 x"
    then obtain b :: u32 where b: "b < 2" "unat x = 0xB8000 + 2 * unat i + unat b"
      using cell_bytes [OF assms(1)] by blast
    then have "unat b < 2" by (simp add: word_less_nat_alt)
    then have "unat (x - framebuffer) < 4000"
      using b(2) assms(1) by (subst unat_sub_if') auto
    with assms(2) show False by (simp add: on_screen_def in_region_def word_less_nat_alt)
  qed
  then show ?thesis by (simp add: framebuffer_write_def store16_outside)
qed

lemma cell_write_fields [simp]:
  "cursor_x (framebuffer_write i v s) = cursor_x s" "cursor_y (framebuffer_write i v s) = cursor_y s"
  "io_log (framebuffer_write i v s) = io_log s"
  by (simp_all add: framebuffer_write_def)

text \<open>Loops that write cells.\<close>

lemma write_loop:
  fixes s :: "'a display" and n i :: u32
  assumes n: "unat n \<le> 2000"
    and v: "\<forall>k t. k < unat n \<and>
        (\<forall>j. k \<le> unat j \<and> unat j < 2000 \<longrightarrow> framebuffer_read j t = framebuffer_read j s) \<longrightarrow>
        v (of_nat k) t = w k"
  defines "t \<equiv> for_u32 i n (\<lambda>i s. framebuffer_write i (v i s) s) s"
  shows "unat j < 2000 \<Longrightarrow> framebuffer_read j t =
      (if unat i \<le> unat j \<and> unat j < unat n then w (unat j) else framebuffer_read j s)"
    "\<not> on_screen x \<Longrightarrow> ram t x = ram s x"
    "cursor_x t = cursor_x s" "cursor_y t = cursor_y s" "io_log t = io_log s"
proof -
  let ?body = "\<lambda>k. (\<lambda>s :: 'a display. framebuffer_write (of_nat k) (v (of_nat k) s) s)"
  have inv: "(\<forall>j. unat j < 2000 \<longrightarrow> framebuffer_read j t =
        (if unat i \<le> unat j \<and> unat j < unat i + k then w (unat j) else framebuffer_read j s)) \<and>
      (\<forall>x. \<not> on_screen x \<longrightarrow> ram t x = ram s x) \<and>
      cursor_x t = cursor_x s \<and> cursor_y t = cursor_y s \<and> io_log t = io_log s"
    if "unat i + k \<le> unat n \<or> k = 0" "t = fold ?body [unat i..<unat i + k] s" for k t
    using that
  proof (induction k arbitrary: t)
    case (Suc k)
    define t' where "t' = fold ?body [unat i..<unat i + k] s"
    let ?k = "unat i + k"
    have lt: "?k < unat n" using Suc.prems(1) by simp
    have I: "(\<forall>j. unat j < 2000 \<longrightarrow> framebuffer_read j t' =
        (if unat i \<le> unat j \<and> unat j < ?k then w (unat j) else framebuffer_read j s)) \<and>
      (\<forall>x. \<not> on_screen x \<longrightarrow> ram t' x = ram s x) \<and>
      cursor_x t' = cursor_x s \<and> cursor_y t' = cursor_y s \<and> io_log t' = io_log s"
      using Suc.IH [OF _ t'_def] lt by simp
    define q :: u32 where "q = of_nat ?k"
    have q: "unat q = ?k" unfolding q_def using lt n by (intro unat_of_nat_small) simp
    have "\<forall>j. ?k \<le> unat j \<and> unat j < 2000 \<longrightarrow> framebuffer_read j t' = framebuffer_read j s"
      using I by auto
    with v lt have "v q t' = w ?k" unfolding q_def by blast
    then have t: "t = framebuffer_write q (w ?k) t'"
      using Suc.prems(2) by (simp add: t'_def q_def)
    have eq: "q = j \<longleftrightarrow> unat j = ?k" for j :: u32 using q by (auto simp: word_unat_eq_iff)
    have "unat q < 2000" using q lt n by simp
    then show ?case
      using I unfolding t by (simp add: cell_read_write cell_write_outside eq less_Suc_eq)
  qed auto
  have "t = fold ?body [unat i..<unat i + (unat n - unat i)] s"
  proof (cases "unat i \<le> unat n")
    case True then show ?thesis by (simp add: t_def for_u32_fold)
  next
    case False then show ?thesis by (simp add: t_def for_u32_fold)
  qed
  moreover have "unat i + (unat n - unat i) \<le> unat n \<or> unat n - unat i = 0" by linarith
  ultimately have "(\<forall>j. unat j < 2000 \<longrightarrow> framebuffer_read j t =
        (if unat i \<le> unat j \<and> unat j < unat i + (unat n - unat i) then w (unat j)
         else framebuffer_read j s)) \<and>
      (\<forall>x. \<not> on_screen x \<longrightarrow> ram t x = ram s x) \<and>
      cursor_x t = cursor_x s \<and> cursor_y t = cursor_y s \<and> io_log t = io_log s"
    using inv by blast
  then show "unat j < 2000 \<Longrightarrow> framebuffer_read j t =
      (if unat i \<le> unat j \<and> unat j < unat n then w (unat j) else framebuffer_read j s)"
    "\<not> on_screen x \<Longrightarrow> ram t x = ram s x"
    "cursor_x t = cursor_x s" "cursor_y t = cursor_y s" "io_log t = io_log s"
    by auto
qed

section \<open>Scrolling and clearing\<close>

lemma scroll_effect:
  fixes s :: "'a display"
  assumes "\<not> cursor_y s < MAX_COL"
  shows "unat j < 2000 \<Longrightarrow> framebuffer_read j (scroll_screen s) =
      (if unat j < 1920 then framebuffer_read (j + 80) s else attributed CT_WHT)"
    "\<not> on_screen x \<Longrightarrow> ram (scroll_screen s) x = ram s x"
    "cursor_x (scroll_screen s) = cursor_x s" "cursor_y (scroll_screen s) = 24"
    "io_log (scroll_screen s) = io_log s"
proof -
  let ?v = "\<lambda>i s :: 'a display. framebuffer_read (i + 80) s"
  define t where "t = for_u32 0 1920 (\<lambda>i s. framebuffer_write i (?v i s) s) s"
  have "unat (of_nat k + 80 :: u32) = k + 80" if "k < 1920" for k
    using that by (simp add: unat_word_ariths unat_of_nat_small)
  then have v: "\<forall>k t. k < unat (1920::u32) \<and>
      (\<forall>j. k \<le> unat j \<and> unat j < 2000 \<longrightarrow> framebuffer_read j t = framebuffer_read j s) \<longrightarrow>
      ?v (of_nat k) t = framebuffer_read (of_nat k + 80) s"
    by simp
  have n: "unat (1920::u32) \<le> 2000" by simp
  note W = write_loop [where n = 1920 and i = 0 and v = ?v and s = s and
      w = "\<lambda>k. framebuffer_read (of_nat k + 80) s", OF n v, folded t_def]
  have T: "unat j < 2000 \<Longrightarrow> framebuffer_read j t =
      (if unat j < 1920 then framebuffer_read (j + 80) s else framebuffer_read j s)"
    "\<not> on_screen x \<Longrightarrow> ram t x = ram s x"
    "cursor_x t = cursor_x s" "cursor_y t = cursor_y s" "io_log t = io_log s" for j x
    using W by simp_all
  define u where "u = for_u32 1920 2000 (\<lambda>i. framebuffer_write i (attributed CT_WHT)) t"
  note U = write_loop [where n = 2000 and i = 1920 and v = "\<lambda>_ _. attributed CT_WHT" and
      w = "\<lambda>_. attributed CT_WHT" and s = t,
      folded u_def, simplified]
  have scroll: "scroll_screen s = u\<lparr>cursor_y := 24\<rparr>"
    using assms by (simp add: scroll_screen_def t_def u_def Let_def)
  have rd: "framebuffer_read j (u\<lparr>cursor_y := 24\<rparr>) = framebuffer_read j u" for j
    by (simp add: framebuffer_read_def)
  show "unat j < 2000 \<Longrightarrow> framebuffer_read j (scroll_screen s) =
      (if unat j < 1920 then framebuffer_read (j + 80) s else attributed CT_WHT)"
    using T(1) U(1) by (simp add: scroll rd)
  show "\<not> on_screen x \<Longrightarrow> ram (scroll_screen s) x = ram s x"
    "cursor_x (scroll_screen s) = cursor_x s" "cursor_y (scroll_screen s) = 24"
    "io_log (scroll_screen s) = io_log s"
    using T(2-5) U(2-5) by (simp_all add: scroll)
qed

lemma scroll_idle: "cursor_y s < MAX_COL \<Longrightarrow> scroll_screen s = s"
  by (simp add: scroll_screen_def)

lemma display_cursor_fields [simp]:
  "cursor_x (display_cursor s) = cursor_x s" "cursor_y (display_cursor s) = cursor_y s"
  "ram (display_cursor s) = ram s" "framebuffer_read j (display_cursor s) = framebuffer_read j s"
  by (simp_all add: display_cursor_def Let_def outb_def framebuffer_read_def)

lemma cursor_fields [simp]:
  "framebuffer_read j (s\<lparr>cursor_x := x\<rparr>) = framebuffer_read j s"
  "framebuffer_read j (s\<lparr>cursor_y := y\<rparr>) = framebuffer_read j s"
  by (simp_all add: framebuffer_read_def)

section \<open>The cursor\<close>

definition disp_wf :: "'a display \<Rightarrow> bool" where
  "disp_wf s \<longleftrightarrow> cursor_x s < MAX_ROW \<and> cursor_y s < MAX_COL"

definition cursor_cell :: "'a display \<Rightarrow> nat" where
  "cursor_cell s = 80 * unat (cursor_y s) + unat (cursor_x s)"

lemma cursor_location:
  assumes "disp_wf s"
  shows "unat (get_cursor_location s) = cursor_cell s" "cursor_cell s < 2000"
    "unat (ucast (get_cursor_location s) :: u32) = cursor_cell s"
proof -
  have "unat (cursor_x s) < 80" "unat (cursor_y s) < 25"
    using assms by (simp_all add: disp_wf_def word_less_nat_alt)
  moreover have "unat (ucast x :: u16) = unat x" for x :: u8
    using unsigned_less [of x, where ?'a = nat]
    by (simp add: unsigned_ucast_eq take_bit_nat_eq_self_iff)
  ultimately show "unat (get_cursor_location s) = cursor_cell s" "cursor_cell s < 2000"
    by (simp_all add: get_cursor_location_def cursor_cell_def unat_word_ariths)
  then show "unat (ucast (get_cursor_location s) :: u32) = cursor_cell s"
    by (simp add: unsigned_ucast_eq take_bit_nat_eq_self)
qed

section \<open>Printing a character\<close>

lemma tab_stop: "x < (80::u8) \<Longrightarrow> (x + 8) AND NOT 7 \<le> 80"
proof -
  assume "x < 80"
  then have "unat (x + 8) \<le> 87" by (simp add: word_less_nat_alt unat_word_ariths)
  moreover have "(x + 8) AND NOT 7 = push_bit 3 (drop_bit 3 (x + 8))"
  proof -
    have "y AND NOT (mask 3) = push_bit 3 (drop_bit 3 y)" for y :: u8
      by (rule bit_word_eqI) (auto simp: bit_simps)
    moreover have "(7::u8) = mask 3" by (simp add: mask_eq_exp_minus_1)
    ultimately show ?thesis by metis
  qed
  moreover have "unat (push_bit 3 (drop_bit 3 y)) = 8 * (unat y div 8)" for y :: u8
  proof -
    have "push_bit 3 (drop_bit 3 y) = (y div 8) * 8"
      by (simp add: push_bit_eq_mult drop_bit_eq_div)
    moreover have "unat y < 256" using unsigned_less [of y, where ?'a = nat] by simp
    ultimately show ?thesis by (simp add: unat_word_ariths unat_div)
  qed
  ultimately show ?thesis by (simp add: word_le_nat_alt)
qed

lemma type_char_effect:
  assumes wf: "disp_wf s"
  shows "cursor_x (type_char c s) \<le> MAX_ROW" "cursor_y (type_char c s) \<le> MAX_COL"
    "cursor_y (type_char c s) = MAX_COL \<Longrightarrow> cursor_x (type_char c s) = 0"
    "\<not> on_screen x \<Longrightarrow> ram (type_char c s) x = ram s x"
    "io_log (type_char c s) = io_log s"
proof -
  have xy: "unat (cursor_x s) < 80" "unat (cursor_y s) < 25"
    using wf by (simp_all add: disp_wf_def word_less_nat_alt)
  define b where "b = back_space s"
  have b: "disp_wf b" if "cursor_x s \<noteq> 0 \<or> cursor_y s \<noteq> 0"
    using that xy by (auto simp: b_def back_space_def disp_wf_def word_less_nat_alt unat_minus_one)
  have ram_b: "ram b = ram s" "io_log b = io_log s" by (simp_all add: b_def back_space_def)
  note t = type_char_def [of c s, folded b_def, unfolded Let_def]
  have le: "cursor_x s + 1 \<le> 80" "cursor_y s + 1 \<le> 25" "cursor_x s \<le> 80" "cursor_y s < 25"
    using xy by (simp_all add: word_le_nat_alt word_less_nat_alt unat_word_ariths)
  note tab = tab_stop [of "cursor_x s"]
  have x: "cursor_x s < 80" using wf by (simp add: disp_wf_def)
  show "cursor_x (type_char c s) \<le> MAX_ROW"
    using b le tab x by (auto simp: t disp_wf_def)
  show "cursor_y (type_char c s) \<le> MAX_COL" "cursor_y (type_char c s) = MAX_COL \<Longrightarrow> cursor_x (type_char c s) = 0"
    using b le by (auto simp: t disp_wf_def split: if_splits)
  show "\<not> on_screen x \<Longrightarrow> ram (type_char c s) x = ram s x"
    using cursor_location(2,3) [OF wf] b cursor_location(2,3) [of b] ram_b
    by (auto simp: t cell_write_outside)
  show "io_log (type_char c s) = io_log s" by (simp add: t ram_b)
qed

lemma wrap_line_effect:
  assumes "cursor_x s \<le> MAX_ROW" "cursor_y s \<le> MAX_COL" "cursor_y s = MAX_COL \<Longrightarrow> cursor_x s = 0"
  shows "cursor_x (wrap_line s) < MAX_ROW" "cursor_y (wrap_line s) \<le> MAX_COL" "ram (wrap_line s) = ram s"
    "io_log (wrap_line s) = io_log s" "framebuffer_read j (wrap_line s) = framebuffer_read j s"
proof -
  have "cursor_y s + 1 \<le> 25" if "80 \<le> cursor_x s"
  proof -
    have "cursor_y s \<noteq> 25" using that assms(3) by auto
    then show ?thesis using assms(2)
      by (auto simp: word_le_nat_alt unat_word_ariths word_unat_eq_iff)
  qed
  then show "cursor_y (wrap_line s) \<le> MAX_COL" using assms(2) by (simp add: wrap_line_def)
qed (use assms in \<open>auto simp: wrap_line_def\<close>)

text \<open>The hardware cursor that a sequence of port writes leaves behind.\<close>

definition cursor_events :: "u16 \<Rightarrow> io_event list" where
  "cursor_events loc = [Out_b CURSOR_CMD 0xE, Out_b CURSOR_DATA (ucast (drop_bit 8 loc)),
     Out_b CURSOR_CMD 0xF, Out_b CURSOR_DATA (ucast loc)]"

lemma display_cursor_log: "io_log (display_cursor s) = io_log s @ cursor_events (get_cursor_location s)"
  by (simp add: display_cursor_def cursor_events_def outb_def Let_def)

lemma print_char_log: "io_log (print_char c s) = io_log s @ cursor_events (get_cursor_location (print_char c s))"
proof -
  define t where "t = wrap_line (type_char c s)"
  have "io_log t = io_log s" by (simp add: t_def wrap_line_def type_char_def back_space_def Let_def)
  then have "io_log (scroll_screen t) = io_log s" using scroll_effect(5) [of t] scroll_idle [of t] by (cases "cursor_y t < 25") auto
  then show ?thesis by (simp add: print_char_def t_def [symmetric] display_cursor_log get_cursor_location_def)
qed

lemma print_char_effect:
  assumes wf: "disp_wf s"
  shows "disp_wf (print_char c s)" "\<not> on_screen x \<Longrightarrow> ram (print_char c s) x = ram s x"
    "io_log (print_char c s) = io_log s @ cursor_events (get_cursor_location (print_char c s))"
proof -
  define t where "t = wrap_line (type_char c s)"
  note T = type_char_effect [OF wf, where c = c]
  note W = wrap_line_effect [OF T(1-3), folded t_def]
  have p: "print_char c s = display_cursor (scroll_screen t)" by (simp add: print_char_def t_def)
  have "\<not> cursor_y t < 25 \<or> scroll_screen t = t" by (auto intro: scroll_idle)
  then show "disp_wf (print_char c s)" "\<not> on_screen x \<Longrightarrow> ram (print_char c s) x = ram s x"
    using W(1-3) T(4) scroll_effect [of t] scroll_idle [of t] unfolding p disp_wf_def
    by (cases "cursor_y t < 25"; simp)+
  show "io_log (print_char c s) = io_log s @ cursor_events (get_cursor_location (print_char c s))" by (rule print_char_log)
qed

text \<open>Whatever the state holds besides machine and cursor is not touched.\<close>

lemma print_char_more [simp]: "display_state.more (print_char c s) = display_state.more s"
proof -
  have scroll: "display_state.more (scroll_screen t) = display_state.more t" for t :: "'a display"
  proof -
    let ?f = "\<lambda>i s. framebuffer_write i (framebuffer_read (i + 80) s) s"
    have "display_state.more (for_u32 0 1920 ?f t) = display_state.more t"
      by (rule for_u32_invariant) (simp_all add: framebuffer_write_def)
    moreover have "display_state.more (for_u32 1920 2000 (\<lambda>i. framebuffer_write i b) u) = display_state.more u"
      for b and u :: "'a display"
      by (rule for_u32_invariant) (simp_all add: framebuffer_write_def)
    ultimately show ?thesis by (simp add: scroll_screen_def Let_def)
  qed
  have "display_state.more (type_char c s) = display_state.more s"
    by (simp add: type_char_def back_space_def framebuffer_write_def Let_def)
  then show ?thesis
    by (simp add: print_char_def scroll wrap_line_def display_cursor_def outb_def Let_def)
qed

text \<open>What the screen shows after printing depends on what it showed before, not on the rest of the state.\<close>

definition same_picture :: "'a display \<Rightarrow> 'a display \<Rightarrow> bool" where
  "same_picture s t \<longleftrightarrow> cursor_x t = cursor_x s \<and> cursor_y t = cursor_y s \<and>
     (\<forall>x. on_screen x \<longrightarrow> ram t x = ram s x)"

lemma same_picture_write: "same_picture s t \<Longrightarrow> same_picture (framebuffer_write i v s) (framebuffer_write i v t)"
  by (simp add: same_picture_def framebuffer_write_def store16_def)

lemma same_picture_read:
  assumes "same_picture s t" "unat j < 2000"
  shows "framebuffer_read j t = framebuffer_read j s"
proof -
  have "on_screen (framebuffer + 2 * j + b)" if "b < 2" for b
  proof -
    have "framebuffer + 2 * j + b - framebuffer = 2 * j + b" by simp
    moreover have "unat (2 * j + b) < 4000" using assms(2) that by (simp add: unat_word_ariths word_less_nat_alt)
    ultimately show ?thesis by (simp add: on_screen_def in_region_def word_less_nat_alt)
  qed
  from this [of 0] this [of 1] show ?thesis using assms(1) by (simp add: same_picture_def framebuffer_read_def load16_def)
qed

lemma same_picture_scroll:
  assumes "same_picture s t"
  shows "same_picture (scroll_screen s) (scroll_screen t)"
proof (cases "cursor_y s < MAX_COL")
  case False
  let ?f = "\<lambda>i s. framebuffer_write i (framebuffer_read (i + 80) s) s" and ?g = "\<lambda>i. framebuffer_write i (attributed CT_WHT)"
  have "same_picture (for_u32 0 (80 * 24) ?f s) (for_u32 0 (80 * 24) ?f t)"
  proof (rule for_u32_rel [where R = same_picture, OF assms])
    fix k :: u32 and a b :: "'a display"
    assume k: "k < 80 * 24" and ab: "same_picture a b"
    have "unat (k + 80) < 2000" using k by (simp add: word_less_nat_alt unat_word_ariths)
    then show "same_picture (?f k a) (?f k b)" using same_picture_write [OF ab] same_picture_read [OF ab] by simp
  qed
  then have "same_picture (for_u32 (24 * 80) (80 * 25) ?g (for_u32 0 (80 * 24) ?f s)) (for_u32 (24 * 80) (80 * 25) ?g (for_u32 0 (80 * 24) ?f t))"
    by (rule for_u32_rel [where R = same_picture]) (rule same_picture_write)
  moreover have "\<not> cursor_y t < MAX_COL" using False assms by (simp add: same_picture_def)
  ultimately show ?thesis
    unfolding scroll_screen_def Let_def if_not_P [OF False] if_not_P [OF \<open>\<not> cursor_y t < MAX_COL\<close>]
    by (simp only: same_picture_def) simp
qed (use assms in \<open>simp add: scroll_idle same_picture_def\<close>)

lemma same_picture_char:
  assumes "same_picture s t"
  shows "same_picture (print_char c s) (print_char c t)"
proof -
  have loc: "get_cursor_location t = get_cursor_location s" using assms by (simp add: same_picture_def get_cursor_location_def)
  have bk: "same_picture (back_space s) (back_space t)" using assms by (simp add: same_picture_def back_space_def)
  then have "get_cursor_location (back_space t) = get_cursor_location (back_space s)"
    by (simp add: same_picture_def get_cursor_location_def)
  then have "same_picture (type_char c s) (type_char c t)"
    using assms loc bk same_picture_write [OF assms] same_picture_write [OF bk]
    unfolding type_char_def Let_def by (simp add: same_picture_def) blast
  then have "same_picture (wrap_line (type_char c s)) (wrap_line (type_char c t))" by (simp add: same_picture_def wrap_line_def)
  from same_picture_scroll [OF this] show ?thesis
    unfolding print_char_def by (simp add: same_picture_def)
qed

lemma print_string_effect:
  assumes "disp_wf s" "print_string str s = Some s'"
  shows "disp_wf s'" "\<not> on_screen x \<Longrightarrow> ram s' x = ram s x"
  using assms
  by (induction str s rule: print_string.induct) (auto simp: print_char_effect split: if_splits)

lemma print_string_terminated:
  "0 \<notin> set str \<Longrightarrow> print_string (str @ 0 # rest) s = Some (fold print_char str s)"
  by (induction str arbitrary: s) auto

lemma print_string_unterminated: "0 \<notin> set str \<Longrightarrow> print_string str s = None"
  by (induction str arbitrary: s) auto

section \<open>Properties\<close>

definition demo_display :: display_state where
  "demo_display = \<lparr>ram = (\<lambda>_. 0), io_log = [], dev_b = (\<lambda>_ _. 0), dev_w = (\<lambda>_ _. 0), cr0 = 0,
     cr2 = 0, cr3 = 0, int_flag = False, halted = False, invlpg_log = [], cursor_x = 79, cursor_y = 24\<rparr>"

lemma demo_display_wf: "disp_wf demo_display"
  by (simp add: disp_wf_def demo_display_def)

text \<open>
  C24. Printing a NUL-terminated string prints its characters in order, keeps the cursor on the
  screen, changes no memory outside the frame buffer; a string without terminator is read past
  its end.
\<close>

theorem print_string_safe:
  assumes "disp_wf s" and "0 \<notin> set str"
  shows "print_string (str @ 0 # rest) s = Some (fold print_char str s) \<and>
    disp_wf (fold print_char str s) \<and>
    same_outside framebuffer 4000 (ram s) (ram (fold print_char str s)) \<and>
    print_string str s = None"
  using print_string_terminated [OF assms(2), of rest s] print_string_effect [OF assms(1)]
    print_string_unterminated [OF assms(2)]
  by (auto simp: same_outside_def on_screen_def)

theorem print_string_safe_witness:
  "print_string [0x48, 0x69, 0] demo_display = Some (fold print_char [0x48, 0x69] demo_display) \<and>
   disp_wf (fold print_char [0x48, 0x69] demo_display)"
  using print_string_safe [OF demo_display_wf, of "[0x48, 0x69]" "[]"] by simp

lemma print_char_cells:
  assumes "disp_wf s" and "CT_WHT \<le> c" and "unat j < 2000"
  shows "framebuffer_read j (print_char c s) =
      (if cursor_cell s < 1999 then (if unat j = cursor_cell s then attributed c else framebuffer_read j s)
       else if unat j = 1919 then attributed c
       else if unat j < 1919 then framebuffer_read (j + 80) s else attributed CT_WHT) \<and>
    cursor_cell (print_char c s) = (if cursor_cell s < 1999 then cursor_cell s + 1 else 1920)"
proof -
  note L = cursor_location [OF assms(1)]
  let ?loc = "ucast (get_cursor_location s) :: u32"
  have xy: "unat (cursor_x s) < 80" "unat (cursor_y s) < 25"
    using assms(1) by (simp_all add: disp_wf_def word_less_nat_alt)
  have "c \<noteq> CT_BSP" "c \<noteq> CT_TAB" "c \<noteq> 0x0D" "c \<noteq> 0x0A" using assms(2) by auto
  then have ty: "type_char c s =
      (framebuffer_write ?loc (attributed c) s)\<lparr>cursor_x := cursor_x s + 1\<rparr>"
    using assms(2) by (simp add: type_char_def Let_def)
  define t where "t = wrap_line (type_char c s)"
  have cells: "framebuffer_read k t = (if unat k = cursor_cell s then attributed c else framebuffer_read k s)"
    if "unat k < 2000" for k
    using that L cell_read_write [of ?loc k] by (auto simp: t_def wrap_line_def ty word_unat_eq_iff)
  have cx: "unat (cursor_x s + 1) = unat (cursor_x s) + 1" "unat (cursor_y s + 1) = unat (cursor_y s) + 1"
    using xy by (simp_all add: unat_word_ariths)
  have cur: "unat (cursor_x t) = (if unat (cursor_x s) = 79 then 0 else unat (cursor_x s) + 1)"
    "unat (cursor_y t) = (if unat (cursor_x s) = 79 then unat (cursor_y s) + 1 else unat (cursor_y s))"
    using xy cx by (auto simp: t_def wrap_line_def ty word_le_nat_alt)
  have last: "cursor_cell s < 1999 \<longleftrightarrow> cursor_y t < 25"
    using cur xy by (auto simp: cursor_cell_def word_less_nat_alt)
  have p: "print_char c s = display_cursor (scroll_screen t)" by (simp add: print_char_def t_def)
  show ?thesis
  proof (cases "cursor_cell s < 1999")
    case True
    then have "cursor_cell t = cursor_cell s + 1"
      using cur xy by (auto simp: cursor_cell_def)
    with True last show ?thesis
      by (simp add: p scroll_idle cells [OF assms(3)] cursor_cell_def)
  next
    case False
    then have ny: "\<not> cursor_y t < 25" and full: "cursor_cell s = 1999" "unat (cursor_x s) = 79"
      using last L(2) xy by (auto simp: cursor_cell_def)
    note S = scroll_effect [OF ny]
    have "unat (j + 80) = unat j + 80" if "unat j < 1920" using that by (simp add: unat_word_ariths)
    then have "framebuffer_read (j + 80) t =
        (if unat j = 1919 then attributed c else framebuffer_read (j + 80) s)" if "unat j < 1920"
      using that full(1) cells [of "j + 80"] by auto
    moreover have "unat j < 1919 \<or> unat j = 1919 \<or> 1919 < unat j" by linarith
    ultimately show ?thesis
      using False S(1) [OF assms(3)] S(3,4) cur(1) full
      by (auto simp: p cursor_cell_def)
  qed
qed

text \<open>
  C25. A printable character appears at the cursor with the white-on-black attribute and the
  cursor moves one cell on, to the next line at the right margin; in the last cell of the screen
  every row moves up by one and the last row becomes blank.
\<close>

theorem print_char_printable:
  assumes "disp_wf s" and "CT_WHT \<le> c" and "unat j < 2000"
  shows "framebuffer_read j (print_char c s) =
      (if cursor_cell s < 1999 then (if unat j = cursor_cell s then attributed c else framebuffer_read j s)
       else if unat j = 1919 then attributed c
       else if unat j < 1919 then framebuffer_read (j + 80) s else attributed CT_WHT) \<and>
    cursor_cell (print_char c s) = (if cursor_cell s < 1999 then cursor_cell s + 1 else 1920)"
  by (rule print_char_cells [OF assms])

theorem print_char_printable_witness:
  "framebuffer_read 1919 (print_char 0x41 demo_display) = 0x0F41 \<and>
   cursor_cell (print_char 0x41 demo_display) = 1920"
proof -
  have "cursor_cell demo_display = 1999" by (simp add: cursor_cell_def demo_display_def)
  moreover have "attributed 0x41 = 0x0F41" by code_simp
  ultimately show ?thesis
    using print_char_printable [OF demo_display_wf, of "0x41" 1919] by simp
qed

end
