(* ===== verification/Display_numbers.thy ===== *)
theory Display_numbers
  imports Display_props
begin

text \<open>
  Printing of numbers: the buffers of \<open>print_hex\<close> and \<open>print_dec\<close> are never overrun, and what is
  printed is the numeral of the argument.
\<close>

unbundle bit_operations_syntax

section \<open>Reversing a buffer\<close>

lemma reverse_loop_nth:
  assumes "unat i < length xs" "unat j \<le> unat i + 1"
  obtains ys where "reverse_loop j i xs = Some ys" "length ys = length xs"
    "\<And>k. k < length xs \<Longrightarrow>
      ys ! k = (if unat j \<le> k \<and> k \<le> unat i then xs ! (unat i + unat j - k) else xs ! k)"
  using assms
proof (induction j i xs arbitrary: thesis rule: reverse_loop.induct)
  case (1 j i xs)
  show ?case
  proof (cases "j < i")
    case True
    let ?xs = "xs[unat j := xs ! unat i, unat i := xs ! unat j]"
    have ij: "unat (j + 1) = unat j + 1" "unat (i - 1) = unat i - 1" "unat j < unat i"
      using True by (auto simp: unat_Suc_less word_less_nat_alt unat_minus_one word_unat_eq_iff)
    have nl: "\<not> length xs \<le> unat i" "unat (i - 1) < length ?xs" "unat (j + 1) \<le> unat (i - 1) + 1"
      using 1(3) ij by simp_all
    obtain ys where ys: "reverse_loop (j + 1) (i - 1) ?xs = Some ys" "length ys = length ?xs"
      and nth: "\<And>k. k < length ?xs \<Longrightarrow> ys ! k =
        (if unat (j + 1) \<le> k \<and> k \<le> unat (i - 1) then ?xs ! (unat (i - 1) + unat (j + 1) - k) else ?xs ! k)"
      using 1(1) [OF True nl(1) _ nl(2,3)] by blast
    show ?thesis
    proof (rule 1(2))
      show "reverse_loop j i xs = Some ys"
        using True nl(1) ys(1) by (simp add: reverse_loop.simps [of j i xs])
      show "length ys = length xs" using ys(2) by simp
      fix k assume k: "k < length xs"
      show "ys ! k = (if unat j \<le> k \<and> k \<le> unat i then xs ! (unat i + unat j - k) else xs ! k)"
      proof (cases "unat j + 1 \<le> k \<and> k \<le> unat i - 1")
        case inner: True
        then have "unat i - 1 + (unat j + 1) - k = unat i + unat j - k"
          "unat i + unat j - k \<noteq> unat i" "unat i + unat j - k \<noteq> unat j" using ij(3) by auto
        with inner k nth [of k] ij show ?thesis by auto
      next
        case False
        with k nth [of k] ij 1(3) show ?thesis by (auto simp: nth_list_update)
      qed
    qed
  next
    case False
    then have "unat i \<le> unat j" by (simp add: word_less_nat_alt)
    have "xs ! k = (if unat j \<le> k \<and> k \<le> unat i then xs ! (unat i + unat j - k) else xs ! k)" for k
    proof (cases "unat j \<le> k \<and> k \<le> unat i")
      case True
      with \<open>unat i \<le> unat j\<close> have "unat i + unat j - k = k" by linarith
      then show ?thesis by simp
    qed auto
    with False 1(2) [of xs] show ?thesis by (simp add: reverse_loop.simps [of j i xs])
  qed
qed

lemma reverse_string_prefix:
  assumes "length ds = Suc (unat i)"
  shows "reverse_string i (ds @ rest) = Some (rev ds @ rest)"
proof -
  obtain ys where ys: "reverse_loop 0 i (ds @ rest) = Some ys" "length ys = length (ds @ rest)"
    and nth: "\<And>k. k < length (ds @ rest) \<Longrightarrow>
      ys ! k = (if unat (0::u8) \<le> k \<and> k \<le> unat i then (ds @ rest) ! (unat i + unat (0::u8) - k)
                else (ds @ rest) ! k)"
    using reverse_loop_nth [of i "ds @ rest" 0] assms by auto
  have "ys = rev ds @ rest"
  proof (rule nth_equalityI)
    fix k assume "k < length ys"
    then show "ys ! k = (rev ds @ rest) ! k"
      using nth [of k] ys(2) assms by (auto simp: nth_append rev_nth)
  qed (simp add: ys(2))
  then show ?thesis by (simp add: reverse_string_def ys(1))
qed

section \<open>Digits\<close>

text \<open>The digits of a number, the lowest first, and the value that a numeral denotes.\<close>

function lsb_digits :: "nat \<Rightarrow> nat \<Rightarrow> nat list" where
  "lsb_digits b n = (if n = 0 \<or> b < 2 then [] else n mod b # lsb_digits b (n div b))"
  by pat_completeness auto
termination
  by (relation "measure snd") auto

declare lsb_digits.simps [simp del]

definition digit_value :: "u8 \<Rightarrow> nat" where
  "digit_value d = (if d \<le> 0x39 then unat d - 0x30 else unat d - 0x37)"

definition numeral_value :: "nat \<Rightarrow> u8 list \<Rightarrow> nat" where
  "numeral_value b ds = foldl (\<lambda>v d. b * v + digit_value d) 0 ds"

definition numeral_text :: "nat \<Rightarrow> nat \<Rightarrow> u8 list" where
  "numeral_text b n = (if n = 0 then [0x30] else rev (map ((!) ascii_numbers) (lsb_digits b n)))"

lemma ascii_digit:
  assumes "d < 16"
  shows "digit_value (ascii_numbers ! d) = d" "ascii_numbers ! d \<noteq> 0"
    "ascii_numbers ! d = 0x30 \<longleftrightarrow> d = 0" "d < 10 \<Longrightarrow> ascii_numbers ! d = of_nat d + 0x30"
proof -
  have "d = 0 \<or> d = 1 \<or> d = 2 \<or> d = 3 \<or> d = 4 \<or> d = 5 \<or> d = 6 \<or> d = 7 \<or> d = 8 \<or> d = 9 \<or>
      d = 10 \<or> d = 11 \<or> d = 12 \<or> d = 13 \<or> d = 14 \<or> d = 15"
    using assms by presburger
  then show "digit_value (ascii_numbers ! d) = d" "ascii_numbers ! d \<noteq> 0"
    "ascii_numbers ! d = 0x30 \<longleftrightarrow> d = 0" "d < 10 \<Longrightarrow> ascii_numbers ! d = of_nat d + 0x30"
    by (elim disjE; simp add: ascii_numbers_def digit_value_def)+
qed

lemma lsb_digits_bounds:
  assumes "2 \<le> b"
  shows "d \<in> set (lsb_digits b n) \<Longrightarrow> d < b" "n < b ^ m \<Longrightarrow> length (lsb_digits b n) \<le> m"
    "foldr (\<lambda>d v. d + b * v) (lsb_digits b n) 0 = n"
    "n \<noteq> 0 \<Longrightarrow> lsb_digits b n \<noteq> [] \<and> last (lsb_digits b n) \<noteq> 0"
proof -
  show "d \<in> set (lsb_digits b n) \<Longrightarrow> d < b"
    using assms
  proof (induction b n rule: lsb_digits.induct)
    case (1 b n)
    then show ?case by (auto simp: lsb_digits.simps [of b n] split: if_splits)
  qed
  show "foldr (\<lambda>d v. d + b * v) (lsb_digits b n) 0 = n"
    using assms
  proof (induction b n rule: lsb_digits.induct)
    case (1 b n)
    then show ?case by (simp add: lsb_digits.simps [of b n])
  qed
  show "n < b ^ m \<Longrightarrow> length (lsb_digits b n) \<le> m"
    using assms
  proof (induction m arbitrary: n)
    case (Suc m)
    then have "n div b < b ^ m" by (simp add: less_mult_imp_div_less mult.commute)
    with Suc show ?case by (auto simp: lsb_digits.simps [of b n])
  qed (simp add: lsb_digits.simps)
  show "n \<noteq> 0 \<Longrightarrow> lsb_digits b n \<noteq> [] \<and> last (lsb_digits b n) \<noteq> 0"
    using assms
  proof (induction b n rule: lsb_digits.induct)
    case (1 b n)
    show ?case
    proof (cases "n div b = 0")
      case True
      then have "n < b" using 1(3) by (simp add: div_eq_0_iff)
      with True 1(2,3) show ?thesis by (simp add: lsb_digits.simps [of b n] lsb_digits.simps [of b 0])
    next
      case False
      with 1 show ?thesis by (simp add: lsb_digits.simps [of b n])
    qed
  qed
qed

lemma numeral_text_facts:
  assumes "2 \<le> b" "b \<le> 16"
  shows "numeral_value b (numeral_text b n) = n" "0 \<notin> set (numeral_text b n)"
    "hd (numeral_text b n) = 0x30 \<Longrightarrow> n = 0" "numeral_text b n \<noteq> []"
proof -
  note L = lsb_digits_bounds [OF assms(1)]
  have small: "d < 16" if "d \<in> set (lsb_digits b n)" for d using L(1) [OF that] assms(2) by simp
  have "foldl (\<lambda>v d. b * v + digit_value d) 0 (rev (map ((!) ascii_numbers) (lsb_digits b n))) =
      foldr (\<lambda>d v. d + b * v) (lsb_digits b n) 0"
    unfolding foldl_conv_foldr rev_rev_ident foldr_map
    by (rule foldr_cong) (auto simp: ascii_digit small)
  then show "numeral_value b (numeral_text b n) = n"
    using L(3) [of n] by (simp add: numeral_value_def numeral_text_def digit_value_def)
  have "ascii_numbers ! d \<noteq> 0" if "d \<in> set (lsb_digits b n)" for d
    using ascii_digit(2) [OF small [OF that]] .
  then show "0 \<notin> set (numeral_text b n)"
    unfolding numeral_text_def by (auto simp: image_iff)
  show "numeral_text b n \<noteq> []" using L(4) by (simp add: numeral_text_def)
  show "n = 0" if "hd (numeral_text b n) = 0x30"
  proof (rule ccontr)
    assume n: "n \<noteq> 0"
    then have ne: "lsb_digits b n \<noteq> []" "last (lsb_digits b n) \<noteq> 0" using L(4) by simp_all
    with n have "hd (numeral_text b n) = ascii_numbers ! last (lsb_digits b n)"
      by (simp add: numeral_text_def hd_rev last_map)
    with that ne ascii_digit(3) [OF small [of "last (lsb_digits b n)"]] show False by simp
  qed
qed

section \<open>The conversion loops\<close>

lemma put_append:
  "length xs = unat i \<Longrightarrow> put i c (xs @ y # rest) = Some (xs @ c # rest)"
  by (simp add: put_def list_update_append)

lemma hex_nibble: "unat ((ucast hex :: u8) AND 0x0F) = unat (hex::u32) mod 16"
proof -
  have "(0x0F :: u8) = mask 4" by (simp add: mask_eq_exp_minus_1)
  then have "(ucast hex :: u8) AND 0x0F = take_bit 4 (ucast hex)" by (simp only: take_bit_eq_mask)
  then have "unat ((ucast hex :: u8) AND 0x0F) = take_bit 4 (unat hex)"
    by (simp add: unsigned_take_bit_eq unsigned_ucast_eq take_bit_take_bit)
  then show ?thesis by (simp add: take_bit_eq_mod)
qed

text \<open>
  Either loop writes the digits, lowest first, behind the \<open>unat i\<close> bytes that are already there.
\<close>

lemma hex_loop_digits:
  assumes "length xs = unat i" "length (lsb_digits 16 (unat hex)) \<le> length rest"
    "unat i + length (lsb_digits 16 (unat hex)) < 256"
  shows "hex_loop hex i (xs @ rest) =
    Some (of_nat (unat i + length (lsb_digits 16 (unat hex))),
      xs @ map ((!) ascii_numbers) (lsb_digits 16 (unat hex)) @ drop (length (lsb_digits 16 (unat hex))) rest)"
  using assms
proof (induction "unat hex" arbitrary: hex i xs rest rule: less_induct)
  case less
  show ?case
  proof (cases "hex = 0")
    case True
    then show ?thesis by (simp add: hex_loop.simps lsb_digits.simps)
  next
    case False
    then have pos: "0 < hex" by (simp add: word_gt_0)
    have "unat (drop_bit 4 hex) = unat hex div 16"
      by (simp add: unat_drop_bit_eq drop_bit_eq_div [of 4 "unat hex"])
    then have ds: "lsb_digits 16 (unat hex) = unat hex mod 16 # lsb_digits 16 (unat (drop_bit 4 hex))"
      using False by (simp add: lsb_digits.simps [of 16 "unat hex"] unat_eq_0)
    obtain r rest' where rest: "rest = r # rest'" using less(3) ds by (cases rest) auto
    let ?c = "ascii_numbers ! (unat hex mod 16)"
    have i: "unat (i + 1) = unat i + 1" using less(4) ds by (simp add: unat_word_ariths)
    have "hex_loop hex i (xs @ rest) = hex_loop (drop_bit 4 hex) (i + 1) ((xs @ [?c]) @ rest')"
      using pos put_append [OF less(2)] by (simp add: hex_loop.simps [of hex] hex_nibble rest)
    also have "\<dots> = Some (of_nat (unat (i + 1) + length (lsb_digits 16 (unat (drop_bit 4 hex)))),
      (xs @ [?c]) @ map ((!) ascii_numbers) (lsb_digits 16 (unat (drop_bit 4 hex))) @
        drop (length (lsb_digits 16 (unat (drop_bit 4 hex)))) rest')"
      using less(2-4) ds rest i unat_drop_bit_less [OF pos, of 4] by (intro less(1)) auto
    finally show ?thesis by (simp add: ds rest i)
  qed
qed

lemma dec_loop_digits:
  assumes "0 \<le> num" "length xs = unat i" "length (lsb_digits 10 (nat num)) \<le> length rest"
    "unat i + length (lsb_digits 10 (nat num)) < 256"
  shows "dec_loop num i (xs @ rest) =
    Some (of_nat (unat i + length (lsb_digits 10 (nat num))),
      xs @ map ((!) ascii_numbers) (lsb_digits 10 (nat num)) @ drop (length (lsb_digits 10 (nat num))) rest)"
  using assms
proof (induction "nat num" arbitrary: num i xs rest rule: less_induct)
  case less
  show ?case
  proof (cases "num = 0")
    case True
    then show ?thesis by (simp add: dec_loop.simps lsb_digits.simps)
  next
    case False
    then have pos: "0 < num" using less(2) by simp
    have ds: "lsb_digits 10 (nat num) = nat num mod 10 # lsb_digits 10 (nat (num div 10))"
      using pos by (simp add: lsb_digits.simps [of 10 "nat num"] nat_div_distrib)
    obtain r rest' where rest: "rest = r # rest'" using less(4) ds by (cases rest) auto
    let ?c = "ascii_numbers ! (nat num mod 10)"
    have c: "of_int (num mod 10) + 0x30 = ?c"
    proof -
      have "nat num mod 10 < 10" by simp
      then have "?c = of_nat (nat num mod 10) + 0x30" by (intro ascii_digit(4)) simp_all
      moreover have "int (nat num mod 10) = num mod 10" using pos by (simp add: zmod_int)
      then have "of_nat (nat num mod 10) = (of_int (num mod 10) :: u8)" by (metis of_int_of_nat_eq)
      ultimately show ?thesis by simp
    qed
    have i: "unat (i + 1) = unat i + 1" using less(5) ds by (simp add: unat_word_ariths)
    have "dec_loop num i (xs @ rest) = dec_loop (num div 10) (i + 1) ((xs @ [?c]) @ rest')"
      using pos put_append [OF less(3)] by (simp add: dec_loop.simps [of num] c rest)
    also have "\<dots> = Some (of_nat (unat (i + 1) + length (lsb_digits 10 (nat (num div 10)))),
      (xs @ [?c]) @ map ((!) ascii_numbers) (lsb_digits 10 (nat (num div 10))) @
        drop (length (lsb_digits 10 (nat (num div 10)))) rest')"
      using less(2-5) ds rest i pos by (intro less(1)) auto
    finally show ?thesis by (simp add: ds rest i)
  qed
qed

lemma three_more: "3 \<le> length xs \<Longrightarrow> \<exists>a b c r. xs = a # b # c # r"
  by (cases xs; cases "tl xs"; cases "tl (tl xs)") auto

lemma finish_buffer:
  assumes "length ds = unat i" "ds \<noteq> []" "0 \<notin> set ds"
  shows "put i 0 (ds @ y # rest) = Some (ds @ 0 # rest)"
    "reverse_string (i - 1) (ds @ 0 # rest) = Some (rev ds @ 0 # rest)"
    "print_string (rev ds @ 0 # rest) s = Some (fold print_char (rev ds) s)"
proof -
  have "0 < unat i" using assms(1,2) by (metis length_greater_0_conv)
  then have "length ds = Suc (unat (i - 1))"
    using assms(1) unat_minus_one [of i] unat_0 [where ?'a = 8] by fastforce
  then show "reverse_string (i - 1) (ds @ 0 # rest) = Some (rev ds @ 0 # rest)"
    by (rule reverse_string_prefix)
  show "put i 0 (ds @ y # rest) = Some (ds @ 0 # rest)" using assms(1) by (rule put_append)
  show "print_string (rev ds @ 0 # rest) s = Some (fold print_char (rev ds) s)"
    using assms(3) by (intro print_string_terminated) simp
qed

lemma print_hex_text:
  assumes "length buf = 80"
  shows "print_hex buf hex s = Some (fold print_char ([0x30, 0x78] @ numeral_text 16 (unat hex)) s)"
proof (cases "hex = 0")
  case True
  then show ?thesis by (simp add: print_hex_def numeral_text_def)
next
  case False
  define ds where "ds = map ((!) ascii_numbers) (lsb_digits 16 (unat hex))"
  have "unat hex < 16 ^ 8" using unat_u32_bound [of hex] by simp
  then have n: "length ds \<le> 8" using lsb_digits_bounds(2) [of 16 "unat hex" 8] by (simp add: ds_def)
  have tx: "numeral_text 16 (unat hex) = rev ds"
    using False by (simp add: numeral_text_def ds_def unat_eq_0)
  have nz: "0 \<notin> set ds" using numeral_text_facts(2) [of 16 "unat hex"] by (simp add: tx)
  have "3 \<le> length (drop (length ds) buf)" using n assms by simp
  then obtain y1 y2 y3 rest where rest: "drop (length ds) buf = y1 # y2 # y3 # rest"
    using three_more by blast
  have loop: "hex_loop hex 0 buf = Some (of_nat (length ds), ds @ y1 # y2 # y3 # rest)"
    using hex_loop_digits [of "[]" 0 hex buf] n assms rest by (simp add: ds_def)
  have u: "unat (of_nat (length ds + k) :: u8) = length ds + k" if "k \<le> 2" for k
    using n that by (intro unat_of_nat_small) simp
  let ?i = "of_nat (length ds) :: u8"
  have p1: "put ?i 0x78 (ds @ y1 # y2 # y3 # rest) = Some ((ds @ [0x78]) @ y2 # y3 # rest)"
    using put_append [of ds ?i] u [of 0] by simp
  have p2: "put (?i + 1) 0x30 ((ds @ [0x78]) @ y2 # y3 # rest) = Some ((ds @ [0x78, 0x30]) @ y3 # rest)"
    using put_append [of "ds @ [0x78]" "?i + 1" "0x30" y2 "y3 # rest"] u [of 1]
    by (simp add: add.commute)
  have len: "length (ds @ [0x78, 0x30]) = unat (?i + 1 + 1)"
    using u [of 2] by (simp add: add.commute add.left_commute)
  show ?thesis
    using False loop p1 p2 finish_buffer [OF len] nz
    by (simp add: print_hex_def tx add.commute [of _ 1])
qed

lemma dec_loop_text:
  assumes "length buf = 80" "0 < num" "num < 2 ^ 31"
  obtains ds y1 y2 rest where "dec_loop num 0 buf = Some (of_nat (length ds), ds @ y1 # y2 # rest)"
    "numeral_text 10 (nat num) = rev ds" "length ds \<le> 10" "ds \<noteq> []" "0 \<notin> set ds"
proof -
  define ds where "ds = map ((!) ascii_numbers) (lsb_digits 10 (nat num))"
  have "nat num < 10 ^ 10" using assms(3) by simp
  then have n: "length ds \<le> 10" using lsb_digits_bounds(2) [of 10 "nat num" 10] by (simp add: ds_def)
  then have "3 \<le> length (drop (length ds) buf)" using assms(1) by simp
  then obtain y1 y2 y3 rest where rest: "drop (length ds) buf = y1 # y2 # y3 # rest"
    using three_more by blast
  have "dec_loop num 0 buf = Some (of_nat (length ds), ds @ y1 # y2 # y3 # rest)"
    using dec_loop_digits [of num "[]" 0 buf] n assms rest by (simp add: ds_def)
  moreover have tx: "numeral_text 10 (nat num) = rev ds"
    using assms(2) by (simp add: numeral_text_def ds_def)
  ultimately show ?thesis
    using that n numeral_text_facts(2,4) [of 10 "nat num"] by auto
qed

lemma print_dec_text:
  assumes buf: "length buf = 80" and num: "- (2 ^ 31) < num" "num < 2 ^ 31"
  shows "print_dec buf num s =
    Some (fold print_char ((if num < 0 then [0x2D] else []) @ numeral_text 10 (nat \<bar>num\<bar>)) s)"
proof -
  consider "num = 0" | "0 < num" | "num < 0" by linarith
  then show ?thesis
  proof cases
    case 1
    then show ?thesis by (simp add: print_dec_def numeral_text_def)
  next
    case 2
    obtain ds y1 y2 rest where D: "dec_loop num 0 buf = Some (of_nat (length ds), ds @ y1 # y2 # rest)"
      "numeral_text 10 (nat num) = rev ds" "length ds \<le> 10" "ds \<noteq> []" "0 \<notin> set ds"
      using dec_loop_text [OF buf 2 num(2)] .
    have len: "length ds = unat (of_nat (length ds) :: u8)"
      using D(3) by (simp add: unat_of_nat_small)
    show ?thesis
      using 2 D(1,2) finish_buffer [OF len D(4,5)] by (simp add: print_dec_def)
  next
    case 3
    have w: "wrap32 (- num) = - num"
      using num by (simp add: wrap32_def signed_take_bit_int_eq_self)
    obtain ds y1 y2 rest where D: "dec_loop (- num) 0 buf = Some (of_nat (length ds), ds @ y1 # y2 # rest)"
      "numeral_text 10 (nat (- num)) = rev ds" "length ds \<le> 10" "ds \<noteq> []" "0 \<notin> set ds"
    proof -
      have "0 < - num" "- num < 2 ^ 31" using 3 num(1) by simp_all
      from dec_loop_text [OF buf this] show ?thesis using that by blast
    qed
    let ?i = "of_nat (length ds) :: u8"
    have u: "unat ?i = length ds" "unat (?i + 1) = length ds + 1"
      using D(3) unat_of_nat_small [of "length ds + 1", where ?'a = 8]
      by (simp_all add: unat_of_nat_small add.commute)
    have "put ?i 0x2D (ds @ y1 # y2 # rest) = Some ((ds @ [0x2D]) @ y2 # rest)"
      using put_append [of ds ?i "0x2D" y1] u(1) by simp
    moreover have "length (ds @ [0x2D]) = unat (?i + 1)" using u(2) by simp
    note F = finish_buffer [OF this]
    ultimately show ?thesis
      using 3 w D F by (simp add: print_dec_def)
  qed
qed

lemma print_dec_min:
  assumes "length buf = 80"
  shows "print_dec buf (- (2 ^ 31)) s = Some (print_char 0x2D s)"
proof -
  have "3 \<le> length buf" using assms by simp
  then obtain y1 y2 y3 rest where buf: "buf = y1 # y2 # y3 # rest" using three_more by blast
  have "wrap32 (2 ^ 31) = - (2 ^ 31)" by (simp add: wrap32_def signed_take_bit_eq_if_negative bit_simps)
  moreover have "reverse_string 0 (0x2D # 0 # y3 # rest) = Some (0x2D # 0 # y3 # rest)"
    using reverse_string_prefix [of "[0x2D]" 0] by simp
  ultimately show ?thesis
    by (simp add: print_dec_def dec_loop.simps put_def buf)
qed

section \<open>Properties\<close>

text \<open>
  C32. \<open>print_hex\<close> prints \<open>0x\<close> and a hexadecimal numeral without leading zeros whose value is the
  argument, for every argument, and stays inside its buffer.
\<close>

theorem print_hex_numeral:
  assumes "length buf = 80"
  shows "\<exists>ds. print_hex buf hex s = Some (fold print_char (0x30 # 0x78 # ds) s) \<and>
    numeral_value 16 ds = unat hex \<and> ds \<noteq> [] \<and> (hd ds = 0x30 \<longrightarrow> hex = 0)"
  using print_hex_text [OF assms, of hex s] numeral_text_facts [of 16 "unat hex"]
  by (intro exI [of _ "numeral_text 16 (unat hex)"]) (auto simp: unat_eq_0)

theorem print_hex_numeral_witness:
  "\<exists>ds. print_hex (replicate 80 7) 0xBEEF demo_display = Some (fold print_char (0x30 # 0x78 # ds) demo_display) \<and>
     numeral_value 16 ds = 48879"
proof -
  have "length (replicate 80 (7::u8)) = 80" by simp
  from print_hex_numeral [OF this, of "0xBEEF" demo_display] show ?thesis by auto
qed

text \<open>
  C33. \<open>print_dec\<close> prints a minus sign for negative numbers and a decimal numeral whose value is
  the absolute value of the argument, for every 32-bit integer except the smallest, for which it
  prints a lone minus sign because its negation overflows.
\<close>

theorem print_dec_numeral:
  assumes "length buf = 80" and "- (2 ^ 31) \<le> num" and "num < 2 ^ 31"
  shows "(num \<noteq> - (2 ^ 31) \<longrightarrow>
      (\<exists>ds. print_dec buf num s = Some (fold print_char ((if num < 0 then [0x2D] else []) @ ds) s) \<and>
        int (numeral_value 10 ds) = \<bar>num\<bar> \<and> ds \<noteq> [] \<and> (hd ds = 0x30 \<longrightarrow> num = 0))) \<and>
    (num = - (2 ^ 31) \<longrightarrow> print_dec buf num s = Some (print_char 0x2D s))"
proof (cases "num = - (2 ^ 31)")
  case True
  then show ?thesis using print_dec_min [OF assms(1)] by simp
next
  case False
  then have "- (2 ^ 31) < num" using assms(2) by simp
  from print_dec_text [OF assms(1) this assms(3), of s] numeral_text_facts [of 10 "nat \<bar>num\<bar>"] False
  show ?thesis by auto
qed

theorem print_dec_numeral_witness:
  "\<exists>ds. print_dec (replicate 80 7) (- 1234) demo_display =
     Some (fold print_char (0x2D # ds) demo_display) \<and> numeral_value 10 ds = 1234"
proof -
  have "length (replicate 80 (7::u8)) = 80" by simp
  from print_dec_numeral [OF this, of "- 1234" demo_display] show ?thesis by auto
qed

end
