(* ===== verification/Keyboard.thy ===== *)
theory Keyboard
  imports Timers
begin

text \<open>
  The keyboard, \<^verbatim>\<open>interrupts/keyboard.c\<close> and \<^verbatim>\<open>keyboard.h\<close>: key codes, the scan code table and the
  interrupt handler. A scan code outside the table is the result \<open>None\<close>.
\<close>

unbundle bit_operations_syntax

section \<open>Key codes\<close>

text \<open>
  \<^verbatim>\<open>KEYCODE\<close> is an enumeration in which several names share a value, so its values are the integers.
\<close>

type_synonym KEYCODE = u32

abbreviation KEY_SPACE :: KEYCODE where "KEY_SPACE \<equiv> 0x20"
abbreviation KEY_0 :: KEYCODE where "KEY_0 \<equiv> 0x30"
abbreviation KEY_1 :: KEYCODE where "KEY_1 \<equiv> 0x31"
abbreviation KEY_2 :: KEYCODE where "KEY_2 \<equiv> 0x32"
abbreviation KEY_3 :: KEYCODE where "KEY_3 \<equiv> 0x33"
abbreviation KEY_4 :: KEYCODE where "KEY_4 \<equiv> 0x34"
abbreviation KEY_5 :: KEYCODE where "KEY_5 \<equiv> 0x35"
abbreviation KEY_6 :: KEYCODE where "KEY_6 \<equiv> 0x36"
abbreviation KEY_7 :: KEYCODE where "KEY_7 \<equiv> 0x37"
abbreviation KEY_8 :: KEYCODE where "KEY_8 \<equiv> 0x38"
abbreviation KEY_9 :: KEYCODE where "KEY_9 \<equiv> 0x39"
abbreviation KEY_A :: KEYCODE where "KEY_A \<equiv> 0x61"
abbreviation KEY_B :: KEYCODE where "KEY_B \<equiv> 0x62"
abbreviation KEY_C :: KEYCODE where "KEY_C \<equiv> 0x63"
abbreviation KEY_D :: KEYCODE where "KEY_D \<equiv> 0x64"
abbreviation KEY_E :: KEYCODE where "KEY_E \<equiv> 0x65"
abbreviation KEY_F :: KEYCODE where "KEY_F \<equiv> 0x66"
abbreviation KEY_G :: KEYCODE where "KEY_G \<equiv> 0x67"
abbreviation KEY_H :: KEYCODE where "KEY_H \<equiv> 0x68"
abbreviation KEY_I :: KEYCODE where "KEY_I \<equiv> 0x69"
abbreviation KEY_J :: KEYCODE where "KEY_J \<equiv> 0x6A"
abbreviation KEY_K :: KEYCODE where "KEY_K \<equiv> 0x6B"
abbreviation KEY_L :: KEYCODE where "KEY_L \<equiv> 0x6C"
abbreviation KEY_M :: KEYCODE where "KEY_M \<equiv> 0x6D"
abbreviation KEY_N :: KEYCODE where "KEY_N \<equiv> 0x6E"
abbreviation KEY_O :: KEYCODE where "KEY_O \<equiv> 0x6F"
abbreviation KEY_P :: KEYCODE where "KEY_P \<equiv> 0x70"
abbreviation KEY_Q :: KEYCODE where "KEY_Q \<equiv> 0x71"
abbreviation KEY_R :: KEYCODE where "KEY_R \<equiv> 0x72"
abbreviation KEY_S :: KEYCODE where "KEY_S \<equiv> 0x73"
abbreviation KEY_T :: KEYCODE where "KEY_T \<equiv> 0x74"
abbreviation KEY_U :: KEYCODE where "KEY_U \<equiv> 0x75"
abbreviation KEY_V :: KEYCODE where "KEY_V \<equiv> 0x76"
abbreviation KEY_W :: KEYCODE where "KEY_W \<equiv> 0x77"
abbreviation KEY_X :: KEYCODE where "KEY_X \<equiv> 0x78"
abbreviation KEY_Y :: KEYCODE where "KEY_Y \<equiv> 0x79"
abbreviation KEY_Z :: KEYCODE where "KEY_Z \<equiv> 0x7A"
abbreviation KEY_RETURN :: KEYCODE where "KEY_RETURN \<equiv> 0x0D"
abbreviation KEY_ESCAPE :: KEYCODE where "KEY_ESCAPE \<equiv> 0x1001"
abbreviation KEY_BACKSPACE :: KEYCODE where "KEY_BACKSPACE \<equiv> 0x08"
abbreviation KEY_UP :: KEYCODE where "KEY_UP \<equiv> 0x1100"
abbreviation KEY_DOWN :: KEYCODE where "KEY_DOWN \<equiv> 0x1101"
abbreviation KEY_LEFT :: KEYCODE where "KEY_LEFT \<equiv> 0x1102"
abbreviation KEY_RIGHT :: KEYCODE where "KEY_RIGHT \<equiv> 0x1103"
abbreviation KEY_F1 :: KEYCODE where "KEY_F1 \<equiv> 0x1201"
abbreviation KEY_F2 :: KEYCODE where "KEY_F2 \<equiv> 0x1202"
abbreviation KEY_F3 :: KEYCODE where "KEY_F3 \<equiv> 0x1203"
abbreviation KEY_F4 :: KEYCODE where "KEY_F4 \<equiv> 0x1204"
abbreviation KEY_F5 :: KEYCODE where "KEY_F5 \<equiv> 0x1205"
abbreviation KEY_F6 :: KEYCODE where "KEY_F6 \<equiv> 0x1206"
abbreviation KEY_F7 :: KEYCODE where "KEY_F7 \<equiv> 0x1207"
abbreviation KEY_F8 :: KEYCODE where "KEY_F8 \<equiv> 0x1208"
abbreviation KEY_F9 :: KEYCODE where "KEY_F9 \<equiv> 0x1209"
abbreviation KEY_F10 :: KEYCODE where "KEY_F10 \<equiv> 0x120A"
abbreviation KEY_F11 :: KEYCODE where "KEY_F11 \<equiv> 0x120B"
abbreviation KEY_F12 :: KEYCODE where "KEY_F12 \<equiv> 0x120B"
abbreviation KEY_F13 :: KEYCODE where "KEY_F13 \<equiv> 0x120C"
abbreviation KEY_F14 :: KEYCODE where "KEY_F14 \<equiv> 0x120D"
abbreviation KEY_F15 :: KEYCODE where "KEY_F15 \<equiv> 0x120E"
abbreviation KEY_DOT :: KEYCODE where "KEY_DOT \<equiv> 0x2E"
abbreviation KEY_COMMA :: KEYCODE where "KEY_COMMA \<equiv> 0x2C"
abbreviation KEY_COLON :: KEYCODE where "KEY_COLON \<equiv> 0x3A"
abbreviation KEY_SEMICOLON :: KEYCODE where "KEY_SEMICOLON \<equiv> 0x3B"
abbreviation KEY_SLASH :: KEYCODE where "KEY_SLASH \<equiv> 0x2F"
abbreviation KEY_BACKSLASH :: KEYCODE where "KEY_BACKSLASH \<equiv> 0x5C"
abbreviation KEY_PLUS :: KEYCODE where "KEY_PLUS \<equiv> 0x2B"
abbreviation KEY_MINUS :: KEYCODE where "KEY_MINUS \<equiv> 0x2D"
abbreviation KEY_ASTERISK :: KEYCODE where "KEY_ASTERISK \<equiv> 0x2A"
abbreviation KEY_EXCLAMATION :: KEYCODE where "KEY_EXCLAMATION \<equiv> 0x21"
abbreviation KEY_QUESTION :: KEYCODE where "KEY_QUESTION \<equiv> 0x3F"
abbreviation KEY_QUOTEDOUBLE :: KEYCODE where "KEY_QUOTEDOUBLE \<equiv> 0x22"
abbreviation KEY_QUOTE :: KEYCODE where "KEY_QUOTE \<equiv> 0x27"
abbreviation KEY_EQUAL :: KEYCODE where "KEY_EQUAL \<equiv> 0x3D"
abbreviation KEY_HASH :: KEYCODE where "KEY_HASH \<equiv> 0x23"
abbreviation KEY_PERCENT :: KEYCODE where "KEY_PERCENT \<equiv> 0x25"
abbreviation KEY_AMPERSAND :: KEYCODE where "KEY_AMPERSAND \<equiv> 0x26"
abbreviation KEY_UNDERSCORE :: KEYCODE where "KEY_UNDERSCORE \<equiv> 0x5F"
abbreviation KEY_LEFTPARENTHESIS :: KEYCODE where "KEY_LEFTPARENTHESIS \<equiv> 0x28"
abbreviation KEY_RIGHTPARENTHESIS :: KEYCODE where "KEY_RIGHTPARENTHESIS \<equiv> 0x29"
abbreviation KEY_LEFTBRACKET :: KEYCODE where "KEY_LEFTBRACKET \<equiv> 0x5B"
abbreviation KEY_RIGHTBRACKET :: KEYCODE where "KEY_RIGHTBRACKET \<equiv> 0x5D"
abbreviation KEY_LEFTCURL :: KEYCODE where "KEY_LEFTCURL \<equiv> 0x7B"
abbreviation KEY_RIGHTCURL :: KEYCODE where "KEY_RIGHTCURL \<equiv> 0x7D"
abbreviation KEY_DOLLAR :: KEYCODE where "KEY_DOLLAR \<equiv> 0x24"
abbreviation KEY_EURO :: KEYCODE where "KEY_EURO \<equiv> 0x24"
abbreviation KEY_LESS :: KEYCODE where "KEY_LESS \<equiv> 0x3C"
abbreviation KEY_GREATER :: KEYCODE where "KEY_GREATER \<equiv> 0x3E"
abbreviation KEY_BAR :: KEYCODE where "KEY_BAR \<equiv> 0x7C"
abbreviation KEY_GRAVE :: KEYCODE where "KEY_GRAVE \<equiv> 0x60"
abbreviation KEY_TILDE :: KEYCODE where "KEY_TILDE \<equiv> 0x7E"
abbreviation KEY_AT :: KEYCODE where "KEY_AT \<equiv> 0x40"
abbreviation KEY_CARRET :: KEYCODE where "KEY_CARRET \<equiv> 0x5E"
abbreviation KEY_KP_0 :: KEYCODE where "KEY_KP_0 \<equiv> 0x30"
abbreviation KEY_KP_1 :: KEYCODE where "KEY_KP_1 \<equiv> 0x31"
abbreviation KEY_KP_2 :: KEYCODE where "KEY_KP_2 \<equiv> 0x32"
abbreviation KEY_KP_3 :: KEYCODE where "KEY_KP_3 \<equiv> 0x33"
abbreviation KEY_KP_4 :: KEYCODE where "KEY_KP_4 \<equiv> 0x34"
abbreviation KEY_KP_5 :: KEYCODE where "KEY_KP_5 \<equiv> 0x35"
abbreviation KEY_KP_6 :: KEYCODE where "KEY_KP_6 \<equiv> 0x36"
abbreviation KEY_KP_7 :: KEYCODE where "KEY_KP_7 \<equiv> 0x37"
abbreviation KEY_KP_8 :: KEYCODE where "KEY_KP_8 \<equiv> 0x38"
abbreviation KEY_KP_9 :: KEYCODE where "KEY_KP_9 \<equiv> 0x39"
abbreviation KEY_KP_PLUS :: KEYCODE where "KEY_KP_PLUS \<equiv> 0x2B"
abbreviation KEY_KP_MINUS :: KEYCODE where "KEY_KP_MINUS \<equiv> 0x2D"
abbreviation KEY_KP_DECIMAL :: KEYCODE where "KEY_KP_DECIMAL \<equiv> 0x2E"
abbreviation KEY_KP_DIVIDE :: KEYCODE where "KEY_KP_DIVIDE \<equiv> 0x2F"
abbreviation KEY_KP_ASTERISK :: KEYCODE where "KEY_KP_ASTERISK \<equiv> 0x2A"
abbreviation KEY_KP_NUMLOCK :: KEYCODE where "KEY_KP_NUMLOCK \<equiv> 0x300F"
abbreviation KEY_KP_ENTER :: KEYCODE where "KEY_KP_ENTER \<equiv> 0x3010"
abbreviation KEY_TAB :: KEYCODE where "KEY_TAB \<equiv> 0x4000"
abbreviation KEY_CAPSLOCK :: KEYCODE where "KEY_CAPSLOCK \<equiv> 0x4001"
abbreviation KEY_LSHIFT :: KEYCODE where "KEY_LSHIFT \<equiv> 0x4002"
abbreviation KEY_LCTRL :: KEYCODE where "KEY_LCTRL \<equiv> 0x4003"
abbreviation KEY_LALT :: KEYCODE where "KEY_LALT \<equiv> 0x4004"
abbreviation KEY_LWIN :: KEYCODE where "KEY_LWIN \<equiv> 0x4005"
abbreviation KEY_RSHIFT :: KEYCODE where "KEY_RSHIFT \<equiv> 0x4006"
abbreviation KEY_RCTRL :: KEYCODE where "KEY_RCTRL \<equiv> 0x4007"
abbreviation KEY_RALT :: KEYCODE where "KEY_RALT \<equiv> 0x4008"
abbreviation KEY_RWIN :: KEYCODE where "KEY_RWIN \<equiv> 0x4009"
abbreviation KEY_INSERT :: KEYCODE where "KEY_INSERT \<equiv> 0x400A"
abbreviation KEY_DELETE :: KEYCODE where "KEY_DELETE \<equiv> 0x400B"
abbreviation KEY_HOME :: KEYCODE where "KEY_HOME \<equiv> 0x400C"
abbreviation KEY_END :: KEYCODE where "KEY_END \<equiv> 0x400D"
abbreviation KEY_PAGEUP :: KEYCODE where "KEY_PAGEUP \<equiv> 0x400E"
abbreviation KEY_PAGEDOWN :: KEYCODE where "KEY_PAGEDOWN \<equiv> 0x400F"
abbreviation KEY_SCROLLLOCK :: KEYCODE where "KEY_SCROLLLOCK \<equiv> 0x4010"
abbreviation KEY_PAUSE :: KEYCODE where "KEY_PAUSE \<equiv> 0x4011"
abbreviation KEY_UNKNOWN :: KEYCODE where "KEY_UNKNOWN \<equiv> 0x4012"
abbreviation KEY_NUMKEYCODES :: KEYCODE where "KEY_NUMKEYCODES \<equiv> 0x4013"

section \<open>Scan codes\<close>

definition keys :: "KEYCODE list" where
  "keys =
    [KEY_UNKNOWN, KEY_ESCAPE, KEY_1, KEY_2, KEY_3, KEY_4, KEY_5, KEY_6, KEY_7, KEY_8, KEY_9, KEY_0,
     KEY_MINUS, KEY_EQUAL, KEY_BACKSPACE, KEY_TAB, KEY_Q, KEY_W, KEY_E, KEY_R, KEY_T, KEY_Y, KEY_U,
     KEY_I, KEY_O, KEY_P, KEY_LEFTBRACKET, KEY_RIGHTBRACKET, KEY_RETURN, KEY_LCTRL, KEY_A, KEY_S,
     KEY_D, KEY_F, KEY_G, KEY_H, KEY_J, KEY_K, KEY_L, KEY_SEMICOLON, KEY_QUOTE, KEY_GRAVE,
     KEY_LSHIFT, KEY_BACKSLASH, KEY_Z, KEY_X, KEY_C, KEY_V, KEY_B, KEY_N, KEY_M, KEY_COMMA,
     KEY_DOT, KEY_SLASH, KEY_RSHIFT, KEY_KP_ASTERISK, KEY_RALT, KEY_SPACE, KEY_CAPSLOCK, KEY_F1,
     KEY_F2, KEY_F3, KEY_F4, KEY_F5, KEY_F6, KEY_F7, KEY_F8, KEY_F9, KEY_F10, KEY_KP_NUMLOCK,
     KEY_SCROLLLOCK, KEY_HOME, KEY_KP_8, KEY_PAGEUP, KEY_KP_2, KEY_KP_3, KEY_KP_0, KEY_KP_DECIMAL,
     KEY_UNKNOWN, KEY_UNKNOWN, KEY_UNKNOWN, KEY_F11, KEY_F12]"

definition keys_at :: "u8 \<Rightarrow> KEYCODE option" where
  "keys_at i = (if unat i < length keys then Some (keys ! unat i) else None)"

section \<open>Operations\<close>

abbreviation KEYBOARD_DATA :: u16 where "KEYBOARD_DATA \<equiv> 0x60"
abbreviation KEYBOARD_STATUS :: u16 where "KEYBOARD_STATUS \<equiv> 0x64"
abbreviation INVALID_SCANCODE :: u8 where "INVALID_SCANCODE \<equiv> 0"

record kbd_state = pit_state +
  scancode :: u8

type_synonym 'a kbd = "'a kbd_state_scheme"

definition keyboard_key_to_ascii :: "KEYCODE \<Rightarrow> u8" where
  "keyboard_key_to_ascii code = ucast code"

definition keyboard_irq1_handler :: "'a kbd \<Rightarrow> 'a kbd option" where
  "keyboard_irq1_handler s = do {
     let (status, s) = inb KEYBOARD_STATUS s;
     s \<leftarrow> (if status AND 0x01 \<noteq> 0
          then let (code, s) = inb KEYBOARD_DATA s
               in if 0 \<le>s code
                  then do {
                    let s = s\<lparr>scancode := code\<rparr>;
                    key \<leftarrow> keys_at code;
                    Some (print_char (keyboard_key_to_ascii key) s)
                  }
                  else Some s
          else Some s);
     Some (send_pic_eoi 1 s)
   }"

definition keyboard_get_last_key :: "'a kbd \<Rightarrow> KEYCODE option" where
  "keyboard_get_last_key s =
     (if scancode s \<noteq> INVALID_SCANCODE then keys_at (scancode s) else Some KEY_UNKNOWN)"

definition keyboard_discard_last_key :: "'a kbd \<Rightarrow> 'a kbd" where
  "keyboard_discard_last_key s = s\<lparr>scancode := INVALID_SCANCODE\<rparr>"

end
