(* ===== verification/Dma.thy ===== *)
theory Dma
  imports Machine "HOL-Library.Monad_Syntax"
begin

text \<open>
  The DMA controllers, \<^verbatim>\<open>hal/dma.c\<close>, with the 8237 controller as the specification of what the
  port writes mean. A shift by a negative amount is the result \<open>None\<close>.
\<close>

unbundle bit_operations_syntax

section \<open>Registers\<close>

datatype DMA0_IO = DMA0_STATUS_REG | DMA0_COMMAND_REG | DMA0_REQUEST_REG | DMA0_CHANMASK_REG
  | DMA0_MODE_REG | DMA0_CLEARBYTE_FLIPFLOP_REG | DMA0_TEMP_REG | DMA0_MASTER_CLEAR_REG
  | DMA0_CLEAR_MASK_REG | DMA0_MASK_REG

fun dma0_io :: "DMA0_IO \<Rightarrow> u16" where
  "dma0_io DMA0_STATUS_REG = 0x08"
| "dma0_io DMA0_COMMAND_REG = 0x08"
| "dma0_io DMA0_REQUEST_REG = 0x09"
| "dma0_io DMA0_CHANMASK_REG = 0x0A"
| "dma0_io DMA0_MODE_REG = 0x0B"
| "dma0_io DMA0_CLEARBYTE_FLIPFLOP_REG = 0x0C"
| "dma0_io DMA0_TEMP_REG = 0x0D"
| "dma0_io DMA0_MASTER_CLEAR_REG = 0x0D"
| "dma0_io DMA0_CLEAR_MASK_REG = 0x0E"
| "dma0_io DMA0_MASK_REG = 0x0F"

datatype DMA1_IO = DMA1_STATUS_REG | DMA1_COMMAND_REG | DMA1_REQUEST_REG | DMA1_CHANMASK_REG
  | DMA1_MODE_REG | DMA1_CLEARBYTE_FLIPFLOP_REG | DMA1_INTER_REG | DMA1_UNMASK_ALL_REG
  | DMA1_MASK_REG

fun dma1_io :: "DMA1_IO \<Rightarrow> u16" where
  "dma1_io DMA1_STATUS_REG = 0xD0"
| "dma1_io DMA1_COMMAND_REG = 0xD0"
| "dma1_io DMA1_REQUEST_REG = 0xD2"
| "dma1_io DMA1_CHANMASK_REG = 0xD4"
| "dma1_io DMA1_MODE_REG = 0xD6"
| "dma1_io DMA1_CLEARBYTE_FLIPFLOP_REG = 0xD8"
| "dma1_io DMA1_INTER_REG = 0xDA"
| "dma1_io DMA1_UNMASK_ALL_REG = 0xDC"
| "dma1_io DMA1_MASK_REG = 0xDE"

abbreviation DMA_MODE_READ_TRANSFER :: u8 where "DMA_MODE_READ_TRANSFER \<equiv> 4"
abbreviation DMA_MODE_WRITE_TRANSFER :: u8 where "DMA_MODE_WRITE_TRANSFER \<equiv> 8"
abbreviation DMA_MODE_MASK_AUTO :: u8 where "DMA_MODE_MASK_AUTO \<equiv> 0x10"
abbreviation DMA_MODE_TRANSFER_SINGLE :: u8 where "DMA_MODE_TRANSFER_SINGLE \<equiv> 0x40"

section \<open>Operations\<close>

text \<open>The \<^verbatim>\<open>switch\<close> statements: the address, count and page port of a channel, 0 by default.\<close>

definition dma_addr_port :: "u8 \<Rightarrow> u16" where
  "dma_addr_port channel =
     (if channel = 0 then 0 else if channel = 1 then 2 else if channel = 2 then 4
      else if channel = 3 then 6 else if channel = 4 then 0xC0 else if channel = 5 then 0xC4
      else if channel = 6 then 0xC8 else if channel = 7 then 0xCC else 0)"

definition dma_count_port :: "u8 \<Rightarrow> u16" where
  "dma_count_port channel =
     (if channel = 0 then 1 else if channel = 1 then 3 else if channel = 2 then 5
      else if channel = 3 then 7 else if channel = 4 then 0xC2 else if channel = 5 then 0xC6
      else if channel = 6 then 0xCA else if channel = 7 then 0xCE else 0)"

definition dma_page_port :: "u8 \<Rightarrow> u16 option" where
  "dma_page_port reg =
     (if reg = 1 then Some 0x83 else if reg = 2 then Some 0x81 else if reg = 3 then Some 0x82
      else if reg = 4 then None else if reg = 5 then Some 0x89 else if reg = 6 then Some 0x87
      else if reg = 7 then Some 0x88 else Some 0)"

definition dma_set_address :: "u8 \<Rightarrow> u8 \<Rightarrow> u8 \<Rightarrow> 'a machine_scheme \<Rightarrow> 'a machine_scheme" where
  "dma_set_address channel low high s =
     (if 8 < channel then s
      else let port = dma_addr_port channel in outb port high (outb port low s))"

definition dma_set_count :: "u8 \<Rightarrow> u8 \<Rightarrow> u8 \<Rightarrow> 'a machine_scheme \<Rightarrow> 'a machine_scheme" where
  "dma_set_count channel low high s =
     (if 8 < channel then s
      else let port = dma_count_port channel in outb port high (outb port low s))"

definition dma_set_external_page_register :: "u8 \<Rightarrow> u8 \<Rightarrow> 'a machine_scheme \<Rightarrow> 'a machine_scheme" where
  "dma_set_external_page_register reg val s =
     (if 14 < reg then s
      else case dma_page_port reg of None \<Rightarrow> s | Some port \<Rightarrow> outb port val s)"

definition dma_mask_channel :: "u8 \<Rightarrow> 'a machine_scheme \<Rightarrow> 'a machine_scheme option" where
  "dma_mask_channel channel s =
     (if channel \<le> 4
      then if channel = 0 then None
           else Some (outb (dma0_io DMA0_CHANMASK_REG) (ucast (push_bit (unat (channel - 1)) (1::u32))) s)
      else Some (outb (dma1_io DMA1_CHANMASK_REG) (ucast (push_bit (unat (channel - 5)) (1::u32))) s))"

definition dma_unmask_channel :: "u8 \<Rightarrow> 'a machine_scheme \<Rightarrow> 'a machine_scheme" where
  "dma_unmask_channel channel s =
     (if channel \<le> 4 then outb (dma0_io DMA0_CHANMASK_REG) channel s
      else outb (dma1_io DMA1_CHANMASK_REG) channel s)"

definition dma_reset_flipflop :: "u8 \<Rightarrow> 'a machine_scheme \<Rightarrow> 'a machine_scheme" where
  "dma_reset_flipflop dma s =
     (if 1 < dma then s
      else outb (if dma = 0 then dma0_io DMA0_CLEARBYTE_FLIPFLOP_REG
                 else dma1_io DMA1_CLEARBYTE_FLIPFLOP_REG) 0xFF s)"

definition dma_reset :: "'a machine_scheme \<Rightarrow> 'a machine_scheme" where
  "dma_reset s = outb (dma0_io DMA0_TEMP_REG) 0xFF s"

definition dma_unmask_all :: "'a machine_scheme \<Rightarrow> 'a machine_scheme" where
  "dma_unmask_all s = outb (dma1_io DMA1_UNMASK_ALL_REG) 0xFF s"

definition dma_set_mode :: "u8 \<Rightarrow> u8 \<Rightarrow> 'a machine_scheme \<Rightarrow> 'a machine_scheme option" where
  "dma_set_mode channel mode s =
     (if 8 < channel then Some s
      else let dma = (if channel < 4 then 0 else 1 :: u8);
               dma_mode_reg = (if dma = 0 then dma0_io DMA0_MODE_REG else dma1_io DMA1_MODE_REG);
               chan = (if dma = 0 then channel else channel - 4)
           in case dma_mask_channel channel s of
                None \<Rightarrow> None
              | Some s \<Rightarrow> Some (dma_unmask_all (outb dma_mode_reg (chan OR mode) s)))"

definition dma_set_read :: "u8 \<Rightarrow> 'a machine_scheme \<Rightarrow> 'a machine_scheme option" where
  "dma_set_read channel s =
     dma_set_mode channel (DMA_MODE_READ_TRANSFER OR DMA_MODE_TRANSFER_SINGLE OR DMA_MODE_MASK_AUTO) s"

definition dma_set_write :: "u8 \<Rightarrow> 'a machine_scheme \<Rightarrow> 'a machine_scheme option" where
  "dma_set_write channel s =
     dma_set_mode channel (DMA_MODE_WRITE_TRANSFER OR DMA_MODE_TRANSFER_SINGLE OR DMA_MODE_MASK_AUTO) s"

abbreviation FDC_DMA_CHANNEL :: u8 where "FDC_DMA_CHANNEL \<equiv> 2"

text \<open>\<^verbatim>\<open>a.byte[k]\<close> of the union: byte \<open>k\<close> of the word.\<close>

definition union_byte :: "u32 \<Rightarrow> nat \<Rightarrow> u8" where
  "union_byte l k = ucast (drop_bit (8 * k) l)"

definition dma_init_floppy :: "u32 \<Rightarrow> u32 \<Rightarrow> 'a machine_scheme \<Rightarrow> 'a machine_scheme option" where
  "dma_init_floppy buffer len s = do {
     let a = buffer;
     let c = len - 1;
     let s = dma_reset s;
     s \<leftarrow> dma_mask_channel FDC_DMA_CHANNEL s;
     let s = dma_reset_flipflop 1 s;
     let s = dma_set_address FDC_DMA_CHANNEL (union_byte a 0) (union_byte a 1) s;
     let s = dma_reset_flipflop 1 s;
     let s = dma_set_count FDC_DMA_CHANNEL (union_byte c 0) (union_byte c 1) s;
     Some (dma_unmask_all s)
   }"

section \<open>The 8237 controller\<close>

text \<open>
  The first controller as its data sheet describes it, for its four channels: address and count
  registers written byte by byte through one flip-flop, the mask register with its single-bit
  form (bit 2: mask or unmask, bits 0 and 1: channel), the mode register, master clear; and the
  page register of channel 2.
\<close>

record dma_chip =
  flipflop :: bool
  chan_addr :: "u8 \<Rightarrow> u16"
  chan_count :: "u8 \<Rightarrow> u16"
  chan_masked :: "u8 \<Rightarrow> bool"
  chan_mode :: "u8 \<Rightarrow> u8"
  page2 :: u8

definition load_byte :: "bool \<Rightarrow> u8 \<Rightarrow> u16 \<Rightarrow> u16" where
  "load_byte high v w = (if high then (w AND 0x00FF) OR push_bit 8 (ucast v) else (w AND 0xFF00) OR ucast v)"

definition chip0_write :: "u16 \<Rightarrow> u8 \<Rightarrow> dma_chip \<Rightarrow> dma_chip" where
  "chip0_write p v c =
     (if p < 8 then
        let ch = ucast (p div 2) in
        if p mod 2 = 0
        then c\<lparr>chan_addr := (chan_addr c)(ch := load_byte (flipflop c) v (chan_addr c ch)), flipflop := \<not> flipflop c\<rparr>
        else c\<lparr>chan_count := (chan_count c)(ch := load_byte (flipflop c) v (chan_count c ch)), flipflop := \<not> flipflop c\<rparr>
      else if p = 0x0A then c\<lparr>chan_masked := (chan_masked c)(v AND 3 := bit v 2)\<rparr>
      else if p = 0x0B then c\<lparr>chan_mode := (chan_mode c)(v AND 3 := v)\<rparr>
      else if p = 0x0C then c\<lparr>flipflop := False\<rparr>
      else if p = 0x0D then c\<lparr>flipflop := False, chan_masked := (\<lambda>_. True)\<rparr>
      else if p = 0x0E then c\<lparr>chan_masked := (\<lambda>_. False)\<rparr>
      else if p = 0x0F then c\<lparr>chan_masked := (\<lambda>ch. bit v (unat ch))\<rparr>
      else if p = 0x81 then c\<lparr>page2 := v\<rparr>
      else c)"

fun dma_chip_step :: "io_event \<Rightarrow> dma_chip \<Rightarrow> dma_chip" where
  "dma_chip_step (Out_b p v) c = chip0_write p v c"
| "dma_chip_step _ c = c"

definition dma_chip_run :: "io_event list \<Rightarrow> dma_chip \<Rightarrow> dma_chip" where
  "dma_chip_run es c = fold dma_chip_step es c"

section \<open>Properties\<close>

lemma dma_bytes:
  "load_byte True (union_byte w (Suc 0)) (load_byte False (union_byte w 0) x) = ucast w"
proof (rule bit_word_eqI)
  fix n assume "n < LENGTH(16)"
  then show "bit (load_byte True (union_byte w (Suc 0)) (load_byte False (union_byte w 0) x)) n =
      bit (ucast w :: u16) n"
    by (cases "n < 8") (auto simp: load_byte_def union_byte_def bit_simps low_masks)
qed

text \<open>
  C30. After \<open>dma_init_floppy\<close> channel 2 of the controller, whatever state it was in, holds the low
  16 bits of the buffer address and the transfer length less one, and the channel is unmasked:
  the master clear masks it, and the value \<open>dma_mask_channel\<close> writes clears the mask. The page
  register keeps what it had, so the transfer goes to the buffer only when the page is already
  that of the buffer.
\<close>

theorem dma_init_floppy_programs:
  "\<exists>s' es. dma_init_floppy buffer len s = Some s' \<and> io_log s' = io_log s @ es \<and>
     chan_addr (dma_chip_run es c) 2 = ucast buffer \<and>
     chan_count (dma_chip_run es c) 2 = ucast (len - 1) \<and>
     \<not> chan_masked (dma_chip_run es c) 2 \<and> \<not> flipflop (dma_chip_run es c) \<and>
     page2 (dma_chip_run es c) = page2 c"
proof -
  let ?es = "[Out_b 0x0D 0xFF, Out_b 0x0A 2, Out_b 0xD8 0xFF, Out_b 4 (union_byte buffer 0),
     Out_b 4 (union_byte buffer 1), Out_b 0xD8 0xFF, Out_b 5 (union_byte (len - 1) 0),
     Out_b 5 (union_byte (len - 1) 1), Out_b 0xDC 0xFF]"
  have "\<exists>s'. dma_init_floppy buffer len s = Some s' \<and> io_log s' = io_log s @ ?es"
    by (simp add: dma_init_floppy_def dma_reset_def dma_mask_channel_def dma_reset_flipflop_def
        dma_set_address_def dma_set_count_def dma_addr_port_def dma_count_port_def dma_unmask_all_def
        outb_def Let_def)
  moreover have "chan_addr (dma_chip_run ?es c) 2 = ucast buffer"
    "chan_count (dma_chip_run ?es c) 2 = ucast (len - 1)"
    "\<not> chan_masked (dma_chip_run ?es c) 2" "\<not> flipflop (dma_chip_run ?es c)"
    "page2 (dma_chip_run ?es c) = page2 c"
    by (simp_all add: dma_chip_run_def chip0_write_def Let_def dma_bytes)
  ultimately show ?thesis by blast
qed

end
