(* ===== verification/Floppy.thy ===== *)
theory Floppy
  imports Keyboard Dma
begin

text \<open>
  The floppy disk driver, \<^verbatim>\<open>filesystem/floppydisk.c\<close>. What the hardware does is given by fields of
  the state that are functions of the port history: whether the controller raises IRQ 6 when the
  driver waits for it (\<open>dev_irq6\<close>), what its DMA transfer does to memory before that (\<open>dev_dma\<close>), and
  which timer interrupts arrive during a wait (\<open>dev_timer\<close>). Where the driver would wait forever the
  result is \<open>None\<close>.
\<close>

unbundle bit_operations_syntax

section \<open>State\<close>

record fd_state = kbd_state +
  current_drive :: u8
  fd_irq6_stat :: u8
  dev_irq6 :: "io_event list \<Rightarrow> bool"
  dev_dma :: "io_event list \<Rightarrow> memory \<Rightarrow> memory"
  dev_timer :: "io_event list \<Rightarrow> nat list"

type_synonym 'a fd = "'a fd_state_scheme"

abbreviation DMA_BUFFER :: u32 where "DMA_BUFFER \<equiv> 0x1000"

datatype FD_IO = FD_DOR | FD_MSR | FD_FIFO | FD_CTRL

fun fd_io :: "FD_IO \<Rightarrow> u16" where
  "fd_io FD_DOR = 0x3F2"
| "fd_io FD_MSR = 0x3F4"
| "fd_io FD_FIFO = 0x3F5"
| "fd_io FD_CTRL = 0x3F7"

datatype FD_DOR_MASK = FD_DOR_MASK_DRIVE0 | FD_DOR_MASK_DRIVE1 | FD_DOR_MASK_DRIVE2
  | FD_DOR_MASK_DRIVE3 | FD_DOR_MASK_RESET | FD_DOR_MASK_DMA | FD_DOR_MASK_DRIVE0_MOTOR
  | FD_DOR_MASK_DRIVE1_MOTOR | FD_DOR_MASK_DRIVE2_MOTOR | FD_DOR_MASK_DRIVE3_MOTOR

fun fd_dor :: "FD_DOR_MASK \<Rightarrow> u8" where
  "fd_dor FD_DOR_MASK_DRIVE0 = 0"
| "fd_dor FD_DOR_MASK_DRIVE1 = 1"
| "fd_dor FD_DOR_MASK_DRIVE2 = 2"
| "fd_dor FD_DOR_MASK_DRIVE3 = 3"
| "fd_dor FD_DOR_MASK_RESET = 4"
| "fd_dor FD_DOR_MASK_DMA = 8"
| "fd_dor FD_DOR_MASK_DRIVE0_MOTOR = 16"
| "fd_dor FD_DOR_MASK_DRIVE1_MOTOR = 32"
| "fd_dor FD_DOR_MASK_DRIVE2_MOTOR = 64"
| "fd_dor FD_DOR_MASK_DRIVE3_MOTOR = 128"

abbreviation FD_MSR_MASK_DATAREG :: u8 where "FD_MSR_MASK_DATAREG \<equiv> 128"

datatype FD_CMD = FD_CMD_READ_TRACK | FD_CMD_SPECIFY | FD_CMD_CHECK_STAT | FD_CMD_WRITE_SECT
  | FD_CMD_READ_SECT | FD_CMD_CALIBRATE | FD_CMD_CHECK_INT | FD_CMD_WRITE_DEL_S
  | FD_CMD_READ_ID_S | FD_CMD_READ_DEL_S | FD_CMD_FORMAT_TRACK | FD_CMD_SEEK

fun fd_cmd :: "FD_CMD \<Rightarrow> u8" where
  "fd_cmd FD_CMD_READ_TRACK = 2"
| "fd_cmd FD_CMD_SPECIFY = 3"
| "fd_cmd FD_CMD_CHECK_STAT = 4"
| "fd_cmd FD_CMD_WRITE_SECT = 5"
| "fd_cmd FD_CMD_READ_SECT = 6"
| "fd_cmd FD_CMD_CALIBRATE = 7"
| "fd_cmd FD_CMD_CHECK_INT = 8"
| "fd_cmd FD_CMD_WRITE_DEL_S = 9"
| "fd_cmd FD_CMD_READ_ID_S = 0xA"
| "fd_cmd FD_CMD_READ_DEL_S = 0xC"
| "fd_cmd FD_CMD_FORMAT_TRACK = 0xD"
| "fd_cmd FD_CMD_SEEK = 0xF"

abbreviation FD_CMD_EXT_SKIP :: u8 where "FD_CMD_EXT_SKIP \<equiv> 0x20"
abbreviation FD_CMD_EXT_DENSITY :: u8 where "FD_CMD_EXT_DENSITY \<equiv> 0x40"
abbreviation FD_CMD_EXT_MULTITRACK :: u8 where "FD_CMD_EXT_MULTITRACK \<equiv> 0x80"
abbreviation FD_GAP3_LENGTH_3_5 :: u8 where "FD_GAP3_LENGTH_3_5 \<equiv> 27"
abbreviation FD_SECTOR_DTL_512 :: u8 where "FD_SECTOR_DTL_512 \<equiv> 2"
abbreviation FD_SECTORS_PER_TRACK :: u32 where "FD_SECTORS_PER_TRACK \<equiv> 18"

section \<open>Registers\<close>

definition fd_write_dor :: "u8 \<Rightarrow> 'a fd \<Rightarrow> 'a fd" where
  "fd_write_dor val s = outb (fd_io FD_DOR) val s"

definition fd_read_status :: "'a fd \<Rightarrow> u8 \<times> 'a fd" where
  "fd_read_status s = inb (fd_io FD_MSR) s"

definition fd_write_ccr :: "u8 \<Rightarrow> 'a fd \<Rightarrow> 'a fd" where
  "fd_write_ccr val s = outb (fd_io FD_CTRL) val s"

text \<open>The polling loop of \<open>fd_send_command\<close> and \<open>fd_read_data\<close>: did a poll find the register ready?\<close>

primrec fd_poll :: "nat \<Rightarrow> 'a fd \<Rightarrow> bool \<times> 'a fd" where
  "fd_poll 0 s = (False, s)"
| "fd_poll (Suc n) s =
     (let (status, s) = fd_read_status s
      in if status AND FD_MSR_MASK_DATAREG \<noteq> 0 then (True, s) else fd_poll n s)"

definition fd_send_command :: "u8 \<Rightarrow> 'a fd \<Rightarrow> 'a fd" where
  "fd_send_command cmd s =
     (let (ready, s) = fd_poll 500 s in if ready then outb (fd_io FD_FIFO) cmd s else s)"

definition fd_read_data :: "'a fd \<Rightarrow> u8 \<times> 'a fd" where
  "fd_read_data s =
     (let (ready, s) = fd_poll 500 s in if ready then inb (fd_io FD_FIFO) s else (0, s))"

section \<open>Interrupt\<close>

definition fd_irq6_handler :: "'a fd \<Rightarrow> 'a fd" where
  "fd_irq6_handler s = send_pic_eoi 6 (s\<lparr>fd_irq6_stat := 1\<rparr>)"

definition fd_wait_irq6 :: "'a fd \<Rightarrow> 'a fd option" where
  "fd_wait_irq6 s =
     (let s = (if fd_irq6_stat s = 0 \<and> dev_irq6 s (io_log s)
               then fd_irq6_handler (s\<lparr>ram := dev_dma s (io_log s) (ram s)\<rparr>) else s)
      in if fd_irq6_stat s = 0 then None else Some (s\<lparr>fd_irq6_stat := 0\<rparr>))"

section \<open>Drive\<close>

definition fd_control_motor :: "bool \<Rightarrow> 'a fd \<Rightarrow> 'a fd option" where
  "fd_control_motor on s =
     (if 3 < current_drive s then Some s
      else let motor = (if current_drive s = 0 then fd_dor FD_DOR_MASK_DRIVE0_MOTOR
                        else if current_drive s = 1 then fd_dor FD_DOR_MASK_DRIVE1_MOTOR
                        else if current_drive s = 2 then fd_dor FD_DOR_MASK_DRIVE2_MOTOR
                        else fd_dor FD_DOR_MASK_DRIVE3_MOTOR);
               s = (if on then fd_write_dor (motor OR fd_dor FD_DOR_MASK_RESET OR fd_dor FD_DOR_MASK_DMA) s
                    else fd_write_dor (fd_dor FD_DOR_MASK_RESET) s)
           in sleep 20 (dev_timer s (io_log s)) s)"

definition fd_drive_data :: "u32 \<Rightarrow> u32 \<Rightarrow> u32 \<Rightarrow> bool \<Rightarrow> 'a fd \<Rightarrow> 'a fd" where
  "fd_drive_data stepr loadt unloadt dma s =
     (let s = fd_send_command (fd_cmd FD_CMD_SPECIFY) s;
          data = push_bit 4 (stepr AND 0xF) OR (unloadt AND 0xF);
          s = fd_send_command (ucast data) s;
          data = push_bit 1 loadt OR (if dma then 1 else 0)
      in fd_send_command (ucast data) s)"

definition fd_check_int :: "'a fd \<Rightarrow> (u32 \<times> u32) \<times> 'a fd" where
  "fd_check_int s =
     (let s = fd_send_command (fd_cmd FD_CMD_CHECK_INT) s;
          (st0, s) = fd_read_data s;
          (cy1, s) = fd_read_data s
      in ((ucast st0, ucast cy1), s))"

text \<open>The retry loops run for \<^verbatim>\<open>i = 1, ..., 9\<close>; the result is the \<^verbatim>\<open>int32_t\<close> that is returned.\<close>

primrec fd_calibrate_loop :: "nat \<Rightarrow> u32 \<Rightarrow> 'a fd \<Rightarrow> (int \<times> 'a fd) option" where
  "fd_calibrate_loop 0 drive s = do {
     s \<leftarrow> fd_control_motor False s;
     Some (- 1, s)
   }"
| "fd_calibrate_loop (Suc n) drive s = do {
     let s = fd_send_command (fd_cmd FD_CMD_CALIBRATE) s;
     let s = fd_send_command (ucast drive) s;
     s \<leftarrow> fd_wait_irq6 s;
     let ((st0, cy1), s) = fd_check_int s;
     if cy1 = 0 then do { s \<leftarrow> fd_control_motor False s; Some (0, s) }
     else fd_calibrate_loop n drive s
   }"

definition fd_calibrate :: "u32 \<Rightarrow> 'a fd \<Rightarrow> (int \<times> 'a fd) option" where
  "fd_calibrate drive s =
     (if 3 < drive then Some (- 1, s)
      else do { s \<leftarrow> fd_control_motor True s; fd_calibrate_loop 9 drive s })"

primrec fd_seek_loop :: "nat \<Rightarrow> u32 \<Rightarrow> u32 \<Rightarrow> 'a fd \<Rightarrow> (int \<times> 'a fd) option" where
  "fd_seek_loop 0 cy1 head s = Some (- 1, s)"
| "fd_seek_loop (Suc n) cy1 head s = do {
     let s = fd_send_command (fd_cmd FD_CMD_SEEK) s;
     let s = fd_send_command (ucast (push_bit 2 head OR ucast (current_drive s))) s;
     let s = fd_send_command (ucast cy1) s;
     s \<leftarrow> fd_wait_irq6 s;
     let ((st0, cy10), s) = fd_check_int s;
     if cy1 = cy10 then Some (0, s) else fd_seek_loop n cy1 head s
   }"

definition fd_seek :: "u32 \<Rightarrow> u32 \<Rightarrow> 'a fd \<Rightarrow> (int \<times> 'a fd) option" where
  "fd_seek cy1 head s =
     (if 3 < current_drive s then Some (- 1, s) else fd_seek_loop 9 cy1 head s)"

definition fd_disable_controller :: "'a fd \<Rightarrow> 'a fd" where
  "fd_disable_controller s = fd_write_dor 0 s"

definition fd_enable_controller :: "'a fd \<Rightarrow> 'a fd" where
  "fd_enable_controller s = fd_write_dor (fd_dor FD_DOR_MASK_RESET OR fd_dor FD_DOR_MASK_DMA) s"

definition fd_reset :: "'a fd \<Rightarrow> 'a fd option" where
  "fd_reset s = do {
     let s = fd_disable_controller s;
     let s = fd_enable_controller s;
     s \<leftarrow> fd_wait_irq6 s;
     let s = for_u32 0 4 (\<lambda>_ s. snd (fd_check_int s)) s;
     let s = fd_write_ccr 0 s;
     let s = fd_drive_data 3 16 240 True s;
     (r, s) \<leftarrow> fd_calibrate (ucast (current_drive s)) s;
     Some s
   }"

definition fd_set_working_drive :: "u8 \<Rightarrow> 'a fd \<Rightarrow> 'a fd" where
  "fd_set_working_drive drive s = (if drive < 4 then s\<lparr>current_drive := drive\<rparr> else s)"

section \<open>Sectors\<close>

definition fd_lba_to_chs :: "u32 \<Rightarrow> u32 \<times> u32 \<times> u32" where
  \<comment> \<open>head, track and sector; the arithmetic is unsigned because the constant is\<close>
  "fd_lba_to_chs lba =
     (let head = (lba mod (FD_SECTORS_PER_TRACK * 2)) div FD_SECTORS_PER_TRACK;
          track = lba div (FD_SECTORS_PER_TRACK * 2);
          sector = lba mod FD_SECTORS_PER_TRACK + 1
      in (head, track, sector))"

abbreviation SECTORS_PER_CLUSTER :: u32 where "SECTORS_PER_CLUSTER \<equiv> 1"

definition fd_chs_to_lba :: "u16 \<Rightarrow> u32" where
  "fd_chs_to_lba cluster = (ucast cluster - 2) * SECTORS_PER_CLUSTER"

definition fd_read_sector_impl :: "u8 \<Rightarrow> u8 \<Rightarrow> u8 \<Rightarrow> 'a fd \<Rightarrow> 'a fd option" where
  "fd_read_sector_impl head track sector s = do {
     let next_sector = ucast sector + 1;
     let next_sector = (if FD_SECTORS_PER_TRACK \<le> next_sector then FD_SECTORS_PER_TRACK else next_sector);
     s \<leftarrow> dma_set_read FDC_DMA_CHANNEL s;
     let s = fd_send_command (fd_cmd FD_CMD_READ_SECT OR FD_CMD_EXT_MULTITRACK OR FD_CMD_EXT_SKIP
               OR FD_CMD_EXT_DENSITY) s;
     let s = fd_send_command (push_bit 2 head OR current_drive s) s;
     let s = fd_send_command track s;
     let s = fd_send_command head s;
     let s = fd_send_command sector s;
     let s = fd_send_command FD_SECTOR_DTL_512 s;
     let s = fd_send_command (ucast next_sector) s;
     let s = fd_send_command FD_GAP3_LENGTH_3_5 s;
     let s = fd_send_command 0xFF s;
     s \<leftarrow> fd_wait_irq6 s;
     let s = for_u32 0 7 (\<lambda>_ s. snd (fd_read_data s)) s;
     Some (snd (fd_check_int s))
   }"

definition fd_read_sector :: "u32 \<Rightarrow> 'a fd \<Rightarrow> (u32 \<times> 'a fd) option" where
  "fd_read_sector sector_lba s =
     (if 3 < current_drive s then Some (0, s)
      else do {
        let (head, track, sector) = fd_lba_to_chs sector_lba;
        s \<leftarrow> fd_control_motor True s;
        (r, s) \<leftarrow> fd_seek track head s;
        if r \<noteq> 0 then Some (0, s)
        else do {
          s \<leftarrow> fd_read_sector_impl (ucast head) (ucast track) (ucast sector) s;
          s \<leftarrow> fd_control_motor False s;
          Some (DMA_BUFFER, s)
        }
      })"

definition fd_init :: "u32 \<Rightarrow> 'a fd \<Rightarrow> 'a fd option" where
  "fd_init drive s = do {
     s \<leftarrow> dma_init_floppy DMA_BUFFER 512 s;
     let s = fd_set_working_drive (ucast drive) s;
     s \<leftarrow> fd_reset s;
     Some (fd_drive_data 13 1 0xF True s)
   }"

end
