(* ===== verification/Cstring.thy ===== *)
theory Cstring
  imports Machine "HOL-Library.Monad_Syntax"
begin

text \<open>
  The string functions of \<^verbatim>\<open>C/string.c\<close>. A pointer to characters is the list of the bytes from
  there to the end of the C object; reading or writing behind the end is the result \<open>None\<close>.
\<close>

section \<open>Operations\<close>

text \<open>\<open>strchr\<close> returns a null pointer (\<open>Some None\<close>) or a pointer into the string.\<close>

fun strchr :: "u8 list \<Rightarrow> u8 \<Rightarrow> u8 list option option" where
  "strchr [] c = None"
| "strchr (x # ptr) c =
     (if x = c then Some (Some (x # ptr))
      else case ptr of
             [] \<Rightarrow> None
           | y # _ \<Rightarrow> if y \<noteq> 0 then strchr ptr c else Some None)"

fun strcpy :: "u8 list \<Rightarrow> u8 list \<Rightarrow> u8 list option" where
  "strcpy dst [] = None"
| "strcpy dst (c # src) =
     (if c = 0 then Some dst
      else case dst of
             [] \<Rightarrow> None
           | _ # dst \<Rightarrow> (case strcpy dst src of None \<Rightarrow> None | Some r \<Rightarrow> Some (c # r)))"

fun strcmp :: "u8 list \<Rightarrow> u8 list \<Rightarrow> int option" where
  "strcmp (a # str1) (b # str2) =
     (if a \<noteq> 0 \<and> a = b then strcmp str1 str2 else Some (uint a - uint b))"
| "strcmp _ _ = None"

primrec strncmp :: "nat \<Rightarrow> u8 list \<Rightarrow> u8 list \<Rightarrow> int option" where
  \<comment> \<open>the first argument is \<^verbatim>\<open>len\<close>\<close>
  "strncmp 0 str1 str2 = Some 0"
| "strncmp (Suc len) str1 str2 =
     (case (str1, str2) of
        (a # str1', b # str2') \<Rightarrow> if a = b then strncmp len str1' str2' else Some (uint a - uint b)
      | _ \<Rightarrow> None)"

text \<open>The bytes of an object in memory.\<close>

definition bytes_at :: "memory \<Rightarrow> u32 \<Rightarrow> nat \<Rightarrow> u8 list" where
  "bytes_at m p n = map (\<lambda>k. m (p + of_nat k)) [0..<n]"

lemma length_bytes_at [simp]: "length (bytes_at m p n) = n"
  by (simp add: bytes_at_def)

lemma nth_bytes_at [simp]: "k < n \<Longrightarrow> bytes_at m p n ! k = m (p + of_nat k)"
  by (simp add: bytes_at_def)

section \<open>Lemmas\<close>

lemma uint_eq: "uint a = uint b \<longleftrightarrow> a = (b::u8)"
  by (simp add: word_uint_eq_iff)

lemma uint_pos: "a \<noteq> (0::u8) \<Longrightarrow> 0 < uint a"
  using uint_eq [of a 0] by (simp add: order_less_le)

lemma strncmp_total:
  "n \<le> length xs \<Longrightarrow> n \<le> length ys \<Longrightarrow> \<exists>r. strncmp n xs ys = Some r \<and> (r = 0 \<longleftrightarrow> take n xs = take n ys)"
proof (induction n arbitrary: xs ys)
  case (Suc n)
  then obtain a xs' b ys' where "xs = a # xs'" "ys = b # ys'"
    by (metis Suc_le_length_iff)
  with Suc show ?case by (cases "a = b") (auto simp: uint_eq)
qed simp

lemma strcmp_terminated:
  assumes "0 \<notin> set xs" "0 \<notin> set ys"
  shows "\<exists>r. strcmp (xs @ 0 # us) (ys @ 0 # vs) = Some r \<and> (r = 0 \<longleftrightarrow> xs = ys) \<and>
    (r < 0 \<longleftrightarrow> (xs, ys) \<in> lexord {(a, b). a < b})"
  using assms
proof (induction xs arbitrary: ys)
  case Nil
  show ?case
  proof (cases ys)
    case (Cons b ys')
    with Nil have "b \<noteq> 0" by auto
    then have "0 < uint b" by (rule uint_pos)
    with Cons \<open>b \<noteq> 0\<close> show ?thesis by auto
  qed simp
next
  case (Cons a xs)
  then have a: "a \<noteq> 0" "0 < uint a" using uint_pos by auto
  show ?case
  proof (cases ys)
    case (Cons b ys')
    with Cons.IH [of ys'] Cons.prems a show ?thesis
      by (cases "a = b") (auto simp: word_less_def uint_eq)
  qed (use a in auto)
qed

lemma strcpy_terminated:
  "0 \<notin> set xs \<Longrightarrow> length xs \<le> length dst \<Longrightarrow> strcpy dst (xs @ 0 # rest) = Some (xs @ drop (length xs) dst)"
proof (induction xs arbitrary: dst)
  case (Cons x xs)
  then show ?case by (cases dst) auto
qed simp

lemma strcpy_too_long: "0 \<notin> set xs \<Longrightarrow> length dst < length xs \<Longrightarrow> strcpy dst (xs @ rest) = None"
proof (induction xs arbitrary: dst)
  case (Cons x xs)
  then show ?case by (cases dst) auto
qed simp

lemma strchr_terminated:
  assumes "0 \<notin> set xs" "xs \<noteq> []" "c \<noteq> 0"
  shows "strchr (xs @ 0 # rest) c =
    Some (if c \<in> set xs then Some (dropWhile (\<lambda>x. x \<noteq> c) xs @ 0 # rest) else None)"
  using assms
proof (induction xs)
  case (Cons x xs)
  then show ?case by (cases xs) auto
qed simp

lemma strchr_suffix: "strchr xs c = Some (Some ys) \<Longrightarrow> length ys \<le> length xs \<and> ys \<noteq> [] \<and> hd ys = c"
  by (induction xs c rule: strchr.induct) (auto split: if_splits list.splits)

section \<open>Properties\<close>

text \<open>
  C35. On terminated strings \<open>strcmp\<close> decides equality and the lexicographic order, \<open>strchr\<close> finds
  the first occurrence in a nonempty string, and \<open>strcpy\<close> copies the characters but not the
  terminator and overruns a destination that is too short.
\<close>

theorem string_functions:
  assumes "0 \<notin> set xs" and "0 \<notin> set ys"
  shows "(\<exists>r. strcmp (xs @ 0 # us) (ys @ 0 # vs) = Some r \<and> (r = 0 \<longleftrightarrow> xs = ys) \<and>
      (r < 0 \<longleftrightarrow> (xs, ys) \<in> lexord {(a, b). a < b})) \<and>
    (xs \<noteq> [] \<and> c \<noteq> 0 \<longrightarrow> strchr (xs @ 0 # us) c =
      Some (if c \<in> set xs then Some (dropWhile (\<lambda>x. x \<noteq> c) xs @ 0 # us) else None)) \<and>
    strcpy dst (xs @ 0 # us) =
      (if length xs \<le> length dst then Some (xs @ drop (length xs) dst) else None)"
  using strcmp_terminated [OF assms] strchr_terminated [OF assms(1)] strcpy_terminated [OF assms(1)]
    strcpy_too_long [OF assms(1), of dst "0 # us"]
  by (auto simp: not_le)

theorem string_functions_witness:
  "strcpy [9, 9, 9] [65, 66, 0] = Some [65, 66, 9] \<and>
   (\<exists>r. strcmp [65, 66, 0] [65, 67, 0] = Some r \<and> r < 0)"
  using string_functions [of "[65, 66]" "[65, 67]" "[]" "[]" 0 "[9, 9, 9]"] by auto

end
