(* ===== verification/Fat12.thy ===== *)
theory Fat12
  imports Floppy Cstring
begin

text \<open>
  The FAT12 file system and the volume layer, \<^verbatim>\<open>filesystem/fat12.c\<close> and \<^verbatim>\<open>filesystem/file.c\<close>, with
  the on-disk structures of \<^verbatim>\<open>fat12.h\<close> and \<^verbatim>\<open>bpb.h\<close>. Sectors come from \<open>fd_read_sector\<close> as a pointer
  into memory (the null pointer is address 0, from which the code reads as from any other).
  A local \<^verbatim>\<open>FILE\<close> that the code leaves partly uninitialised is an argument; path arguments are the
  bytes of the C object. \<open>None\<close>: an access behind the end of an object, a division by zero, or a
  wait that does not end.
\<close>

unbundle bit_operations_syntax

section \<open>Data\<close>

abbreviation SECTOR_SIZE :: u32 where "SECTOR_SIZE \<equiv> 512"

record MOUNT_INFO =
  num_sectors :: u32
  fat_offset :: u32
  num_root_entries :: u32
  root_offset :: u32
  root_size :: u32
  fat_size :: u32
  fat_entry_size :: u32
  data_offset :: u32

record DIRECTORY =
  dir_filename :: "u8 list" \<comment> \<open>name and extension, which follow each other: 11 bytes\<close>
  dir_attrib :: u8
  dir_first_cluster :: u16
  dir_filesize :: u32

record BIOSPARAMATERBLOCK =
  bpb_bytes_per_sector :: u16
  bpb_sectors_per_cluster :: u8
  bpb_reserved_sectors :: u16
  bpb_number_of_fats :: u8
  bpb_num_root_entries :: u16
  bpb_num_sectors :: u16
  bpb_sectors_per_fat :: u16

abbreviation FS_FILE :: u32 where "FS_FILE \<equiv> 0"
abbreviation FS_DIRECTORY :: u32 where "FS_DIRECTORY \<equiv> 1"
abbreviation FS_INVAILD :: u32 where "FS_INVAILD \<equiv> 2"

record FILE =
  f_name :: "u8 list" \<comment> \<open>32 bytes\<close>
  f_flags :: u32
  f_size :: u32
  f_id :: u32
  f_end :: u32
  f_position :: u32
  f_current_cluster :: u32
  f_device_id :: u32

text \<open>
  The only file system is FAT12; an entry of the table of file systems is a null pointer or a
  pointer to its descriptor, whose function pointers are those that \<open>fat_init\<close> sets.
\<close>

datatype FILESYSTEM = Fat12

record fat_state = fd_state +
  mount_info :: MOUNT_INFO
  FAT :: "u8 list"
  file_system :: "FILESYSTEM option list"

type_synonym 'a fat = "'a fat_state_scheme"

text \<open>The structures behind a pointer, at the offsets that the packed declarations give.\<close>

definition read_directory :: "memory \<Rightarrow> u32 \<Rightarrow> DIRECTORY" where
  "read_directory m p =
     \<lparr>dir_filename = bytes_at m p 11, dir_attrib = m (p + 11),
      dir_first_cluster = load16 m (p + 26), dir_filesize = load32 m (p + 28)\<rparr>"

definition read_bpb :: "memory \<Rightarrow> u32 \<Rightarrow> BIOSPARAMATERBLOCK" where
  "read_bpb m p =
     \<lparr>bpb_bytes_per_sector = load16 m (p + 11), bpb_sectors_per_cluster = m (p + 13),
      bpb_reserved_sectors = load16 m (p + 14), bpb_number_of_fats = m (p + 16),
      bpb_num_root_entries = load16 m (p + 17), bpb_num_sectors = load16 m (p + 19),
      bpb_sectors_per_fat = load16 m (p + 22)\<rparr>"

section \<open>Directories\<close>

text \<open>The file that a matching directory entry describes.\<close>

definition dir_file :: "FILE \<Rightarrow> u8 list \<Rightarrow> DIRECTORY \<Rightarrow> FILE option" where
  "dir_file file fname dir = do {
     name \<leftarrow> strcpy (f_name file) fname;
     let file = file\<lparr>f_name := name, f_id := 0, f_current_cluster := ucast (dir_first_cluster dir),
                     f_size := dir_filesize dir, f_end := 0\<rparr>;
     Some (if dir_attrib dir = 0x10 then file\<lparr>f_flags := FS_DIRECTORY\<rparr>
           else file\<lparr>f_flags := FS_FILE\<rparr>)
   }"

text \<open>
  The loop over the 16 entries of a directory sector from \<open>dir\<close> on; \<open>Some None\<close>: none matches.
\<close>

primrec fat_scan_entries ::
  "nat \<Rightarrow> u8 list \<Rightarrow> u8 list \<Rightarrow> FILE \<Rightarrow> memory \<Rightarrow> u32 \<Rightarrow> FILE option option" where
  "fat_scan_entries 0 dos_fname fname file m dir = Some None"
| "fat_scan_entries (Suc n) dos_fname fname file m dir = do {
     let d = read_directory m dir;
     r \<leftarrow> strncmp 11 dos_fname (dir_filename d);
     if r = 0 then do { f \<leftarrow> dir_file file fname d; Some (Some f) }
     else fat_scan_entries n dos_fname fname file m (dir + 32)
   }"

definition dos_name :: "u8 list \<Rightarrow> u8 list option" where
  \<comment> \<open>\<^verbatim>\<open>memcpy(dos_fname, fname, 11); dos_fname[11] = 0\<close>\<close>
  "dos_name fname = (if length fname < 11 then None else Some (take 11 fname @ [0]))"

primrec fat_root_loop ::
  "nat \<Rightarrow> u32 \<Rightarrow> u8 list \<Rightarrow> u8 list \<Rightarrow> FILE \<Rightarrow> 'a fat \<Rightarrow> (FILE \<times> 'a fat) option" where
  "fat_root_loop 0 i dos_fname fname file s = Some (file\<lparr>f_flags := FS_INVAILD\<rparr>, s)"
| "fat_root_loop (Suc n) i dos_fname fname file s = do {
     (dir, s) \<leftarrow> fd_read_sector (root_offset (mount_info s) + i) s;
     r \<leftarrow> fat_scan_entries 16 dos_fname fname file (ram s) dir;
     case r of Some f \<Rightarrow> Some (f, s) | None \<Rightarrow> fat_root_loop n (i + 1) dos_fname fname file s
   }"

definition fat_parse_rootdir :: "FILE \<Rightarrow> u8 list \<Rightarrow> 'a fat \<Rightarrow> (FILE \<times> 'a fat) option" where
  "fat_parse_rootdir file fname s = do {
     dos_fname \<leftarrow> dos_name fname;
     fat_root_loop 14 0 dos_fname fname file s
   }"

section \<open>Reading\<close>

definition fat_entry :: "u32 \<Rightarrow> u16 \<Rightarrow> u16" where
  \<comment> \<open>the 12-bit entry of a cluster in the word read for it\<close>
  "fat_entry cluster w = (if cluster mod 2 = 0 then w AND 0xFFF else drop_bit 4 w)"

definition list_word :: "u8 list \<Rightarrow> nat \<Rightarrow> u16" where
  "list_word b k = ucast (b ! k) OR push_bit 8 (ucast (b ! (k + 1)))"

text \<open>The middle of \<open>fat_read_file\<close>: the table entry of a cluster, from the two sectors it may be in.\<close>

definition fat_next_cluster :: "u32 \<Rightarrow> 'a fat \<Rightarrow> (u16 \<times> 'a fat) option" where
  "fat_next_cluster cur_cluster s = do {
     let entry_offset = cur_cluster div 2 + cur_cluster;
     let fat_sector = entry_offset div SECTOR_SIZE + 1;
     let fat_entry_offset = entry_offset mod SECTOR_SIZE;
     (sector, s) \<leftarrow> fd_read_sector fat_sector s;
     let s = s\<lparr>FAT := bytes_at (ram s) sector 512 @ drop 512 (FAT s)\<rparr>;
     (sector, s) \<leftarrow> fd_read_sector (fat_sector + 1) s;
     let s = s\<lparr>FAT := take 512 (FAT s) @ bytes_at (ram s) sector 512\<rparr>;
     Some (fat_entry cur_cluster (list_word (FAT s) (unat fat_entry_offset)), s)
   }"

definition fat_read_file :: "FILE option \<Rightarrow> u32 \<Rightarrow> 'a fat \<Rightarrow> (FILE option \<times> 'a fat) option" where
  "fat_read_file file buffer s =
     (case file of
        None \<Rightarrow> Some (None, s)
      | Some file \<Rightarrow> do {
          let cur_cluster = f_current_cluster file;
          let data_sector = fd_chs_to_lba (ucast cur_cluster) + data_offset (mount_info s);
          (sector, s) \<leftarrow> fd_read_sector data_sector s;
          let s = s\<lparr>ram := memcpy buffer sector SECTOR_SIZE (ram s)\<rparr>;
          (next_cluster, s) \<leftarrow> fat_next_cluster cur_cluster s;
          if 0xFF8 \<le> next_cluster then Some (Some (file\<lparr>f_end := 1\<rparr>), s)
          else if next_cluster = 0 then Some (Some (file\<lparr>f_end := 1\<rparr>), s)
          else Some (Some (file\<lparr>f_current_cluster := ucast next_cluster\<rparr>), s)
        })"

text \<open>
  \<open>fat_parse_subdir\<close> reads the directory cluster by cluster into the local \<^verbatim>\<open>buffer[512]\<close>, at address
  \<open>buffer\<close>; on a cyclic chain without the name it does not end.
\<close>

partial_function (option) fat_subdir_loop ::
  "u32 \<Rightarrow> u8 list \<Rightarrow> u8 list \<Rightarrow> FILE \<Rightarrow> FILE \<Rightarrow> 'a fat \<Rightarrow> (FILE \<times> 'a fat) option" where
  "fat_subdir_loop buffer dos_fname fname file kfile s =
     (if f_end kfile \<noteq> 0 then Some (file\<lparr>f_flags := FS_INVAILD\<rparr>, s)
      else Option.bind (fat_read_file (Some kfile) buffer s) (\<lambda>(k, s).
        Option.bind (fat_scan_entries 16 dos_fname fname file (ram s) buffer) (\<lambda>r.
          case r of
            Some f \<Rightarrow> Some (f, s)
          | None \<Rightarrow> fat_subdir_loop buffer dos_fname fname file (the k) s)))"

definition fat_parse_subdir :: "u32 \<Rightarrow> FILE \<Rightarrow> FILE \<Rightarrow> u8 list \<Rightarrow> 'a fat \<Rightarrow> (FILE \<times> 'a fat) option" where
  "fat_parse_subdir buffer file kfile fname s = do {
     dos_fname \<leftarrow> dos_name fname;
     fat_subdir_loop buffer dos_fname fname file kfile s
   }"

definition fat_close_file :: "FILE option \<Rightarrow> FILE option" where
  "fat_close_file file = map_option (\<lambda>f. f\<lparr>f_flags := FS_INVAILD\<rparr>) file"

section \<open>Opening\<close>

text \<open>
  With a backslash in the path the code copies the next component through the null pointer
  \<^verbatim>\<open>pathname\<close>, that is to address 0 on, never calls the directory functions, and tests the flags of
  the uninitialised \<^verbatim>\<open>curdir\<close>. \<open>copy_component\<close> is the copying loop: the memory and the rest of the
  path.
\<close>

fun copy_component :: "u32 \<Rightarrow> u8 list \<Rightarrow> memory \<Rightarrow> (u8 list \<times> memory) option" where
  "copy_component i [] m = None"
| "copy_component i (c # p) m =
     (if c \<noteq> 0x5C \<and> c \<noteq> 0 then copy_component (i + 1) p (m(i := c)) else Some (c # p, m))"

lemma copy_component_suffix: "copy_component i p m = Some (q, m') \<Longrightarrow> length q \<le> length p"
  by (induction i p m rule: copy_component.induct) (auto split: if_splits)

function fat_open_path :: "FILE \<Rightarrow> u8 list \<Rightarrow> 'a fat \<Rightarrow> (FILE \<times> 'a fat) option" where
  "fat_open_path cdir p s =
     (case copy_component 0 p (ram s) of
        None \<Rightarrow> None
      | Some (p', m) \<Rightarrow>
          let s = s\<lparr>ram := m\<rparr>
          in if f_flags cdir = FS_INVAILD then Some (cdir\<lparr>f_flags := FS_INVAILD\<rparr>, s)
             else if f_flags cdir = FS_FILE then Some (cdir, s)
             else case strchr p' 0x5C of
                    None \<Rightarrow> None
                  | Some None \<Rightarrow> Some (cdir\<lparr>f_flags := FS_INVAILD\<rparr>, s)
                  | Some (Some q) \<Rightarrow> fat_open_path cdir (tl q) s)"
  by pat_completeness auto
termination
proof (relation "measure (\<lambda>(_, p, _). length p)")
  fix cdir p and s :: "'a fat" and a :: "u8 list \<times> memory" and p' m t q' q
  assume "copy_component 0 p (ram s) = Some a" "(p', m) = a" "strchr p' 0x5C = Some q'" "q' = Some q"
  then have "length q \<le> length p" "q \<noteq> []"
    using copy_component_suffix strchr_suffix [of p' "0x5C" q] by fastforce+
  then show "((cdir, tl q, t), cdir, p, s) \<in> measure (\<lambda>(_, p, _). length p)"
    by (cases q) auto
qed simp

declare fat_open_path.simps [simp del]

definition fat_open_file :: "FILE \<Rightarrow> u8 list \<Rightarrow> 'a fat \<Rightarrow> (FILE \<times> 'a fat) option" where
  \<comment> \<open>the first argument stands for the uninitialised locals\<close>
  "fat_open_file junk path s = do {
     p \<leftarrow> strchr path 0x5C;
     case p of
       None \<Rightarrow> do {
         (cdir, s) \<leftarrow> fat_parse_rootdir junk path s;
         if f_flags cdir = FS_FILE then Some (cdir, s)
         else Some (junk\<lparr>f_flags := FS_INVAILD\<rparr>, s)
       }
     | Some p \<Rightarrow> fat_open_path junk (tl p) s
   }"

section \<open>Loading an image into memory\<close>

text \<open>
  The functions the header marks as deprecated. The first arguments of the printing functions are
  the uninitialised character buffers of \<open>print_hex\<close> and \<open>print_dec\<close>.
\<close>

definition fat_display_image_size :: "u8 list \<Rightarrow> u8 list \<Rightarrow> u32 \<Rightarrow> 'a fat \<Rightarrow> 'a fat option" where
  "fat_display_image_size buf buf' sector_count s = do {
     s \<leftarrow> print_string (cstr ''image size: '') s;
     s \<leftarrow> print_dec buf (sint sector_count) s;
     s \<leftarrow> print_string (cstr '' sectors, '') s;
     s \<leftarrow> print_dec buf' (sint (sector_count * SECTOR_SIZE)) s;
     print_string (cstr '' bytes'' @ [10, 10, 0]) s
   }"

primrec fat_find_loop :: "nat \<Rightarrow> u32 \<Rightarrow> u8 list \<Rightarrow> u32 \<Rightarrow> memory \<Rightarrow> u32 option" where
  "fat_find_loop 0 i img_name buffer m = Some 0"
| "fat_find_loop (Suc n) i img_name buffer m = do {
     r \<leftarrow> strncmp 11 img_name (bytes_at m (buffer + i * 32) 11);
     if r = 0 then Some (buffer + i * 32) else fat_find_loop n (i + 1) img_name buffer m
   }"

definition fat_find_image :: "u8 list \<Rightarrow> u32 \<Rightarrow> 'a fat \<Rightarrow> u32 option" where
  "fat_find_image img_name buffer s =
     fat_find_loop (unat (num_root_entries (mount_info s))) 0 img_name buffer (ram s)"

text \<open>\<open>n\<close> sectors from \<open>first\<close> on, each copied when the driver returned a pointer.\<close>

primrec fat_load_sectors :: "nat \<Rightarrow> u32 \<Rightarrow> u32 \<Rightarrow> u32 \<Rightarrow> 'a fat \<Rightarrow> 'a fat option" where
  "fat_load_sectors 0 i first buffer s = Some s"
| "fat_load_sectors (Suc n) i first buffer s = do {
     (sector, s) \<leftarrow> fd_read_sector (first + i) s;
     let s = (if sector \<noteq> 0
              then s\<lparr>ram := memcpy (buffer + i * SECTOR_SIZE) sector SECTOR_SIZE (ram s)\<rparr> else s);
     fat_load_sectors n (i + 1) first buffer s
   }"

definition fat_load_FAT :: "u32 \<Rightarrow> 'a fat \<Rightarrow> 'a fat option" where
  "fat_load_FAT buffer s =
     fat_load_sectors (unat (fat_size (mount_info s))) 0 (fat_offset (mount_info s)) buffer s"

definition fat_load_root :: "u32 \<Rightarrow> 'a fat \<Rightarrow> 'a fat option" where
  "fat_load_root buffer s =
     fat_load_sectors (unat (root_size (mount_info s))) 0 (root_offset (mount_info s)) buffer s"

partial_function (option) fat_load_clusters ::
  "u8 list \<Rightarrow> u32 \<Rightarrow> u32 \<Rightarrow> u16 \<Rightarrow> u32 \<Rightarrow> 'a fat \<Rightarrow> (u32 \<times> 'a fat) option" where
  \<comment> \<open>a cluster has one sector, so that the loop over its sectors has one pass\<close>
  "fat_load_clusters buf buffer fat_buffer cluster sector_count s =
     (if 0x0FF0 \<le> cluster then Some (sector_count, s)
      else Option.bind (fd_read_sector (fd_chs_to_lba cluster + data_offset (mount_info s)) s) (\<lambda>(sector, s).
        let s = (if sector \<noteq> 0
                 then s\<lparr>ram := memcpy (buffer + sector_count * SECTOR_SIZE) sector SECTOR_SIZE (ram s)\<rparr>
                 else s);
            next = fat_entry (ucast cluster)
                     (load16 (ram s) (fat_buffer + (ucast (cluster div 2) + ucast cluster)))
        in Option.bind (print_hex buf (ucast next) s) (\<lambda>s.
          fat_load_clusters buf buffer fat_buffer next (sector_count + 1) (print_char 0x20 s))))"

definition fat_load_image :: "u8 list \<Rightarrow> u32 \<Rightarrow> u32 \<Rightarrow> u16 \<Rightarrow> 'a fat \<Rightarrow> (u32 \<times> 'a fat) option" where
  "fat_load_image buf buffer fat_buffer img_cluster s = do {
     s \<leftarrow> print_hex buf (ucast img_cluster) s;
     fat_load_clusters buf buffer fat_buffer img_cluster 0 (print_char 0x20 s)
   }"

section \<open>Mounting\<close>

definition fat_mount :: "'a fat \<Rightarrow> 'a fat option" where
  "fat_mount s = do {
     (boot_sector, s) \<leftarrow> fd_read_sector 0 s;
     let bpb = read_bpb (ram s) boot_sector;
     let root = ucast (bpb_number_of_fats bpb) * ucast (bpb_sectors_per_fat bpb)
                + ucast (bpb_reserved_sectors bpb);
     if bpb_bytes_per_sector bpb = 0 then None
     else do {
       let rsize = ucast (bpb_num_root_entries bpb) * 32 div ucast (bpb_bytes_per_sector bpb);
       Some (s\<lparr>mount_info :=
         \<lparr>num_sectors = ucast (bpb_num_sectors bpb), fat_offset = ucast (bpb_reserved_sectors bpb),
          num_root_entries = ucast (bpb_num_root_entries bpb), root_offset = root,
          root_size = rsize, fat_size = ucast (bpb_sectors_per_fat bpb), fat_entry_size = 8,
          data_offset = root + rsize\<rparr>\<rparr>)
     }
   }"

section \<open>Volumes\<close>

abbreviation DEVICE_MAX :: u32 where "DEVICE_MAX \<equiv> 26"

definition file_system_at :: "u32 \<Rightarrow> 'a fat \<Rightarrow> FILESYSTEM option option" where
  "file_system_at i s = (if unat i < length (file_system s) then Some (file_system s ! unat i) else None)"

definition vol_register_filesystem :: "FILESYSTEM option \<Rightarrow> u32 \<Rightarrow> 'a fat \<Rightarrow> 'a fat option" where
  "vol_register_filesystem system device_id s =
     (if DEVICE_MAX < device_id then Some s
      else if length (file_system s) \<le> unat device_id then None
      else Some (s\<lparr>file_system := (file_system s)[unat device_id := system]\<rparr>))"

definition vol_register_filesystem_by_id :: "u32 \<Rightarrow> 'a fat \<Rightarrow> 'a fat option" where
  "vol_register_filesystem_by_id device_id s =
     (if DEVICE_MAX < device_id then Some s
      else if length (file_system s) \<le> unat device_id then None
      else Some (s\<lparr>file_system := (file_system s)[unat device_id := None]\<rparr>))"

definition vol_unregister_filesystem :: "FILESYSTEM option \<Rightarrow> 'a fat \<Rightarrow> 'a fat" where
  "vol_unregister_filesystem system s =
     for_u32 0 DEVICE_MAX (\<lambda>i s. if file_system s ! unat i = system
       then s\<lparr>file_system := (file_system s)[unat i := None]\<rparr> else s) s"

definition vol_read_file :: "FILE option \<Rightarrow> u32 \<Rightarrow> 'a fat \<Rightarrow> (FILE option \<times> 'a fat) option" where
  "vol_read_file file buffer s =
     (case file of
        None \<Rightarrow> Some (None, s)
      | Some f \<Rightarrow> do {
          system \<leftarrow> file_system_at (f_device_id f - 0x61) s;
          case system of None \<Rightarrow> Some (file, s) | Some Fat12 \<Rightarrow> fat_read_file file buffer s
        })"

definition vol_close_file :: "FILE option \<Rightarrow> 'a fat \<Rightarrow> (FILE option \<times> 'a fat) option" where
  "vol_close_file file s =
     (case file of
        None \<Rightarrow> Some (None, s)
      | Some f \<Rightarrow> do {
          system \<leftarrow> file_system_at (f_device_id f - 0x61) s;
          case system of None \<Rightarrow> Some (file, s) | Some Fat12 \<Rightarrow> Some (fat_close_file file, s)
        })"

definition invalid_file :: "FILE \<Rightarrow> FILE" where
  "invalid_file junk = junk\<lparr>f_flags := FS_INVAILD\<rparr>"

definition get_filename :: "u8 list \<Rightarrow> u8 list option" where
  "get_filename fname =
     (if length fname < 2 then None else if fname ! 1 = 0x3A then Some (drop 2 fname) else Some fname)"

definition get_device :: "u8 list \<Rightarrow> u8 option" where
  "get_device fname =
     (if length fname < 2 then None else if fname ! 1 = 0x3A then Some (fname ! 0) else Some 0x61)"

definition vol_open_file_impl :: "FILE \<Rightarrow> u8 list \<Rightarrow> u8 \<Rightarrow> 'a fat \<Rightarrow> (FILE \<times> 'a fat) option" where
  "vol_open_file_impl junk fname device s = do {
     system \<leftarrow> file_system_at (ucast device - 0x61) s;
     case system of
       None \<Rightarrow> Some (invalid_file junk, s)
     | Some Fat12 \<Rightarrow> do {
         (file, s) \<leftarrow> fat_open_file junk fname s;
         Some (file\<lparr>f_device_id := ucast device\<rparr>, s)
       }
   }"

definition vol_open_file :: "FILE \<Rightarrow> u8 list option \<Rightarrow> 'a fat \<Rightarrow> (FILE \<times> 'a fat) option" where
  "vol_open_file junk fname s =
     (case fname of
        None \<Rightarrow> Some (invalid_file junk, s)
      | Some fname \<Rightarrow> do {
          filename \<leftarrow> get_filename fname;
          device \<leftarrow> get_device fname;
          vol_open_file_impl junk filename device s
        })"

definition fat_init :: "'a fat \<Rightarrow> 'a fat option" where
  "fat_init s = do { s \<leftarrow> vol_register_filesystem (Some Fat12) 0 s; fat_mount s }"

end
