(* ===== verification/Physical_search.thy ===== *)
theory Physical_search
  imports Physical_mmngr
begin
unbundle bit_operations_syntax

section \<open>The search\<close>

lemma and_single_bit_iff: "(w::u32) AND push_bit n 1 = 0 \<longleftrightarrow> \<not> bit w n"
  by (simp only: bit_iff_and_push_bit_not_eq_0 not_not)

lemma skip_words_0 [simp]: "skip_words mmap_size 0 idx = idx"
  by (simp add: skip_words.simps)

lemma skip_words_plain:
  "unat idx + unat c < unat mmap_size \<Longrightarrow> skip_words mmap_size c idx = idx + c"
proof (induction mmap_size c idx rule: skip_words.induct)
  case (1 mmap_size c idx)
  show ?case
  proof (cases "c = 0")
    case True
    then show ?thesis by simp
  next
    case False
    then have c: "0 < c" "unat c = Suc (unat (c - 1))"
      by (auto simp: word_gt_0 unat_minus_one unat_gt_0)
    then have "idx < mmap_size" using "1.prems" by (simp add: word_less_nat_alt)
    then have s: "unat (idx + 1) = Suc (unat idx)" by (rule unat_Suc_less)
    with c "1.prems" have "idx + 1 < mmap_size" by (simp add: word_less_nat_alt)
    with 1 c s show ?thesis by (simp add: skip_words.simps [of mmap_size c idx])
  qed
qed

text \<open>A probe inside the map reads the bit of the block it is about.\<close>

lemma probe_free_plain:
  assumes "unat i * 32 + unat n < 32 * unat mmap_size" "unat mmap_size \<le> 2 ^ 27"
  shows "probe_free s mmap_size i n \<longleftrightarrow> \<not> block_used s (i * 32 + n)"
proof -
  have u: "unat (i * 32 + n) = unat i * 32 + unat n"
    using assms by (simp add: unat_word_ariths)
  have "unat i + unat n div 32 < unat mmap_size" using assms by simp
  then have "skip_words mmap_size (n div 32) i = i + n div 32"
    by (intro skip_words_plain) (simp add: unat_div)
  moreover have "(i * 32 + n) div 32 = i + n div 32"
    using assms by (intro word_unat_eq_iff [THEN iffD2]) (simp add: unat_div u unat_word_ariths)
  moreover have "unat ((i * 32 + n) mod 32) = unat (n mod 32)"
    by (simp add: unat_mod u)
  ultimately show ?thesis
    by (simp add: probe_free_def and_single_bit_iff block_used_def del: push_bit_of_1)
qed

lemma run_free_iff:
  "count \<le> blocks \<Longrightarrow> free_blocks \<le> count \<Longrightarrow> free_blocks < blocks \<Longrightarrow>
   run_free s blocks mmap_size i j count free_blocks \<longleftrightarrow>
     free_blocks = count \<and> (\<forall>k. count \<le> k \<and> k < blocks \<longrightarrow> probe_free s mmap_size i (j + k))"
proof (induction s blocks mmap_size i j count free_blocks rule: run_free.induct)
  case (1 s blocks mmap_size i j count free_blocks)
  show ?case
  proof (cases "count < blocks")
    case False
    then have "\<not> run_free s blocks mmap_size i j count free_blocks"
      by (simp add: run_free.simps)
    with False 1 show ?thesis by auto
  next
    case lt: True
    let ?p = "probe_free s mmap_size i (j + count)"
    let ?f = "if ?p then free_blocks + 1 else free_blocks"
    have split: "(\<forall>k. count \<le> k \<and> k < blocks \<longrightarrow> probe_free s mmap_size i (j + k)) \<longleftrightarrow>
        ?p \<and> (\<forall>k. count + 1 \<le> k \<and> k < blocks \<longrightarrow> probe_free s mmap_size i (j + k))"
    proof -
      have "count \<le> k \<longleftrightarrow> k = count \<or> count + 1 \<le> k" for k
        by (auto simp: Suc_le_word [OF lt])
      then show ?thesis using lt by metis
    qed
    have f: "?f \<le> count + 1" "count + 1 \<le> blocks"
      using 1(3,4) lt by (auto simp: Suc_le_word [OF lt]) unat_arith+
    have last: "count + 1 = blocks" if "free_blocks + 1 = blocks"
      using that lt 1(3,4) by unat_arith
    have eq1: "free_blocks + 1 = count + 1 \<longleftrightarrow> free_blocks = count" by simp
    have eq2: "free_blocks \<noteq> count + 1" using 1(3) lt by unat_arith
    show ?thesis
    proof (cases "?f = blocks")
      case True
      then have "?p" using 1(4) by (auto split: if_splits)
      with True have "free_blocks + 1 = blocks" "count + 1 = blocks" using last by auto
      then have "free_blocks = count" by (metis add_right_cancel)
      moreover have "run_free s blocks mmap_size i j count free_blocks"
        using True lt by (simp add: run_free.simps [of s blocks mmap_size i j count free_blocks] Let_def)
      moreover have "\<not> (count + 1 \<le> k \<and> k < blocks)" for k
        using \<open>count + 1 = blocks\<close> by auto
      ultimately show ?thesis
        unfolding split using \<open>?p\<close> by blast
    next
      case False
      have "?f < blocks" using False 1(4) by (auto split: if_splits) unat_arith
      with False lt 1(1) [OF lt refl False f(2) f(1)] show ?thesis
        unfolding split using eq1 eq2
        by (auto simp: run_free.simps [of s blocks mmap_size i j count free_blocks] Let_def)
    qed
  qed
qed


text \<open>
  \<open>candidate s n c\<close>: the search accepts \<open>c\<close> as the start of a run of \<open>n\<close> blocks.
\<close>

definition candidate :: "'a pmm \<Rightarrow> u32 \<Rightarrow> u32 \<Rightarrow> bool" where
  "candidate s n c \<longleftrightarrow>
     c div 32 < max_blocks s div 32 \<and>
     (\<forall>k<n. probe_free s (max_blocks s div 32) (c div 32) (c mod 32 + k))"

lemma unat_word_of_block:
  assumes "i < 0x8000000" "j < (32::u32)"
  shows "unat (i * 32 + j) = unat i * 32 + unat j"
  using assms by (simp add: unat_word_ariths word_less_nat_alt)

lemma block_div_mod:
  assumes "i < 0x8000000" "j < (32::u32)"
  shows "(i * 32 + j) div 32 = i" "(i * 32 + j) mod 32 = j"
  using assms by (simp_all add: word_unat_eq_iff unat_div unat_mod unat_word_of_block
      word_less_nat_alt)

lemma block_split: "(c::u32) = (c div 32) * 32 + c mod 32" "c mod 32 < 32"
  by (simp_all add: word_mod_div_equality word_less_nat_alt unat_mod)

lemma block_less_iff: "(c::u32) < d \<longleftrightarrow> c div 32 < d div 32 \<or> c div 32 = d div 32 \<and> c mod 32 < d mod 32"
proof -
  have "(x::nat) < y \<longleftrightarrow> x div 32 < y div 32 \<or> x div 32 = y div 32 \<and> x mod 32 < y mod 32" for x y
    using div_mult_mod_eq [of x 32] div_mult_mod_eq [of y 32]
      mod_less_divisor [of 32 x] mod_less_divisor [of 32 y] by linarith
  from this [of "unat c" "unat d"] show ?thesis
    unfolding word_less_nat_alt word_unat_eq_iff unat_div unat_mod by simp
qed

lemma mmap_size_bound: "(n::u32) div 32 \<le> 0x7FFFFFF"
  using unat_u32_bound [of n] by (simp add: word_le_nat_alt unat_div)

text \<open>The body of the two outer loops returns exactly the candidates.\<close>

lemma first_free_body:
  assumes "n \<noteq> 0" "i < max_blocks s div 32" "j < 32"
  shows "(mmap_word s i \<noteq> 0xFFFFFFFF \<and> mmap_word s i AND push_bit (unat (j mod 32)) 1 = 0 \<and>
           run_free s n (max_blocks s div 32) i j 0 0) \<longleftrightarrow> candidate s n (i * 32 + j)"
proof -
  have i: "i < 0x8000000"
    using assms(2) mmap_size_bound [of "max_blocks s"] by (simp add: word_less_nat_alt word_le_nat_alt)
  have j: "j mod 32 = j" "j div 32 = 0"
    using assms(3) by (simp_all add: word_unat_eq_iff unat_mod unat_div word_less_nat_alt)
  have run: "run_free s n (max_blocks s div 32) i j 0 0 \<longleftrightarrow>
      (\<forall>k<n. probe_free s (max_blocks s div 32) i (j + k))"
    using run_free_iff [of 0 n 0 s] assms(1) by (simp add: word_gt_0)
  have ones: "bit (0xFFFFFFFF :: u32) (unat j)"
    using assms(3) mask_eq_exp_minus_1 [of 32, where ?'a = u32]
      bit_mask_iff [of 32 "unat j", where ?'a = u32]
    by (simp add: word_less_nat_alt)
  have "\<not> bit (mmap_word s i) (unat j)" if "probe_free s (max_blocks s div 32) i j"
    using that by (simp add: probe_free_def j and_single_bit_iff del: push_bit_of_1)
  moreover have "0 < n" using assms(1) by (simp add: word_gt_0)
  ultimately show ?thesis
    using ones assms(2)
    by (auto simp: candidate_def block_div_mod [OF i assms(3)] run j and_single_bit_iff
        simp del: push_bit_of_1)
qed


lemma first_free_inner:
  assumes "n \<noteq> 0" "i < max_blocks s div 32"
  defines "inner \<equiv> (if mmap_word s i \<noteq> 0xFFFFFFFF then first_u32 0 32 (\<lambda>j.
      if mmap_word s i AND push_bit (unat (j mod 32)) 1 = 0 then
        (if run_free s n (max_blocks s div 32) i j 0 0 then Some (i * 32 + j) else None)
      else None) else None)"
  shows "inner = None \<longleftrightarrow> (\<forall>c. c div 32 = i \<longrightarrow> \<not> candidate s n c)"
    and "inner = Some b \<longleftrightarrow>
      b div 32 = i \<and> candidate s n b \<and> (\<forall>c. c div 32 = i \<and> c < b \<longrightarrow> \<not> candidate s n c)"
proof -
  have i: "i < 0x8000000"
    using assms(2) mmap_size_bound [of "max_blocks s"] by (simp add: word_less_nat_alt word_le_nat_alt)
  let ?g = "\<lambda>j. if candidate s n (i * 32 + j) then Some (i * 32 + j) else None"
  have inner: "inner = first_u32 0 32 ?g"
  proof (cases "mmap_word s i = 0xFFFFFFFF")
    case True
    then show ?thesis
      using first_free_body [OF assms(1,2)] by (auto simp: inner_def first_u32_None_iff eq_commute [of None])
  next
    case False
    then show ?thesis
      using first_free_body [OF assms(1,2)] by (simp add: inner_def del: push_bit_of_1) (rule first_u32_cong, auto)
  qed
  have blk: "i * 32 + c mod 32 = c" if "c div 32 = i" for c
    using that block_split(1) [of c] by simp
  show "inner = None \<longleftrightarrow> (\<forall>c. c div 32 = i \<longrightarrow> \<not> candidate s n c)"
    unfolding inner first_u32_None_iff
    by (metis block_div_mod(1) [OF i] block_split(2) blk option.discI word_zero_le)
  show "inner = Some b \<longleftrightarrow>
      b div 32 = i \<and> candidate s n b \<and> (\<forall>c. c div 32 = i \<and> c < b \<longrightarrow> \<not> candidate s n c)"
    (is "?l \<longleftrightarrow> ?r")
  proof
    assume ?l
    then obtain j where j: "j < 32" "candidate s n (i * 32 + j)" "b = i * 32 + j"
      and min: "\<And>j'. j' < j \<Longrightarrow> \<not> candidate s n (i * 32 + j')"
      unfolding inner first_u32_Some_iff by (auto split: if_splits)
    have "\<not> candidate s n c" if "c div 32 = i" "c < b" for c
    proof -
      have "c mod 32 < j"
        using that(2) unfolding block_less_iff [of c b]
        by (simp add: that(1) j(3) block_div_mod [OF i j(1)])
      from min [OF this] show ?thesis by (simp add: blk [OF that(1)])
    qed
    with j block_div_mod [OF i j(1)] show ?r by auto
  next
    assume r: ?r
    then have "?g (b mod 32) = Some b" by (simp add: blk)
    moreover have "?g j' = None" if "j' < b mod 32" for j'
      using r that block_div_mod [OF i, of j'] less_trans [OF that block_split(2)]
      by (auto simp: block_less_iff [of _ b])
    ultimately show ?l
      unfolding inner first_u32_Some_iff using block_split(2) [of b]
      by (intro exI [of _ "b mod 32"]) simp
  qed
qed

theorem mmap_first_free_blocks_cases:
  assumes "n \<noteq> 0"
  shows "mmap_first_free_blocks n s = - 1 \<and> (\<forall>c. \<not> candidate s n c) \<or>
    mmap_first_free_blocks n s \<noteq> - 1 \<and> candidate s n (mmap_first_free_blocks n s) \<and>
      (\<forall>c < mmap_first_free_blocks n s. \<not> candidate s n c)"
proof -
  let ?inner = "\<lambda>i. (if mmap_word s i \<noteq> 0xFFFFFFFF then first_u32 0 32 (\<lambda>j.
      if mmap_word s i AND push_bit (unat (j mod 32)) 1 = 0 then
        (if run_free s n (max_blocks s div 32) i j 0 0 then Some (i * 32 + j) else None)
      else None) else None)"
  let ?all = "first_u32 0 (max_blocks s div 32) ?inner"
  have eq: "mmap_first_free_blocks n s = (case ?all of Some b \<Rightarrow> b | None \<Rightarrow> - 1)"
    using assms by (simp add: mmap_first_free_blocks_def pmmngr_get_block_count_def Let_def)
  note inner = first_free_inner [OF assms]
  show ?thesis
  proof (cases ?all)
    case None
    then have "?inner i = None" if "i < max_blocks s div 32" for i
      unfolding first_u32_None_iff using that by auto
    then have "\<not> candidate s n c" for c
      using inner(1) [of "c div 32" s] by (cases "c div 32 < max_blocks s div 32") (auto simp: candidate_def)
    with None eq show ?thesis by simp
  next
    case (Some b)
    then obtain i where i: "i < max_blocks s div 32" "?inner i = Some b"
      and before: "\<And>i'. i' < i \<Longrightarrow> ?inner i' = None"
      unfolding first_u32_Some_iff by auto
    from i(2) have b: "b div 32 = i" "candidate s n b"
      "\<And>c. c div 32 = i \<Longrightarrow> c < b \<Longrightarrow> \<not> candidate s n c"
      unfolding inner(2) [OF i(1)] by auto
    have "\<not> candidate s n c" if "c < b" for c
      using that b(1,3) inner(1) [THEN iffD1, OF _ before [of "c div 32"]] i(1)
      by (auto simp: block_less_iff [of c b] dest: less_trans)
    moreover have "b \<noteq> - 1"
    proof
      assume "b = - 1"
      then have "b div 32 = 0x7FFFFFF" by simp
      with i(1) b(1) mmap_size_bound [of "max_blocks s"] show False by simp
    qed
    ultimately show ?thesis using b(2) eq Some by simp
  qed
qed

end
