(* ===== verification/Physical_alloc.thy ===== *)
theory Physical_alloc
  imports Physical_search
begin

text \<open>
  What the operations of the physical memory manager do to the set of used blocks, the
  allocator contract for its clients, and ownership: runs handed out by the allocator never
  overlap.
\<close>

unbundle bit_operations_syntax

section \<open>Frames\<close>

lemma mmap_fields [simp]:
  "memory_map (mmap_set n s) = memory_map s" "max_blocks (mmap_set n s) = max_blocks s"
  "used_blocks (mmap_set n s) = used_blocks s" "memory_size (mmap_set n s) = memory_size s"
  "memory_map (mmap_unset n s) = memory_map s" "max_blocks (mmap_unset n s) = max_blocks s"
  "used_blocks (mmap_unset n s) = used_blocks s" "memory_size (mmap_unset n s) = memory_size s"
  "pmm_state.more (mmap_set n s) = pmm_state.more s"
  "pmm_state.more (mmap_unset n s) = pmm_state.more s"
  by (simp_all add: mmap_set_def mmap_unset_def)

lemma mark_fields [simp]:
  "memory_map (for_u32 i n (\<lambda>k. mmap_set (b + k)) s) = memory_map s"
  "max_blocks (for_u32 i n (\<lambda>k. mmap_set (b + k)) s) = max_blocks s"
  "used_blocks (for_u32 i n (\<lambda>k. mmap_set (b + k)) s) = used_blocks s"
  "memory_size (for_u32 i n (\<lambda>k. mmap_set (b + k)) s) = memory_size s"
  "pmm_state.more (for_u32 i n (\<lambda>k. mmap_set (b + k)) s) = pmm_state.more s"
  by (rule for_u32_invariant; simp)+

lemma unmark_fields [simp]:
  "memory_map (for_u32 i n (\<lambda>k. mmap_unset (b + k)) s) = memory_map s"
  "max_blocks (for_u32 i n (\<lambda>k. mmap_unset (b + k)) s) = max_blocks s"
  "used_blocks (for_u32 i n (\<lambda>k. mmap_unset (b + k)) s) = used_blocks s"
  "memory_size (for_u32 i n (\<lambda>k. mmap_unset (b + k)) s) = memory_size s"
  "pmm_state.more (for_u32 i n (\<lambda>k. mmap_unset (b + k)) s) = pmm_state.more s"
  by (rule for_u32_invariant; simp)+

lemma block_used_fields [simp]:
  "block_used (s\<lparr>used_blocks := u\<rparr>) = block_used s"
  by (simp add: block_used_def mmap_word_def fun_eq_iff)

text \<open>The bit of a block lies in byte \<open>n div 8\<close> of the map.\<close>

lemma bit_load32: "k < 32 \<Longrightarrow> bit (load32 m a) k = bit (m (a + of_nat (k div 8))) (k mod 8)"
proof -
  assume k: "k < 32"
  consider "k < 8" | "8 \<le> k" "k < 16" | "16 \<le> k" "k < 24" | "24 \<le> k" by linarith
  then show ?thesis
  proof cases
    case 1 then show ?thesis using k by (auto simp: load32_def bit_simps dest: bit_imp_le_length)
  next
    case 2
    then have "k div 8 = 1" "k mod 8 = k - 8" by (auto simp: div_if mod_if)
    with 2 k show ?thesis by (auto simp: load32_def bit_simps dest: bit_imp_le_length)
  next
    case 3
    then have "k div 8 = 2" "k mod 8 = k - 16" by (auto simp: div_if mod_if)
    with 3 k show ?thesis by (auto simp: load32_def bit_simps dest: bit_imp_le_length)
  next
    case 4
    then have "k div 8 = 3" "k mod 8 = k - 24" using k by (auto simp: div_if mod_if)
    with 4 k show ?thesis by (auto simp: load32_def bit_simps dest: bit_imp_le_length)
  qed
qed

lemma block_used_byte:
  "block_used s n = bit (ram s (memory_map s + n div 8)) (unat (n mod 8))"
proof -
  let ?k = "unat (n mod 32)"
  have "4 * (n div 32) + of_nat (?k div 8) = n div 8"
  proof (rule word_unat_eq_iff [THEN iffD2])
    have "?k div 8 < 4" using unat_mod32 [of n] by simp
    then have "unat (of_nat (?k div 8) :: u32) = ?k div 8" by (simp add: unat_of_nat_small)
    moreover have "4 * (unat n div 32) + (unat n mod 32) div 8 = unat n div 8"
    proof -
      have "unat n div 8 = (8 * (4 * (unat n div 32)) + unat n mod 32) div 8" by simp
      also have "\<dots> = 4 * (unat n div 32) + (unat n mod 32) div 8"
        by (simp only: div_mult_self4)
      finally show ?thesis by simp
    qed
    ultimately show "unat (4 * (n div 32) + of_nat (?k div 8)) = unat (n div 8)"
      using unat_u32_bound [of n] by (simp add: unat_word_ariths unat_div unat_mod)
  qed
  moreover have "?k mod 8 = unat (n mod 8)"
    by (simp add: unat_mod mod_mod_cancel)
  ultimately show ?thesis
    using bit_load32 [OF unat_mod32 [of n], of "ram s" "memory_map s + 4 * (n div 32)"]
    by (simp add: block_used_def mmap_word_def add.assoc)
qed

section \<open>Initialisation and regions\<close>

lemma block_used_init:
  assumes "n div 8 < sz div 4096 div 8"
  shows "block_used (pmmngr_init start sz s) n"
proof -
  have "bit (0xFF :: u8) k" if "k < 8" for k
    using that bit_mask_iff [of 8 k, where ?'a = u8] by (simp add: mask_eq_exp_minus_1)
  moreover have "unat (n mod 8) < 8" by (simp add: unat_mod)
  ultimately show ?thesis
    using assms by (simp add: block_used_byte pmmngr_init_def Let_def memset_apply in_region_def
        pmmngr_get_block_count_def pmmngr_get_memory_size_def)
qed

lemma init_region_loop_effect:
  "blocks < 0x80000000 \<Longrightarrow>
   (block_used (init_region_loop blocks align s) c \<longleftrightarrow> \<not> c - align < blocks \<and> block_used s c) \<and>
   used_blocks (init_region_loop blocks align s) = used_blocks s - blocks \<and>
   max_blocks (init_region_loop blocks align s) = max_blocks s \<and>
   memory_map (init_region_loop blocks align s) = memory_map s"
proof (induction blocks align s rule: init_region_loop.induct)
  case (1 blocks align s)
  show ?case
  proof (cases "blocks = 0")
    case True
    then show ?thesis by (simp add: init_region_loop.simps)
  next
    case False
    have "blocks - 1 < 0x80000000"
      using False 1(2) by (simp add: word_less_nat_alt unat_minus_one)
    then show ?thesis
      using 1 False
      by (simp add: init_region_loop.simps [of blocks align s] sless_small Let_def
          range_step [OF False, of c align] bitmap.used_rem)
        (auto simp: algebra_simps)
  qed
qed

lemma deinit_region_loop_effect:
  "blocks < 0x80000000 \<Longrightarrow>
   (block_used (deinit_region_loop blocks align s) c \<longleftrightarrow> c - align < blocks \<or> block_used s c) \<and>
   used_blocks (deinit_region_loop blocks align s) = used_blocks s + blocks \<and>
   max_blocks (deinit_region_loop blocks align s) = max_blocks s \<and>
   memory_map (deinit_region_loop blocks align s) = memory_map s"
proof (induction blocks align s rule: deinit_region_loop.induct)
  case (1 blocks align s)
  show ?case
  proof (cases "blocks = 0")
    case True
    then show ?thesis by (simp add: deinit_region_loop.simps)
  next
    case False
    have "blocks - 1 < 0x80000000"
      using False 1(2) by (simp add: word_less_nat_alt unat_minus_one)
    then show ?thesis
      using 1 False
      by (simp add: deinit_region_loop.simps [of blocks align s] sless_small Let_def
          range_step [OF False, of c align] bitmap.used_ins)
        (auto simp: algebra_simps)
  qed
qed

lemma div_block_small: "(sz::u32) div 4096 < 0x80000000"
  using unat_u32_bound [of sz] by (simp add: word_less_nat_alt unat_div)

lemma init_region_effect:
  "block_used (pmmngr_init_region base sz s) c \<longleftrightarrow>
     c = 0 \<or> \<not> c - base div 4096 < sz div 4096 \<and> block_used s c"
  "used_blocks (pmmngr_init_region base sz s) = used_blocks s - sz div 4096"
  "max_blocks (pmmngr_init_region base sz s) = max_blocks s"
  "memory_map (pmmngr_init_region base sz s) = memory_map s"
  using init_region_loop_effect [OF div_block_small, of sz "base div 4096" s c]
  by (simp_all add: pmmngr_init_region_def bitmap.used_ins)

lemma deinit_region_effect:
  "block_used (pmmngr_deinit_region base sz s) c \<longleftrightarrow>
     c - base div 4096 < sz div 4096 \<or> block_used s c"
  "used_blocks (pmmngr_deinit_region base sz s) = used_blocks s + sz div 4096"
  "max_blocks (pmmngr_deinit_region base sz s) = max_blocks s"
  "memory_map (pmmngr_deinit_region base sz s) = memory_map s"
  using deinit_region_loop_effect [OF div_block_small, of sz "base div 4096" s c]
  by (simp_all add: pmmngr_deinit_region_def)

section \<open>Allocation\<close>

lemma candidate_start:
  assumes "n \<noteq> 0" "candidate s n b"
  shows "\<not> block_used s b" "b < max_blocks s"
proof -
  have "probe_free s (max_blocks s div 32) (b div 32) (b mod 32)"
    using assms by (auto simp: candidate_def word_gt_0 dest: spec [of _ 0])
  moreover have "b mod 32 div 32 = 0" "b mod 32 mod 32 = b mod 32"
    by (simp_all add: word_unat_eq_iff unat_div unat_mod)
  ultimately show "\<not> block_used s b"
    by (simp add: probe_free_def block_used_def and_single_bit_iff del: push_bit_of_1)
  show "b < max_blocks s"
    using assms(2) unfolding block_less_iff [of b] candidate_def by simp
qed

lemma probe_run:
  assumes "unat b + unat k < 32 * unat (max_blocks s div 32)"
  shows "probe_free s (max_blocks s div 32) (b div 32) (b mod 32 + k) \<longleftrightarrow> \<not> block_used s (b + k)"
proof -
  let ?w = "max_blocks s div 32"
  have w: "unat ?w \<le> 2 ^ 27"
    using mmap_size_bound [of "max_blocks s"] by (simp add: word_le_nat_alt)
  have "unat (b div 32) * 32 + (unat (b mod 32) + unat k) < 32 * unat ?w"
    using assms by (simp add: unat_div unat_mod)
  moreover then have "unat (b mod 32 + k) = unat (b mod 32) + unat k"
    using w by (simp add: unat_word_ariths)
  ultimately show ?thesis
    using probe_free_plain [of "b div 32" "b mod 32 + k" ?w s] w
    by (simp add: add.assoc [symmetric] block_split(1) [symmetric])
qed

text \<open>Whatever the search accepts, the blocks of the run that lie in the map are free.\<close>

lemma candidate_free:
  "candidate s n b \<Longrightarrow> k < n \<Longrightarrow> unat b + unat k < 32 * unat (max_blocks s div 32) \<Longrightarrow> \<not> block_used s (b + k)"
  using probe_run [of b k s] by (simp add: candidate_def)

lemma candidate_iff_run:
  assumes "unat b + unat n \<le> 32 * unat (max_blocks s div 32)" "n \<noteq> 0"
  shows "candidate s n b \<longleftrightarrow> (\<forall>c. c - b < n \<longrightarrow> \<not> block_used s c)"
proof -
  let ?w = "max_blocks s div 32"
  have probe: "probe_free s ?w (b div 32) (b mod 32 + k) \<longleftrightarrow> \<not> block_used s (b + k)" if "k < n" for k
    by (rule probe_run) (use that assms(1) in \<open>simp add: word_less_nat_alt\<close>)
  have "0 < unat n" using assms(2) by (simp add: unat_gt_0)
  then have "unat b < 32 * unat ?w" using assms(1) by simp
  then have "b div 32 < ?w" by (simp add: word_less_nat_alt unat_div)
  then have "candidate s n b \<longleftrightarrow> (\<forall>k<n. \<not> block_used s (b + k))"
    using probe by (auto simp: candidate_def)
  also have "\<dots> \<longleftrightarrow> (\<forall>c. c - b < n \<longrightarrow> \<not> block_used s c)"
    by (metis add_diff_cancel_left' add.commute diff_add_cancel)
  finally show ?thesis .
qed

lemma alloc_blocks_cases:
  obtains (fail) "pmmngr_alloc_blocks n s = (0, s)"
  | (ok) b where "n \<noteq> 0" "candidate s n b" "mmap_first_free_blocks n s = b"
      "n < max_blocks s - used_blocks s"
      "pmmngr_alloc_blocks n s =
        (b * 4096, (for_u32 0 n (\<lambda>i. mmap_set (b + i)) s)\<lparr>used_blocks := used_blocks s + n\<rparr>)"
proof (cases "max_blocks s - used_blocks s \<le> n \<or> n = 0 \<or> mmap_first_free_blocks n s = - 1")
  case True
  then have "pmmngr_alloc_blocks n s = (0, s)"
    by (auto simp: pmmngr_alloc_blocks_def pmmngr_get_free_block_count_def
        mmap_first_free_blocks_def)
  then show ?thesis by (rule fail)
next
  case False
  then have "candidate s n (mmap_first_free_blocks n s)"
    using mmap_first_free_blocks_cases [of n s] by auto
  with False show ?thesis
    by (intro ok) (auto simp: pmmngr_alloc_blocks_def pmmngr_get_free_block_count_def Let_def)
qed

lemma block_address:
  assumes "b < (0x100000::u32)"
  shows "b * 4096 div 4096 = b" "b * 4096 mod 4096 = 0" "b * 4096 = 0 \<longleftrightarrow> b = 0"
proof -
  have u: "unat (b * 4096) = unat b * 4096"
    using assms by (simp add: unat_word_ariths word_less_nat_alt)
  show "b * 4096 div 4096 = b" "b * 4096 mod 4096 = 0"
    by (simp_all add: word_unat_eq_iff unat_div unat_mod u)
  show "b * 4096 = 0 \<longleftrightarrow> b = 0"
    using u by (auto simp: word_unat_eq_iff)
qed

text \<open>
  The invariant of the manager: block 0 stays reserved (so that no allocation has address 0)
  and block addresses fit into 32 bits.
\<close>

definition pmm_wf :: "'a pmm \<Rightarrow> bool" where
  "pmm_wf s \<longleftrightarrow> block_used s 0 \<and> max_blocks s < 0x100000"

lemma alloc_blocks_effect:
  assumes "pmm_wf s" "pmmngr_alloc_blocks n s = (a, s')" "a \<noteq> 0"
  shows "a mod 4096 = 0" "candidate s n (a div 4096)" "n \<noteq> 0" "\<not> block_used s (a div 4096)"
    "a div 4096 < max_blocks s" "block_used s' c \<longleftrightarrow> c - a div 4096 < n \<or> block_used s c"
    "used_blocks s' = used_blocks s + n" "max_blocks s' = max_blocks s"
    "memory_map s' = memory_map s" "pmm_state.more s' = pmm_state.more s"
    "a div 4096 = mmap_first_free_blocks n s"
proof -
  obtain b where b: "n \<noteq> 0" "candidate s n b" "mmap_first_free_blocks n s = b" and a: "a = b * 4096"
    and s': "s' = (for_u32 0 n (\<lambda>i. mmap_set (b + i)) s)\<lparr>used_blocks := used_blocks s + n\<rparr>"
    using assms(2,3) by (cases n s rule: alloc_blocks_cases) auto
  note start = candidate_start [OF b(1,2)]
  have "b < 0x100000" using start assms(1) by (auto simp: pmm_wf_def)
  note addr = block_address [OF this]
  show "a mod 4096 = 0" "candidate s n (a div 4096)" "n \<noteq> 0" "\<not> block_used s (a div 4096)"
    "a div 4096 < max_blocks s" "block_used s' c \<longleftrightarrow> c - a div 4096 < n \<or> block_used s c"
    "used_blocks s' = used_blocks s + n" "max_blocks s' = max_blocks s"
    "memory_map s' = memory_map s" "pmm_state.more s' = pmm_state.more s"
    "a div 4096 = mmap_first_free_blocks n s"
    using start b by (simp_all add: a s' addr bitmap.used_ins_range)
qed

lemma alloc_blocks_null:
  assumes "pmm_wf s" "pmmngr_alloc_blocks n s = (0, s')"
  shows "s' = s"
proof (cases n s rule: alloc_blocks_cases)
  case (ok b)
  have "b < 0x100000" "\<not> block_used s b"
    using candidate_start [OF ok(1,2)] assms(1) by (auto simp: pmm_wf_def)
  with ok(5) assms show ?thesis
    by (auto simp: block_address pmm_wf_def)
qed (use assms in simp)

lemma alloc_blocks_succeeds:
  assumes "pmm_wf s" "n \<noteq> 0" "n < max_blocks s - used_blocks s"
    "unat b + unat n \<le> 32 * unat (max_blocks s div 32)"
    "\<And>c. c - b < n \<Longrightarrow> \<not> block_used s c"
  shows "fst (pmmngr_alloc_blocks n s) \<noteq> 0" "fst (pmmngr_alloc_blocks n s) div 4096 \<le> b"
proof -
  let ?f = "mmap_first_free_blocks n s"
  have "candidate s n b"
    using candidate_iff_run [OF assms(4,2)] assms(5) by blast
  with mmap_first_free_blocks_cases [OF assms(2), of s]
  have f: "?f \<noteq> - 1" "candidate s n ?f" "?f \<le> b" by (auto simp: not_less [symmetric])
  note start = candidate_start [OF assms(2) f(2)]
  have small: "?f < 0x100000" using start(2) assms(1) by (auto simp: pmm_wf_def)
  have "?f \<noteq> 0" using start(1) assms(1) by (auto simp: pmm_wf_def)
  moreover have "fst (pmmngr_alloc_blocks n s) = ?f * BLOCK_SIZE"
    using assms(3) f(1)
    by (auto simp: pmmngr_alloc_blocks_def pmmngr_get_free_block_count_def Let_def)
  ultimately show "fst (pmmngr_alloc_blocks n s) \<noteq> 0" "fst (pmmngr_alloc_blocks n s) div 4096 \<le> b"
    using f(3) block_address [OF small] by simp_all
qed

lemma alloc_blocks_cpu:
  "pmmngr_alloc_blocks n s = (a, s') \<Longrightarrow>
     cr0 s' = cr0 s \<and> cr3 s' = cr3 s \<and> io_log s' = io_log s \<and> int_flag s' = int_flag s"
proof (cases n s rule: alloc_blocks_cases)
  case (ok b)
  have "cr0 (for_u32 0 n (\<lambda>i. mmap_set (b + i)) s) = cr0 s \<and>
      cr3 (for_u32 0 n (\<lambda>i. mmap_set (b + i)) s) = cr3 s \<and>
      io_log (for_u32 0 n (\<lambda>i. mmap_set (b + i)) s) = io_log s \<and>
      int_flag (for_u32 0 n (\<lambda>i. mmap_set (b + i)) s) = int_flag s"
    by (rule for_u32_invariant) (simp_all add: mmap_set_def)
  with ok(5) show "pmmngr_alloc_blocks n s = (a, s') \<Longrightarrow>
     cr0 s' = cr0 s \<and> cr3 s' = cr3 s \<and> io_log s' = io_log s \<and> int_flag s' = int_flag s" by auto
qed simp

lemma alloc_blocks_wf:
  assumes "pmm_wf s" "pmmngr_alloc_blocks n s = (a, s')"
  shows "pmm_wf s'"
proof (cases "a = 0")
  case True
  with assms alloc_blocks_null [of s n s'] show ?thesis by simp
next
  case False
  with alloc_blocks_effect(6,8) [OF assms False] assms(1) show ?thesis
    by (simp add: pmm_wf_def)
qed

interpretation frames: frame_allocator pmmngr_alloc_block block_used pmm_wf
proof
  fix s s' :: "'a pmm" and a c :: u32
  assume wf: "pmm_wf s"
  { assume al: "pmmngr_alloc_block s = (a, s')"
    note al' = al [unfolded pmmngr_alloc_block_def]
    show "a mod 4096 = 0"
      using alloc_blocks_effect(1) [OF wf al'] by (cases "a = 0") auto
    show "pmm_wf s'" by (rule alloc_blocks_wf [OF wf al'])
    assume "a \<noteq> 0"
    note eff = alloc_blocks_effect [OF wf al' this]
    show "\<not> block_used s (a div 4096)" by (rule eff)
    show "block_used s' c \<longleftrightarrow> c = a div 4096 \<or> block_used s c"
      using eff(6) [of c] by (auto simp: word_less_1) }
  { assume "pmmngr_alloc_block s = (0, s')"
    then show "s' = s" using alloc_blocks_null [OF wf] by (simp add: pmmngr_alloc_block_def) }
qed

lemma free_blocks_effect:
  "block_used (pmmngr_free_blocks a n s) c \<longleftrightarrow> \<not> c - a div 4096 < n \<and> block_used s c"
  "used_blocks (pmmngr_free_blocks a n s) = used_blocks s - n"
  "max_blocks (pmmngr_free_blocks a n s) = max_blocks s"
  by (simp_all add: pmmngr_free_blocks_def Let_def bitmap.used_rem_range)

end
