(* ===== verification/Virtual_map.thy ===== *)
theory Virtual_map
  imports Virtual_mmngr Physical_alloc
begin

text \<open>
  Paging as the processor sees it: the two-level walk, the well-formedness of an address space
  (directory and tables in reserved frames, apart from each other and from the block bitmap), and
  the effect of the mapping functions on the walk.
\<close>

unbundle bit_operations_syntax

section \<open>Indices\<close>

lemma PAGE_DIR_INDEX_bits: "bit (PAGE_DIR_INDEX x) n \<longleftrightarrow> n < 10 \<and> bit x (22 + n)"
proof -
  have "(0x3FF :: u32) = mask 10" by (simp add: mask_eq_exp_minus_1)
  then have "PAGE_DIR_INDEX x = take_bit 10 (drop_bit 22 x)"
    by (simp only: PAGE_DIR_INDEX_def take_bit_eq_mask)
  then show ?thesis by (auto simp: bit_simps)
qed

lemma PAGE_TABLE_INDEX_bits: "bit (PAGE_TABLE_INDEX x) n \<longleftrightarrow> n < 10 \<and> bit x (12 + n)"
proof -
  have "(0x3FF :: u32) = mask 10" by (simp add: mask_eq_exp_minus_1)
  then have "PAGE_TABLE_INDEX x = take_bit 10 (drop_bit 12 x)"
    by (simp only: PAGE_TABLE_INDEX_def take_bit_eq_mask)
  then show ?thesis by (auto simp: bit_simps)
qed

lemma index_bounds [simp]: "PAGE_DIR_INDEX x < 1024" "PAGE_TABLE_INDEX x < 1024"
proof -
  have "(0x3FF :: u32) < 1024" by simp
  then show "PAGE_DIR_INDEX x < 1024" "PAGE_TABLE_INDEX x < 1024"
    unfolding PAGE_DIR_INDEX_def PAGE_TABLE_INDEX_def
    by (meson word_and_le1 order_le_less_trans)+
qed

text \<open>The two indices determine the page.\<close>

lemma page_of_indices:
  "x div 4096 = y div 4096 \<longleftrightarrow>
     PAGE_DIR_INDEX x = PAGE_DIR_INDEX y \<and> PAGE_TABLE_INDEX x = PAGE_TABLE_INDEX (y::u32)"
proof -
  have div: "z div 4096 = drop_bit 12 z" for z :: u32
    by (simp add: drop_bit_eq_div)
  have dir: "PAGE_DIR_INDEX z = drop_bit 10 (drop_bit 12 z)" for z
    by (rule bit_word_eqI) (auto simp: PAGE_DIR_INDEX_bits bit_simps dest: bit_imp_le_length)
  have table: "PAGE_TABLE_INDEX z = take_bit 10 (drop_bit 12 z)" for z
    by (rule bit_word_eqI) (auto simp: PAGE_TABLE_INDEX_bits bit_simps)
  show ?thesis
    unfolding div dir table by (metis bits_ident)
qed

section \<open>The walk of the processor\<close>

text \<open>
  Two-level translation with 4 KiB pages, as the processor does it from the directory address in
  CR3: \<open>None\<close> is a page fault.
\<close>

definition mmu_walk :: "memory \<Rightarrow> u32 \<Rightarrow> u32 \<Rightarrow> u32 option" where
  "mmu_walk m root va =
     (let pde = load32 m (root + 4 * PAGE_DIR_INDEX va)
      in if \<not> entry_present pde then None
         else let pte = load32 m (entry_frame pde + 4 * PAGE_TABLE_INDEX va)
              in if \<not> entry_present pte then None
                 else Some (entry_frame pte OR (va AND 0xFFF)))"

section \<open>Well-formed address spaces\<close>

definition map_byte :: "'a pmm \<Rightarrow> u32 \<Rightarrow> bool" where
  \<comment> \<open>the bytes of the block bitmap and the word behind it\<close>
  "map_byte s x = in_region (memory_map s) (4 * (max_blocks s div 32) + 4) x"

definition block_in_map :: "'a pmm \<Rightarrow> u32 \<Rightarrow> bool" where
  "block_in_map s b \<longleftrightarrow> b div 32 < max_blocks s div 32"

definition map_reserved :: "'a pmm \<Rightarrow> bool" where
  "map_reserved s \<longleftrightarrow>
     (\<forall>x. map_byte s x \<longrightarrow> block_in_map s (x div 4096) \<and> block_used s (x div 4096))"

definition reserved_frame :: "'a pmm \<Rightarrow> u32 \<Rightarrow> bool" where
  "reserved_frame s p \<longleftrightarrow> p mod 4096 = 0 \<and> p \<noteq> 0 \<and> \<not> bit p 31 \<and> block_in_map s (p div 4096) \<and>
     block_used s (p div 4096) \<and> (\<forall>x. map_byte s x \<longrightarrow> x div 4096 \<noteq> p div 4096)"

definition pde :: "'a vmm \<Rightarrow> u32 \<Rightarrow> u32" where
  "pde s i = load32 (ram s) (curdir s + 4 * i)"

definition pte :: "'a vmm \<Rightarrow> u32 \<Rightarrow> u32 \<Rightarrow> u32" where
  "pte s i j = load32 (ram s) (entry_frame (pde s i) + 4 * j)"

definition memory_wf :: "'a pmm \<Rightarrow> bool" where
  "memory_wf s \<longleftrightarrow> pmm_wf s \<and> max_blocks s \<le> 0x80000 \<and> map_reserved s"

definition vmm_wf :: "'a vmm \<Rightarrow> bool" where
  "vmm_wf s \<longleftrightarrow> memory_wf s \<and> reserved_frame s (curdir s) \<and>
     (\<forall>i<1024. \<not> bit (pde s i) 31 \<and>
        (entry_present (pde s i) \<longrightarrow> reserved_frame s (entry_frame (pde s i)) \<and>
           entry_frame (pde s i) \<noteq> curdir s \<and> (\<forall>j<1024. \<not> bit (pte s i j) 31))) \<and>
     (\<forall>i<1024. \<forall>j<1024. i \<noteq> j \<and> entry_present (pde s i) \<and> entry_present (pde s j) \<longrightarrow>
        entry_frame (pde s i) \<noteq> entry_frame (pde s j))"

section \<open>What the allocator touches\<close>

lemma map_offset:
  assumes "b div 32 \<le> max_blocks s div 32" "r < 4"
  shows "map_byte s (memory_map s + 4 * (b div 32) + r)"
proof -
  let ?w = "max_blocks s div 32"
  have w: "unat ?w < 2 ^ 27"
    using mmap_size_bound [of "max_blocks s"] by (simp add: word_le_nat_alt)
  have "unat (b div 32) \<le> unat ?w" "unat r < 4"
    using assms by (simp_all add: word_le_nat_alt word_less_nat_alt)
  then have "unat (4 * (b div 32) + r) < unat (4 * ?w + 4)"
    using w by (simp add: unat_word_ariths)
  then show ?thesis
    by (simp add: map_byte_def in_region_def word_less_nat_alt add.assoc)
qed

lemma mmap_set_ram:
  assumes "b div 32 \<le> max_blocks s div 32" "\<not> map_byte s x"
  shows "ram (mmap_set b s) x = ram s x"
proof -
  have "\<not> in_region (memory_map s + 4 * (b div 32)) 4 x"
    using map_offset [OF assms(1), of "x - (memory_map s + 4 * (b div 32))"] assms(2)
    by (auto simp: in_region_def)
  then show ?thesis by (simp add: mmap_set_def store32_outside)
qed

lemma alloc_blocks_ram:
  assumes "pmm_wf s" "pmmngr_alloc_blocks n s = (a, s')" "n \<le> 32" "\<not> map_byte s x"
  shows "ram s' x = ram s x"
proof (cases n s rule: alloc_blocks_cases)
  case (ok b)
  let ?w = "max_blocks s div 32"
  have b: "b div 32 < ?w" using ok(2) by (simp add: candidate_def)
  have near: "(b + k) div 32 \<le> ?w" if "k < n" for k
  proof -
    have "unat k < 32" using that assms(3) by (simp add: word_less_nat_alt word_le_nat_alt)
    moreover have "unat b div 32 < unat ?w" using b by (simp add: word_less_nat_alt unat_div)
    moreover have "unat ?w \<le> 0x7FFFFFF"
      using mmap_size_bound [of "max_blocks s"] by (simp add: word_le_nat_alt)
    ultimately have "unat (b + k) = unat b + unat k" "(unat b + unat k) div 32 \<le> unat ?w"
      by (auto simp: unat_word_ariths)
    then show ?thesis by (simp add: word_le_nat_alt unat_div)
  qed
  have "ram (for_u32 0 n (\<lambda>i. mmap_set (b + i)) s) x = ram s x \<and>
      memory_map (for_u32 0 n (\<lambda>i. mmap_set (b + i)) s) = memory_map s \<and>
      max_blocks (for_u32 0 n (\<lambda>i. mmap_set (b + i)) s) = max_blocks s"
    by (rule for_u32_invariant) (use near assms(4) in \<open>auto simp: map_byte_def mmap_set_ram\<close>)
  with ok(5) assms(2) show ?thesis by simp
qed (use assms in simp)

lemma block_used_cong:
  assumes "memory_map s' = memory_map s" "max_blocks s' = max_blocks s"
    "\<And>x. map_byte s x \<Longrightarrow> ram s' x = ram s x" "block_in_map s b"
  shows "block_used s' b = block_used s b"
proof -
  have "mmap_word s' (b div 32) = mmap_word s (b div 32)"
    unfolding mmap_word_def assms(1)
  proof (rule load32_cong)
    fix x assume "in_region (memory_map s + 4 * (b div 32)) 4 x"
    then have "map_byte s x"
      using map_offset [of b s "x - (memory_map s + 4 * (b div 32))"] assms(4)
      by (auto simp: in_region_def block_in_map_def)
    then show "ram s' x = ram s x" by (rule assms(3))
  qed
  then show ?thesis by (simp add: block_used_def)
qed

lemma map_unchanged:
  assumes "memory_map s' = memory_map s" "max_blocks s' = max_blocks s"
    "\<And>x. map_byte s x \<Longrightarrow> ram s' x = ram s x"
  shows "map_byte s' = map_byte s" "block_in_map s' = block_in_map s"
    "reserved_frame s' p = reserved_frame s p" "memory_wf s \<Longrightarrow> memory_wf s'"
proof -
  note used = block_used_cong [OF assms]
  show mb: "map_byte s' = map_byte s" and bm: "block_in_map s' = block_in_map s"
    by (auto simp: fun_eq_iff map_byte_def block_in_map_def assms(1,2))
  show "reserved_frame s' p = reserved_frame s p"
    unfolding reserved_frame_def mb bm using used by blast
  assume wf: "memory_wf s"
  have "map_byte s (memory_map s)" using map_offset [of 0 s 0] by simp
  then have "block_in_map s 0"
    using wf by (auto simp: memory_wf_def map_reserved_def block_in_map_def word_gt_0)
  then show "memory_wf s'"
    using wf used by (auto simp: memory_wf_def map_reserved_def pmm_wf_def mb bm assms(2))
qed

lemma frame_write_map:
  assumes "reserved_frame s p" "k < 1024" "map_byte s x"
  shows "store32 m (p + 4 * k) v x = m x"
proof -
  have "x div 4096 \<noteq> p div 4096" "p mod 4096 = 0"
    using assms(1,3) by (auto simp: reserved_frame_def)
  then have "\<not> in_region (p + 4 * k) 4 x" using slot_in_frame [of p k x] assms(2) by auto
  then show ?thesis by (simp add: store32_outside)
qed

lemma frame_clear_map:
  assumes "reserved_frame s p" "map_byte s x"
  shows "memset p v 4096 m x = m x"
  using assms in_frame_iff [of p x] by (auto simp: memset_apply reserved_frame_def)

lemma below_2G_bit: "a < (0x80000000::u32) \<Longrightarrow> \<not> bit a 31"
proof -
  assume "a < 0x80000000"
  then have "unat a div 2 ^ 31 = 0" by (simp add: word_less_nat_alt)
  then have "drop_bit 31 (unat a) = 0" by (simp add: drop_bit_eq_div)
  then have "\<not> bit (unat a) 31" by (simp add: bit_iff_odd_drop_bit)
  then show ?thesis by (simp add: bit_unsigned_iff)
qed

lemma max_blocks_frame_bit:
  assumes "max_blocks s \<le> 0x80000" "a div 4096 < max_blocks s"
  shows "\<not> bit (a::u32) 31"
  using assms by (intro below_2G_bit) (simp add: word_le_nat_alt word_less_nat_alt unat_div)

lemma alloc_blocks_reserved:
  assumes wf: "memory_wf s" and al: "pmmngr_alloc_blocks n s = (a, s')" and n: "n \<le> 32" and a: "a \<noteq> 0"
  shows "memory_wf s'" "reserved_frame s' a" "\<not> block_used s (a div 4096)"
    "reserved_frame s p \<Longrightarrow> reserved_frame s' p" "reserved_frame s p \<Longrightarrow> p \<noteq> a"
    "map_byte s' = map_byte s"
proof -
  have pwf: "pmm_wf s" using wf by (simp add: memory_wf_def)
  note eff = alloc_blocks_effect [OF pwf al a]
  show fresh: "\<not> block_used s (a div 4096)" by (rule eff)
  show mb: "map_byte s' = map_byte s"
    by (auto simp: fun_eq_iff map_byte_def eff(8,9))
  have bm: "block_in_map s' b = block_in_map s b" for b by (simp add: block_in_map_def eff(8))
  have used: "block_used s b \<Longrightarrow> block_used s' b" for b using eff(6) [of b] by simp
  show "memory_wf s'"
    using wf alloc_blocks_wf [OF pwf al] used
    by (auto simp: memory_wf_def map_reserved_def mb bm eff(8))
  have "0 < n" using eff(3) by (simp add: word_gt_0)
  moreover have "block_in_map s (a div 4096)"
    using eff(2) by (simp add: candidate_def block_in_map_def)
  moreover have "\<not> bit a 31"
    using max_blocks_frame_bit [OF _ eff(5)] wf by (simp add: memory_wf_def)
  ultimately show "reserved_frame s' a"
    using fresh wf a eff(1) eff(6) [of "a div 4096"]
    by (auto simp: reserved_frame_def mb bm memory_wf_def map_reserved_def)
  show "reserved_frame s p \<Longrightarrow> reserved_frame s' p"
    using used by (auto simp: reserved_frame_def mb bm)
  show "reserved_frame s p \<Longrightarrow> p \<noteq> a"
    using fresh by (auto simp: reserved_frame_def)
qed

section \<open>Writing one entry\<close>

lemma vmm_wfD:
  assumes "vmm_wf s" "i < 1024" "entry_present (pde s i)"
  shows "reserved_frame s (entry_frame (pde s i))" "entry_frame (pde s i) \<noteq> curdir s"
    "entry_frame (pde s i) mod 4096 = 0" "entry_frame (pde s i) \<noteq> 0"
    "j < 1024 \<Longrightarrow> \<not> bit (pte s i j) 31"
    "j < 1024 \<Longrightarrow> entry_present (pde s j) \<Longrightarrow> entry_frame (pde s i) = entry_frame (pde s j) \<Longrightarrow> i = j"
  using assms by (auto simp: vmm_wf_def reserved_frame_def)

lemma vmm_wf_curdir:
  assumes "vmm_wf s"
  shows "reserved_frame s (curdir s)" "curdir s mod 4096 = 0" "curdir s \<noteq> 0" "memory_wf s"
  using assms by (auto simp: vmm_wf_def reserved_frame_def)

lemma write_pte:
  assumes wf: "vmm_wf s" and i: "i < 1024" "entry_present (pde s i)" and j: "j < 1024"
    and v: "\<not> bit v 31"
  defines "s' \<equiv> s\<lparr>ram := store32 (ram s) (entry_frame (pde s i) + 4 * j) v\<rparr>"
  shows "k < 1024 \<Longrightarrow> pde s' k = pde s k"
    "k < 1024 \<Longrightarrow> l < 1024 \<Longrightarrow> entry_present (pde s k) \<Longrightarrow>
      pte s' k l = (if k = i \<and> l = j then v else pte s k l)"
    "vmm_wf s'"
proof -
  note T = vmm_wfD [OF wf i] and D = vmm_wf_curdir [OF wf]
  show pde': "pde s' k = pde s k" if "k < 1024" for k
    using load32_store32_slot [OF T(3) D(2) j that, of "ram s" v] T(2)
    by (simp add: pde_def s'_def)
  show pte': "pte s' k l = (if k = i \<and> l = j then v else pte s k l)"
    if "k < 1024" "l < 1024" "entry_present (pde s k)" for k l
  proof -
    have "entry_frame (pde s i) = entry_frame (pde s k) \<longleftrightarrow> i = k"
      using T(6) [OF that(1,3)] by auto
    then show ?thesis
      using load32_store32_slot [OF T(3) vmm_wfD(3) [OF wf that(1,3)] j that(2), of "ram s" v]
        pde' [OF that(1)]
      by (auto simp: pte_def) (auto simp: s'_def)
  qed
  have map: "memory_map s' = memory_map s" "max_blocks s' = max_blocks s" "curdir s' = curdir s"
    "\<And>x. map_byte s x \<Longrightarrow> ram s' x = ram s x"
    using frame_write_map [OF T(1) j] by (simp_all add: s'_def)
  have res: "reserved_frame s' p = reserved_frame s p" for p
    by (rule map_unchanged(3) [OF map(1,2,4)])
  have "memory_wf s'" by (rule map_unchanged(4) [OF map(1,2,4) D(4)])
  then show "vmm_wf s'"
    using wf v pte' unfolding vmm_wf_def by (simp add: pde' res map(3))
qed

section \<open>Installing a page table\<close>

lemma curdir_more: "pmm_state.more s' = pmm_state.more s \<Longrightarrow> curdir s' = curdir (s :: 'a vmm)"
  by (cases s; cases s') simp

text \<open>
  A freshly allocated and cleared table: the pages reserved before keep their contents, and the
  new table reads as zeros.
\<close>

lemma fresh_table:
  assumes wf: "memory_wf s" and al: "pmmngr_alloc_block s = (a, s1)" and a: "a \<noteq> 0"
  defines "s2 \<equiv> s1\<lparr>ram := memset a 0 4096 (ram s1)\<rparr>"
  shows "memory_wf s2" "reserved_frame s2 a"
    "reserved_frame s p \<Longrightarrow> reserved_frame s2 p" "reserved_frame s p \<Longrightarrow> p \<noteq> a"
    "reserved_frame s q \<Longrightarrow> x div 4096 = q div 4096 \<Longrightarrow> ram s2 x = ram s x"
    "l < 1024 \<Longrightarrow> load32 (ram s2) (a + 4 * l) = 0"
    "pmm_state.more s2 = pmm_state.more s"
proof -
  note al' = al [unfolded pmmngr_alloc_block_def]
  have pwf: "pmm_wf s" using wf by (simp add: memory_wf_def)
  note res = alloc_blocks_reserved [OF wf al' _ a, simplified]
  have aa: "a mod 4096 = 0" using res(2) by (simp add: reserved_frame_def)
  have map: "memory_map s2 = memory_map s1" "max_blocks s2 = max_blocks s1"
    "\<And>x. map_byte s1 x \<Longrightarrow> ram s2 x = ram s1 x"
    using frame_clear_map [OF res(2)] by (simp_all add: s2_def)
  note res2 = map_unchanged(3,4) [OF map]
  show "memory_wf s2" "reserved_frame s2 a" using res(1,2) res2 by blast+
  show "reserved_frame s p \<Longrightarrow> reserved_frame s2 p" using res(4) res2(1) by blast
  show ne: "reserved_frame s p \<Longrightarrow> p \<noteq> a" for p using res(5) by blast
  show "ram s2 x = ram s x" if "reserved_frame s q" "x div 4096 = q div 4096" for q x
  proof -
    have "\<not> map_byte s x" "q mod 4096 = 0" using that by (auto simp: reserved_frame_def)
    then show ?thesis
      using alloc_blocks_ram [OF pwf al'] in_frame_iff [OF aa, of x] aligned_eq [OF _ aa, of q]
        ne [OF that(1)] that(2)
      by (auto simp: s2_def memset_apply)
  qed
  show "l < 1024 \<Longrightarrow> load32 (ram s2) (a + 4 * l) = 0"
    using slot_in_frame [OF aa] in_frame_iff [OF aa]
    by (intro load32_zero) (auto simp: s2_def memset_apply)
  show "pmm_state.more s2 = pmm_state.more s"
    using alloc_blocks_effect(10) [OF pwf al' a] by (simp add: s2_def)
qed

lemma install_table:
  assumes wf: "vmm_wf s" and i: "i < 1024" "\<not> entry_present (pde s i)"
    and al: "pmmngr_alloc_block s = (a, s1)" and a: "a \<noteq> 0"
    and e: "entry_present e" "entry_frame e = a" "\<not> bit e 31"
  defines "s2 \<equiv> s1\<lparr>ram := memset a 0 4096 (ram s1)\<rparr>"
  defines "s3 \<equiv> s2\<lparr>ram := store32 (ram s2) (curdir s + 4 * i) e\<rparr>"
  shows "curdir s3 = curdir s"
    "k < 1024 \<Longrightarrow> pde s3 k = (if k = i then e else pde s k)"
    "k < 1024 \<Longrightarrow> l < 1024 \<Longrightarrow> entry_present (pde s3 k) \<Longrightarrow>
      pte s3 k l = (if k = i then 0 else pte s k l)"
    "vmm_wf s3"
    "load32 (ram s2) (curdir s + 4 * i) = pde s i"
proof -
  note D = vmm_wf_curdir [OF wf]
  note F = fresh_table [OF D(4) al a, folded s2_def]
  have aa: "a mod 4096 = 0" using F(2) by (simp add: reserved_frame_def)
  have ram3: "ram s3 = store32 (ram s2) (curdir s + 4 * i) e" by (simp add: s3_def)
  show cd: "curdir s3 = curdir s"
    using curdir_more [OF F(7)] by (simp add: s3_def)
  have dirslot: "load32 (ram s2) (curdir s + 4 * k) = pde s k" if "k < 1024" for k
    unfolding pde_def using D(1) that by (intro load32_slot_cong [OF D(2)] F(5)) auto
  then show "load32 (ram s2) (curdir s + 4 * i) = pde s i" using i(1) by simp
  show pde': "pde s3 k = (if k = i then e else pde s k)" if "k < 1024" for k
    using load32_store32_slot [OF D(2,2) i(1) that, of "ram s2" e] dirslot [OF that]
    by (simp add: pde_def [of s3] cd ram3)
  have ne: "curdir s \<noteq> a" using F(4) D(1) by blast
  show pte': "pte s3 k l = (if k = i then 0 else pte s k l)"
    if "k < 1024" "l < 1024" "entry_present (pde s3 k)" for k l
  proof (cases "k = i")
    case True
    with F(6) that(2) pde' [OF that(1)] e(2) ne show ?thesis
      using load32_store32_slot [OF D(2) aa i(1) that(2), of "ram s2" e]
      by (simp add: pte_def ram3)
  next
    case False
    with that pde' have "entry_present (pde s k)" by simp
    note T = vmm_wfD [OF wf that(1) this]
    have "load32 (ram s2) (entry_frame (pde s k) + 4 * l) = pte s k l"
      unfolding pte_def using T(1) by (intro load32_slot_cong [OF T(3) that(2)] F(5)) auto
    then show ?thesis
      using False pde' [OF that(1)] T(2)
        load32_store32_slot [OF D(2) T(3) i(1) that(2), of "ram s2" e]
      by (auto simp: pte_def [of s3] ram3)
  qed
  have map: "memory_map s3 = memory_map s2" "max_blocks s3 = max_blocks s2"
    "\<And>x. map_byte s2 x \<Longrightarrow> ram s3 x = ram s2 x"
    using frame_write_map [OF F(3) [OF D(1)] i(1)] by (simp_all add: s3_def)
  have res3: "reserved_frame s3 p = reserved_frame s2 p" for p
    by (rule map_unchanged(3) [OF map])
  have "\<forall>k<1024. \<not> bit (pde s k) 31" using wf by (simp add: vmm_wf_def)
  then have "\<forall>k<1024. \<not> bit (pde s3 k) 31 \<and>
        (entry_present (pde s3 k) \<longrightarrow> reserved_frame s3 (entry_frame (pde s3 k)) \<and>
           entry_frame (pde s3 k) \<noteq> curdir s \<and> (\<forall>j<1024. \<not> bit (pte s3 k j) 31))"
    using e ne F(2,3) vmm_wfD(1,2,5) [OF wf] pte' by (auto simp: res3 pde')
  moreover have "entry_frame (pde s3 k) \<noteq> entry_frame (pde s3 l)"
    if "k < 1024" "l < 1024" "k \<noteq> l" "entry_present (pde s3 k)" "entry_present (pde s3 l)" for k l
    using that e(2) F(4) vmm_wfD(1,6) [OF wf] by (auto simp: pde' split: if_splits) blast+
  ultimately show "vmm_wf s3"
    using map_unchanged(4) [OF map F(1)] D(1) F(3) unfolding vmm_wf_def by (simp add: cd res3)
qed

end
