(* ===== verification/Malloc.thy ===== *)
theory Malloc
  imports Fat12 Virtual_map
begin

text \<open>
  The heap, \<^verbatim>\<open>memory/malloc.c\<close> and \<^verbatim>\<open>malloc.h\<close>. It lives at virtual addresses: an access to a block
  header is translated by the processor byte by byte, and \<open>None\<close> stands for the page fault (whose
  handler halts) and for a walk along the block list that does not end. The list head is at the
  virtual address 0, which is also the null pointer.
\<close>

unbundle bit_operations_syntax

section \<open>State\<close>

record heap_state = fat_state +
  malloc_list_head :: u32
  malloc_virt_addr :: u32
  malloc_phys_addr :: u32
  total_malloc_pages :: u32
  malloc_iniited :: bool

type_synonym 'a heap = "'a heap_state_scheme"

section \<open>Accesses by virtual address\<close>

definition translate :: "'a machine_scheme \<Rightarrow> u32 \<Rightarrow> u32 option" where
  "translate s va = (if bit (cr0 s) 31 then mmu_walk (ram s) (cr3 s) va else Some va)"

definition vload8 :: "u32 \<Rightarrow> 'a machine_scheme \<Rightarrow> u8 option" where
  "vload8 va s = map_option (ram s) (translate s va)"

definition vstore8 :: "u32 \<Rightarrow> u8 \<Rightarrow> 'a machine_scheme \<Rightarrow> 'a machine_scheme option" where
  "vstore8 va b s = map_option (\<lambda>p. s\<lparr>ram := (ram s)(p := b)\<rparr>) (translate s va)"

definition vload32 :: "u32 \<Rightarrow> 'a machine_scheme \<Rightarrow> u32 option" where
  "vload32 va s = do {
     b0 \<leftarrow> vload8 va s;
     b1 \<leftarrow> vload8 (va + 1) s;
     b2 \<leftarrow> vload8 (va + 2) s;
     b3 \<leftarrow> vload8 (va + 3) s;
     Some (ucast b0 OR push_bit 8 (ucast b1) OR push_bit 16 (ucast b2) OR push_bit 24 (ucast b3))
   }"

definition vstore32 :: "u32 \<Rightarrow> u32 \<Rightarrow> 'a machine_scheme \<Rightarrow> 'a machine_scheme option" where
  "vstore32 va v s = do {
     s \<leftarrow> vstore8 va (ucast v) s;
     s \<leftarrow> vstore8 (va + 1) (ucast (drop_bit 8 v)) s;
     s \<leftarrow> vstore8 (va + 2) (ucast (drop_bit 16 v)) s;
     vstore8 (va + 3) (ucast (drop_bit 24 v)) s
   }"

text \<open>
  The header \<^verbatim>\<open>malloc_block_t\<close>: the size, the flag and the next pointer, four bytes each. The type \<^verbatim>\<open>bool\<close> of
  \<^verbatim>\<open>C/stdbool.h\<close> is an enumeration, an \<^verbatim>\<open>int\<close>: the flag is a whole word, false when all of it is 0.
\<close>

abbreviation sizeof_malloc_block :: u32 where "sizeof_malloc_block \<equiv> 12"

definition block_size :: "u32 \<Rightarrow> 'a machine_scheme \<Rightarrow> u32 option" where
  "block_size p s = vload32 p s"

definition block_free :: "u32 \<Rightarrow> 'a machine_scheme \<Rightarrow> bool option" where
  "block_free p s = map_option (\<lambda>v. v \<noteq> 0) (vload32 (p + 4) s)"

definition block_next :: "u32 \<Rightarrow> 'a machine_scheme \<Rightarrow> u32 option" where
  "block_next p s = vload32 (p + 8) s"

definition set_size :: "u32 \<Rightarrow> u32 \<Rightarrow> 'a machine_scheme \<Rightarrow> 'a machine_scheme option" where
  "set_size p v s = vstore32 p v s"

definition set_free :: "u32 \<Rightarrow> bool \<Rightarrow> 'a machine_scheme \<Rightarrow> 'a machine_scheme option" where
  "set_free p f s = vstore32 (p + 4) (if f then 1 else 0) s"

definition set_next :: "u32 \<Rightarrow> u32 \<Rightarrow> 'a machine_scheme \<Rightarrow> 'a machine_scheme option" where
  "set_next p v s = vstore32 (p + 8) v s"

section \<open>Operations\<close>

definition is_malloc_inited :: "'a heap \<Rightarrow> bool" where
  "is_malloc_inited s = malloc_iniited s"

definition malloc_split :: "u32 \<Rightarrow> u32 \<Rightarrow> 'a heap \<Rightarrow> 'a heap option" where
  "malloc_split node sz s = do {
     let new_node = node + sz + sizeof_malloc_block;
     n \<leftarrow> block_size node s;
     s \<leftarrow> set_size new_node (n - sz - sizeof_malloc_block) s;
     s \<leftarrow> set_free new_node True s;
     next \<leftarrow> block_next node s;
     s \<leftarrow> set_next new_node next s;
     s \<leftarrow> set_size node sz s;
     s \<leftarrow> set_free node False s;
     set_next node new_node s
   }"

text \<open>The loop of \<open>malloc_init\<close>, over \<^verbatim>\<open>phys\<close> and \<^verbatim>\<open>virt\<close>.\<close>

definition map_heap_page :: "u32 \<Rightarrow> u32 \<Rightarrow> 'a heap \<Rightarrow> 'a heap" where
  "map_heap_page phys virt s =
     (let s = vmmngr_map_page phys virt s;
          page = vmmngr_get_page virt s
      in modify32 page (pt_entry_add_attrib (pte_flag PTE_WRITABLE)) s)"

definition malloc_init :: "u32 \<Rightarrow> 'a heap \<Rightarrow> 'a heap option" where
  "malloc_init bytes s = do {
     let s = s\<lparr>total_malloc_pages := bytes div PAGE_SIZE\<rparr>;
     let s = (if 0 < bytes mod PAGE_SIZE then s\<lparr>total_malloc_pages := total_malloc_pages s + 1\<rparr> else s);
     let (phys_addr, s) = pmmngr_alloc_blocks (total_malloc_pages s) s;
     let s = s\<lparr>malloc_phys_addr := phys_addr\<rparr>;
     let s = s\<lparr>malloc_list_head := malloc_virt_addr s\<rparr>;
     let (_, _, s) = for_u32 0 (total_malloc_pages s)
           (\<lambda>i (phys, virt, s). (phys + PAGE_SIZE, virt + PAGE_SIZE, map_heap_page phys virt s))
           (malloc_phys_addr s, malloc_virt_addr s, s);
     s \<leftarrow> set_size (malloc_list_head s) (total_malloc_pages s * PAGE_SIZE - sizeof_malloc_block) s;
     s \<leftarrow> set_free (malloc_list_head s) True s;
     s \<leftarrow> set_next (malloc_list_head s) 0 s;
     Some (s\<lparr>malloc_iniited := True\<rparr>)
   }"

text \<open>The search: the first block from \<open>cur\<close> on that is free and large enough, or the last block.\<close>

partial_function (option) malloc_find :: "u32 \<Rightarrow> u32 \<Rightarrow> 'a heap \<Rightarrow> u32 option" where
  "malloc_find sz cur s =
     Option.bind (block_next cur s) (\<lambda>next.
       if next = 0 then Some cur
       else Option.bind (block_size cur s) (\<lambda>n.
         Option.bind (if n < sz then Some False else block_free cur s) (\<lambda>fits.
           if fits then Some cur else malloc_find sz next s)))"

text \<open>The loop that counts the pages to add, and the loop that adds them.\<close>

partial_function (option) pages_needed :: "u32 \<Rightarrow> u32 \<Rightarrow> u32 \<Rightarrow> u32 option" where
  "pages_needed n sz page_count =
     (if n + page_count * PAGE_SIZE < sz + sizeof_malloc_block then pages_needed n sz (page_count + 1)
      else Some page_count)"

primrec grow_heap :: "nat \<Rightarrow> u32 \<Rightarrow> u32 \<Rightarrow> 'a heap \<Rightarrow> 'a heap option" where
  "grow_heap 0 cur virt s = Some s"
| "grow_heap (Suc n) cur virt s = do {
     let ((phys, page), s) = vmmngr_alloc_page 0 s;
     s \<leftarrow> (if phys \<noteq> 0
           then do {
             let s = vmmngr_map_page phys virt s;
             len \<leftarrow> block_size cur s;
             s \<leftarrow> set_size cur (len + PAGE_SIZE) s;
             Some (s\<lparr>total_malloc_pages := total_malloc_pages s + 1\<rparr>)
           }
           else Some s);
     grow_heap n cur (virt + PAGE_SIZE) s
   }"

definition malloc_next_block :: "u32 \<Rightarrow> 'a heap \<Rightarrow> (u32 \<times> 'a heap) option" where
  "malloc_next_block sz s =
     (if sz = 0 then Some (0, s)
      else do {
        head_size \<leftarrow> block_size (malloc_list_head s) s;
        s \<leftarrow> (if head_size = 0 then malloc_init sz s else Some s);
        cur \<leftarrow> malloc_find sz (malloc_list_head s) s;
        n \<leftarrow> block_size cur s;
        s \<leftarrow> (if n = sz then set_free cur False s
              else if sz < n then malloc_split cur sz s
              else do {
                page_count \<leftarrow> pages_needed n sz 1;
                let virt = malloc_virt_addr s + total_malloc_pages s * PAGE_SIZE;
                s \<leftarrow> grow_heap (unat page_count) cur virt s;
                malloc_split cur sz s
              });
        Some (cur + sizeof_malloc_block, s)
      })"

partial_function (option) merge_loop :: "u32 \<Rightarrow> 'a heap \<Rightarrow> 'a heap option" where
  "merge_loop cur s =
     (if cur = 0 then Some s
      else Option.bind (block_next cur s) (\<lambda>next.
        if next = 0 then Some s
        else Option.bind (block_free cur s) (\<lambda>free.
          Option.bind
            (if free
             then Option.bind (block_size cur s) (\<lambda>n.
               Option.bind (block_size next s) (\<lambda>k.
                 Option.bind (set_size cur (n + (k + sizeof_malloc_block)) s) (\<lambda>s.
                   Option.bind (block_next cur s) (\<lambda>nx.
                     Option.bind (block_next nx s) (\<lambda>nn. set_next cur nn s)))))
             else Some s)
            (\<lambda>s. Option.bind (block_next cur s) (\<lambda>cur. merge_loop cur s)))))"

definition merge_free_blocks :: "'a heap \<Rightarrow> 'a heap option" where
  "merge_free_blocks s = merge_loop (malloc_list_head s) s"

partial_function (option) free_loop :: "u32 \<Rightarrow> u32 \<Rightarrow> 'a heap \<Rightarrow> 'a heap option" where
  "free_loop ptr cur s =
     Option.bind (block_next cur s) (\<lambda>next.
       if next = 0 then Some s
       else if cur + sizeof_malloc_block = ptr
       then Option.bind (set_free cur True s) merge_free_blocks
       else free_loop ptr next s)"

definition malloc_free :: "u32 \<Rightarrow> 'a heap \<Rightarrow> 'a heap option" where
  "malloc_free ptr s = free_loop ptr (malloc_list_head s) s"

end
