(* ===== verification/Syscalls.thy ===== *)
theory Syscalls
  imports Malloc
begin

text \<open>
  Interrupt handlers and system calls: the default handlers of \<^verbatim>\<open>hal/idt.c\<close>, the page fault handler of
  \<^verbatim>\<open>interrupts/exceptions.c\<close>, the dispatcher and the calls of \<^verbatim>\<open>interrupts/syscall.c\<close>, and the library
  functions of \<^verbatim>\<open>C/stdlib.c\<close> that raise interrupt 0x80. A handler runs with the interrupt flag that its
  gate leaves: an interrupt gate clears it, and then no timer interrupt arrives during a wait.
  \<^verbatim>\<open>cli; hlt\<close> halts the machine. The first arguments of the printing functions are uninitialised
  local buffers.
\<close>

unbundle bit_operations_syntax

section \<open>Handlers\<close>

text \<open>\<open>sleep\<close> in the present state: the timer interrupts that arrive, none with interrupts disabled.\<close>

definition sleep_now :: "u32 \<Rightarrow> 'a fd \<Rightarrow> 'a fd option" where
  "sleep_now ms s = sleep ms (if int_flag s then dev_timer s (io_log s) else []) s"

definition cli_hlt :: "'a machine_scheme \<Rightarrow> 'a machine_scheme" where
  "cli_hlt s = s\<lparr>int_flag := False, halted := True\<rparr>"

text \<open>What the processor does on the way through a gate with the given flags.\<close>

definition enter_gate :: "u16 \<Rightarrow> 'a machine_scheme \<Rightarrow> 'a machine_scheme" where
  "enter_gate flags s = (if flags AND 0xF = 0xE then s\<lparr>int_flag := False\<rparr> else s)"

definition default_excp_handler :: "'a fd \<Rightarrow> 'a fd option" where
  "default_excp_handler s = do {
     let s = clear_screen s;
     s \<leftarrow> print_string (cstr ''DEFAULT EXCEPTION HANDLER - NO ERROR CODE'') s;
     sleep_now 200 s
   }"

definition default_excp_handler_err_code :: "u8 list \<Rightarrow> u32 \<Rightarrow> 'a fd \<Rightarrow> 'a fd option" where
  "default_excp_handler_err_code buf error_code s = do {
     let s = clear_screen s;
     s \<leftarrow> print_string (cstr ''DEFAULT EXCEPTION HANDLER - ERROR CODE:'') s;
     s \<leftarrow> print_hex buf error_code s;
     sleep_now 200 s
   }"

definition default_int_handler :: "'a fd \<Rightarrow> 'a fd option" where
  "default_int_handler s = do {
     let s = clear_screen s;
     s \<leftarrow> print_string (cstr ''DEFAULT INTERRUPT HANDLER'') s;
     sleep_now 200 s
   }"

definition page_fault_handler :: "u8 list \<Rightarrow> u32 \<Rightarrow> 'a display \<Rightarrow> 'a display option" where
  "page_fault_handler buf error_code s = do {
     let s = clear_screen s;
     s \<leftarrow> print_string (map of_char ''PAGE FAULT EXCEPTION (#PF)'' @ [13, 10] @ cstr ''ERROR CODE: '') s;
     s \<leftarrow> print_hex buf error_code s;
     let bad_addr = cr2 s;
     s \<leftarrow> print_string ([13, 10] @ cstr ''ADDRESS: '') s;
     s \<leftarrow> print_hex buf bad_addr s;
     Some (cli_hlt s)
   }"

section \<open>System calls\<close>

abbreviation EXIT_SUCCESS :: u32 where "EXIT_SUCCESS \<equiv> 0"
abbreviation EXIT_FAILURE :: u32 where "EXIT_FAILURE \<equiv> 1"

datatype syscall_numbers = SYSCALL_TEST0 | SYSCALL_SLEEP | SYSCALL_MALLOC | SYSCALL_FREE | SYSCALL_EXIT

primrec syscall_number :: "syscall_numbers \<Rightarrow> u32" where
  "syscall_number SYSCALL_TEST0 = 0"
| "syscall_number SYSCALL_SLEEP = 1"
| "syscall_number SYSCALL_MALLOC = 2"
| "syscall_number SYSCALL_FREE = 3"
| "syscall_number SYSCALL_EXIT = 4"

text \<open>The registers that the dispatcher pushes; it pushes them again into the processor but for EAX and EDX.\<close>

record syscall_regs =
  r_esp :: u32
  r_ebx :: u32
  r_ecx :: u32
  r_edx :: u32
  r_esi :: u32
  r_edi :: u32
  r_ebp :: u32
  r_ds :: u32
  r_es :: u32
  r_fs :: u32
  r_gs :: u32
  r_eax :: u32

text \<open>A call returns the value of EAX, the value it leaves in EDX when it sets it, and the state.\<close>

definition syscall_test0 :: "u8 list \<Rightarrow> syscall_regs \<Rightarrow> 'a heap \<Rightarrow> (u32 \<times> 'a heap) option" where
  "syscall_test0 buf regs s = do {
     let s = clear_screen s;
     s \<leftarrow> print_string (cstr ''test0 syscall; syscall # (EAX): '') s;
     s \<leftarrow> print_hex buf (r_eax regs) s;
     Some (EXIT_SUCCESS, s)
   }"

definition syscall_sleep :: "syscall_regs \<Rightarrow> 'a heap \<Rightarrow> (u32 \<times> 'a heap) option" where
  "syscall_sleep regs s =
     (let ticks = r_ebx regs; s = for_u32 0 (ticks * 100000) (\<lambda>i s. s) s in Some (EXIT_SUCCESS, s))"

definition syscall_malloc :: "syscall_regs \<Rightarrow> 'a heap \<Rightarrow> (u32 \<times> u32 \<times> 'a heap) option" where
  "syscall_malloc regs s = do {
     let bytes = r_ebx regs;
     s \<leftarrow> (if \<not> is_malloc_inited s then malloc_init bytes s else Some s);
     (ptr, s) \<leftarrow> malloc_next_block bytes s;
     s \<leftarrow> merge_free_blocks s;
     Some (EXIT_SUCCESS, ptr, s)
   }"

definition syscall_free :: "syscall_regs \<Rightarrow> 'a heap \<Rightarrow> (u32 \<times> 'a heap) option" where
  "syscall_free regs s = do {
     s \<leftarrow> malloc_free (r_ebx regs) s;
     Some (EXIT_SUCCESS, s)
   }"

definition syscall_exit :: "syscall_regs \<Rightarrow> 'a heap \<Rightarrow> (u32 \<times> 'a heap) option" where
  "syscall_exit regs s =
     (let status = r_ebx regs
      in if status \<noteq> 0 then Some (EXIT_FAILURE, s) else Some (EXIT_SUCCESS, cli_hlt s))"

text \<open>
  The dispatcher, with the bound that its assembly text defines for itself. A call that does not
  set EDX leaves \<open>edx\<close> there, which is not specified.
\<close>

abbreviation ASM_MAX_SYSCALLS :: u32 where "ASM_MAX_SYSCALLS \<equiv> 4"

definition syscalls ::
  "u32 \<Rightarrow> u8 list \<Rightarrow> u32 \<Rightarrow> syscall_regs \<Rightarrow> 'a heap \<Rightarrow> (u32 \<times> u32 \<times> 'a heap) option" where
  \<comment> \<open>the table of the five calls\<close>
  "syscalls edx buf n regs s =
     (if n = 0 then map_option (\<lambda>(r, s). (r, edx, s)) (syscall_test0 buf regs s)
      else if n = 1 then map_option (\<lambda>(r, s). (r, edx, s)) (syscall_sleep regs s)
      else if n = 2 then syscall_malloc regs s
      else if n = 3 then map_option (\<lambda>(r, s). (r, edx, s)) (syscall_free regs s)
      else map_option (\<lambda>(r, s). (r, edx, s)) (syscall_exit regs s))"

definition syscall_dispatcher ::
  "u32 \<Rightarrow> u8 list \<Rightarrow> syscall_regs \<Rightarrow> 'a heap \<Rightarrow> (syscall_regs \<times> 'a heap) option" where
  "syscall_dispatcher edx buf regs s =
     (if ASM_MAX_SYSCALLS - 1 < r_eax regs then Some (regs\<lparr>r_eax := - 1\<rparr>, s)
      else do {
        (r, d, s) \<leftarrow> syscalls edx buf (r_eax regs) regs s;
        Some (regs\<lparr>r_eax := r, r_edx := d\<rparr>, s)
      })"

text \<open>
  \<^verbatim>\<open>int $0x80\<close>: through the gate to the dispatcher, and back with the flags of the caller. A machine
  that halted does not come back.
\<close>

definition int_0x80 ::
  "u32 \<Rightarrow> u8 list \<Rightarrow> syscall_regs \<Rightarrow> 'a heap \<Rightarrow> (syscall_regs \<times> 'a heap) option" where
  "int_0x80 edx buf regs s = do {
     (regs, s') \<leftarrow> syscall_dispatcher edx buf regs (enter_gate 0xEE s);
     Some (regs, if halted s' then s' else s'\<lparr>int_flag := int_flag s\<rparr>)
   }"

section \<open>The library\<close>

text \<open>The registers at a call; no system call reads the ones set to 0 here, nor \<open>edx\<close> but for \<open>malloc\<close>.\<close>

definition call_regs :: "syscall_numbers \<Rightarrow> u32 \<Rightarrow> syscall_regs" where
  "call_regs n ebx =
     \<lparr>r_esp = 0, r_ebx = ebx, r_ecx = 0, r_edx = 0, r_esi = 0, r_edi = 0, r_ebp = 0, r_ds = 0,
      r_es = 0, r_fs = 0, r_gs = 0, r_eax = syscall_number n\<rparr>"

definition malloc :: "u32 \<Rightarrow> 'a heap \<Rightarrow> (u32 \<times> 'a heap) option" where
  "malloc bytes s = do {
     (regs, s) \<leftarrow> int_0x80 0 [] (call_regs SYSCALL_MALLOC bytes) s;
     Some (r_edx regs, s)
   }"

definition free :: "u32 \<Rightarrow> 'a heap \<Rightarrow> 'a heap option" where
  "free ptr s = map_option snd (int_0x80 0 [] (call_regs SYSCALL_FREE ptr) s)"

definition exit :: "u32 \<Rightarrow> 'a heap \<Rightarrow> (u32 \<times> 'a heap) option" where
  \<comment> \<open>with the value that EAX holds when the call comes back\<close>
  "exit status s = do {
     (regs, s) \<leftarrow> int_0x80 0 [] (call_regs SYSCALL_EXIT status) s;
     Some (r_eax regs, s)
   }"

end
