(* ===== verification/Heap_view.thy ===== *)
theory Heap_view
  imports Malloc
begin

text \<open>
  The memory behind the heap. \<open>byte_memory\<close> is a memory that is read and written byte by byte and
  that behaves as a function from addresses to bytes on a range of addresses; words and block
  headers follow from it. It is interpreted by the accesses through the page tables, for a range
  of virtual addresses whose frames are distinct and hold no page table.
\<close>

unbundle bit_operations_syntax

section \<open>A memory of bytes\<close>

locale byte_memory =
  fixes ld :: "u32 \<Rightarrow> 's \<Rightarrow> u8 option"
    and st :: "u32 \<Rightarrow> u8 \<Rightarrow> 's \<Rightarrow> 's option"
    and view :: "'s \<Rightarrow> memory \<Rightarrow> bool"
    and inside :: "u32 \<Rightarrow> bool"
    and kept :: "'s \<Rightarrow> 's \<Rightarrow> bool"
  assumes ld_view: "view s M \<Longrightarrow> inside a \<Longrightarrow> ld a s = Some (M a)"
    and st_view: "view s M \<Longrightarrow> inside a \<Longrightarrow> \<exists>s'. st a b s = Some s' \<and> view s' (M(a := b)) \<and> kept s s'"
    and kept_refl: "kept s s"
    and kept_trans: "kept s t \<Longrightarrow> kept t u \<Longrightarrow> kept s u"
begin

definition ld32 :: "u32 \<Rightarrow> 's \<Rightarrow> u32 option" where
  "ld32 a s = do {
     b0 \<leftarrow> ld a s;
     b1 \<leftarrow> ld (a + 1) s;
     b2 \<leftarrow> ld (a + 2) s;
     b3 \<leftarrow> ld (a + 3) s;
     Some (ucast b0 OR push_bit 8 (ucast b1) OR push_bit 16 (ucast b2) OR push_bit 24 (ucast b3))
   }"

definition st32 :: "u32 \<Rightarrow> u32 \<Rightarrow> 's \<Rightarrow> 's option" where
  "st32 a v s = do {
     s \<leftarrow> st a (ucast v) s;
     s \<leftarrow> st (a + 1) (ucast (drop_bit 8 v)) s;
     s \<leftarrow> st (a + 2) (ucast (drop_bit 16 v)) s;
     st (a + 3) (ucast (drop_bit 24 v)) s
   }"

definition inside32 :: "u32 \<Rightarrow> bool" where
  "inside32 a \<longleftrightarrow> inside a \<and> inside (a + 1) \<and> inside (a + 2) \<and> inside (a + 3)"

lemma ld32_view: "view s M \<Longrightarrow> inside32 a \<Longrightarrow> ld32 a s = Some (load32 M a)"
  by (simp add: ld32_def inside32_def ld_view load32_def or.assoc)

lemma st32_view:
  assumes "view s M" "inside32 a"
  obtains s' where "st32 a v s = Some s'" "view s' (store32 M a v)" "kept s s'"
proof -
  from assms(2) have i: "inside a" "inside (a + 1)" "inside (a + 2)" "inside (a + 3)"
    by (simp_all add: inside32_def)
  obtain s1 where s1: "st a (ucast v) s = Some s1" "view s1 (M(a := ucast v))" "kept s s1"
    using st_view [OF assms(1) i(1)] by blast
  obtain s2 where s2: "st (a + 1) (ucast (drop_bit 8 v)) s1 = Some s2"
    "view s2 (M(a := ucast v, a + 1 := ucast (drop_bit 8 v)))" "kept s1 s2"
    using st_view [OF s1(2) i(2)] by blast
  obtain s3 where s3: "st (a + 2) (ucast (drop_bit 16 v)) s2 = Some s3"
    "view s3 (M(a := ucast v, a + 1 := ucast (drop_bit 8 v), a + 2 := ucast (drop_bit 16 v)))" "kept s2 s3"
    using st_view [OF s2(2) i(3)] by blast
  obtain s4 where s4: "st (a + 3) (ucast (drop_bit 24 v)) s3 = Some s4" "view s4 (store32 M a v)" "kept s3 s4"
    using st_view [OF s3(2) i(4)] unfolding store32_def by blast
  have "st32 a v s = Some s4" by (simp add: st32_def s1(1) s2(1) s3(1) s4(1))
  then show ?thesis using that s4(2) s1(3) s2(3) s3(3) s4(3) kept_trans by blast
qed

end

section \<open>Virtual addresses\<close>

definition heap_bytes :: "u32 \<Rightarrow> 'a machine_scheme \<Rightarrow> u32 set" where
  "heap_bytes E s = {p. \<exists>va < E. translate s va = Some p}"

definition heap_mapped :: "u32 \<Rightarrow> 'a machine_scheme \<Rightarrow> bool" where
  "heap_mapped E s \<longleftrightarrow> (\<forall>va < E. translate s va \<noteq> None) \<and>
     (\<forall>va < E. \<forall>vb < E. translate s va = translate s vb \<longrightarrow> va = vb) \<and>
     (\<forall>m. (\<forall>x. x \<notin> heap_bytes E s \<longrightarrow> m x = ram s x) \<longrightarrow> (\<forall>va. translate (s\<lparr>ram := m\<rparr>) va = translate s va))"

definition heap_view :: "u32 \<Rightarrow> 'a machine_scheme \<Rightarrow> memory \<Rightarrow> bool" where
  "heap_view E s M \<longleftrightarrow> heap_mapped E s \<and> (\<forall>va < E. vload8 va s = Some (M va))"

definition heap_kept :: "u32 \<Rightarrow> 'a machine_scheme \<Rightarrow> 'a machine_scheme \<Rightarrow> bool" where
  "heap_kept E s s' \<longleftrightarrow> (\<exists>m. s' = s\<lparr>ram := m\<rparr>) \<and> (\<forall>va. translate s' va = translate s va) \<and>
     (\<forall>x. x \<notin> heap_bytes E s \<longrightarrow> ram s' x = ram s x)"

lemma heap_kept_bytes: "heap_kept E s s' \<Longrightarrow> heap_bytes E s' = heap_bytes E s"
  by (simp add: heap_kept_def heap_bytes_def)

lemma heap_kept_mapped:
  assumes "heap_mapped E s" "heap_kept E s s'"
  shows "heap_mapped E s'"
proof -
  from assms(2) obtain m where m: "s' = s\<lparr>ram := m\<rparr>" "\<And>va. translate s' va = translate s va"
    "\<And>x. x \<notin> heap_bytes E s \<Longrightarrow> m x = ram s x" by (auto simp: heap_kept_def)
  have "translate (s'\<lparr>ram := m'\<rparr>) va = translate s' va"
    if "\<And>x. x \<notin> heap_bytes E s' \<Longrightarrow> m' x = ram s' x" for m' va
  proof -
    have "m' x = ram s x" if "x \<notin> heap_bytes E s" for x
      using that m(3) \<open>\<And>x. x \<notin> heap_bytes E s' \<Longrightarrow> m' x = ram s' x\<close> [of x] m(1) heap_kept_bytes [OF assms(2)] by simp
    then have "translate (s\<lparr>ram := m'\<rparr>) va = translate s va" using assms(1) by (simp add: heap_mapped_def)
    then show ?thesis using m(1,2) by simp
  qed
  with assms(1) m(2) show ?thesis by (auto simp: heap_mapped_def)
qed

lemma vstore8_view:
  assumes "heap_view E s M" "va < E"
  shows "\<exists>s'. vstore8 va b s = Some s' \<and> heap_view E s' (M(va := b)) \<and> heap_kept E s s'"
proof -
  have hm: "heap_mapped E s" using assms(1) by (simp add: heap_view_def)
  from hm assms(2) obtain p where p: "translate s va = Some p" by (auto simp: heap_mapped_def)
  let ?s = "s\<lparr>ram := (ram s)(p := b)\<rparr>"
  have "p \<in> heap_bytes E s" using p assms(2) by (auto simp: heap_bytes_def)
  then have t: "translate ?s vb = translate s vb" for vb
    using hm by (auto simp: heap_mapped_def)
  with \<open>p \<in> heap_bytes E s\<close> have k: "heap_kept E s ?s" by (auto simp: heap_kept_def)
  have "vload8 vb ?s = Some ((M(va := b)) vb)" if "vb < E" for vb
  proof (cases "vb = va")
    case False
    then have "translate s vb \<noteq> Some p" using hm assms(2) that p by (metis heap_mapped_def)
    then show ?thesis using False assms(1) that by (auto simp: heap_view_def vload8_def t split: option.splits)
  qed (simp add: vload8_def t p)
  then show ?thesis using p k heap_kept_mapped [OF hm k] by (simp add: vstore8_def heap_view_def)
qed

interpretation heap_mem: byte_memory vload8 vstore8 "heap_view E" "\<lambda>va. va < E" "heap_kept E"
proof
  fix s t u :: "'a machine_scheme" and M a b
  show "heap_view E s M \<Longrightarrow> a < E \<Longrightarrow> vload8 a s = Some (M a)" by (simp add: heap_view_def)
  show "heap_view E s M \<Longrightarrow> a < E \<Longrightarrow> \<exists>s'. vstore8 a b s = Some s' \<and> heap_view E s' (M(a := b)) \<and> heap_kept E s s'"
    by (rule vstore8_view)
  show "heap_kept E s s" unfolding heap_kept_def by (metis machine.surjective machine.update_convs(1))
  assume k: "heap_kept E s t" "heap_kept E t u"
  then show "heap_kept E s u"
    using heap_kept_bytes [OF k(1)] by (auto simp: heap_kept_def)
qed

lemma heap_words: "heap_mem.ld32 = vload32" "heap_mem.st32 = vstore32"
  by (simp_all add: fun_eq_iff heap_mem.ld32_def heap_mem.st32_def vload32_def vstore32_def)

end
