(* ===== verification/Floppy_props.thy ===== *)
theory Floppy_props
  imports Floppy Timer_props
begin

text \<open>
  Correctness of the floppy driver: the address conversion, and the whole of \<open>fd_read_sector\<close>
  against a drive that answers as its data sheet says.
\<close>

unbundle bit_operations_syntax

section \<open>Addresses\<close>

lemma fd_lba_to_chs_unat:
  assumes "fd_lba_to_chs lba = (head, track, sector)"
  shows "unat head = unat lba mod 36 div 18" "unat track = unat lba div 36"
    "unat sector = unat lba mod 18 + 1"
  using assms by (auto simp: fd_lba_to_chs_def Let_def unat_div unat_mod unat_word_ariths)

lemma chs_inverse: "(2 * (n div 36) + n mod 36 div 18) * 18 + n mod 18 = (n::nat)"
proof -
  have "(2 * q + u) * 18 + t = n" if "n = 36 * q + r" "r = 18 * u + t" for q r u t
    using that by simp
  then have "(2 * (n div 36) + n mod 36 div 18) * 18 + n mod 36 mod 18 = n"
    by this (simp_all only: mult_div_mod_eq)
  moreover have "n mod 36 mod 18 = n mod 18" by (simp add: mod_mod_cancel)
  ultimately show ?thesis by simp
qed

section \<open>A working drive\<close>

text \<open>The bytes that a history sends to the controller.\<close>

fun fifo_out :: "io_event list \<Rightarrow> u8 list" where
  "fifo_out [] = []"
| "fifo_out (Out_b p v # es) = (if p = 0x3F5 then v # fifo_out es else fifo_out es)"
| "fifo_out (_ # es) = fifo_out es"

lemma fifo_out_append [simp]: "fifo_out (xs @ ys) = fifo_out xs @ fifo_out ys"
  by (induction xs rule: fifo_out.induct) auto

text \<open>How often a history reads the data port of the keyboard.\<close>

primrec data_read :: "io_event \<Rightarrow> bool" where
  "data_read (Out_b p v) = False"
| "data_read (Out_w p v) = False"
| "data_read (In_b p v) = (p = KEYBOARD_DATA)"
| "data_read (In_w p v) = False"

definition key_reads :: "io_event list \<Rightarrow> nat" where
  "key_reads l = length (filter data_read l)"

lemma key_reads_simps [simp]: "key_reads [] = 0" "key_reads (l @ l') = key_reads l + key_reads l'"
  "key_reads (e # l) = (if data_read e then 1 else 0) + key_reads l"
  by (simp_all add: key_reads_def)

definition put_sector :: "(nat \<Rightarrow> u8) \<Rightarrow> memory \<Rightarrow> memory" where
  "put_sector f m x = (if in_region DMA_BUFFER 512 x then f (unat (x - DMA_BUFFER)) else m x)"

text \<open>
  The drive is ready for every command and raises its interrupt; the timer runs; after a seek the
  second byte of the interrupt status is the cylinder asked for, and a seek transfers nothing;
  a read command transfers the sector it names from the image to the buffer.
\<close>

definition drive_ready :: "'a fd \<Rightarrow> bool" where
  "drive_ready s \<longleftrightarrow> current_drive s \<le> 3 \<and> fd_irq6_stat s = 0 \<and>
     (\<forall>h. bit (dev_b s h 0x3F4) 7) \<and> (\<forall>h. dev_irq6 s h) \<and>
     (\<forall>h. 20 \<le> sum_list (dev_timer s h) \<and> (\<forall>n \<in> set (dev_timer s h). n \<le> 1))"

definition drive_seeks :: "'a fd \<Rightarrow> bool" where
  "drive_seeks s \<longleftrightarrow>
     (\<forall>h st r xs hdr cyl. fifo_out h = xs @ [0x0F, hdr, cyl, 8] \<and> hdr \<le> 7 \<longrightarrow>
        dev_b s (h @ [In_b 0x3F5 st, In_b 0x3F4 r]) 0x3F5 = cyl) \<and>
     (\<forall>h m xs hdr cyl. fifo_out h = xs @ [0x0F, hdr, cyl] \<and> hdr \<le> 7 \<longrightarrow> dev_dma s h m = m)"

definition drive_reads :: "(nat \<Rightarrow> nat \<Rightarrow> u8) \<Rightarrow> 'a fd \<Rightarrow> bool" where
  "drive_reads img s \<longleftrightarrow>
     (\<forall>h m xs hdr cyl head sec eot. fifo_out h = xs @ [0xE6, hdr, cyl, head, sec, 2, eot, 27, 0xFF] \<longrightarrow>
        dev_dma s h m = put_sector (img ((2 * unat cyl + unat head) * 18 + unat sec - 1)) m)"

definition drive_ok :: "(nat \<Rightarrow> nat \<Rightarrow> u8) \<Rightarrow> 'a fd \<Rightarrow> bool" where
  "drive_ok img s \<longleftrightarrow> drive_ready s \<and> drive_seeks s \<and> drive_reads img s"

text \<open>A history that grows without reading a key.\<close>

definition log_grows :: "'a machine_scheme \<Rightarrow> 'a machine_scheme \<Rightarrow> bool" where
  "log_grows s s' \<longleftrightarrow> (\<exists>l. io_log s' = io_log s @ l \<and> key_reads l = 0)"

lemma log_grows_trans: "log_grows s t \<Longrightarrow> log_grows t u \<Longrightarrow> log_grows s u"
  by (fastforce simp: log_grows_def)

lemma log_growsI [intro]: "io_log s' = io_log s @ l \<Longrightarrow> key_reads l = 0 \<Longrightarrow> log_grows s s'"
  by (auto simp: log_grows_def)

text \<open>
  What the driver does not change: the devices, its variables, the processor, and the state of
  the other components.
\<close>

definition same_drive :: "'a fd \<Rightarrow> 'a fd \<Rightarrow> bool" where
  "same_drive s s' \<longleftrightarrow> cr0 s' = cr0 s \<and> cr3 s' = cr3 s \<and> int_flag s' = int_flag s \<and> halted s' = halted s \<and>
     cursor_x s' = cursor_x s \<and> cursor_y s' = cursor_y s \<and> used_blocks s' = used_blocks s \<and> max_blocks s' = max_blocks s \<and>
     memory_map s' = memory_map s \<and> curdir s' = curdir s \<and> scancode s' = scancode s \<and> log_grows s s' \<and> dev_b s' = dev_b s \<and> dev_irq6 s' = dev_irq6 s \<and> dev_dma s' = dev_dma s \<and>
     dev_timer s' = dev_timer s \<and> current_drive s' = current_drive s \<and> fd_irq6_stat s' = fd_irq6_stat s \<and>
     fd_state.more s' = fd_state.more s"

lemma same_drive_trans: "same_drive s t \<Longrightarrow> same_drive t u \<Longrightarrow> same_drive s u"
  using log_grows_trans [of s t u] by (simp add: same_drive_def)

lemma same_drive_refl [simp]: "same_drive s s"
  by (simp add: same_drive_def log_grows_def)

lemma same_drive_ok:
  "same_drive s s' \<Longrightarrow> drive_ready s' = drive_ready s" "same_drive s s' \<Longrightarrow> drive_seeks s' = drive_seeks s"
  "same_drive s s' \<Longrightarrow> drive_ok img s' = drive_ok img s"
  by (simp_all add: same_drive_def drive_ok_def drive_ready_def drive_seeks_def drive_reads_def)

text \<open>
  A step of the driver: the drive is the same, the history grows by events that send \<open>bs\<close> to the
  controller, and the memory stays.
\<close>

definition fd_step :: "u8 list \<Rightarrow> 'a fd \<Rightarrow> 'a fd \<Rightarrow> bool" where
  "fd_step bs s s' \<longleftrightarrow> same_drive s s' \<and> fifo_out (io_log s') = fifo_out (io_log s) @ bs \<and> ram s' = ram s"

lemma fd_step_trans: "fd_step bs s t \<Longrightarrow> fd_step cs t u \<Longrightarrow> fd_step (bs @ cs) s u"
  by (auto simp: fd_step_def intro: same_drive_trans)

lemma fd_step_refl [simp]: "fd_step [] s s"
  by (simp add: fd_step_def)

section \<open>The driver against a working drive\<close>

lemma poll_ready:
  assumes "drive_ready s"
  shows "fd_poll 500 s = (True, s\<lparr>io_log := io_log s @ [In_b 0x3F4 (dev_b s (io_log s) 0x3F4)]\<rparr>)"
proof -
  let ?v = "dev_b s (io_log s) 0x3F4"
  have "bit (?v AND 128) 7" using assms by (simp add: drive_ready_def bit_and_iff bit_simps)
  then have "?v AND 128 \<noteq> 0" by auto
  then have "fd_poll (Suc 499) s = (True, s\<lparr>io_log := io_log s @ [In_b 0x3F4 ?v]\<rparr>)"
    by (simp only: fd_poll.simps) (simp add: fd_read_status_def inb_def Let_def)
  then show ?thesis by simp
qed

lemma send_step:
  assumes "drive_ready s"
  shows "fd_step [c] s (fd_send_command c s)"
  unfolding fd_send_command_def poll_ready [OF assms]
  by (simp add: fd_step_def same_drive_def log_grows_def outb_def)

lemma read_data_eq:
  assumes "drive_ready s"
  defines "r \<equiv> dev_b s (io_log s) 0x3F4"
  defines "v \<equiv> dev_b s (io_log s @ [In_b 0x3F4 r]) 0x3F5"
  shows "fd_read_data s = (v, s\<lparr>io_log := io_log s @ [In_b 0x3F4 r, In_b 0x3F5 v]\<rparr>)"
  unfolding fd_read_data_def poll_ready [OF assms(1)]
  by (simp add: inb_def Let_def r_def v_def)

lemma read_data_step:
  assumes "drive_ready s"
  shows "fd_step [] s (snd (fd_read_data s))"
  by (simp add: read_data_eq [OF assms] fd_step_def same_drive_def log_grows_def)

text \<open>The second byte of the interrupt status is read right after the command.\<close>

lemma check_int_step:
  assumes "drive_ready s"
  shows "fd_step [8] s (snd (fd_check_int s))"
    "\<exists>h st r. fifo_out h = fifo_out (io_log s) @ [8] \<and>
       snd (fst (fd_check_int s)) = ucast (dev_b s (h @ [In_b 0x3F5 st, In_b 0x3F4 r]) 0x3F5)"
proof -
  define t where "t = fd_send_command 8 s"
  have st: "fd_step [8] s t" unfolding t_def by (rule send_step [OF assms])
  have rt: "drive_ready t" using st assms same_drive_ok(1) by (auto simp: fd_step_def)
  define u where "u = snd (fd_read_data t)"
  have su: "fd_step [] t u" unfolding u_def by (rule read_data_step [OF rt])
  have ru: "drive_ready u" using su rt same_drive_ok(1) by (auto simp: fd_step_def)
  have eq: "fd_check_int s = ((ucast (fst (fd_read_data t)), ucast (fst (fd_read_data u))), snd (fd_read_data u))"
    by (simp add: fd_check_int_def Let_def t_def u_def split_beta)
  show "fd_step [8] s (snd (fd_check_int s))"
    using fd_step_trans [OF st fd_step_trans [OF su read_data_step [OF ru]]] by (simp add: eq)
  define r v where "r = dev_b t (io_log t) 0x3F4" and "v = dev_b t (io_log t @ [In_b 0x3F4 r]) 0x3F5"
  have u: "io_log u = (io_log t @ [In_b 0x3F4 r]) @ [In_b 0x3F5 v]"
    by (simp add: u_def read_data_eq [OF rt] r_def v_def)
  have "dev_b u = dev_b s" using st su by (simp add: fd_step_def same_drive_def)
  then have "fst (fd_read_data u) = dev_b s ((io_log t @ [In_b 0x3F4 r]) @
      [In_b 0x3F5 v, In_b 0x3F4 (dev_b s (io_log u) 0x3F4)]) 0x3F5"
    by (simp add: read_data_eq [OF ru] u)
  moreover have "fifo_out (io_log t @ [In_b 0x3F4 r]) = fifo_out (io_log s) @ [8]" using st by (simp add: fd_step_def)
  ultimately show "\<exists>h st r. fifo_out h = fifo_out (io_log s) @ [8] \<and>
      snd (fst (fd_check_int s)) = ucast (dev_b s (h @ [In_b 0x3F5 st, In_b 0x3F4 r]) 0x3F5)"
    unfolding eq by (metis fst_conv snd_conv)
qed

lemma wait_irq6_step:
  assumes "drive_ready s"
  obtains s' where "fd_wait_irq6 s = Some s'" "same_drive s s'"
    "fifo_out (io_log s') = fifo_out (io_log s)" "ram s' = dev_dma s (io_log s) (ram s)"
proof -
  have "fd_irq6_stat s = 0" "dev_irq6 s (io_log s)" using assms by (auto simp: drive_ready_def)
  then show ?thesis
    using that by (simp add: fd_wait_irq6_def fd_irq6_handler_def send_pic_eoi_def outb_def Let_def
        same_drive_def log_grows_def)
qed

lemma sleep_until_fast:
  assumes "\<forall>n \<in> set arrivals. n \<le> 1" "unat ticks \<le> unat (pit_ticks s) + sum_list arrivals"
  obtains s' where "sleep_until ticks arrivals s = Some s'" "\<exists>n. s' = (timer_irq0_handler ^^ n) s"
  using assms
proof (induction arrivals arbitrary: s thesis)
  case Nil
  then have "sleep_until ticks [] s = Some s"
    by (simp add: sleep_until.simps get_tick_count_def word_le_nat_alt word_less_nat_alt)
  then show ?case using Nil(1) [of s] by (metis funpow_0)
next
  case (Cons n arrivals)
  show ?case
  proof (cases "pit_ticks s < ticks")
    case True
    let ?s = "(timer_irq0_handler ^^ n) s"
    have "unat (pit_ticks ?s) = unat (pit_ticks s) + n"
    proof -
      have "unat (pit_ticks s + 1) = unat (pit_ticks s) + 1"
        using True by (simp add: unat_Suc_less)
      moreover have "n = 0 \<or> n = 1" using Cons.prems(2) by auto
      ultimately show ?thesis by (auto simp: handler_ticks)
    qed
    then obtain s' k where s': "sleep_until ticks arrivals ?s = Some s'"
      and k: "s' = (timer_irq0_handler ^^ k) ?s"
    proof -
      have "\<forall>n \<in> set arrivals. n \<le> 1" "unat ticks \<le> unat (pit_ticks ?s) + sum_list arrivals"
        using Cons.prems(2,3) \<open>unat (pit_ticks ?s) = unat (pit_ticks s) + n\<close> by simp_all
      then show ?thesis using Cons.IH [of ?s] that by blast
    qed
    have "s' = (timer_irq0_handler ^^ (k + n)) s" using k by (simp add: funpow_add)
    moreover have "sleep_until ticks (n # arrivals) s = Some s'"
      using True s' by (simp add: sleep_until.simps [of ticks "n # arrivals"] get_tick_count_def)
    ultimately show ?thesis using Cons.prems(1) by blast
  next
    case False
    then have "sleep_until ticks (n # arrivals) s = Some s"
      by (simp add: sleep_until.simps [of ticks "n # arrivals"] get_tick_count_def)
    then show ?thesis using Cons.prems(1) [of s] by (metis funpow_0)
  qed
qed

lemma handler_step: "fd_step [] s ((timer_irq0_handler ^^ n) s)"
proof (induction n)
  case (Suc n)
  have "fd_step [] t (timer_irq0_handler t)" for t :: "'a fd"
    by (simp add: timer_irq0_handler_def send_pic_eoi_def outb_def fd_step_def same_drive_def log_grows_def)
  from fd_step_trans [OF Suc this] show ?case by simp
qed simp

lemma motor_step:
  assumes "drive_ready s"
  obtains s' where "fd_control_motor on s = Some s'" "fd_step [] s s'"
proof -
  define m where "m = (if current_drive s = 0 then fd_dor FD_DOR_MASK_DRIVE0_MOTOR
     else if current_drive s = 1 then fd_dor FD_DOR_MASK_DRIVE1_MOTOR
     else if current_drive s = 2 then fd_dor FD_DOR_MASK_DRIVE2_MOTOR
     else fd_dor FD_DOR_MASK_DRIVE3_MOTOR)"
  define t where "t = fd_write_dor (if on then m OR fd_dor FD_DOR_MASK_RESET OR fd_dor FD_DOR_MASK_DMA
     else fd_dor FD_DOR_MASK_RESET) s"
  have st: "fd_step [] s t" by (simp add: t_def fd_write_dor_def outb_def fd_step_def same_drive_def log_grows_def)
  let ?a = "dev_timer t (io_log t)" and ?ticks = "20 + pit_ticks t"
  have a: "20 \<le> sum_list ?a" "\<forall>n \<in> set ?a. n \<le> 1"
    using assms st by (auto simp: drive_ready_def fd_step_def same_drive_def)
  have "unat ?ticks \<le> unat (pit_ticks t) + 20"
    by (simp add: unat_word_ariths)
  then obtain s' n where s': "sleep_until ?ticks ?a t = Some s'" "s' = (timer_irq0_handler ^^ n) t"
  proof -
    assume "unat ?ticks \<le> unat (pit_ticks t) + 20"
    then have "unat ?ticks \<le> unat (pit_ticks t) + sum_list ?a" using a(1) by linarith
    then show ?thesis using sleep_until_fast [OF a(2)] that by blast
  qed
  have "\<not> 3 < current_drive s" using assms by (auto simp: drive_ready_def)
  then have "fd_control_motor on s = sleep 20 ?a t"
    by (simp add: fd_control_motor_def m_def t_def Let_def)
  then have "fd_control_motor on s = Some s'"
    using s'(1) by (simp add: sleep_def get_tick_count_def)
  then show ?thesis using that fd_step_trans [OF st handler_step] s'(2) by fastforce
qed

lemma fd_step_ready: "fd_step bs s t \<Longrightarrow> drive_ready s \<Longrightarrow> drive_ready t"
  using same_drive_ok(1) by (auto simp: fd_step_def)

lemma for_read_data:
  assumes "drive_ready s"
  shows "fd_step [] s (for_u32 0 7 (\<lambda>_ s. snd (fd_read_data s)) s)"
proof (rule for_u32_invariant)
  fix k and t :: "'a fd"
  assume t: "fd_step [] s t"
  show "fd_step [] s (snd (fd_read_data t))"
    using fd_step_trans [OF t read_data_step [OF fd_step_ready [OF t assms]]] by simp
qed simp

lemma sends_step:
  assumes "drive_ready s"
  shows "fd_step bs s (fold fd_send_command bs s)"
  using assms
proof (induction bs arbitrary: s)
  case (Cons b bs)
  note b = send_step [OF Cons.prems, of b]
  from fd_step_trans [OF b Cons.IH [OF fd_step_ready [OF b Cons.prems]]] show ?case by simp
qed simp

lemma ucast_small: "unat (x::u32) < 256 \<Longrightarrow> unat (ucast x :: u8) = unat x"
  by (simp add: unsigned_ucast_eq take_bit_nat_eq_self)

lemma ucast_ucast_small:
  assumes "unat (x::u32) < 256"
  shows "ucast (ucast x :: u8) = x"
proof -
  have "unat (ucast (ucast x :: u8) :: u32) = unat x"
    using assms by (simp add: unsigned_ucast_eq [of "ucast x :: u8"] ucast_small take_bit_nat_eq_self)
  then show ?thesis by (simp add: word_unat_eq_iff)
qed

text \<open>A seek transfers nothing. One pass of the retry loop, with the cylinder that the drive reports.\<close>

definition seek_quiet :: "'a fd \<Rightarrow> bool" where
  "seek_quiet s \<longleftrightarrow> (\<forall>h m xs hdr cyl. fifo_out h = xs @ [0x0F, hdr, cyl] \<and> hdr \<le> 7 \<longrightarrow> dev_dma s h m = m)"

lemma seek_attempt:
  assumes ready: "drive_ready s" and quiet: "seek_quiet s" and head: "unat head < 2"
  obtains u h st r xs hdr where
    "fd_seek_loop (Suc n) cy1 head s =
       (if cy1 = ucast (dev_b s (h @ [In_b 0x3F5 st, In_b 0x3F4 r]) 0x3F5) then Some (0, u) else fd_seek_loop n cy1 head u)"
    "fifo_out h = xs @ [0x0F, hdr, ucast cy1, 8]" "hdr \<le> 7" "\<exists>bs. fd_step bs s u"
proof -
  define h :: u8 where "h = ucast (push_bit 2 head OR ucast (current_drive s))"
  have d: "current_drive s \<le> 3" using ready by (auto simp: drive_ready_def)
  have "head = 0 \<or> head = 1" using head by (auto simp: word_unat_eq_iff)
  moreover have "current_drive s = 0 \<or> current_drive s = 1 \<or> current_drive s = 2 \<or> current_drive s = 3"
    using d by (auto simp: word_le_nat_alt word_unat_eq_iff)
  ultimately have h: "h \<le> 7" by (elim disjE) (simp_all add: h_def)
  define t where "t = fold fd_send_command [0x0F, h, ucast cy1] s"
  have st: "fd_step [0x0F, h, ucast cy1] s t" unfolding t_def by (rule sends_step [OF ready])
  have rt: "drive_ready t" using fd_step_ready [OF st ready] .
  obtain u where u: "fd_wait_irq6 t = Some u" "same_drive t u" "fifo_out (io_log u) = fifo_out (io_log t)"
    "ram u = dev_dma t (io_log t) (ram t)" using wait_irq6_step [OF rt] .
  have ft: "fifo_out (io_log t) = fifo_out (io_log s) @ [0x0F, h, ucast cy1]" "dev_dma t = dev_dma s"
    using st by (simp_all add: fd_step_def same_drive_def)
  then have "ram u = ram t" using quiet h u(4) unfolding seek_quiet_def by metis
  then have su: "fd_step [] t u" using u by (simp add: fd_step_def)
  have ru: "drive_ready u" using rt u(2) same_drive_ok(1) by blast
  have bu: "dev_b u = dev_b s" using u(2) st by (simp add: fd_step_def same_drive_def)
  note C = check_int_step [OF ru]
  obtain h' st' r where c: "fifo_out h' = fifo_out (io_log s) @ [0x0F, h, ucast cy1, 8]"
    "snd (fst (fd_check_int u)) = ucast (dev_b s (h' @ [In_b 0x3F5 st', In_b 0x3F4 r]) 0x3F5)"
    using C(2) u(3) ft(1) bu by auto
  have send_drive: "current_drive (fd_send_command 0x0F s) = current_drive s"
    using send_step [OF ready, of "0x0F"] by (simp add: fd_step_def same_drive_def)
  have run: "fd_seek_loop (Suc n) cy1 head s =
      (if cy1 = snd (fst (fd_check_int u)) then Some (0, snd (fd_check_int u)) else fd_seek_loop n cy1 head (snd (fd_check_int u)))"
    using u(1) send_drive by (simp only: fd_seek_loop.simps) (simp add: t_def h_def Let_def split_beta)
  show thesis by (rule that [OF run [unfolded c(2)] c(1) h]) (use fd_step_trans [OF st fd_step_trans [OF su C(1)]] in blast)
qed

lemma seek_step:
  assumes ready: "drive_ready s" and seeks: "drive_seeks s" and cy: "unat cy1 < 256" "unat head < 2"
  obtains s' bs where "fd_seek cy1 head s = Some (0, s')" "fd_step bs s s'"
proof -
  have q: "seek_quiet s" using seeks unfolding drive_seeks_def seek_quiet_def by blast
  obtain u h st r xs hdr where u: "fd_seek_loop (Suc 8) cy1 head s =
      (if cy1 = ucast (dev_b s (h @ [In_b 0x3F5 st, In_b 0x3F4 r]) 0x3F5) then Some (0, u) else fd_seek_loop 8 cy1 head u)"
    "fifo_out h = xs @ [0x0F, hdr, ucast cy1, 8]" "hdr \<le> 7" "\<exists>bs. fd_step bs s u"
    by (rule seek_attempt [OF ready q cy(2)])
  have "dev_b s (h @ [In_b 0x3F5 st, In_b 0x3F4 r]) 0x3F5 = ucast cy1" using seeks u(2,3) unfolding drive_seeks_def by blast
  then have "fd_seek_loop 9 cy1 head s = Some (0, u)" using u(1) ucast_ucast_small [OF cy(1)] by simp
  moreover have "\<not> 3 < current_drive s" using ready by (auto simp: drive_ready_def)
  ultimately show thesis using that u(4) by (auto simp: fd_seek_def)
qed

lemma dma_read_step: "\<exists>s'. dma_set_read FDC_DMA_CHANNEL s = Some s' \<and> fd_step [] s s'"
  by (simp add: dma_set_read_def dma_set_mode_def dma_mask_channel_def dma_unmask_all_def outb_def
      fd_step_def same_drive_def log_grows_def)

lemma read_impl_step:
  assumes ready: "drive_ready s" and reads: "drive_reads img s" and sec: "1 \<le> unat sector"
  obtains s' where "fd_read_sector_impl head track sector s = Some s'" "same_drive s s'"
    "ram s' = put_sector (img ((2 * unat track + unat head) * 18 + unat sector - 1)) (ram s)"
proof -
  obtain t where t: "dma_set_read FDC_DMA_CHANNEL s = Some t" "fd_step [] s t"
    using dma_read_step by blast
  define e :: u8 where "e = ucast (if (18::u32) \<le> ucast sector + 1 then 18 else ucast sector + 1 :: u32)"
  define h where "h = push_bit 2 head OR current_drive s"
  let ?bs = "[0xE6, h, track, head, sector, 2, e, 27, 0xFF]"
  define u where "u = fold fd_send_command ?bs t"
  have rt: "drive_ready t" by (rule fd_step_ready [OF t(2) ready])
  have su: "fd_step ?bs t u" unfolding u_def by (rule sends_step [OF rt])
  have ru: "drive_ready u" by (rule fd_step_ready [OF su rt])
  obtain v where v: "fd_wait_irq6 u = Some v" "same_drive u v" "fifo_out (io_log v) = fifo_out (io_log u)"
    "ram v = dev_dma u (io_log u) (ram u)" using wait_irq6_step [OF ru] .
  have rv: "drive_ready v" using ru v(2) same_drive_ok(1) by blast
  define w where "w = for_u32 0 7 (\<lambda>_ s. snd (fd_read_data s)) v"
  have sw: "fd_step [] v w" unfolding w_def by (rule for_read_data [OF rv])
  note sx = check_int_step(1) [OF fd_step_ready [OF sw rv]]
  have cd: "current_drive t = current_drive s" "current_drive (fd_send_command 0xE6 t) = current_drive t"
    using t(2) send_step [OF rt, of "0xE6"] by (simp_all add: fd_step_def same_drive_def)
  have "fd_read_sector_impl head track sector s = Some (snd (fd_check_int w))"
    using t(1) v(1) cd by (simp add: fd_read_sector_impl_def Let_def u_def h_def e_def w_def)
  moreover have "same_drive s (snd (fd_check_int w))"
    using t(2) su v(2) sw sx unfolding fd_step_def by (blast intro: same_drive_trans)
  moreover have "ram (snd (fd_check_int w)) =
      put_sector (img ((2 * unat track + unat head) * 18 + unat sector - 1)) (ram s)"
  proof -
    have "fifo_out (io_log u) = fifo_out (io_log t) @ ?bs" using su by (simp add: fd_step_def)
    then have "dev_dma s (io_log u) m =
        put_sector (img ((2 * unat track + unat head) * 18 + unat sector - 1)) m" for m
      using reads unfolding drive_reads_def by blast
    moreover have "dev_dma u = dev_dma s" "ram u = ram s"
      using t(2) su by (simp_all add: fd_step_def same_drive_def)
    ultimately show ?thesis using v(4) sw sx by (simp add: fd_step_def)
  qed
  ultimately show ?thesis using that by blast
qed

lemma read_sector_delivers:
  assumes ok: "drive_ok img s" and lba: "unat lba < 2880"
  obtains s' where "fd_read_sector lba s = Some (DMA_BUFFER, s')" "same_drive s s'"
    "ram s' = put_sector (img (unat lba)) (ram s)"
proof -
  obtain head track sector where chs: "fd_lba_to_chs lba = (head, track, sector)"
    by (metis prod.exhaust)
  note c = fd_lba_to_chs_unat [OF chs]
  have cb: "unat head < 2" "unat track < 256" "1 \<le> unat sector" "unat sector < 256"
    using lba by (simp_all add: c less_mult_imp_div_less)
  have ready: "drive_ready s" using ok by (simp add: drive_ok_def)
  have nd: "\<not> 3 < current_drive s" using ready by (auto simp: drive_ready_def)
  obtain t where t: "fd_control_motor True s = Some t" "fd_step [] s t" using motor_step [OF ready] .
  have okt: "drive_ready t" "drive_seeks t"
    using ok t(2) same_drive_ok by (auto simp: fd_step_def drive_ok_def)
  obtain u bs where u: "fd_seek track head t = Some (0, u)" "fd_step bs t u"
    using seek_step [OF okt cb(2,1)] .
  have su: "same_drive s u" using t(2) u(2) by (auto simp: fd_step_def intro: same_drive_trans)
  have oku: "drive_ready u" "drive_reads img u"
    using same_drive_ok(3) [OF su] ok by (auto simp: drive_ok_def)
  have us: "unat (ucast head :: u8) = unat head" "unat (ucast track :: u8) = unat track"
    "unat (ucast sector :: u8) = unat sector" using cb by (simp_all add: ucast_small)
  obtain v where v: "fd_read_sector_impl (ucast head) (ucast track) (ucast sector) u = Some v"
    "same_drive u v" "ram v = put_sector (img ((2 * unat track + unat head) * 18 + unat sector - 1)) (ram u)"
    using read_impl_step [OF oku, of "ucast sector" "ucast head" "ucast track"] cb(3) us by auto
  have rv: "drive_ready v" using oku(1) v(2) same_drive_ok(1) by blast
  obtain w where w: "fd_control_motor False v = Some w" "fd_step [] v w" using motor_step [OF rv] .
  have "(2 * unat track + unat head) * 18 + unat sector - 1 = unat lba"
    using chs_inverse [of "unat lba"] c by simp
  then have "ram w = put_sector (img (unat lba)) (ram s)"
    using v(3) w(2) u(2) t(2) by (simp add: fd_step_def)
  moreover have "fd_read_sector lba s = Some (DMA_BUFFER, w)"
    using nd t(1) u(1) v(1) w(1) by (simp add: fd_read_sector_def chs)
  moreover have "same_drive s w" using su v(2) w(2) by (auto simp: fd_step_def intro: same_drive_trans)
  ultimately show ?thesis using that by blast
qed

section \<open>Initialisation\<close>

text \<open>A drive transfers at the end of a read command and at no other time.\<close>

definition read_command :: "u8 list \<Rightarrow> bool" where
  "read_command c \<longleftrightarrow> (\<exists>xs hdr cyl head sec eot. c = xs @ [0xE6, hdr, cyl, head, sec, 2, eot, 27, 0xFF])"

definition drive_idle :: "'a fd \<Rightarrow> bool" where
  "drive_idle s \<longleftrightarrow> (\<forall>h m. \<not> read_command (fifo_out h) \<longrightarrow> dev_dma s h m = m)"

lemma same_drive_idle: "same_drive s s' \<Longrightarrow> drive_idle s' = drive_idle s"
  by (simp add: same_drive_def drive_idle_def)

lemma wait_irq6_idle:
  assumes "drive_ready s" "drive_idle s" "\<not> read_command (fifo_out (io_log s))"
  obtains s' where "fd_wait_irq6 s = Some s'" "fd_step [] s s'"
  using wait_irq6_step [OF assms(1)] assms(2,3) that by (auto simp: fd_step_def drive_idle_def)

lemma for_check_int:
  assumes "drive_ready s"
  shows "\<exists>bs. fd_step bs s (for_u32 0 n (\<lambda>_ s. snd (fd_check_int s)) s)"
proof (rule for_u32_invariant)
  fix k and t :: "'a fd"
  assume "\<exists>bs. fd_step bs s t"
  then obtain bs where t: "fd_step bs s t" ..
  show "\<exists>bs. fd_step bs s (snd (fd_check_int t))"
    using fd_step_trans [OF t check_int_step(1) [OF fd_step_ready [OF t assms]]] by blast
qed (use fd_step_refl in blast)

lemma fd_step_idle: "fd_step bs s t \<Longrightarrow> drive_idle s \<Longrightarrow> drive_idle t"
  using same_drive_idle by (auto simp: fd_step_def)

lemma calibrate_loop_step:
  assumes "drive_ready s" "drive_idle s" "unat drive \<le> 3"
  shows "\<exists>r s' bs. fd_calibrate_loop n drive s = Some (r, s') \<and> fd_step bs s s'"
  using assms(1,2)
proof (induction n arbitrary: s)
  case 0
  obtain s' where "fd_control_motor False s = Some s'" "fd_step [] s s'" using motor_step [OF 0(1)] .
  then show ?case by auto
next
  case (Suc n)
  define t where "t = fold fd_send_command [7, ucast drive] s"
  have st: "fd_step [7, ucast drive] s t" unfolding t_def by (rule sends_step [OF Suc.prems(1)])
  note rt = fd_step_ready [OF st Suc.prems(1)] fd_step_idle [OF st Suc.prems(2)]
  have "unat (ucast drive :: u8) \<le> 3" using assms(3) by (simp add: ucast_small)
  then have "\<not> read_command (fifo_out (io_log t))"
    using st by (auto simp: fd_step_def read_command_def)
  then obtain u where u: "fd_wait_irq6 t = Some u" "fd_step [] t u" using wait_irq6_idle [OF rt] by blast
  note ru = fd_step_ready [OF u(2) rt(1)] fd_step_idle [OF u(2) rt(2)]
  note c = check_int_step(1) [OF ru(1)]
  note rc = fd_step_ready [OF c ru(1)] fd_step_idle [OF c ru(2)]
  note sc = fd_step_trans [OF st fd_step_trans [OF u(2) c]]
  obtain m where m: "fd_control_motor False (snd (fd_check_int u)) = Some m" "fd_step [] (snd (fd_check_int u)) m"
    using motor_step [OF rc(1)] .
  obtain r s' bs where "fd_calibrate_loop n drive (snd (fd_check_int u)) = Some (r, s')" "fd_step bs (snd (fd_check_int u)) s'"
    using Suc.IH [OF rc] by blast
  then show ?case
    using u(1) m fd_step_trans [OF sc] by (auto simp: t_def split_beta Let_def)
qed

lemma reset_step:
  assumes "drive_ready s" "drive_idle s" "\<not> read_command (fifo_out (io_log s))"
  shows "\<exists>s' bs. fd_reset s = Some s' \<and> fd_step bs s s'"
proof -
  define t where "t = fd_enable_controller (fd_disable_controller s)"
  have st: "fd_step [] s t"
    by (simp add: t_def fd_enable_controller_def fd_disable_controller_def fd_write_dor_def outb_def fd_step_def
        same_drive_def log_grows_def)
  note rt = fd_step_ready [OF st assms(1)] fd_step_idle [OF st assms(2)]
  have "\<not> read_command (fifo_out (io_log t))" using assms(3) st by (simp add: fd_step_def)
  then obtain u where u: "fd_wait_irq6 t = Some u" "fd_step [] t u" using wait_irq6_idle [OF rt] by blast
  note ru = fd_step_ready [OF u(2) rt(1)] fd_step_idle [OF u(2) rt(2)]
  define v where "v = for_u32 0 4 (\<lambda>_ s. snd (fd_check_int s)) u"
  obtain bs where v: "fd_step bs u v" using for_check_int [OF ru(1)] unfolding v_def by blast
  define w where "w = fd_write_ccr 0 v"
  have w: "fd_step [] v w" by (simp add: w_def fd_write_ccr_def outb_def fd_step_def same_drive_def log_grows_def)
  have rw: "drive_ready w" using fd_step_ready [OF w fd_step_ready [OF v ru(1)]] .
  define x where "x = fd_drive_data 3 16 240 True w"
  have x: "\<exists>bs. fd_step bs w x"
    unfolding x_def fd_drive_data_def Let_def using sends_step [OF rw] by (metis fold_simps)
  then obtain bs' where x: "fd_step bs' w x" ..
  note sx = fd_step_trans [OF st fd_step_trans [OF u(2) fd_step_trans [OF v fd_step_trans [OF w x]]]]
  note rx = fd_step_ready [OF sx assms(1)] fd_step_idle [OF sx assms(2)]
  have d: "unat (ucast (current_drive x) :: u32) \<le> 3" "\<not> 3 < (ucast (current_drive x) :: u32)"
    using rx(1) by (simp_all add: drive_ready_def word_le_nat_alt word_less_nat_alt unsigned_ucast_eq take_bit_nat_eq_self)
  obtain m where m: "fd_control_motor True x = Some m" "fd_step [] x m" using motor_step [OF rx(1)] .
  obtain r s' bs'' where s': "fd_calibrate_loop 9 (ucast (current_drive x)) m = Some (r, s')" "fd_step bs'' m s'"
    using calibrate_loop_step [OF fd_step_ready [OF m(2) rx(1)] fd_step_idle [OF m(2) rx(2)] d(1)] by blast
  have "fd_reset s = Some s'"
    using u(1) d(2) m(1) s'(1)
    by (simp add: fd_reset_def Let_def t_def [symmetric] v_def [symmetric] w_def [symmetric] x_def [symmetric] fd_calibrate_def)
  then show ?thesis using fd_step_trans [OF sx fd_step_trans [OF m(2) s'(2)]] by blast
qed

lemma dma_init_step: "\<exists>s'. dma_init_floppy DMA_BUFFER 512 s = Some s' \<and> fd_step [] s s'"
  by (simp add: dma_init_floppy_def dma_reset_def dma_mask_channel_def dma_reset_flipflop_def dma_set_address_def dma_set_count_def
      dma_unmask_all_def dma_count_port_def dma_addr_port_def outb_def Let_def fd_step_def same_drive_def log_grows_def)

lemma init_step:
  assumes "drive_ready s" "drive_idle s" "\<not> read_command (fifo_out (io_log s))" "unat drive < 4"
  shows "\<exists>s' bs. fd_init drive s = Some s' \<and> fd_step bs (s\<lparr>current_drive := ucast drive\<rparr>) s'"
proof -
  obtain t where t: "dma_init_floppy DMA_BUFFER 512 s = Some t" "fd_step [] s t" using dma_init_step by blast
  let ?s = "s\<lparr>current_drive := ucast drive\<rparr>" and ?t = "t\<lparr>current_drive := ucast drive\<rparr>"
  have d: "unat (ucast drive :: u8) < 4" using assms(4) by (simp add: ucast_small)
  then have w: "fd_set_working_drive (ucast drive) t = ?t" by (simp add: fd_set_working_drive_def word_less_nat_alt)
  have st: "fd_step [] ?s ?t" using t(2) by (simp add: fd_step_def same_drive_def log_grows_def)
  have "drive_ready ?s" "drive_idle ?s" using assms(1,2) d by (simp_all add: drive_ready_def drive_idle_def word_le_nat_alt)
  note rt = fd_step_ready [OF st this(1)] fd_step_idle [OF st this(2)]
  have "\<not> read_command (fifo_out (io_log ?t))" using assms(3) t(2) by (simp add: fd_step_def)
  then obtain u bs where u: "fd_reset ?t = Some u" "fd_step bs ?t u" using reset_step [OF rt] by blast
  have ru: "drive_ready u" by (rule fd_step_ready [OF u(2) rt(1)])
  have "\<exists>bs. fd_step bs u (fd_drive_data 13 1 0xF True u)"
    unfolding fd_drive_data_def Let_def using sends_step [OF ru] by (metis fold_simps)
  then obtain cs where cs: "fd_step cs u (fd_drive_data 13 1 0xF True u)" ..
  have "fd_init drive s = Some (fd_drive_data 13 1 0xF True u)" using t(1) u(1) w by (simp add: fd_init_def)
  then show ?thesis using fd_step_trans [OF st fd_step_trans [OF u(2) cs]] by blast
qed

section \<open>Properties\<close>

text \<open>
  The conversion of a linear sector number to head, track and sector is the geometry of a
  1.44 MB disk: it stays in range and is inverted by the usual formula, so that no two sectors
  share an address.
\<close>

theorem lba_chs_roundtrip:
  assumes "lba < 2880" and "fd_lba_to_chs lba = (head, track, sector)"
  shows "head < 2 \<and> track < 80 \<and> 1 \<le> sector \<and> sector \<le> 18 \<and> (track * 2 + head) * 18 + (sector - 1) = lba"
proof -
  note c = fd_lba_to_chs_unat [OF assms(2)]
  have l: "unat lba < 2880" using assms(1) by (simp add: word_less_nat_alt)
  have b: "unat head < 2" "unat track < 80" "1 \<le> unat sector" "unat sector \<le> 18"
    using l by (simp_all add: c less_mult_imp_div_less Suc_leI)
  have "unat (sector - 1) = unat sector - 1" using b(3) by (simp add: unat_sub_if')
  then have "unat ((track * 2 + head) * 18 + (sector - 1)) = (2 * unat track + unat head) * 18 + (unat sector - 1)"
    using b by (simp add: unat_word_ariths)
  also have "\<dots> = unat lba" using chs_inverse [of "unat lba"] by (simp add: c)
  finally show ?thesis
    using b by (simp add: word_less_nat_alt word_le_nat_alt word_unat_eq_iff)
qed

theorem lba_chs_roundtrip_witness: "fd_lba_to_chs 2879 = (1, 79, 18) \<and> ((79::u32) * 2 + 1) * 18 + (18 - 1) = 2879"
  using lba_chs_roundtrip [of 2879 1 79 18] by (simp add: fd_lba_to_chs_def)

text \<open>
  C18. With a drive that answers as its data sheet says, reading a sector returns, hands out the
  DMA buffer, and the buffer then holds that sector of the disk; no other memory changes and the
  drive stays usable.
\<close>

theorem fd_read_sector_delivers:
  assumes "drive_ok img s" and "lba < 2880"
  shows "\<exists>s'. fd_read_sector lba s = Some (DMA_BUFFER, s') \<and> drive_ok img s' \<and>
    (\<forall>k < 512. ram s' (DMA_BUFFER + of_nat k) = img (unat lba) k) \<and>
    same_outside DMA_BUFFER 512 (ram s) (ram s')"
proof -
  have "unat lba < 2880" using assms(2) by (simp add: word_less_nat_alt)
  then obtain s' where s': "fd_read_sector lba s = Some (DMA_BUFFER, s')" "same_drive s s'"
    "ram s' = put_sector (img (unat lba)) (ram s)"
    using read_sector_delivers [OF assms(1)] by blast
  have "in_region DMA_BUFFER 512 (DMA_BUFFER + of_nat k)" "unat (DMA_BUFFER + of_nat k - DMA_BUFFER) = k"
    if "k < 512" for k
    using that by (simp_all add: in_region_def word_less_nat_alt unat_of_nat_small)
  then show ?thesis
    using s' assms(1) same_drive_ok(3) [OF s'(2), of img]
    by (auto simp: same_outside_def put_sector_def)
qed

text \<open>A concrete drive that satisfies the assumptions: its image is \<open>img\<close>.\<close>

definition demo_dma :: "(nat \<Rightarrow> nat \<Rightarrow> u8) \<Rightarrow> io_event list \<Rightarrow> memory \<Rightarrow> memory" where
  "demo_dma img h m =
     (case rev (fifo_out h) of
        x # gap # eot # n # sec # head # cyl # hdr # c # rest \<Rightarrow>
          if x = 0xFF \<and> gap = 27 \<and> n = 2 \<and> c = 0xE6 then put_sector (img ((2 * unat cyl + unat head) * 18 + unat sec - 1)) m else m
      | _ \<Rightarrow> m)"

definition demo_dev :: "io_event list \<Rightarrow> u16 \<Rightarrow> u8" where
  "demo_dev h p = (if p = 0x3F4 then 0x80 else case rev (fifo_out h) of _ # cyl # _ \<Rightarrow> cyl | _ \<Rightarrow> 0)"

definition demo_fd :: "(nat \<Rightarrow> nat \<Rightarrow> u8) \<Rightarrow> fd_state" where
  "demo_fd img = \<lparr>ram = (\<lambda>_. 0), io_log = [], dev_b = demo_dev, dev_w = (\<lambda>_ _. 0), cr0 = 0, cr2 = 0,
     cr3 = 0, int_flag = True, halted = False, invlpg_log = [],
     cursor_x = 0, cursor_y = 0, memory_size = 0, used_blocks = 0, max_blocks = 0, memory_map = 0, curdir = 0, 
     pit_ticks = 0, scancode = 0, current_drive = 0,
     fd_irq6_stat = 0, dev_irq6 = (\<lambda>_. True), dev_dma = demo_dma img, dev_timer = (\<lambda>_. replicate 20 1)\<rparr>"

lemma demo_fd_ok: "drive_ok img (demo_fd img)"
proof -
  have "drive_ready (demo_fd img)"
    by (simp add: drive_ready_def demo_fd_def demo_dev_def sum_list_replicate bit_simps)
  moreover have "drive_seeks (demo_fd img)"
  proof -
    have "demo_dma img h m = m" if "fifo_out h = xs @ [0x0F, hdr, cyl]" "hdr \<le> 7" for h m xs hdr cyl
    proof -
      have "hdr \<noteq> 27" using that(2) by auto
      then show ?thesis using that(1) by (auto simp: demo_dma_def split: list.split)
    qed
    then show ?thesis by (auto simp: drive_seeks_def demo_fd_def demo_dev_def)
  qed
  moreover have "drive_reads img (demo_fd img)"
    by (auto simp: drive_reads_def demo_fd_def demo_dma_def)
  ultimately show ?thesis by (simp add: drive_ok_def)
qed

lemma demo_fd_idle: "drive_idle (demo_fd img)"
proof -
  have "demo_dma img h m = m" if "\<not> read_command (fifo_out h)" for h m
  proof (rule ccontr)
    assume "demo_dma img h m \<noteq> m"
    then obtain eot sec head cyl hdr rest where "rev (fifo_out h) = [0xFF, 27, eot, 2, sec, head, cyl, hdr, 0xE6] @ rest"
      by (auto simp: demo_dma_def split: list.splits if_splits)
    then have "fifo_out h = rev rest @ [0xE6, hdr, cyl, head, sec, 2, eot, 27, 0xFF]" by (simp add: rev_swap)
    with that show False by (auto simp: read_command_def)
  qed
  then show ?thesis by (simp add: drive_idle_def demo_fd_def)
qed

theorem fd_read_sector_delivers_witness:
  "\<exists>s'. fd_read_sector 19 (demo_fd (\<lambda>n k. of_nat (n + k))) = Some (DMA_BUFFER, s') \<and>
     ram s' 0x1003 = 22"
proof -
  from fd_read_sector_delivers [OF demo_fd_ok [of "\<lambda>n k. of_nat (n + k)"], of 19]
  obtain s' where s': "fd_read_sector 19 (demo_fd (\<lambda>n k. of_nat (n + k))) = Some (DMA_BUFFER, s')"
    "\<forall>k < 512. ram s' (DMA_BUFFER + of_nat k) = of_nat (19 + k)" by auto
  from s'(2) have "ram s' (DMA_BUFFER + of_nat 3) = of_nat (19 + 3)" by (rule allE [where x = 3]) simp
  with s'(1) show ?thesis by simp
qed

end
