(* ===== verification/Fat_props.thy ===== *)
theory Fat_props
  imports Fat12 Floppy_props
begin

text \<open>
  The FAT12 file system on a working drive. \<open>sector_source\<close> is what the file system needs of the
  disk driver; it is interpreted by \<open>fd_read_sector\<close> on a drive that answers as its data sheet says.
  On this interface: a file is read cluster by cluster along the chain that the file allocation
  table on the disk describes, the root directory is searched entry by entry, and mounting takes
  the geometry from the boot sector.
\<close>

unbundle bit_operations_syntax

section \<open>The interface to the disk driver\<close>

locale sector_source =
  fixes img :: "nat \<Rightarrow> nat \<Rightarrow> u8"
    and rd :: "u32 \<Rightarrow> 's \<Rightarrow> (u32 \<times> 's) option"
    and mem :: "'s \<Rightarrow> memory"
    and ok :: "'s \<Rightarrow> bool"
    and kept :: "'s \<Rightarrow> 's \<Rightarrow> bool"
  assumes delivers: "ok s \<Longrightarrow> unat lba < 2880 \<Longrightarrow>
    \<exists>s'. rd lba s = Some (DMA_BUFFER, s') \<and> ok s' \<and> kept s s' \<and> mem s' = put_sector (img (unat lba)) (mem s)"
begin

lemma read_bytes:
  assumes "ok s" "unat lba < 2880"
  obtains s' where "rd lba s = Some (DMA_BUFFER, s')" "ok s'" "kept s s'"
    "mem s' = put_sector (img (unat lba)) (mem s)"
    "\<And>k. k < 512 \<Longrightarrow> mem s' (DMA_BUFFER + of_nat k) = img (unat lba) k"
    "\<And>x. \<not> in_region DMA_BUFFER 512 x \<Longrightarrow> mem s' x = mem s x"
proof -
  obtain s' where s': "rd lba s = Some (DMA_BUFFER, s')" "ok s'" "kept s s'"
    "mem s' = put_sector (img (unat lba)) (mem s)"
    using delivers [OF assms] by blast
  have "in_region DMA_BUFFER 512 (DMA_BUFFER + of_nat k)" "unat (DMA_BUFFER + of_nat k - DMA_BUFFER) = k"
    if "k < 512" for k
    using that by (simp_all add: in_region_def word_less_nat_alt unat_of_nat_small)
  then show ?thesis using s' by (intro that [of s']) (simp_all add: put_sector_def)
qed

end

text \<open>What neither the driver nor the file system changes, and what the driver leaves of the file system.\<close>

definition fat_frame :: "'a fat \<Rightarrow> 'a fat \<Rightarrow> bool" where
  "fat_frame s s' \<longleftrightarrow> cr0 s' = cr0 s \<and> cr3 s' = cr3 s \<and> int_flag s' = int_flag s \<and> halted s' = halted s \<and>
     cursor_x s' = cursor_x s \<and> cursor_y s' = cursor_y s \<and> scancode s' = scancode s \<and> dev_b s' = dev_b s \<and>
     dev_timer s' = dev_timer s \<and> log_grows s s' \<and> mount_info s' = mount_info s \<and> file_system s' = file_system s \<and>
     fat_state.more s' = fat_state.more s"

definition fat_kept :: "'a fat \<Rightarrow> 'a fat \<Rightarrow> bool" where
  "fat_kept s s' \<longleftrightarrow> fat_frame s s' \<and> FAT s' = FAT s"

lemma fat_frame_refl [simp]: "fat_frame s s"
  by (simp add: fat_frame_def log_grows_def)

lemma fat_frame_trans: "fat_frame s t \<Longrightarrow> fat_frame t u \<Longrightarrow> fat_frame s u"
  using log_grows_trans [of s t u] by (simp add: fat_frame_def)

lemma fat_keptD:
  assumes "fat_kept s t"
  shows "fat_frame s t" "FAT t = FAT s" "mount_info t = mount_info s" "file_system t = file_system s"
    "fat_state.more t = fat_state.more s"
  using assms by (simp_all add: fat_kept_def fat_frame_def)

lemma fat_kept_trans: "fat_kept s t \<Longrightarrow> fat_kept t u \<Longrightarrow> fat_kept s u"
  using fat_frame_trans [of s t u] by (simp add: fat_kept_def)

lemma same_drive_fat_kept: "same_drive s s' \<Longrightarrow> fat_kept s s'"
  by (cases s; cases s') (simp add: same_drive_def fat_kept_def fat_frame_def)

interpretation floppy: sector_source img fd_read_sector ram "drive_ok img" fat_kept
proof
  fix s :: "'a fat" and lba :: u32
  assume "drive_ok img s" "unat lba < 2880"
  then show "\<exists>s'. fd_read_sector lba s = Some (DMA_BUFFER, s') \<and> drive_ok img s' \<and> fat_kept s s' \<and>
      ram s' = put_sector (img (unat lba)) (ram s)"
    by (rule read_sector_delivers) (use \<open>drive_ok img s\<close> in \<open>auto simp: same_drive_ok(3) same_drive_fat_kept\<close>)
qed

section \<open>The file allocation table\<close>

text \<open>What the disk holds: the bytes of the first table, which starts in sector 1, and the entry
  of a cluster in it.\<close>

definition fat_byte :: "(nat \<Rightarrow> nat \<Rightarrow> u8) \<Rightarrow> nat \<Rightarrow> nat" where
  "fat_byte img k = unat (img (1 + k div 512) (k mod 512))"

definition fat12_entry :: "(nat \<Rightarrow> nat \<Rightarrow> u8) \<Rightarrow> nat \<Rightarrow> nat" where
  "fat12_entry img c =
     (let k = 3 * c div 2; w = fat_byte img k + 256 * fat_byte img (k + 1)
      in if even c then w mod 4096 else w div 16)"

lemma unat_list_word: "unat (list_word b k) = unat (b ! k) + 256 * unat (b ! (k + 1))"
proof -
  let ?lo = "ucast (b ! k) :: u16" and ?hi = "push_bit 8 (ucast (b ! (k + 1))) :: u16"
  have lt: "unat (b ! k) < 256" "unat (b ! (k + 1)) < 256" using unsigned_less [of "b ! k"] unsigned_less [of "b ! (k + 1)"] by simp_all
  have "?lo AND ?hi = 0" by (rule bit_word_eqI) (auto simp: bit_simps dest: bit_imp_le_length)
  then have "?lo OR ?hi = ?lo + ?hi" by (simp add: disjunctive_add_eq_or)
  moreover have "unat ?lo = unat (b ! k)" "unat ?hi = 256 * unat (b ! (k + 1))"
    using lt by (simp_all add: unsigned_ucast_eq take_bit_eq_mod push_bit_eq_mult unat_word_ariths)
  ultimately show ?thesis using lt by (simp add: list_word_def unat_word_ariths)
qed

lemma unat_fat_entry:
  "unat (fat_entry c w) = (if even (unat c) then unat w mod 4096 else unat w div 16)"
proof -
  have "(c mod 2 = 0) = even (unat c)"
    by (simp add: word_unat_eq_iff unat_mod even_iff_mod_2_eq_zero)
  moreover have "w AND 0xFFF = take_bit 12 w" by (simp add: take_bit_eq_mask mask_eq_exp_minus_1)
  ultimately show ?thesis
    by (simp add: fat_entry_def unsigned_take_bit_eq take_bit_eq_mod unat_drop_bit_eq drop_bit_eq_div unat_mod unat_div)
qed

section \<open>Reading a cluster\<close>

definition cluster_step :: "(nat \<Rightarrow> nat \<Rightarrow> u8) \<Rightarrow> FILE \<Rightarrow> FILE" where
  "cluster_step img f =
     (let e = fat12_entry img (unat (f_current_cluster f))
      in if 0xFF8 \<le> e \<or> e = 0 then f\<lparr>f_end := 1\<rparr> else f\<lparr>f_current_cluster := of_nat e\<rparr>)"

lemma fat_kept_ram [simp]:
  "fat_kept s (t\<lparr>ram := m\<rparr>) = fat_kept s t" "fat_kept (s\<lparr>ram := m\<rparr>) t = fat_kept s t"
  "drive_ok img (t\<lparr>ram := m\<rparr>) = drive_ok img t" "drive_ok img (t\<lparr>FAT := b\<rparr>) = drive_ok img t"
  "drive_ok img (t\<lparr>mount_info := i\<rparr>) = drive_ok img t" "drive_ok img (t\<lparr>file_system := l\<rparr>) = drive_ok img t"
  by (simp_all add: fat_kept_def fat_frame_def log_grows_def drive_ok_def drive_ready_def drive_seeks_def drive_reads_def)

lemma fat_frame_update [simp]:
  "fat_frame s (t\<lparr>ram := m\<rparr>) = fat_frame s t" "fat_frame (s\<lparr>ram := m\<rparr>) t = fat_frame s t"
  "fat_frame s (t\<lparr>FAT := b\<rparr>) = fat_frame s t" "fat_frame (s\<lparr>FAT := b\<rparr>) t = fat_frame s t"
  by (simp_all add: fat_frame_def log_grows_def)

text \<open>The drive, the driver and the volumes are the same in two states.\<close>

definition disk_same :: "'a fat \<Rightarrow> 'a fat \<Rightarrow> bool" where
  "disk_same s t \<longleftrightarrow> current_drive t = current_drive s \<and> fd_irq6_stat t = fd_irq6_stat s \<and> dev_irq6 t = dev_irq6 s \<and>
     dev_dma t = dev_dma s \<and> mount_info t = mount_info s \<and> file_system t = file_system s"

lemma disk_same_refl [simp]: "disk_same s s"
  by (simp add: disk_same_def)

lemma disk_same_trans: "disk_same s t \<Longrightarrow> disk_same t u \<Longrightarrow> disk_same s u"
  by (simp add: disk_same_def)

lemma disk_same_ok: "disk_same s t \<Longrightarrow> dev_b t = dev_b s \<Longrightarrow> dev_timer t = dev_timer s \<Longrightarrow> drive_ok img t = drive_ok img s"
  by (simp add: disk_same_def drive_ok_def drive_ready_def drive_seeks_def drive_reads_def)

text \<open>The two table sectors in the array \<^verbatim>\<open>FAT\<close> hold the bytes that the entry needs.\<close>

lemma two_sectors_nth:
  assumes "\<And>k. k < 512 \<Longrightarrow> b1 ! k = img a k" "\<And>k. k < 512 \<Longrightarrow> b2 ! k = img (Suc a) k"
    and "length b1 = 512" "length b2 = 512" "j < 1024"
  shows "(b1 @ b2) ! j = img (a + j div 512) (j mod 512)"
proof (cases "j < 512")
  case False
  then have "j div 512 = 1" "j mod 512 = j - 512" using assms(5) by (auto simp: le_mod_geq le_div_geq)
  then show ?thesis using False assms by (simp add: nth_append)
qed (use assms in \<open>simp add: nth_append\<close>)

lemma fat_entry_on_disk:
  fixes c :: u32
  assumes "unat c < 4096"
    and "\<And>j. j < 1024 \<Longrightarrow> b ! j = img (Suc (3 * unat c div 2 div 512) + j div 512) (j mod 512)"
  shows "unat (fat_entry c (list_word b (unat ((c div 2 + c) mod 512)))) = fat12_entry img (unat c)"
proof -
  define q where "q = 3 * unat c div 2"
  have q: "unat (c div 2 + c) = q" using assms(1) by (simp add: q_def unat_word_ariths unat_div)
  let ?k = "q mod 512"
  have k: "?k < 512" by simp
  have "b ! ?k = img (Suc (q div 512)) ?k"
    using assms(2) [of ?k] by (simp add: q_def)
  moreover have "b ! (?k + 1) = img (Suc ((q + 1) div 512)) ((q + 1) mod 512)"
  proof -
    have "q + 1 = 512 * (q div 512) + (?k + 1)" by simp
    then have "(q + 1) div 512 = q div 512 + (?k + 1) div 512" "(q + 1) mod 512 = (?k + 1) mod 512"
      by (metis div_mult_self4 zero_neq_numeral add.commute, metis mod_mult_self4)
    moreover have "?k + 1 < 1024" using k by linarith
    ultimately show ?thesis using assms(2) [of "?k + 1"] by (simp flip: q_def)
  qed
  ultimately show ?thesis
    by (simp add: unat_fat_entry unat_list_word unat_mod q fat12_entry_def fat_byte_def flip: q_def)
qed

lemma data_sector_unat:
  assumes "2 \<le> unat c" "unat c < 4096" "unat (c::u32) - 2 + unat d < 2880"
  shows "unat (fd_chs_to_lba (ucast c) + d) = unat c - 2 + unat d"
proof -
  have "unat (ucast (ucast c :: u16) :: u32) = unat c"
    using assms(2) by (simp add: unsigned_ucast_eq unsigned_take_bit_eq take_bit_nat_eq_self)
  then have "unat (fd_chs_to_lba (ucast c)) = unat c - 2"
    using assms(1) by (simp add: fd_chs_to_lba_def unat_sub_if')
  then show ?thesis using assms(3) by (simp add: unat_word_ariths)
qed

lemma fat_next_cluster_step:
  fixes s :: "'a fat"
  assumes ok: "drive_ok img s" and c: "unat c < 4096"
  obtains e s' where "fat_next_cluster c s = Some (e, s')" "unat e = fat12_entry img (unat c)"
    "drive_ok img s'" "fat_frame s s'" "\<And>x. \<not> in_region DMA_BUFFER 512 x \<Longrightarrow> ram s' x = ram s x"
proof -
  let ?off = "c div 2 + c" and ?n = "Suc (3 * unat c div 2 div 512)"
  have "unat ?off = 3 * unat c div 2" using c by (simp add: unat_word_ariths unat_div)
  then have fs: "unat (?off div SECTOR_SIZE + 1) = ?n" "unat (?off div SECTOR_SIZE + 1 + 1) = Suc ?n" "Suc ?n < 2880"
    using c by (simp_all add: unat_word_ariths unat_div)
  obtain s3 where s3: "fd_read_sector (?off div SECTOR_SIZE + 1) s = Some (DMA_BUFFER, s3)"
    "drive_ok img s3" "fat_kept s s3" "\<And>k. k < 512 \<Longrightarrow> ram s3 (DMA_BUFFER + of_nat k) = img ?n k"
    "\<And>x. \<not> in_region DMA_BUFFER 512 x \<Longrightarrow> ram s3 x = ram s x"
    by (rule floppy.read_bytes [OF ok, of "?off div SECTOR_SIZE + 1"]) (use fs in auto)
  define s4 where "s4 = s3\<lparr>FAT := bytes_at (ram s3) DMA_BUFFER 512 @ drop 512 (FAT s3)\<rparr>"
  have ok4: "drive_ok img s4" using s3(2) by (simp add: s4_def)
  obtain s5 where s5: "fd_read_sector (?off div SECTOR_SIZE + 1 + 1) s4 = Some (DMA_BUFFER, s5)"
    "drive_ok img s5" "fat_kept s4 s5" "\<And>k. k < 512 \<Longrightarrow> ram s5 (DMA_BUFFER + of_nat k) = img (Suc ?n) k"
    "\<And>x. \<not> in_region DMA_BUFFER 512 x \<Longrightarrow> ram s5 x = ram s4 x"
    by (rule floppy.read_bytes [OF ok4, of "?off div SECTOR_SIZE + 1 + 1"]) (use fs in auto)
  define b where "b = bytes_at (ram s3) DMA_BUFFER 512 @ bytes_at (ram s5) DMA_BUFFER 512"
  have b_nth: "b ! j = img (?n + j div 512) (j mod 512)" if "j < 1024" for j
    unfolding b_def by (rule two_sectors_nth) (use that s3(4) s5(4) in simp_all)
  have "take 512 (FAT s5) = bytes_at (ram s3) DMA_BUFFER 512"
    using fat_keptD(2) [OF s5(3)] by (simp add: s4_def)
  then have run: "fat_next_cluster c s = Some (fat_entry c (list_word b (unat (?off mod SECTOR_SIZE))), s5\<lparr>FAT := b\<rparr>)"
    using s5(1) by (simp add: fat_next_cluster_def s3(1) Let_def b_def flip: s4_def)
  have "fat_frame s s5"
    using fat_frame_trans [of s s3 s5] fat_keptD(1) [OF s3(3)] fat_keptD(1) [OF s5(3)] by (simp add: s4_def)
  then show ?thesis
    by (intro that [OF run fat_entry_on_disk [OF c b_nth]]) (use s5(2,5) s3(5) in \<open>simp_all add: s4_def\<close>)
qed

lemma fat_read_file_step:
  fixes s :: "'a fat" and f :: FILE
  defines "c \<equiv> f_current_cluster f" and "d \<equiv> data_offset (mount_info s)"
  assumes ok: "drive_ok img s" and ap: "apart buffer 512 DMA_BUFFER 512"
    and cd: "2 \<le> unat c" "unat c < 4096" "unat c - 2 + unat d < 2880"
  obtains s' where "fat_read_file (Some f) buffer s = Some (Some (cluster_step img f), s')"
    "drive_ok img s'" "fat_frame s s'" "mount_info s' = mount_info s"
    "\<And>k. k < 512 \<Longrightarrow> ram s' (buffer + of_nat k) = img (unat c - 2 + unat d) k"
    "\<And>x. \<not> in_region buffer 512 x \<Longrightarrow> \<not> in_region DMA_BUFFER 512 x \<Longrightarrow> ram s' x = ram s x"
proof -
  let ?n = "unat c - 2 + unat d"
  obtain s1 where s1: "fd_read_sector (fd_chs_to_lba (ucast c) + d) s = Some (DMA_BUFFER, s1)"
    "drive_ok img s1" "fat_kept s s1" "\<And>k. k < 512 \<Longrightarrow> ram s1 (DMA_BUFFER + of_nat k) = img ?n k"
    "\<And>x. \<not> in_region DMA_BUFFER 512 x \<Longrightarrow> ram s1 x = ram s x"
    by (rule floppy.read_bytes [OF ok, of "fd_chs_to_lba (ucast c) + d"])
      (use data_sector_unat [OF cd] cd(3) in auto)
  define s2 where "s2 = s1\<lparr>ram := memcpy buffer DMA_BUFFER SECTOR_SIZE (ram s1)\<rparr>"
  have ok2: "drive_ok img s2" using s1(2) by (simp add: s2_def)
  obtain e s' where s': "fat_next_cluster c s2 = Some (e, s')" "unat e = fat12_entry img (unat c)"
    "drive_ok img s'" "fat_frame s2 s'"
    "\<And>x. \<not> in_region DMA_BUFFER 512 x \<Longrightarrow> ram s' x = ram s2 x"
    by (rule fat_next_cluster_step [OF ok2 cd(2)]) auto
  have e: "0xFF8 \<le> e \<longleftrightarrow> 0xFF8 \<le> fat12_entry img (unat c)" "e = 0 \<longleftrightarrow> fat12_entry img (unat c) = 0"
    "ucast e = (of_nat (fat12_entry img (unat c)) :: u32)"
    by (simp_all add: word_le_nat_alt word_unat_eq_iff flip: s'(2))
  have buf: "ram s' x = (if in_region buffer 512 x then ram s1 (DMA_BUFFER + (x - buffer)) else ram s1 x)"
    if "\<not> in_region DMA_BUFFER 512 x" for x
    using s'(5) [OF that] by (simp add: s2_def memcpy_apply [OF ap])
  have "fat_read_file (Some f) buffer s = Some (Some (cluster_step img f), s')"
    using s1(1) s'(1) by (simp add: fat_read_file_def Let_def cluster_step_def e flip: s2_def c_def d_def)
  moreover have "fat_frame s s'"
    using fat_frame_trans [of s s1 s'] fat_keptD(1) [OF s1(3)] s'(4) by (simp add: s2_def)
  then have "fat_frame s s'" "mount_info s' = mount_info s" by (simp_all add: fat_frame_def)
  moreover have "ram s' (buffer + of_nat k) = img ?n k" if "k < 512" for k
  proof -
    have "in_region buffer 512 (buffer + of_nat k)"
      using that by (simp add: in_region_def word_less_nat_alt unat_of_nat_small)
    with apart_regions [OF ap this] show ?thesis using buf s1(4) [OF that] by simp
  qed
  ultimately show ?thesis using that s'(3) buf s1(5) by simp
qed

section \<open>Searching the root directory\<close>

lemma read_directory_cong:
  assumes "\<And>k. k < 32 \<Longrightarrow> m (p + of_nat k) = m' (p' + of_nat k)"
  shows "read_directory m p = read_directory m' p'"
proof -
  have "bytes_at m p 11 = bytes_at m' p' 11" using assms by (simp add: bytes_at_def)
  then show ?thesis
    using assms [of 11] assms [of 26] assms [of 27] assms [of 28] assms [of 29] assms [of 30] assms [of 31]
    by (simp add: read_directory_def load16_def load32_def add.assoc)
qed

text \<open>The entries of a directory sector on the disk, and of \<open>n\<close> sectors from \<open>r\<close> on.\<close>

definition disk_entry :: "(nat \<Rightarrow> u8) \<Rightarrow> nat \<Rightarrow> DIRECTORY" where
  "disk_entry f j = read_directory (\<lambda>x. f (unat x)) (of_nat (32 * j))"

definition dir_entries :: "(nat \<Rightarrow> nat \<Rightarrow> u8) \<Rightarrow> nat \<Rightarrow> nat \<Rightarrow> DIRECTORY list" where
  "dir_entries img r n = concat (map (\<lambda>i. map (disk_entry (img i)) [0..<16]) [r..<r + n])"

lemma read_directory_disk_entry:
  assumes "\<And>k. k < 512 \<Longrightarrow> m (p + of_nat k) = f k" and "j < 16"
  shows "read_directory m (p + of_nat (32 * j)) = disk_entry f j"
  unfolding disk_entry_def
proof (rule read_directory_cong)
  fix k :: nat assume k: "k < 32"
  have "unat (of_nat (32 * j) + of_nat k :: u32) = 32 * j + k"
    using k assms(2) by (simp add: unat_of_nat_small flip: of_nat_add of_nat_mult)
  moreover have "m (p + (of_nat (32 * j) + of_nat k)) = f (32 * j + k)"
    using assms(1) [of "32 * j + k"] k assms(2) by simp
  ultimately show "m (p + of_nat (32 * j) + of_nat k) = f (unat (of_nat (32 * j) + of_nat k :: u32))"
    by (simp add: add.assoc)
qed

text \<open>The file that an entry describes, when its name fits.\<close>

definition entry_file :: "FILE \<Rightarrow> u8 list \<Rightarrow> DIRECTORY \<Rightarrow> FILE" where
  "entry_file file name d = file\<lparr>f_name := name @ drop (length name) (f_name file), f_id := 0,
     f_current_cluster := ucast (dir_first_cluster d), f_size := dir_filesize d, f_end := 0,
     f_flags := if dir_attrib d = 0x10 then FS_DIRECTORY else FS_FILE\<rparr>"

lemma dir_file_entry:
  "0 \<notin> set name \<Longrightarrow> length name \<le> length (f_name file) \<Longrightarrow>
     dir_file file (name @ 0 # rest) d = Some (entry_file file name d)"
  by (simp add: dir_file_def strcpy_terminated entry_file_def)

lemma scan_entries_find:
  assumes "0 \<notin> set name" "length name \<le> length (f_name file)" "11 \<le> length dos"
  shows "fat_scan_entries n dos (name @ 0 # rest) file m p =
    Some (map_option (entry_file file name)
      (find (\<lambda>d. take 11 dos = dir_filename d) (map (\<lambda>j. read_directory m (p + of_nat (32 * j))) [0..<n])))"
proof (induction n arbitrary: p)
  case (Suc n)
  have "map (\<lambda>j. read_directory m (p + of_nat (32 * j))) [0..<Suc n] =
      read_directory m p # map (\<lambda>j. read_directory m (p + 32 + of_nat (32 * j))) [0..<n]"
    by (simp add: upt_conv_Cons algebra_simps flip: map_Suc_upt del: upt_Suc)
  moreover obtain r where "strncmp 11 dos (dir_filename (read_directory m p)) = Some r"
    "r = 0 \<longleftrightarrow> take 11 dos = dir_filename (read_directory m p)"
    using strncmp_total [of 11 dos "dir_filename (read_directory m p)"] assms(3)
    by (auto simp: read_directory_def)
  ultimately show ?case using Suc.IH [of "p + 32"] dir_file_entry [OF assms(1,2)] by (simp add: Let_def)
qed simp

lemma find_append: "find P (xs @ ys) = (case find P xs of None \<Rightarrow> find P ys | Some x \<Rightarrow> Some x)"
  by (induction xs) auto

text \<open>A directory sector that the driver delivered is scanned as the entries on the disk.\<close>

lemma root_loop_find:
  fixes s :: "'a fat"
  assumes name: "0 \<notin> set name" "length name \<le> length (f_name file)" "11 \<le> length dos"
    and "drive_ok img s" and "unat (root_offset (mount_info s) + i) + n \<le> 2880"
  shows "\<exists>s'. fat_root_loop n i dos (name @ 0 # rest) file s = Some
      (case find (\<lambda>d. take 11 dos = dir_filename d) (dir_entries img (unat (root_offset (mount_info s) + i)) n) of
         Some d \<Rightarrow> entry_file file name d | None \<Rightarrow> file\<lparr>f_flags := FS_INVAILD\<rparr>, s') \<and>
    drive_ok img s' \<and> fat_kept s s' \<and> (\<forall>x. \<not> in_region DMA_BUFFER 512 x \<longrightarrow> ram s' x = ram s x)"
  using assms(4,5)
proof (induction n arbitrary: i s)
  case 0
  then show ?case by (simp add: dir_entries_def fat_kept_def)
next
  case (Suc n)
  let ?r = "root_offset (mount_info s) + i" and ?P = "\<lambda>d. take 11 dos = dir_filename d"
  obtain t where t: "fd_read_sector ?r s = Some (DMA_BUFFER, t)" "drive_ok img t" "fat_kept s t"
    "\<And>k. k < 512 \<Longrightarrow> ram t (DMA_BUFFER + of_nat k) = img (unat ?r) k"
    "\<And>x. \<not> in_region DMA_BUFFER 512 x \<Longrightarrow> ram t x = ram s x"
    by (rule floppy.read_bytes [OF Suc.prems(1), of ?r]) (use Suc.prems(2) in auto)
  have "map (\<lambda>j. read_directory (ram t) (DMA_BUFFER + of_nat (32 * j))) [0..<16] = map (disk_entry (img (unat ?r))) [0..<16]"
    using read_directory_disk_entry [where p = DMA_BUFFER and m = "ram t" and f = "img (unat ?r)"] t(4) by simp
  then have scan: "fat_scan_entries 16 dos (name @ 0 # rest) file (ram t) DMA_BUFFER =
      Some (map_option (entry_file file name) (find ?P (map (disk_entry (img (unat ?r))) [0..<16])))"
    using scan_entries_find [OF name, of 16 rest "ram t" DMA_BUFFER] by (simp only:)
  have next_r: "unat (root_offset (mount_info t) + (i + 1)) = Suc (unat ?r)"
    using Suc.prems(2) fat_keptD(3) [OF t(3)] by (simp add: unat_word_ariths flip: add.assoc)
  have entries: "dir_entries img (unat ?r) (Suc n) =
      map (disk_entry (img (unat ?r))) [0..<16] @ dir_entries img (Suc (unat ?r)) n"
    by (simp add: dir_entries_def upt_conv_Cons del: upt_Suc)
  show ?case
  proof (cases "find ?P (map (disk_entry (img (unat ?r))) [0..<16])")
    case None
    have "unat (root_offset (mount_info t) + (i + 1)) + n \<le> 2880" using Suc.prems(2) next_r by simp
    from Suc.IH [OF t(2) this] next_r t None scan show ?thesis
      by (auto simp: entries find_append simp del: upt_Suc fat_scan_entries.simps intro: fat_kept_trans)
  next
    case (Some d)
    then show ?thesis using t scan
      by (auto simp: entries find_append simp del: upt_Suc fat_scan_entries.simps)
  qed
qed

end
