(* ===== verification/Fat_files.thy ===== *)
theory Fat_files
  imports Fat_props
begin

text \<open>
  The file system as its clients see it: a mounted disk has the geometry of its boot sector, a
  file is found by its name in the root directory, and reading a file to its end returns the
  sectors of its cluster chain in order.
\<close>

unbundle bit_operations_syntax

section \<open>Mounting\<close>

definition disk_word :: "(nat \<Rightarrow> nat \<Rightarrow> u8) \<Rightarrow> nat \<Rightarrow> nat" where
  "disk_word img k = unat (img 0 k) + 256 * unat (img 0 (k + 1))"

lemma load16_boot_sector:
  assumes "\<And>k. k < 512 \<Longrightarrow> m (p + of_nat k) = img 0 k" and "k < 511"
  shows "unat (load16 m (p + of_nat k)) = disk_word img k"
proof -
  let ?b = "[m (p + of_nat k), m (p + of_nat (k + 1))]"
  have "load16 m (p + of_nat k) = list_word ?b 0"
    by (simp add: load16_def list_word_def add.assoc add.commute [of 1])
  then show ?thesis
    using unat_list_word [of ?b 0] assms(1) [of k] assms(1) [of "k + 1"] assms(2)
    by (simp add: disk_word_def)
qed

lemma unat_bounds: "unat (x::u16) < 65536" "unat (b::u8) < 256"
  by (rule order.strict_trans2 [OF unsigned_less], simp)+

lemma unat_ucast_up: "unat (ucast (x::u16) :: u32) = unat x" "unat (ucast (b::u8) :: u32) = unat b"
  using unat_bounds(1) [of x] unat_bounds(2) [of b] by (simp_all add: unsigned_ucast_eq take_bit_nat_eq_self)

text \<open>The geometry of a volume, as its boot sector gives it.\<close>

definition boot_geometry :: "(nat \<Rightarrow> nat \<Rightarrow> u8) \<Rightarrow> MOUNT_INFO \<Rightarrow> bool" where
  "boot_geometry img mi \<longleftrightarrow> unat (fat_offset mi) = disk_word img 14 \<and> unat (fat_size mi) = disk_word img 22 \<and>
     unat (num_sectors mi) = disk_word img 19 \<and>
     unat (root_offset mi) = disk_word img 14 + unat (img 0 16) * disk_word img 22 \<and>
     unat (root_size mi) = disk_word img 17 * 32 div disk_word img 11 \<and>
     unat (data_offset mi) = unat (root_offset mi) + unat (root_size mi)"

lemma drive_ok_fat [simp]: "drive_ok img (s\<lparr>mount_info := mi\<rparr>) = drive_ok img s" "drive_ok img (s\<lparr>file_system := fs\<rparr>) = drive_ok img s"
  by (simp_all add: drive_ok_def drive_ready_def drive_seeks_def drive_reads_def)

lemma mount_run:
  fixes s :: "'a fat"
  assumes "drive_ok img s"
  obtains t mi where "fat_mount s = (if disk_word img 11 = 0 then None else Some (t\<lparr>mount_info := mi\<rparr>))"
    "same_drive s t" "ram t = put_sector (img 0) (ram s)" "disk_word img 11 \<noteq> 0 \<longrightarrow> boot_geometry img mi"
proof -
  obtain t where t: "fd_read_sector 0 s = Some (DMA_BUFFER, t)" "same_drive s t" "ram t = put_sector (img 0) (ram s)"
    by (rule read_sector_delivers [OF assms, of 0]) simp_all
  have b: "ram t (DMA_BUFFER + of_nat k) = img 0 k" if "k < 512" for k
    using that by (simp add: t(3) put_sector_def in_region_def word_less_nat_alt unat_of_nat_small)
  note w = load16_boot_sector [where m = "ram t" and p = DMA_BUFFER and img = img, OF b]
  have d: "unat (load16 (ram t) (DMA_BUFFER + 11)) = disk_word img 11"
    "unat (load16 (ram t) (DMA_BUFFER + 14)) = disk_word img 14"
    "unat (load16 (ram t) (DMA_BUFFER + 17)) = disk_word img 17"
    "unat (load16 (ram t) (DMA_BUFFER + 19)) = disk_word img 19"
    "unat (load16 (ram t) (DMA_BUFFER + 22)) = disk_word img 22"
    using w [of 11] w [of 14] w [of 17] w [of 19] w [of 22] by simp_all
  have n: "ram t (DMA_BUFFER + 16) = img 0 16" using b [of 16] by simp
  have lt: "disk_word img k < 65536" for k
    using unat_bounds(2) [of "img 0 k"] unat_bounds(2) [of "img 0 (k + 1)"] by (simp add: disk_word_def)
  have nlt: "unat (img 0 16) < 256" by (rule unat_bounds)
  have z: "load16 (ram t) (DMA_BUFFER + 11) = 0 \<longleftrightarrow> disk_word img 11 = 0"
    using d(1) by (simp add: unat_eq_0 [symmetric])
  have prod: "unat (img 0 16) * disk_word img 22 \<le> 255 * 65535"
    using nlt lt [of 22] by (intro mult_le_mono) auto
  define root where "root = (ucast (img 0 16) * ucast (load16 (ram t) (DMA_BUFFER + 22)) + ucast (load16 (ram t) (DMA_BUFFER + 14)) :: u32)"
  have root: "unat root = disk_word img 14 + unat (img 0 16) * disk_word img 22"
    using prod lt [of 14] d by (simp add: root_def unat_word_ariths unat_ucast_up)
  define rsize where "rsize = (ucast (load16 (ram t) (DMA_BUFFER + 17)) * 32 div ucast (load16 (ram t) (DMA_BUFFER + 11)) :: u32)"
  have q: "disk_word img 17 * 32 div disk_word img 11 \<le> 65535 * 32"
    using lt [of 17] div_le_dividend [of "disk_word img 17 * 32" "disk_word img 11"] by linarith
  have rsize: "unat rsize = disk_word img 17 * 32 div disk_word img 11"
    using q lt [of 17] d by (simp add: rsize_def unat_word_ariths unat_div unat_ucast_up)
  with q have "unat rsize \<le> 65535 * 32" by simp
  then have data: "unat (root + rsize) = unat root + unat rsize"
    using root prod lt [of 14] by (simp add: unat_word_ariths)
  show thesis
    by (rule that [where t = t and mi = "\<lparr>num_sectors = ucast (load16 (ram t) (DMA_BUFFER + 19)), fat_offset = ucast (load16 (ram t) (DMA_BUFFER + 14)),
         num_root_entries = ucast (load16 (ram t) (DMA_BUFFER + 17)), root_offset = root, root_size = rsize,
         fat_size = ucast (load16 (ram t) (DMA_BUFFER + 22)), fat_entry_size = 8, data_offset = root + rsize\<rparr>"])
      (use t z n data root rsize d in \<open>simp_all add: fat_mount_def read_bpb_def Let_def unat_ucast_up boot_geometry_def root_def rsize_def\<close>)
qed

text \<open>
  C31. Mounting takes the geometry of the volume from the boot sector: the root directory follows
  the reserved sectors and the tables, the data area follows the root directory. A boot sector
  with a sector size of 0 makes the division fail.
\<close>

theorem fat_mount_geometry:
  fixes s :: "'a fat"
  assumes "drive_ok img s"
  shows "if disk_word img 11 = 0 then fat_mount s = None
    else \<exists>s'. fat_mount s = Some s' \<and> drive_ok img s' \<and> file_system s' = file_system s \<and>
      unat (fat_offset (mount_info s')) = disk_word img 14 \<and>
      unat (fat_size (mount_info s')) = disk_word img 22 \<and>
      unat (num_sectors (mount_info s')) = disk_word img 19 \<and>
      unat (root_offset (mount_info s')) = disk_word img 14 + unat (img 0 16) * disk_word img 22 \<and>
      unat (root_size (mount_info s')) = disk_word img 17 * 32 div disk_word img 11 \<and>
      unat (data_offset (mount_info s')) = unat (root_offset (mount_info s')) + unat (root_size (mount_info s')) \<and>
      same_outside DMA_BUFFER 512 (ram s) (ram s')"
proof -
  obtain t mi where t: "fat_mount s = (if disk_word img 11 = 0 then None else Some (t\<lparr>mount_info := mi\<rparr>))"
    "same_drive s t" "ram t = put_sector (img 0) (ram s)" "disk_word img 11 \<noteq> 0 \<longrightarrow> boot_geometry img mi" by (rule mount_run [OF assms])
  have "drive_ok img (t\<lparr>mount_info := mi\<rparr>)" using same_drive_ok(3) [OF t(2), of img] assms by simp
  then show ?thesis
    using t same_drive_fat_kept [OF t(2)] by (simp add: boot_geometry_def fat_kept_def fat_frame_def same_outside_def put_sector_def)
qed

section \<open>Opening\<close>

text \<open>The shape of a path argument: an 8.3 name of at least 11 characters without a backslash.\<close>

definition plain_name :: "u8 list \<Rightarrow> bool" where
  "plain_name name \<longleftrightarrow> 0 \<notin> set name \<and> 0x5C \<notin> set name \<and> 11 \<le> length name \<and> length name \<le> 32 \<and> name ! 1 \<noteq> 0x3A"

lemma plain_name_device:
  "plain_name name \<Longrightarrow> get_filename (name @ [0]) = Some (name @ [0]) \<and> get_device (name @ [0]) = Some 0x61"
  by (auto simp: plain_name_def get_filename_def get_device_def nth_append)

lemma open_plain_name:
  fixes s :: "'a fat"
  assumes name: "plain_name name" and junk: "length (f_name junk) = 32" and ok: "drive_ok img s"
    and r: "unat (root_offset (mount_info s)) + 14 \<le> 2880"
  defines "d \<equiv> find (\<lambda>d. take 11 name = dir_filename d) (dir_entries img (unat (root_offset (mount_info s))) 14)"
  obtains s' where "fat_open_file junk (name @ [0]) s = Some
      (case d of
         Some d \<Rightarrow> if dir_attrib d = 0x10 then invalid_file junk else entry_file junk name d
       | None \<Rightarrow> invalid_file junk, s')"
    "drive_ok img s'" "fat_kept s s'" "\<And>x. \<not> in_region DMA_BUFFER 512 x \<Longrightarrow> ram s' x = ram s x"
proof -
  have n: "0 \<notin> set name" "0x5C \<notin> set name" "11 \<le> length name" "length name \<le> length (f_name junk)" "name \<noteq> []"
    using name junk by (auto simp: plain_name_def)
  have dos: "dos_name (name @ [0]) = Some (take 11 name @ [0])" using n(3) by (simp add: dos_name_def)
  have len: "11 \<le> length (take 11 name @ [0])" and tk: "take 11 (take 11 name @ [0]) = take 11 name"
    using n(3) by simp_all
  from root_loop_find [OF n(1,4) len ok, of 0 14 "[]"] r obtain s' where s':
    "fat_parse_rootdir junk (name @ [0]) s = Some (case d of
        Some d \<Rightarrow> entry_file junk name d | None \<Rightarrow> junk\<lparr>f_flags := FS_INVAILD\<rparr>, s')"
    "drive_ok img s'" "fat_kept s s'" "\<And>x. \<not> in_region DMA_BUFFER 512 x \<Longrightarrow> ram s' x = ram s x"
    unfolding tk by (auto simp: fat_parse_rootdir_def dos d_def)
  have "strchr (name @ [0]) 0x5C = Some None" using strchr_terminated [OF n(1,5), of "0x5C" "[]"] n(2) by simp
  then have "fat_open_file junk (name @ [0]) s = Some
      (case d of Some d \<Rightarrow> if dir_attrib d = 0x10 then invalid_file junk else entry_file junk name d
       | None \<Rightarrow> invalid_file junk, s')"
    by (cases d) (simp_all add: fat_open_file_def s'(1) entry_file_def invalid_file_def)
  then show ?thesis using that s'(2-4) by blast
qed

text \<open>
  C23. Opening a file by a plain name on a mounted disk: the volume manager asks the file system of
  drive a, which returns the first entry of the root directory on the disk that has this name,
  with its first cluster and size, when that is not a subdirectory; otherwise the result is marked
  invalid. Only the sector buffer changes.
\<close>

theorem vol_open_file_finds:
  fixes s :: "'a fat"
  assumes "plain_name name" and "length (f_name junk) = 32" and "drive_ok img s"
    and "unat (root_offset (mount_info s)) + 14 \<le> 2880"
    and "file_system s = Some Fat12 # fs"
  shows "\<exists>file s'. vol_open_file junk (Some (name @ [0])) s = Some (file, s') \<and>
    drive_ok img s' \<and> mount_info s' = mount_info s \<and> same_outside DMA_BUFFER 512 (ram s) (ram s') \<and>
    (case find (\<lambda>d. take 11 name = dir_filename d) (dir_entries img (unat (root_offset (mount_info s))) 14) of
       Some d \<Rightarrow>
         if dir_attrib d = 0x10 then f_flags file = FS_INVAILD
         else f_flags file = FS_FILE \<and> f_current_cluster file = ucast (dir_first_cluster d) \<and>
           f_size file = dir_filesize d \<and> f_end file = 0 \<and> f_device_id file = 0x61
     | None \<Rightarrow> f_flags file = FS_INVAILD)"
proof -
  let ?d = "find (\<lambda>d. take 11 name = dir_filename d) (dir_entries img (unat (root_offset (mount_info s))) 14)"
  from open_plain_name [OF assms(1-4)] obtain s' where s':
    "fat_open_file junk (name @ [0]) s = Some (case ?d of
        Some d \<Rightarrow> if dir_attrib d = 0x10 then invalid_file junk else entry_file junk name d
      | None \<Rightarrow> invalid_file junk, s')"
    "drive_ok img s'" "fat_kept s s'" "\<And>x. \<not> in_region DMA_BUFFER 512 x \<Longrightarrow> ram s' x = ram s x" by blast
  then show ?thesis
    using plain_name_device [OF assms(1)] assms(5)
    by (cases ?d) (auto simp: vol_open_file_def vol_open_file_impl_def file_system_at_def
        invalid_file_def entry_file_def fat_kept_def fat_frame_def same_outside_def)
qed

text \<open>
  C40. With a backslash in the path, \<open>fat_open_file\<close> never looks at the disk: whatever the path,
  when it returns, no port was touched, and the result is either marked invalid or the
  uninitialised local itself; the path components were written to memory from address 0 on.
\<close>

lemma fat_open_path_blind:
  "fat_open_path cdir p s = Some (file, s') \<Longrightarrow>
     io_log s' = io_log s \<and> (file = cdir\<lparr>f_flags := FS_INVAILD\<rparr> \<or> file = cdir \<and> f_flags cdir = FS_FILE)"
proof (induction cdir p s rule: fat_open_path.induct)
  case (1 cdir p s)
  show ?case
    by (rule fat_open_path.elims [OF 1(2)])
      (use 1(1) in \<open>auto simp: Let_def split: option.splits prod.splits if_splits\<close>)
qed

theorem fat_open_backslash_blind:
  assumes "strchr path 0x5C = Some (Some p)" and "fat_open_file junk path s = Some (file, s')"
  shows "io_log s' = io_log s \<and> (file = invalid_file junk \<or> file = junk \<and> f_flags junk = FS_FILE)"
  using fat_open_path_blind [of junk "tl p" s] assms by (simp add: fat_open_file_def invalid_file_def)

section \<open>Reading a whole file\<close>

text \<open>
  The cluster chain that the table on the disk describes, and \<open>n\<close> calls of \<open>fat_read_file\<close> one after
  the other, with what each leaves in the buffer and the end flag it was called with.
\<close>

inductive cluster_chain :: "(nat \<Rightarrow> nat \<Rightarrow> u8) \<Rightarrow> nat \<Rightarrow> nat list \<Rightarrow> bool" for img where
  chain_end: "2 \<le> c \<Longrightarrow> c < 4096 \<Longrightarrow> 0xFF8 \<le> fat12_entry img c \<or> fat12_entry img c = 0 \<Longrightarrow> cluster_chain img c [c]"
| chain_next: "2 \<le> c \<Longrightarrow> c < 4096 \<Longrightarrow> fat12_entry img c < 0xFF8 \<Longrightarrow> fat12_entry img c \<noteq> 0 \<Longrightarrow>
    cluster_chain img (fat12_entry img c) cs \<Longrightarrow> cluster_chain img c (c # cs)"

primrec read_times :: "nat \<Rightarrow> FILE \<Rightarrow> u32 \<Rightarrow> 'a fat \<Rightarrow> ((u32 \<times> u8 list) list \<times> FILE \<times> 'a fat) option" where
  "read_times 0 file buffer s = Some ([], file, s)"
| "read_times (Suc n) file buffer s = do {
     (f, s) \<leftarrow> fat_read_file (Some file) buffer s;
     (reads, f', s') \<leftarrow> read_times n (the f) buffer s;
     Some ((f_end file, bytes_at (ram s) buffer 512) # reads, f', s')
   }"

definition cluster_bytes :: "(nat \<Rightarrow> nat \<Rightarrow> u8) \<Rightarrow> nat \<Rightarrow> nat \<Rightarrow> u8 list" where
  "cluster_bytes img d c = map (img (c - 2 + d)) [0..<512]"

lemma read_cluster:
  fixes s :: "'a fat"
  assumes "drive_ok img s" "apart buffer 512 DMA_BUFFER 512" "c = unat (f_current_cluster f)"
    "2 \<le> c" "c < 4096" "c - 2 + unat (data_offset (mount_info s)) < 2880"
  obtains s' where "fat_read_file (Some f) buffer s = Some (Some (cluster_step img f), s')"
    "drive_ok img s'" "mount_info s' = mount_info s"
    "bytes_at (ram s') buffer 512 = cluster_bytes img (unat (data_offset (mount_info s))) c"
  by (rule fat_read_file_step [OF assms(1,2), of f])
    (use assms(3-6) in \<open>auto intro!: that simp: bytes_at_def cluster_bytes_def\<close>)

lemma read_chain:
  fixes s :: "'a fat"
  assumes "cluster_chain img c cs" and "c = unat (f_current_cluster f)" and "f_end f = 0"
    and "drive_ok img s" and "apart buffer 512 DMA_BUFFER 512"
    and "\<forall>c \<in> set cs. c - 2 + unat (data_offset (mount_info s)) < 2880"
  shows "\<exists>f' s'. read_times (length cs) f buffer s =
      Some (map (\<lambda>c. (0, cluster_bytes img (unat (data_offset (mount_info s))) c)) cs, f', s') \<and>
    f_end f' = 1 \<and> drive_ok img s' \<and> mount_info s' = mount_info s"
  using assms
proof (induction arbitrary: f s rule: cluster_chain.induct)
  case (chain_end c)
  let ?d = "unat (data_offset (mount_info s))"
  obtain s' where
    "fat_read_file (Some f) buffer s = Some (Some (cluster_step img f), s')" "drive_ok img s'"
    "mount_info s' = mount_info s" "bytes_at (ram s') buffer 512 = cluster_bytes img ?d c"
    by (rule read_cluster [of img s buffer c f]) (use chain_end in auto)
  with chain_end show ?case by (auto simp: cluster_step_def Let_def)
next
  case (chain_next c cs)
  let ?d = "unat (data_offset (mount_info s))"
  obtain s' where s':
    "fat_read_file (Some f) buffer s = Some (Some (cluster_step img f), s')" "drive_ok img s'"
    "mount_info s' = mount_info s" "bytes_at (ram s') buffer 512 = cluster_bytes img ?d c"
    by (rule read_cluster [of img s buffer c f]) (use chain_next in auto)
  have e: "cluster_step img f = f\<lparr>f_current_cluster := of_nat (fat12_entry img c)\<rparr>"
    using chain_next by (simp add: cluster_step_def Let_def)
  have u: "unat (of_nat (fat12_entry img c) :: u32) = fat12_entry img c"
    using chain_next(3) by (simp add: unat_of_nat_small)
  from chain_next.IH [of "cluster_step img f" s'] chain_next.prems s' e u show ?case by auto
qed

text \<open>
  C11. Reading a file to its end: as long as the end flag is 0, each call leaves the next cluster
  of the chain on the disk in the buffer; after the last cluster, and not before, the flag is 1.
\<close>

theorem fat_read_whole_file:
  fixes s :: "'a fat"
  assumes "cluster_chain img (unat (f_current_cluster f)) cs" and "f_end f = 0"
    and "drive_ok img s" and "apart buffer 512 DMA_BUFFER 512"
    and "\<forall>c \<in> set cs. c - 2 + unat (data_offset (mount_info s)) < 2880"
  shows "\<exists>f' s'. read_times (length cs) f buffer s =
      Some (map (\<lambda>c. (0, cluster_bytes img (unat (data_offset (mount_info s))) c)) cs, f', s') \<and>
    f_end f' = 1 \<and> drive_ok img s' \<and> mount_info s' = mount_info s"
  using read_chain [OF assms(1) refl assms(2-5)] .

section \<open>A concrete disk\<close>

text \<open>A 1.44 MB disk with one file of two clusters.\<close>

definition demo_img :: "nat \<Rightarrow> nat \<Rightarrow> u8" where
  "demo_img n k =
     (if n = 0 then (if k = 12 then 2 else if k = 13 then 1 else if k = 14 then 1 else if k = 16 then 2
        else if k = 17 then 0xE0 else if k = 19 then 0x40 else if k = 20 then 0x0B else if k = 22 then 9 else 0)
      else if n = 1 then (if k = 3 then 3 else if k = 4 then 0xF0 else if k = 5 then 0xFF else 0)
      else if n = 19 then (if k < 11 then [0x4B, 0x52, 0x4E, 0x4C, 0x20, 0x20, 0x20, 0x20, 0x53, 0x59, 0x53] ! k
        else if k = 26 then 2 else if k = 29 then 4 else 0)
      else if n = 33 then (if 136 \<le> k then 0x80 else 0)
      else of_nat (n + k))"

abbreviation demo_name :: "u8 list" where
  "demo_name \<equiv> [0x4B, 0x52, 0x4E, 0x4C, 0x20, 0x20, 0x20, 0x20, 0x53, 0x59, 0x53]"

definition demo_mount :: MOUNT_INFO where
  "demo_mount = \<lparr>num_sectors = 2880, fat_offset = 1, num_root_entries = 224, root_offset = 19,
     root_size = 14, fat_size = 9, fat_entry_size = 8, data_offset = 33\<rparr>"

definition demo_fat :: fat_state where
  "demo_fat = fd_state.extend (demo_fd demo_img) (fat_state.fields demo_mount (replicate 1024 0) [Some Fat12])"

definition demo_file :: FILE where
  "demo_file = \<lparr>f_name = replicate 32 0, f_flags = 0, f_size = 1024, f_id = 0, f_end = 0, f_position = 0,
     f_current_cluster = 2, f_device_id = 0x61\<rparr>"

lemma demo_fat_ok: "drive_ok demo_img demo_fat"
proof -
  have f: "dev_b demo_fat = dev_b (demo_fd demo_img)" "dev_irq6 demo_fat = dev_irq6 (demo_fd demo_img)"
    "dev_dma demo_fat = dev_dma (demo_fd demo_img)" "dev_timer demo_fat = dev_timer (demo_fd demo_img)"
    "current_drive demo_fat = current_drive (demo_fd demo_img)" "fd_irq6_stat demo_fat = fd_irq6_stat (demo_fd demo_img)"
    by (simp_all add: demo_fat_def fd_state.defs)
  show ?thesis
    unfolding drive_ok_def drive_ready_def drive_seeks_def drive_reads_def f
    using demo_fd_ok [of demo_img, unfolded drive_ok_def drive_ready_def drive_seeks_def drive_reads_def] .
qed

lemma demo_fat_fields [simp]: "mount_info demo_fat = demo_mount" "file_system demo_fat = [Some Fat12]"
  by (simp_all add: demo_fat_def fd_state.defs fat_state.defs)

theorem fat_mount_geometry_witness:
  "\<exists>s'. fat_mount demo_fat = Some s' \<and> unat (root_offset (mount_info s')) = 19 \<and> unat (data_offset (mount_info s')) = 33"
  using fat_mount_geometry [OF demo_fat_ok] by (auto simp: disk_word_def demo_img_def)

theorem vol_open_file_finds_witness:
  "\<exists>file s'. vol_open_file demo_file (Some (demo_name @ [0])) demo_fat = Some (file, s') \<and>
     f_flags file = FS_FILE \<and> f_current_cluster file = 2 \<and> f_size file = 1024"
proof -
  obtain rest where "dir_entries demo_img 19 14 = disk_entry (demo_img 19) 0 # rest"
    by (simp add: dir_entries_def upt_conv_Cons)
  moreover have "disk_entry (demo_img 19) 0 =
      \<lparr>dir_filename = demo_name, dir_attrib = 0, dir_first_cluster = 2, dir_filesize = 1024\<rparr>"
    by code_simp
  ultimately have "find (\<lambda>d. take 11 demo_name = dir_filename d) (dir_entries demo_img 19 14) =
      Some \<lparr>dir_filename = demo_name, dir_attrib = 0, dir_first_cluster = 2, dir_filesize = 1024\<rparr>"
    by simp
  moreover have "unat (root_offset (mount_info demo_fat)) = 19" by (simp add: demo_mount_def)
  moreover have "plain_name demo_name" by (simp add: plain_name_def)
  ultimately show ?thesis
    using vol_open_file_finds [OF _ _ demo_fat_ok, of demo_name demo_file "[]"]
    by (auto simp: demo_file_def)
qed

theorem fat_open_backslash_blind_witness:
  "\<exists>file s'. fat_open_file (invalid_file demo_file) [0x61, 0x5C, 0x62, 0] demo_fat = Some (file, s') \<and>
     io_log s' = io_log demo_fat"
proof -
  have "\<exists>file s'. fat_open_file (invalid_file demo_file) [0x61, 0x5C, 0x62, 0] demo_fat = Some (file, s')"
    by (simp add: fat_open_file_def fat_open_path.simps invalid_file_def)
  then show ?thesis
    using fat_open_backslash_blind [of "[0x61, 0x5C, 0x62, 0]" "[0x5C, 0x62, 0]" "invalid_file demo_file" demo_fat]
    by auto
qed

theorem fat_read_whole_file_witness:
  "\<exists>f' s'. read_times 2 demo_file 0x9000 demo_fat =
      Some ([(0, cluster_bytes demo_img 33 2), (0, cluster_bytes demo_img 33 3)], f', s') \<and> f_end f' = 1"
proof -
  have b: "fat_byte demo_img 3 = 3" "fat_byte demo_img 4 = 240" "fat_byte demo_img 5 = 255"
    by (simp_all add: fat_byte_def demo_img_def)
  have e: "fat12_entry demo_img 2 = 3" "fat12_entry demo_img 3 = 0xFFF"
    by (simp_all add: fat12_entry_def b)
  have "cluster_chain demo_img 3 [3]" by (rule chain_end) (simp_all add: e)
  then have "cluster_chain demo_img 2 [2, 3]" by (intro chain_next [of 2]) (simp_all add: e)
  moreover have "apart 0x9000 512 DMA_BUFFER 512" by (simp add: apart_def)
  moreover have u: "unat (f_current_cluster demo_file) = 2" "f_end demo_file = 0"
    "unat (data_offset (mount_info demo_fat)) = 33" "length [2::nat, 3] = 2"
    by (simp_all add: demo_file_def demo_mount_def)
  ultimately have "\<exists>f' s'. read_times 2 demo_file 0x9000 demo_fat =
      Some (map (\<lambda>c. (0, cluster_bytes demo_img 33 c)) [2, 3], f', s') \<and> f_end f' = 1 \<and>
      drive_ok demo_img s' \<and> mount_info s' = mount_info demo_fat"
    using fat_read_whole_file [of demo_img demo_file "[2, 3]" demo_fat "0x9000"] demo_fat_ok by (simp only: u) simp
  then show ?thesis by (simp only: list.map) blast
qed

end
