(* ===== verification/Heap_props.thy ===== *)
theory Heap_props
  imports Heap_view Fat_files
begin

text \<open>
  The heap as a list of blocks. The headers in memory describe adjacent blocks, each with a size
  and a free flag; \<open>alloc_blocks\<close> and \<open>free_blocks\<close> are the allocator on such lists, and the code
  implements them as long as a block that is split leaves room for a header.
\<close>

unbundle bit_operations_syntax

section \<open>Headers\<close>

type_synonym block = "nat \<times> bool"

definition header :: "memory \<Rightarrow> nat \<Rightarrow> block \<Rightarrow> u32 \<Rightarrow> bool" where
  "header M a b nx \<longleftrightarrow> load32 M (of_nat a) = of_nat (fst b) \<and> (load32 M (of_nat (a + 4)) \<noteq> 0) = snd b \<and>
     load32 M (of_nat (a + 8)) = nx"

definition put_header :: "memory \<Rightarrow> nat \<Rightarrow> block \<Rightarrow> u32 \<Rightarrow> memory" where
  "put_header M a b nx =
     store32 (store32 (store32 M (of_nat a) (of_nat (fst b))) (of_nat (a + 4)) (if snd b then 1 else 0)) (of_nat (a + 8)) nx"

definition extent :: "block list \<Rightarrow> nat" where
  "extent bs = (\<Sum>b\<leftarrow>bs. 12 + fst b)"

lemma extent_simps [simp]: "extent [] = 0" "extent (b # bs) = 12 + fst b + extent bs"
  "extent (xs @ ys) = extent xs + extent ys"
  by (simp_all add: extent_def)

primrec chain :: "memory \<Rightarrow> nat \<Rightarrow> block list \<Rightarrow> u32 \<Rightarrow> bool" where
  "chain M a [] e = True"
| "chain M a (b # bs) e =
     (header M a b (if bs = [] then e else of_nat (a + 12 + fst b)) \<and> chain M (a + 12 + fst b) bs e)"

lemma unat_of_nat_plus:
  assumes "a + k < 2 ^ 32"
  shows "(of_nat a :: u32) + of_nat k = of_nat (a + k)" "unat (of_nat (a + k) :: u32) = a + k"
  using assms unat_of_nat_small [of "a + k", where 'a = 32] by simp_all

lemma in_region_of_nat:
  assumes "a + n < 2 ^ 32"
  shows "in_region (of_nat a) (of_nat n) x \<longleftrightarrow> a \<le> unat x \<and> unat x < a + n"
proof -
  have u: "unat (of_nat a :: u32) = a" "unat (of_nat n :: u32) = n" using assms by (simp_all add: unat_of_nat_small)
  have "unat x < 2 ^ 32" by (rule unat_u32_bound)
  then show ?thesis
    using assms u by (auto simp: in_region_def word_less_nat_alt unat_sub_if')
qed

lemma header_cong:
  assumes "\<And>x. a \<le> unat x \<Longrightarrow> unat x < a + 12 \<Longrightarrow> M' x = M x" and "a + 12 < 2 ^ 32"
  shows "header M' a b nx = header M a b nx"
proof -
  have "load32 M' (of_nat a) = load32 M (of_nat a)"
    by (rule load32_cong) (use assms in_region_of_nat [of a 4] in auto)
  moreover have "load32 M' (of_nat (a + 8)) = load32 M (of_nat (a + 8))"
    by (rule load32_cong) (use assms in_region_of_nat [of "a + 8" 4] in auto)
  moreover have "load32 M' (of_nat (a + 4)) = load32 M (of_nat (a + 4))"
    by (rule load32_cong) (use assms in_region_of_nat [of "a + 4" 4] in auto)
  ultimately show ?thesis by (simp add: header_def)
qed

text \<open>The fields of a header are words of their own.\<close>

lemma load32_store32_field:
  assumes "i + 4 \<le> j \<or> j + 4 \<le> i" "a + 12 < 2 ^ 32" "i \<le> 8" "j \<le> 8"
  shows "load32 (store32 M (of_nat (a + i)) v) (of_nat (a + j)) = load32 M (of_nat (a + j))"
proof (rule load32_cong, rule store32_outside)
  fix x :: u32 assume "in_region (of_nat (a + j)) 4 x"
  then show "\<not> in_region (of_nat (a + i)) 4 x"
    using assms in_region_of_nat [of "a + j" 4 x] in_region_of_nat [of "a + i" 4 x] by auto
qed

lemma chain_cong:
  "(\<And>x. a \<le> unat x \<Longrightarrow> unat x < a + extent bs \<Longrightarrow> M' x = M x) \<Longrightarrow> a + extent bs < 2 ^ 32 \<Longrightarrow>
     chain M' a bs e = chain M a bs e"
proof (induction bs arbitrary: a)
  case (Cons b bs)
  have "header M' a b nx = header M a b nx" for nx by (rule header_cong) (use Cons.prems in auto)
  moreover have "chain M' (a + 12 + fst b) bs e = chain M (a + 12 + fst b) bs e"
    by (rule Cons.IH) (use Cons.prems in auto)
  ultimately show ?case by simp
qed simp

lemma chain_append:
  "ys \<noteq> [] \<Longrightarrow> chain M a (xs @ ys) e \<longleftrightarrow> chain M a xs (of_nat (a + extent xs)) \<and> chain M (a + extent xs) ys e"
  by (induction xs arbitrary: a) (auto simp: add.assoc)

lemma put_header_outside:
  assumes "a + 12 < 2 ^ 32" "\<not> (a \<le> unat x \<and> unat x < a + 12)"
  shows "put_header M a b nx x = M x"
proof -
  have "\<not> in_region (of_nat a) 4 x" "\<not> in_region (of_nat (a + 4)) 4 x" "\<not> in_region (of_nat (a + 8)) 4 x"
    using assms in_region_of_nat [of a 4 x] in_region_of_nat [of "a + 4" 4 x] in_region_of_nat [of "a + 8" 4 x] by auto
  then show ?thesis by (simp add: put_header_def store32_outside)
qed

lemma header_put_header:
  assumes "a + 12 < 2 ^ 32"
  shows "header (put_header M a b nx) a b nx"
proof -
  note f = load32_store32_field [OF _ assms]
  show ?thesis
    using f [of 8 0] f [of 4 0] f [of 8 4] by (simp add: header_def put_header_def del: of_nat_add)
qed

section \<open>Accesses to a header\<close>

lemma inside_of_nat:
  assumes "a + 4 \<le> unat E"
  shows "heap_mem.inside32 E (of_nat a)" "of_nat a < E"
proof -
  have lt: "of_nat (a + k) < E" if "k < 4" for k
    using assms that unat_u32_bound [of E] by (simp add: word_less_nat_alt unat_of_nat_small del: of_nat_add)
  show "heap_mem.inside32 E (of_nat a)" "of_nat a < E"
    using lt [of 0] lt [of 1] lt [of 2] lt [of 3] by (simp_all add: heap_mem.inside32_def add.commute)
qed

lemma of_nat_offsets: "(of_nat a :: u32) + 4 = of_nat (a + 4)" "(of_nat a :: u32) + 8 = of_nat (a + 8)"
  "(of_nat a :: u32) + 12 = of_nat (a + 12)"
  by simp_all

lemma read_header:
  assumes "heap_view E s M" "a + 12 \<le> unat E" "header M a b nx"
  shows "block_size (of_nat a) s = Some (of_nat (fst b))" "block_free (of_nat a) s = Some (snd b)"
    "block_next (of_nat a) s = Some nx"
proof -
  note ld = heap_mem.ld32_view [OF assms(1), unfolded heap_words]
  show "block_size (of_nat a) s = Some (of_nat (fst b))"
    using ld [OF inside_of_nat(1) [of a]] assms(2,3) by (simp add: block_size_def header_def)
  show "block_next (of_nat a) s = Some nx"
    using ld [OF inside_of_nat(1) [of "a + 8"]] assms(2,3) by (simp add: block_next_def header_def add.commute)
  show "block_free (of_nat a) s = Some (snd b)"
    using ld [OF inside_of_nat(1) [of "a + 4"]] assms(2,3) by (simp add: block_free_def header_def add.commute)
qed

lemma set_size_view:
  assumes "heap_view E s M" "a + 12 \<le> unat E"
  obtains s' where "set_size (of_nat a) v s = Some s'" "heap_view E s' (store32 M (of_nat a) v)" "heap_kept E s s'"
  using heap_mem.st32_view [OF assms(1) inside_of_nat(1) [of a], of v, unfolded heap_words] assms(2)
  by (auto simp: set_size_def)

lemma set_next_view:
  assumes "heap_view E s M" "a + 12 \<le> unat E"
  obtains s' where "set_next (of_nat a) v s = Some s'" "heap_view E s' (store32 M (of_nat (a + 8)) v)" "heap_kept E s s'"
  using heap_mem.st32_view [OF assms(1) inside_of_nat(1) [of "a + 8"], of v, unfolded heap_words] assms(2)
  by (auto simp: set_next_def of_nat_offsets simp del: of_nat_add)

lemma set_free_view:
  assumes "heap_view E s M" "a + 12 \<le> unat E"
  obtains s' where "set_free (of_nat a) f s = Some s'" "heap_view E s' (store32 M (of_nat (a + 4)) (if f then 1 else 0))"
    "heap_kept E s s'"
  using heap_mem.st32_view [OF assms(1) inside_of_nat(1) [of "a + 4"], of "if f then 1 else 0", unfolded heap_words] assms(2)
  by (auto simp: set_free_def of_nat_offsets simp del: of_nat_add)

lemma heap_kept_trans: "heap_kept E s t \<Longrightarrow> heap_kept E t u \<Longrightarrow> heap_kept E s u"
  using heap_mem.kept_trans .

lemma put_header_view:
  assumes "heap_view E s M" "a + 12 \<le> unat E"
  obtains s1 s2 s3 where "set_size (of_nat a) (of_nat n) s = Some s1" "set_free (of_nat a) f s1 = Some s2"
    "set_next (of_nat a) nx s2 = Some s3" "heap_view E s3 (put_header M a (n, f) nx)" "heap_kept E s s3"
proof -
  obtain s1 where s1: "set_size (of_nat a) (of_nat n) s = Some s1" "heap_view E s1 (store32 M (of_nat a) (of_nat n))"
    "heap_kept E s s1" by (rule set_size_view [OF assms])
  obtain s2 where s2: "set_free (of_nat a) f s1 = Some s2"
    "heap_view E s2 (store32 (store32 M (of_nat a) (of_nat n)) (of_nat (a + 4)) (if f then 1 else 0))" "heap_kept E s1 s2"
    by (rule set_free_view [OF s1(2) assms(2), of f])
  obtain s3 where s3: "set_next (of_nat a) nx s2 = Some s3" "heap_view E s3 (put_header M a (n, f) nx)" "heap_kept E s2 s3"
    by (rule set_next_view [OF s2(2) assms(2)]) (simp add: put_header_def)
  show ?thesis by (rule that [OF s1(1) s2(1) s3(1,2)]) (use s1(3) s2(3) s3(3) heap_kept_trans in blast)
qed

section \<open>Splitting a block\<close>

lemma split_view:
  assumes view: "heap_view E s M" and hd: "header M a (n, f) nx"
    and room: "sz + 12 \<le> n" "a + 12 + n \<le> unat E"
  obtains s' where "malloc_split (of_nat a) (of_nat sz) s = Some s'" "heap_kept E s s'"
    "heap_view E s' (put_header (put_header M (a + 12 + sz) (n - sz - 12, True) nx) a (sz, False) (of_nat (a + 12 + sz)))"
proof -
  let ?b = "a + 12 + sz" and ?v = "of_nat (n - sz - 12) :: u32"
  have E: "unat E < 2 ^ 32" by (rule unat_u32_bound)
  have new: "(of_nat a :: u32) + of_nat sz + 12 = of_nat ?b" by simp
  have v: "(of_nat n :: u32) - of_nat sz - 12 = ?v" using room(1) by (simp add: of_nat_diff)
  have ab: "?b + 12 \<le> unat E" "a + 12 \<le> unat E" using room by linarith+
  obtain s1 where s1: "set_size (of_nat ?b) ?v s = Some s1" "heap_view E s1 (store32 M (of_nat ?b) ?v)" "heap_kept E s s1"
    by (rule set_size_view [OF view ab(1)])
  obtain s2 where s2: "set_free (of_nat ?b) True s1 = Some s2"
    "heap_view E s2 (store32 (store32 M (of_nat ?b) ?v) (of_nat (?b + 4)) 1)" "heap_kept E s1 s2"
    by (rule set_free_view [OF s1(2) ab(1), of True]) simp
  have "header (store32 (store32 M (of_nat ?b) ?v) (of_nat (?b + 4)) 1) a (n, f) nx = header M a (n, f) nx"
  proof (rule header_cong)
    fix x :: u32 assume x: "unat x < a + 12"
    then have "\<not> in_region (of_nat ?b) 4 x" "\<not> in_region (of_nat (?b + 4)) 4 x"
      using in_region_of_nat [of ?b 4 x] in_region_of_nat [of "?b + 4" 4 x] ab(1) E by auto
    then show "store32 (store32 M (of_nat ?b) ?v) (of_nat (?b + 4)) 1 x = M x" by (simp add: store32_outside)
  qed (use ab E in simp)
  then have nx: "block_next (of_nat a) s2 = Some nx" using read_header(3) [OF s2(2) ab(2)] hd by blast
  obtain s3 where s3: "set_next (of_nat ?b) nx s2 = Some s3"
    "heap_view E s3 (put_header M ?b (n - sz - 12, True) nx)" "heap_kept E s2 s3"
    by (rule set_next_view [OF s2(2) ab(1)]) (simp add: put_header_def)
  let ?M = "put_header M ?b (n - sz - 12, True) nx"
  obtain s4 s5 s6 where s6: "set_size (of_nat a) (of_nat sz) s3 = Some s4" "set_free (of_nat a) False s4 = Some s5"
    "set_next (of_nat a) (of_nat ?b) s5 = Some s6" "heap_view E s6 (put_header ?M a (sz, False) (of_nat ?b))"
    "heap_kept E s3 s6" by (rule put_header_view [OF s3(2) ab(2)])
  have "malloc_split (of_nat a) (of_nat sz) s = Some s6"
    unfolding malloc_split_def Let_def new
    using read_header(1) [OF view ab(2) hd] s1(1) s2(1) nx s3(1) s6(1-3) by (simp add: v)
  then show ?thesis
    using that s6(4,5) heap_kept_trans s1(3) s2(3) s3(3) by blast
qed

section \<open>The allocator on block lists\<close>

text \<open>
  The specification: the first block that is free and large enough. The search of the code stops there when there is such
  a block, and otherwise at the last block, whatever its flag and size.
\<close>

primrec first_fit :: "nat \<Rightarrow> block list \<Rightarrow> nat option" where
  "first_fit sz [] = None"
| "first_fit sz (b # bs) = (if snd b \<and> sz \<le> fst b then Some 0 else map_option Suc (first_fit sz bs))"

lemma first_fit_Some:
  "first_fit sz bs = Some i \<longleftrightarrow> i < length bs \<and> snd (bs ! i) \<and> sz \<le> fst (bs ! i) \<and> (\<forall>j < i. \<not> (snd (bs ! j) \<and> sz \<le> fst (bs ! j)))"
proof (induction bs arbitrary: i)
  case (Cons b bs)
  show ?case by (cases i) (auto simp: Cons.IH less_Suc_eq_0_disj)
qed simp

fun stops_at :: "nat \<Rightarrow> block list \<Rightarrow> nat" where
  "stops_at sz [] = 0"
| "stops_at sz [b] = 0"
| "stops_at sz (b # bs) = (if sz \<le> fst b \<and> snd b then 0 else Suc (stops_at sz bs))"

lemma stops_at_first_fit: "first_fit sz bs = Some i \<Longrightarrow> stops_at sz bs = i"
  by (induction sz bs arbitrary: i rule: stops_at.induct) (auto split: if_splits)

lemma stops_at_less: "bs \<noteq> [] \<Longrightarrow> stops_at sz bs < length bs"
  by (induction sz bs rule: stops_at.induct) auto

definition block_at :: "block list \<Rightarrow> nat \<Rightarrow> nat" where
  \<comment> \<open>the address of the header of a block\<close>
  "block_at bs i = extent (take i bs)"

definition alloc_at :: "nat \<Rightarrow> nat \<Rightarrow> block list \<Rightarrow> block list" where
  \<comment> \<open>the block is marked, and split where it is larger than asked for\<close>
  "alloc_at i sz bs =
     (let n = fst (bs ! i)
      in if n = sz then bs[i := (n, False)]
         else take i bs @ (sz, False) # (n - sz - 12, True) # drop (Suc i) bs)"

abbreviation alloc_blocks :: "nat \<Rightarrow> block list \<Rightarrow> block list" where
  "alloc_blocks sz bs \<equiv> alloc_at (stops_at sz bs) sz bs"

definition free_blocks :: "nat \<Rightarrow> block list \<Rightarrow> block list" where
  \<comment> \<open>the last block is never released\<close>
  "free_blocks i bs = (if Suc i < length bs then bs[i := (fst (bs ! i), True)] else bs)"

lemma block_at_mono: "i < j \<Longrightarrow> j \<le> length bs \<Longrightarrow> block_at bs i + 12 + fst (bs ! i) \<le> block_at bs j"
proof (induction j)
  case (Suc j)
  have "block_at bs (Suc j) = block_at bs j + 12 + fst (bs ! j)"
    using Suc.prems by (simp add: block_at_def take_Suc_conv_app_nth)
  with Suc show ?case by (cases "i = j") auto
qed simp

lemma malloc_find_stops:
  assumes "heap_view E s M" "chain M a bs 0" "bs \<noteq> []" "a + extent bs \<le> unat E" "sz < 2 ^ 32"
  shows "malloc_find (of_nat sz) (of_nat a) s = Some (of_nat (a + block_at bs (stops_at sz bs)))"
  using assms(2-)
proof (induction bs arbitrary: a)
  case (Cons b bs)
  let ?nx = "if bs = [] then 0 else of_nat (a + 12 + fst b)"
  have a: "a + 12 \<le> unat E" "fst b < 2 ^ 32" "a + 12 + fst b < 2 ^ 32"
    using Cons.prems(3) unat_u32_bound [of E] by auto
  note r = read_header [OF assms(1) a(1), of b ?nx]
  have h: "header M a b ?nx" using Cons.prems(1) by simp
  have nz: "(of_nat (a + 12 + fst b) :: u32) \<noteq> 0"
    using a(3) unat_of_nat_small [of "a + 12 + fst b", where 'a = 32] by (auto simp del: of_nat_add)
  have lt: "(of_nat (fst b) :: u32) < of_nat sz \<longleftrightarrow> fst b < sz"
    using a(2) assms(5) by (simp add: word_less_nat_alt unat_of_nat_small)
  show ?case
  proof (cases bs)
    case Nil
    then show ?thesis using r(3) h by (subst malloc_find.simps) (simp add: block_at_def)
  next
    case (Cons c cs)
    then have ne: "bs \<noteq> []" by simp
    have IH: "malloc_find (of_nat sz) (of_nat (a + 12 + fst b)) s =
        Some (of_nat (a + 12 + fst b + block_at bs (stops_at sz bs)))"
      using Cons.IH [OF _ ne, of "a + 12 + fst b"] Cons.prems ne by simp
    have f: "stops_at sz (b # bs) = (if sz \<le> fst b \<and> snd b then 0 else Suc (stops_at sz bs))" using Cons by simp
    show ?thesis
      using r h ne nz lt IH
      by (subst malloc_find.simps) (auto simp: f block_at_def not_less add.assoc simp del: of_nat_add)
  qed
qed simp

lemma chain_link:
  "chain M a (xs @ b # ys) e \<Longrightarrow>
     header M (a + extent xs) b (if ys = [] then e else of_nat (a + extent xs + 12 + fst b))"
  using chain_append [of "b # ys" M a xs e] by (simp del: of_nat_add)

lemma chain_replace:
  assumes c: "chain M a (xs @ b # ys) e" and p: "p = a + extent xs"
    and same: "\<And>x. \<not> (p \<le> unat x \<and> unat x < p + 12 + fst b) \<Longrightarrow> M' x = M x"
    and new: "chain M' p bs (if ys = [] then e else of_nat (p + 12 + fst b))" "bs \<noteq> []" "extent bs = 12 + fst b"
    and E: "a + extent (xs @ b # ys) < 2 ^ 32"
  shows "chain M' a (xs @ bs @ ys) e"
proof -
  from c have cx: "chain M a xs (of_nat p)" and cy: "chain M p (b # ys) e"
    unfolding p by (simp_all add: chain_append)
  have cx': "chain M' a xs (of_nat p)"
    using cx chain_cong [of a xs M' M] same E p by simp
  have cy': "chain M' (p + 12 + fst b) ys e"
    using cy chain_cong [of "p + 12 + fst b" ys M' M] same E p by simp
  have "chain M' p (bs @ ys) e"
  proof (cases "ys = []")
    case False
    then show ?thesis using new cy' by (simp add: chain_append add.assoc)
  qed (use new in simp)
  then show ?thesis using cx' new(2) p by (simp add: chain_append)
qed

section \<open>The heap\<close>

text \<open>
  \<open>heap_inv E bs s\<close>: the virtual addresses below \<open>E\<close> are the heap, its block list starts at 0 and is \<open>bs\<close>.
\<close>

definition heap_inv :: "u32 \<Rightarrow> block list \<Rightarrow> 'a heap \<Rightarrow> bool" where
  "heap_inv E bs s \<longleftrightarrow> malloc_list_head s = 0 \<and> bs \<noteq> [] \<and> 0 < fst (hd bs) \<and> extent bs \<le> unat E \<and>
     (\<exists>M. heap_view E s M \<and> chain M 0 bs 0)"

lemma heap_kept_head: "heap_kept E s s' \<Longrightarrow> malloc_list_head s' = malloc_list_head s"
  by (auto simp: heap_kept_def)

lemma heap_invE:
  assumes "heap_inv E bs s"
  obtains M where "heap_view E s M" "chain M 0 bs 0" "malloc_list_head s = 0" "bs \<noteq> []" "0 < fst (hd bs)"
    "extent bs \<le> unat E" "extent bs < 2 ^ 32"
  using assms unat_u32_bound [of E] by (auto simp: heap_inv_def)

text \<open>A block of the list: what surrounds it and its header.\<close>

lemma heap_block:
  assumes "chain M 0 bs 0" "i < length bs"
  defines "p \<equiv> block_at bs i" and "ys \<equiv> drop (Suc i) bs"
  shows "bs = take i bs @ bs ! i # ys"
    "header M p (bs ! i) (if ys = [] then 0 else of_nat (p + 12 + fst (bs ! i)))"
    "p + 12 + fst (bs ! i) \<le> extent bs"
proof -
  show bs: "bs = take i bs @ bs ! i # ys" using assms(2) by (simp add: ys_def id_take_nth_drop)
  show "header M p (bs ! i) (if ys = [] then 0 else of_nat (p + 12 + fst (bs ! i)))"
    using chain_link [OF subst [OF bs, of "\<lambda>l. chain M 0 l 0", OF assms(1)]]
    unfolding p_def block_at_def by (simp only: add_0)
  have "extent bs = extent (take i bs @ bs ! i # ys)" using bs by simp
  then show "p + 12 + fst (bs ! i) \<le> extent bs" by (simp add: p_def block_at_def)
qed

lemma set_free_inv:
  assumes inv: "heap_inv E bs s" and i: "i < length bs"
  obtains s' where "set_free (of_nat (block_at bs i)) f s = Some s'" "heap_inv E (bs[i := (fst (bs ! i), f)]) s'"
    "heap_kept E s s'"
proof -
  obtain M where M: "heap_view E s M" "chain M 0 bs 0" "malloc_list_head s = 0" "bs \<noteq> []" "0 < fst (hd bs)"
    "extent bs \<le> unat E" "extent bs < 2 ^ 32" using heap_invE [OF inv] .
  let ?p = "block_at bs i" and ?b = "bs ! i" and ?ys = "drop (Suc i) bs"
  note B = heap_block [OF M(2) i]
  let ?M = "store32 M (of_nat (?p + 4)) (if f then 1 else 0)"
  have p12: "?p + 12 \<le> unat E" "?p + 12 < 2 ^ 32" using B(3) M(6,7) by linarith+
  obtain s' where s': "set_free (of_nat ?p) f s = Some s'" "heap_view E s' ?M" "heap_kept E s s'"
    by (rule set_free_view [OF M(1) p12(1), of f])
  have out: "?M x = M x" if "\<not> (?p + 4 \<le> unat x \<and> unat x < ?p + 8)" for x
    by (rule store32_outside) (use that in_region_of_nat [of "?p + 4" 4 x] p12 in auto)
  have ld: "load32 ?M (of_nat ?p) = load32 M (of_nat ?p)" "load32 ?M (of_nat (?p + 8)) = load32 M (of_nat (?p + 8))"
    using load32_store32_field [of 4 0 ?p] load32_store32_field [of 4 8 ?p] p12(2) by simp_all
  have "header ?M ?p (fst ?b, f) (if ?ys = [] then 0 else of_nat (?p + 12 + fst ?b))"
    using B(2) ld unfolding header_def by (simp del: of_nat_add)
  then have new: "chain ?M ?p [(fst ?b, f)] (if ?ys = [] then 0 else of_nat (?p + 12 + fst ?b))" by (simp del: of_nat_add)
  have "?M x = M x" if "\<not> (?p \<le> unat x \<and> unat x < ?p + 12 + fst ?b)" for x using that out [of x] by linarith
  then have "chain ?M 0 (take i bs @ [(fst ?b, f)] @ ?ys) 0"
    by (intro chain_replace [OF _ _ _ new]) (use B(1) M(2,7) in \<open>simp_all add: block_at_def\<close>)
  moreover have "take i bs @ [(fst ?b, f)] @ ?ys = bs[i := (fst ?b, f)]" using i by (simp add: upd_conv_take_nth_drop)
  moreover have "extent (bs[i := (fst ?b, f)]) = extent bs"
    using i B(1) by (simp add: upd_conv_take_nth_drop) (metis extent_simps(2,3) add.assoc)
  moreover have "0 < fst (hd (bs[i := (fst ?b, f)]))" using M(4,5) by (cases i; cases bs) auto
  ultimately show ?thesis
    using that s' M(3,4,6) heap_kept_head [OF s'(3)] by (auto simp: heap_inv_def)
qed

lemma split_inv:
  assumes inv: "heap_inv E bs s" and i: "i < length bs" and room: "sz + 12 \<le> fst (bs ! i)" and pos: "0 < sz"
  defines "bs' \<equiv> take i bs @ (sz, False) # (fst (bs ! i) - sz - 12, True) # drop (Suc i) bs"
  obtains s' where "malloc_split (of_nat (block_at bs i)) (of_nat sz) s = Some s'" "heap_inv E bs' s'" "heap_kept E s s'"
proof -
  obtain M where M: "heap_view E s M" "chain M 0 bs 0" "malloc_list_head s = 0" "bs \<noteq> []" "0 < fst (hd bs)"
    "extent bs \<le> unat E" "extent bs < 2 ^ 32" using heap_invE [OF inv] .
  let ?p = "block_at bs i" and ?n = "fst (bs ! i)" and ?ys = "drop (Suc i) bs"
  let ?nx = "if ?ys = [] then 0 else of_nat (?p + 12 + ?n)" and ?q = "block_at bs i + 12 + sz"
  note B = heap_block [OF M(2) i]
  have h: "header M ?p (?n, snd (bs ! i)) ?nx" using B(2) by (simp del: of_nat_add)
  have pE: "?p + 12 + ?n \<le> unat E" "?p + 12 + ?n < 2 ^ 32" using B(3) M(6,7) by linarith+
  let ?M = "put_header (put_header M ?q (?n - sz - 12, True) ?nx) ?p (sz, False) (of_nat ?q)"
  obtain s' where s': "malloc_split (of_nat ?p) (of_nat sz) s = Some s'" "heap_kept E s s'" "heap_view E s' ?M"
    by (rule split_view [OF M(1) h room pE(1)])
  have lt: "?p + 12 < 2 ^ 32" "?q + 12 < 2 ^ 32" using pE room by linarith+
  have "header ?M ?q (?n - sz - 12, True) ?nx = header (put_header M ?q (?n - sz - 12, True) ?nx) ?q (?n - sz - 12, True) ?nx"
    by (rule header_cong) (use put_header_outside [OF lt(1)] lt(2) in auto)
  then have "header ?M ?q (?n - sz - 12, True) ?nx" using header_put_header [OF lt(2)] by blast
  then have new: "chain ?M ?p [(sz, False), (?n - sz - 12, True)] ?nx"
    using header_put_header [OF lt(1)] by (simp del: of_nat_add)
  have "?M x = M x" if "\<not> (?p \<le> unat x \<and> unat x < ?p + 12 + ?n)" for x
    using that put_header_outside [OF lt(1), of x] put_header_outside [OF lt(2), of x] room by auto
  then have "chain ?M 0 (take i bs @ [(sz, False), (?n - sz - 12, True)] @ ?ys) 0"
    by (intro chain_replace [OF _ _ _ new]) (use B(1) M(2,7) room in \<open>simp_all add: block_at_def\<close>)
  moreover have "extent bs' = extent bs"
    using room arg_cong [OF B(1), of extent] by (simp add: bs'_def)
  moreover have "0 < fst (hd bs')" using M(4,5) pos by (cases i; cases bs) (auto simp: bs'_def)
  ultimately show ?thesis
    using that s' M(3,6) heap_kept_head [OF s'(2)] by (auto simp: heap_inv_def bs'_def)
qed

text \<open>The memory that the clients of a heap at \<open>a\<close> hold: the payloads of the blocks that are not free.\<close>

primrec held_at :: "nat \<Rightarrow> block list \<Rightarrow> nat set set" where
  "held_at a [] = {}"
| "held_at a (b # bs) = (if snd b then {} else {{a + 12 ..< a + 12 + fst b}}) \<union> held_at (a + 12 + fst b) bs"

lemma held_at_append: "held_at a (xs @ ys) = held_at a xs \<union> held_at (a + extent xs) ys"
  by (induction xs arbitrary: a) (auto simp: add.assoc)

lemma held_at_bounds: "r \<in> held_at a bs \<Longrightarrow> r \<subseteq> {a + 12 ..< a + extent bs}"
proof (induction bs arbitrary: a)
  case (Cons b bs)
  then show ?case using Cons.IH [of "a + 12 + fst b"] by (fastforce split: if_splits)
qed simp

lemma stops_at_free: "bs \<noteq> [] \<Longrightarrow> snd (last bs) \<Longrightarrow> snd (bs ! stops_at sz bs)"
  by (induction sz bs rule: stops_at.induct) auto

lemma alloc_blocks_held:
  assumes "bs \<noteq> []" "snd (bs ! stops_at sz bs)" "fst (bs ! stops_at sz bs) = sz \<or> sz + 12 \<le> fst (bs ! stops_at sz bs)"
  defines "p \<equiv> block_at bs (stops_at sz bs) + 12"
  shows "held_at 0 (alloc_blocks sz bs) = insert {p ..< p + sz} (held_at 0 bs)"
    "r \<in> held_at 0 bs \<Longrightarrow> r \<inter> {p ..< p + sz} = {}"
proof -
  let ?i = "stops_at sz bs"
  let ?xs = "take ?i bs" and ?ys = "drop (Suc ?i) bs"
  obtain n where n: "bs ! ?i = (n, True)" using assms(2) by (metis prod.collapse)
  have bs: "bs = ?xs @ (n, True) # ?ys" using stops_at_less [OF assms(1)] n by (metis id_take_nth_drop)
  have held: "held_at 0 bs = held_at 0 ?xs \<union> held_at (extent ?xs + 12 + n) ?ys"
    using arg_cong [OF bs, of "held_at 0"] by (simp add: held_at_append add.assoc)
  have "alloc_blocks sz bs = ?xs @ (if n = sz then [(n, False)] else [(sz, False), (n - sz - 12, True)]) @ ?ys"
    using n stops_at_less [OF assms(1)] by (simp add: alloc_at_def Let_def upd_conv_take_nth_drop)
  moreover have "n = sz \<or> sz + 12 \<le> n" using assms(3) n by simp
  ultimately show "held_at 0 (alloc_blocks sz bs) = insert {p ..< p + sz} (held_at 0 bs)"
    unfolding held by (auto simp: held_at_append p_def block_at_def add.assoc)
  show "r \<inter> {p ..< p + sz} = {}" if "r \<in> held_at 0 bs"
    using that held held_at_bounds [of r 0 ?xs] held_at_bounds [of r "extent ?xs + 12 + n" ?ys] \<open>n = sz \<or> sz + 12 \<le> n\<close>
    by (fastforce simp: p_def block_at_def)
qed

text \<open>A call finds the block of \<open>stops_at\<close> and goes on with the size in its header.\<close>

lemma malloc_next_block_stops:
  assumes "heap_inv E bs s" and "0 < sz" and "sz < 2 ^ 32"
  defines "p \<equiv> of_nat (block_at bs (stops_at sz bs)) :: u32" and "n \<equiv> fst (bs ! stops_at sz bs)"
  shows "malloc_next_block (of_nat sz) s = do {
      s \<leftarrow> (if n = sz then set_free p False s
            else if sz < n then malloc_split p (of_nat sz) s
            else do {
              page_count \<leftarrow> pages_needed (of_nat n) (of_nat sz) 1;
              s \<leftarrow> grow_heap (unat page_count) p (malloc_virt_addr s + total_malloc_pages s * PAGE_SIZE) s;
              malloc_split p (of_nat sz) s
            });
      Some (p + 12, s) }"
proof -
  obtain M where M: "heap_view E s M" "chain M 0 bs 0" "malloc_list_head s = 0" "bs \<noteq> []" "0 < fst (hd bs)"
    "extent bs \<le> unat E" "extent bs < 2 ^ 32" using heap_invE [OF assms(1)] .
  note B = heap_block [OF M(2) stops_at_less [OF M(4)], of sz] and B0 = heap_block [OF M(2), of 0]
  have nlt: "n < 2 ^ 32" using B(3) M(7) by (simp add: n_def)
  have "block_size p s = Some (of_nat n)"
    unfolding p_def n_def by (rule read_header(1) [OF M(1) _ B(2)]) (use B(3) M(6) in linarith)
  moreover have hd0: "fst (bs ! 0) < 2 ^ 32" "0 < fst (bs ! 0)" "12 \<le> unat E"
    using B0(3) M(4-7) by (auto simp: hd_conv_nth)
  moreover have "block_size 0 s = Some (of_nat (fst (bs ! 0)))"
    using read_header(1) [OF M(1) _ B0(2)] M(4) hd0 by (simp add: block_at_def)
  moreover have "(of_nat (fst (bs ! 0)) :: u32) \<noteq> 0"
    using hd0 unat_of_nat_small [of "fst (bs ! 0)", where 'a = 32] by auto
  moreover have "malloc_find (of_nat sz) 0 s = Some p"
    using malloc_find_stops [OF M(1,2,4) _ assms(3)] M(6) by (simp add: p_def)
  moreover have "(of_nat sz :: u32) \<noteq> 0" using assms(2,3) unat_of_nat_small [of sz, where 'a = 32] by auto
  moreover have "(of_nat n :: u32) = of_nat sz \<longleftrightarrow> n = sz" "(of_nat sz :: u32) < of_nat n \<longleftrightarrow> sz < n"
    using nlt assms(3) by (auto simp: word_less_nat_alt unat_of_nat_small word_unat_eq_iff)
  ultimately show ?thesis using M(3) by (simp add: malloc_next_block_def Let_def)
qed

lemma first_fit_step:
  assumes "heap_inv E bs s" and "0 < sz" and "sz < 2 ^ 32"
    and "fst (bs ! stops_at sz bs) = sz \<or> sz + 12 \<le> fst (bs ! stops_at sz bs)"
  shows "\<exists>s'. malloc_next_block (of_nat sz) s = Some (of_nat (block_at bs (stops_at sz bs) + 12), s') \<and>
    heap_inv E (alloc_blocks sz bs) s' \<and> heap_kept E s s'"
proof -
  let ?i = "stops_at sz bs"
  have i: "?i < length bs" using stops_at_less assms(1) by (auto simp: heap_inv_def)
  note eq = malloc_next_block_stops [OF assms(1-3)]
  show ?thesis
  proof (cases "fst (bs ! ?i) = sz")
    case True
    obtain s' where "set_free (of_nat (block_at bs ?i)) False s = Some s'"
      "heap_inv E (bs[?i := (fst (bs ! ?i), False)]) s'" "heap_kept E s s'" by (rule set_free_inv [OF assms(1) i])
    with eq True show ?thesis by (simp add: alloc_at_def)
  next
    case False
    with assms(4) have room: "sz + 12 \<le> fst (bs ! ?i)" by simp
    obtain s' where "malloc_split (of_nat (block_at bs ?i)) (of_nat sz) s = Some s'"
      "heap_inv E (take ?i bs @ (sz, False) # (fst (bs ! ?i) - sz - 12, True) # drop (Suc ?i) bs) s'" "heap_kept E s s'"
      by (rule split_inv [OF assms(1) i room assms(2)])
    with eq False room show ?thesis by (simp add: alloc_at_def Let_def)
  qed
qed

text \<open>
  C15. The allocator implements first fit on a list of adjacent blocks, where there is a fit that it can split: when some
  block is free and large enough, and the first such block has exactly the size asked for or leaves room for the header of
  the rest (12 bytes), the call returns its payload, and the headers in memory are those of the list in which
  this block was marked and split; nothing outside the heap changes. The statement does not cover a first fit that is
  1 to 11 bytes larger than asked for, which is split nevertheless, and requests for which no block is free and
  large enough.
\<close>

theorem malloc_implements_first_fit:
  assumes "heap_inv E bs s" and "0 < sz" and "sz < 2 ^ 32"
    and "first_fit sz bs = Some i" and "fst (bs ! i) = sz \<or> sz + 12 \<le> fst (bs ! i)"
  shows "\<exists>s'. malloc_next_block (of_nat sz) s = Some (of_nat (block_at bs i + 12), s') \<and>
    heap_inv E (alloc_at i sz bs) s' \<and> (\<forall>x. x \<notin> heap_bytes E s \<longrightarrow> ram s' x = ram s x)"
  using first_fit_step [OF assms(1-3)] assms(5) by (auto simp: heap_kept_def stops_at_first_fit [OF assms(4)])

text \<open>
  C8. The allocator hands out memory that nobody holds, where some block is free and large enough and the first such block
  has exactly the size asked for or leaves room for a header: the region returned is disjoint from every region in
  use, those stay in use, and the region is the only one added. Not covered are a first fit that is 1 to
  11 bytes larger than asked for, where the split overwrites the next header, and a request that no free block satisfies.
\<close>

theorem malloc_hands_out_unused_memory:
  assumes "heap_inv E bs s" and "0 < sz" and "sz < 2 ^ 32"
    and "first_fit sz bs = Some i" and "fst (bs ! i) = sz \<or> sz + 12 \<le> fst (bs ! i)"
  shows "\<exists>p s' bs'. malloc_next_block (of_nat sz) s = Some (of_nat p, s') \<and> heap_inv E bs' s' \<and>
    held_at 0 bs' = insert {p ..< p + sz} (held_at 0 bs) \<and> (\<forall>r \<in> held_at 0 bs. r \<inter> {p ..< p + sz} = {})"
proof -
  have at: "stops_at sz bs = i" by (rule stops_at_first_fit [OF assms(4)])
  have ne: "bs \<noteq> []" and free: "snd (bs ! i)" using assms(1,4) by (simp_all add: heap_inv_def first_fit_Some)
  obtain s' where "malloc_next_block (of_nat sz) s = Some (of_nat (block_at bs i + 12), s')" "heap_inv E (alloc_at i sz bs) s'"
    using first_fit_step [OF assms(1-3), unfolded at, OF assms(5)] by blast
  with alloc_blocks_held [OF ne, of sz, unfolded at, OF free assms(5)] show ?thesis by blast
qed

text \<open>
  C36. The search never tests the free flag of the last block. Once the last block is in use, a
  request that no earlier block satisfies and that fits into it is answered with the payload of
  that block, which its holder still uses.
\<close>

theorem malloc_last_block_twice:
  assumes "heap_inv E bs s" and "0 < sz" and "sz < 2 ^ 32" and "\<not> snd (last bs)"
    and "stops_at sz bs = length bs - 1" and "fst (last bs) = sz \<or> sz + 12 \<le> fst (last bs)"
  shows "\<exists>p s'. malloc_next_block (of_nat sz) s = Some (of_nat p, s') \<and>
    {p ..< p + fst (last bs)} \<in> held_at 0 bs"
proof -
  have ne: "bs \<noteq> []" using assms(1) by (simp add: heap_inv_def)
  then have l: "bs ! stops_at sz bs = last bs" using assms(5) by (simp add: last_conv_nth)
  obtain s' where "malloc_next_block (of_nat sz) s = Some (of_nat (block_at bs (stops_at sz bs) + 12), s')"
    using first_fit_step [OF assms(1-3)] assms(6) l by auto
  moreover have "{block_at bs (stops_at sz bs) + 12 ..< block_at bs (stops_at sz bs) + 12 + fst (last bs)} \<in> held_at 0 bs"
    using arg_cong [OF append_butlast_last_id [OF ne], of "held_at 0"] assms(4,5)
    by (auto simp: held_at_append block_at_def butlast_conv_take)
  ultimately show ?thesis by blast
qed

section \<open>Releasing\<close>

lemma merge_nothing: "malloc_list_head s = 0 \<Longrightarrow> merge_free_blocks s = Some s"
  by (simp add: merge_free_blocks_def merge_loop.simps)

lemma free_loop_block:
  assumes inv: "heap_inv E bs s" and i: "i < length bs" and "j \<le> i"
  shows "free_loop (of_nat (block_at bs i + 12)) (of_nat (block_at bs j)) s =
    (if Suc i = length bs then Some s else Option.bind (set_free (of_nat (block_at bs i)) True s) merge_free_blocks)"
  using assms(3)
proof (induction "i - j" arbitrary: j)
  case 0
  then have "j = i" by simp
  obtain M where M: "heap_view E s M" "chain M 0 bs 0" "extent bs \<le> unat E" "extent bs < 2 ^ 32"
    using heap_invE [OF inv] by blast
  note B = heap_block [OF M(2) i]
  have "block_next (of_nat (block_at bs i)) s = Some (if drop (Suc i) bs = [] then 0 else of_nat (block_at bs i + 12 + fst (bs ! i)))"
    by (rule read_header(3) [OF M(1) _ B(2)]) (use B(3) M(3) in linarith)
  moreover have "(of_nat (block_at bs i + 12 + fst (bs ! i)) :: u32) \<noteq> 0"
    using B(3) M(4) unat_of_nat_small [of "block_at bs i + 12 + fst (bs ! i)", where 'a = 32] by (auto simp del: of_nat_add)
  moreover have "drop (Suc i) bs = [] \<longleftrightarrow> Suc i = length bs" using i by auto
  ultimately show ?case
    unfolding \<open>j = i\<close> by (subst free_loop.simps) (simp add: of_nat_offsets(3) [symmetric])
next
  case (Suc d)
  then have j: "j < i" "j < length bs" using i by linarith+
  obtain M where M: "heap_view E s M" "chain M 0 bs 0" "extent bs \<le> unat E" "extent bs < 2 ^ 32"
    using heap_invE [OF inv] by blast
  note B = heap_block [OF M(2) j(2)] and Bi = heap_block [OF M(2) i]
  have st: "block_at bs (Suc j) = block_at bs j + 12 + fst (bs ! j)"
    using j(2) by (simp add: block_at_def take_Suc_conv_app_nth)
  have dr: "drop (Suc j) bs \<noteq> []" using j i by auto
  have "block_next (of_nat (block_at bs j)) s = Some (of_nat (block_at bs (Suc j)))"
    using read_header(3) [OF M(1) _ B(2)] B(3) M(3) dr st by (simp del: of_nat_add)
  moreover have "(of_nat (block_at bs (Suc j)) :: u32) \<noteq> 0"
    using B(3) M(4) st unat_of_nat_small [of "block_at bs (Suc j)", where 'a = 32] by (auto simp del: of_nat_add)
  moreover have "(of_nat (block_at bs j) :: u32) + 12 \<noteq> of_nat (block_at bs i + 12)"
  proof -
    have "block_at bs j < block_at bs i" using j i block_at_mono [of j i bs] by simp
    then show ?thesis
      using Bi(3) M(4) unat_of_nat_small [of "block_at bs j", where 'a = 32] unat_of_nat_small [of "block_at bs i", where 'a = 32]
      by auto
  qed
  ultimately show ?case
    using Suc.hyps(1) [of "Suc j"] Suc.hyps(2) j by (subst free_loop.simps) (simp del: of_nat_add)
qed

lemma malloc_free_block:
  assumes "heap_inv E bs s" and "i < length bs"
  shows "\<exists>s'. malloc_free (of_nat (block_at bs i + 12)) s = Some s' \<and> heap_inv E (free_blocks i bs) s' \<and> heap_kept E s s'"
proof -
  have head: "malloc_list_head s = 0" using assms(1) by (simp add: heap_inv_def)
  have eq: "malloc_free (of_nat (block_at bs i + 12)) s =
    (if Suc i = length bs then Some s else Option.bind (set_free (of_nat (block_at bs i)) True s) merge_free_blocks)"
    using free_loop_block [OF assms, of 0] head by (simp add: malloc_free_def block_at_def)
  obtain s' where s': "set_free (of_nat (block_at bs i)) True s = Some s'"
    "heap_inv E (bs[i := (fst (bs ! i), True)]) s'" "heap_kept E s s'" by (rule set_free_inv [OF assms])
  have "merge_free_blocks s' = Some s'" using s'(2) by (simp add: merge_nothing heap_inv_def)
  with eq s' assms heap_mem.kept_refl show ?thesis by (auto simp: free_blocks_def)
qed

text \<open>
  Releasing a block marks it free, whichever block it is but the last, which is never
  released; blocks are never merged, since the list head is at address 0.
\<close>

theorem malloc_free_marks_block:
  assumes "heap_inv E bs s" and "i < length bs"
  shows "\<exists>s'. malloc_free (of_nat (block_at bs i + 12)) s = Some s' \<and> heap_inv E (free_blocks i bs) s' \<and>
    (\<forall>x. x \<notin> heap_bytes E s \<longrightarrow> ram s' x = ram s x)"
  using malloc_free_block [OF assms] by (auto simp: heap_kept_def)

section \<open>A concrete heap\<close>

definition demo_heap :: heap_state where
  "demo_heap = (fat_state.extend demo_fat (heap_state.fields 0 0 0 1 True))\<lparr>ram := put_header (\<lambda>_. 0) 0 (1000, True) 0\<rparr>"

lemma heap_inv_flat:
  \<comment> \<open>before paging is on, addresses are physical\<close>
  assumes "\<not> bit (cr0 s) 31" "malloc_list_head s = 0" "bs \<noteq> []" "0 < fst (hd bs)" "extent bs \<le> unat E" "chain (ram s) 0 bs 0"
  shows "heap_inv E bs s"
proof -
  have "translate s va = Some va" "translate (s\<lparr>ram := m\<rparr>) va = Some va" for va m
    using assms(1) by (simp_all add: translate_def)
  then have "heap_view E s (ram s)" by (simp add: heap_view_def heap_mapped_def vload8_def)
  with assms(2-) show ?thesis by (auto simp: heap_inv_def)
qed

lemma demo_heap_inv: "heap_inv 4096 [(1000, True)] demo_heap"
proof (rule heap_inv_flat)
  show "chain (ram demo_heap) 0 [(1000, True)] 0"
    using header_put_header [of 0 "\<lambda>_. 0" "(1000, True)" 0] by (simp add: demo_heap_def)
qed (simp_all add: demo_heap_def demo_fat_def demo_fd_def fd_state.defs fat_state.defs heap_state.defs)

theorem malloc_implements_first_fit_witness:
  "\<exists>s'. malloc_next_block 100 demo_heap = Some (12, s') \<and> heap_inv 4096 [(100, False), (888, True)] s'"
  using malloc_implements_first_fit [OF demo_heap_inv, of 100 0] by (auto simp: alloc_at_def block_at_def)

theorem malloc_hands_out_unused_memory_witness:
  "\<exists>p s'. malloc_next_block 100 demo_heap = Some (of_nat p, s')"
  using malloc_hands_out_unused_memory [OF demo_heap_inv, of 100 0] by auto

theorem malloc_last_block_twice_witness:
  "\<exists>s1 p s2. malloc_next_block 1000 demo_heap = Some (12, s1) \<and> malloc_next_block 500 s1 = Some (of_nat p, s2) \<and>
     {p ..< p + 1000} = {12 ..< 1012}"
proof -
  obtain s1 where s1: "malloc_next_block 1000 demo_heap = Some (12, s1)" "heap_inv 4096 [(1000, False)] s1"
    using first_fit_step [OF demo_heap_inv, of 1000] by (auto simp: alloc_at_def block_at_def)
  from malloc_last_block_twice [OF s1(2), of 500] s1(1) show ?thesis by auto
qed

theorem malloc_free_marks_block_witness:
  "\<exists>s1 s2. malloc_next_block 100 demo_heap = Some (12, s1) \<and> malloc_free 12 s1 = Some s2 \<and>
     heap_inv 4096 [(100, True), (888, True)] s2"
proof -
  obtain s1 where s1: "malloc_next_block 100 demo_heap = Some (12, s1)" "heap_inv 4096 [(100, False), (888, True)] s1"
    using first_fit_step [OF demo_heap_inv, of 100] by (auto simp: alloc_at_def block_at_def)
  from malloc_free_marks_block [OF s1(2), of 0] s1(1) show ?thesis by (auto simp: free_blocks_def block_at_def)
qed

end
