(* ===== verification/Syscall_props.thy ===== *)
theory Syscall_props
  imports Syscalls Heap_props Timer_props Display_numbers Descriptors
begin

text \<open>
  Lemmas and properties of the interrupt handlers and system calls: what printing leaves alone, the
  end of the page fault handler, waits inside interrupt gates, the calls that the dispatcher refuses,
  and \<open>malloc\<close> and \<open>free\<close> through interrupt 0x80 on the block lists of the heap.
\<close>

unbundle bit_operations_syntax

section \<open>What printing changes\<close>

definition screen_change :: "'a display \<Rightarrow> 'a display \<Rightarrow> bool" where
  "screen_change s t \<longleftrightarrow> dev_b t = dev_b s \<and> dev_w t = dev_w s \<and> cr0 t = cr0 s \<and> cr2 t = cr2 s \<and> cr3 t = cr3 s \<and>
     int_flag t = int_flag s \<and> halted t = halted s \<and> invlpg_log t = invlpg_log s \<and>
     display_state.more t = display_state.more s"

lemma screen_change_trans: "screen_change s t \<Longrightarrow> screen_change t u \<Longrightarrow> screen_change s u"
  by (simp add: screen_change_def)

lemma screen_change_write: "screen_change s (framebuffer_write i v s)"
  by (simp add: screen_change_def framebuffer_write_def)

lemma screen_change_cursor: "screen_change s (display_cursor s)"
  by (simp add: screen_change_def display_cursor_def Let_def outb_def)

lemma screen_change_loop: "screen_change s (for_u32 i n (\<lambda>i s. framebuffer_write i (v i s) s) s)"
  by (rule for_u32_invariant) (auto simp: screen_change_def framebuffer_write_def)

lemma screen_change_fields:
  "screen_change s t \<Longrightarrow> screen_change s (t\<lparr>cursor_x := x\<rparr>)" "screen_change s t \<Longrightarrow> screen_change s (t\<lparr>cursor_y := y\<rparr>)"
  "screen_change s s"
  by (simp_all add: screen_change_def)

lemma screen_change_scroll: "screen_change s (scroll_screen s)"
proof (cases "cursor_y s < MAX_COL")
  case False
  define t where "t = for_u32 0 (80 * 24) (\<lambda>i s. framebuffer_write i (framebuffer_read (i + 80) s) s) s"
  define u where "u = for_u32 (24 * 80) (80 * 25) (\<lambda>i. framebuffer_write i (attributed CT_WHT)) t"
  have "screen_change s u"
    unfolding u_def by (rule screen_change_trans [of s t]) (unfold t_def, rule screen_change_loop, rule screen_change_loop)
  moreover have "scroll_screen s = u\<lparr>cursor_y := MAX_COL - 1\<rparr>"
    unfolding scroll_screen_def Let_def t_def u_def if_not_P [OF False] ..
  ultimately show ?thesis using screen_change_fields(2) by metis
qed (simp add: scroll_idle screen_change_fields)

lemma screen_change_clear: "screen_change s (clear_screen s)"
  unfolding clear_screen_def Let_def
  by (intro screen_change_trans [OF _ screen_change_cursor] screen_change_fields screen_change_loop)

lemma screen_change_char: "screen_change s (print_char c s)"
proof -
  have "screen_change s (wrap_line (type_char c s))"
    by (simp add: screen_change_def wrap_line_def type_char_def back_space_def framebuffer_write_def Let_def)
  then show ?thesis
    using screen_change_trans screen_change_scroll screen_change_cursor unfolding print_char_def by blast
qed

lemma screen_change_chars: "screen_change s (fold print_char chs s)"
proof (induction chs arbitrary: s)
  case (Cons c chs)
  then show ?case using screen_change_trans [OF screen_change_char [of s c]] by simp
qed (simp add: screen_change_def)

section \<open>Handlers\<close>

lemma clear_screen_effect:
  shows "disp_wf (clear_screen s)" "\<not> on_screen x \<Longrightarrow> ram (clear_screen s) x = ram s x"
proof -
  let ?t = "for_u32 0 (80 * 25) (\<lambda>i. framebuffer_write i (attributed CT_WHT)) s"
  have c: "clear_screen s = display_cursor (?t\<lparr>cursor_x := 0, cursor_y := 0\<rparr>)"
    by (simp only: clear_screen_def Let_def)
  show "disp_wf (clear_screen s)" unfolding c disp_wf_def by simp
  assume "\<not> on_screen x"
  then have "ram ?t x = ram s x"
  proof (intro for_u32_invariant [where P = "\<lambda>t. ram t x = ram s x"] refl)
    fix k :: u32 and t :: "'a display"
    assume "k < 80 * 25" "ram t x = ram s x" "\<not> on_screen x"
    then show "ram (framebuffer_write k (attributed CT_WHT) t) x = ram s x"
      by (subst cell_write_outside) (simp_all add: word_less_nat_alt)
  qed
  then show "ram (clear_screen s) x = ram s x" unfolding c by simp
qed

lemma clear_screen_log: "\<exists>loc. io_log (clear_screen s) = io_log s @ cursor_events loc"
proof -
  let ?t = "for_u32 0 (80 * 25) (\<lambda>i. framebuffer_write i (attributed CT_WHT)) s"
  have "io_log ?t = io_log s"
    by (rule for_u32_invariant [where P = "\<lambda>t. io_log t = io_log s"]) (simp_all add: framebuffer_write_def store16_def)
  moreover have "io_log (clear_screen s) = io_log ?t @ cursor_events (get_cursor_location (?t\<lparr>cursor_x := 0, cursor_y := 0\<rparr>))"
    by (simp only: clear_screen_def Let_def display_cursor_log) simp
  ultimately show ?thesis by auto
qed

text \<open>A step that writes on the screen only and keeps the cursor there.\<close>

definition shown :: "'a display \<Rightarrow> 'a display \<Rightarrow> bool" where
  "shown s t \<longleftrightarrow> disp_wf t \<and> screen_change s t \<and> (\<forall>x. \<not> on_screen x \<longrightarrow> ram t x = ram s x)"

lemma shown_trans: "shown s t \<Longrightarrow> shown t u \<Longrightarrow> shown s u"
  by (auto simp: shown_def intro: screen_change_trans)

lemma shown_clear: "shown s (clear_screen s)"
  by (simp add: shown_def clear_screen_effect screen_change_clear)

lemma shown_chars: "shown s t \<Longrightarrow> shown s (fold print_char chs t)"
proof (induction chs arbitrary: t)
  case (Cons c chs)
  have "shown t (print_char c t)"
    using Cons.prems by (simp add: shown_def print_char_effect screen_change_char)
  with Cons show ?case using shown_trans by fastforce
qed simp

lemma shown_string:
  assumes "shown s t" "0 \<notin> set str"
  shows "\<exists>u. print_string (str @ [0]) t = Some u \<and> shown s u"
  using print_string_terminated [OF assms(2), of "[]" t] shown_chars [OF assms(1)] by auto

lemma shown_hex:
  assumes "shown s t" "length buf = 80"
  shows "\<exists>u. print_hex buf n t = Some u \<and> shown s u"
  using print_hex_text [OF assms(2), of n t] shown_chars [OF assms(1)] by blast

text \<open>
  C30. Whatever the machine was doing, the page fault handler prints its report and stops the machine
  with interrupts off; it changes nothing but the screen.
\<close>

theorem page_fault_handler_halts:
  assumes "length buf = 80"
  shows "\<exists>s'. page_fault_handler buf error_code s = Some s' \<and> halted s' \<and> \<not> int_flag s' \<and>
    same_outside framebuffer 4000 (ram s) (ram s') \<and> display_state.more s' = display_state.more s"
proof -
  let ?m1 = "map of_char ''PAGE FAULT EXCEPTION (#PF)'' @ [13, 10] @ map of_char ''ERROR CODE: '' :: u8 list"
  let ?m2 = "[13, 10] @ map of_char ''ADDRESS: '' :: u8 list"
  obtain s1 where s1: "print_string (?m1 @ [0]) (clear_screen s) = Some s1" "shown s s1"
    using shown_string [OF shown_clear, of ?m1 s] by auto
  obtain s2 where s2: "print_hex buf error_code s1 = Some s2" "shown s s2"
    using shown_hex [OF s1(2) assms] by blast
  obtain s3 where s3: "print_string (?m2 @ [0]) s2 = Some s3" "shown s s3"
    using shown_string [OF s2(2), of ?m2] by auto
  obtain s4 where s4: "print_hex buf (cr2 s2) s3 = Some s4" "shown s s4"
    using shown_hex [OF s3(2) assms] by blast
  have "page_fault_handler buf error_code s = Some (cli_hlt s4)"
    using s1(1) s3(1) unfolding page_fault_handler_def Let_def cstr_def append_assoc
    by (simp only: s2(1) s4(1) append_assoc bind.bind_lunit)
  then show ?thesis
    using s4(2) by (auto simp: cli_hlt_def shown_def screen_change_def same_outside_def on_screen_def)
qed

theorem page_fault_handler_halts_witness:
  "\<exists>s'. page_fault_handler (replicate 80 0) 2 demo_display = Some s' \<and> halted s' \<and> \<not> int_flag s'"
proof -
  have "length (replicate 80 (0::u8)) = 80" by simp
  from page_fault_handler_halts [OF this, of 2 demo_display] show ?thesis by blast
qed

lemma more_ticks: "display_state.more t = display_state.more s \<Longrightarrow> pit_ticks t = pit_ticks s"
  by (cases s rule: pit_state.cases_scheme; cases t rule: pit_state.cases_scheme) simp

lemma more_timer: "display_state.more t = display_state.more s \<Longrightarrow> dev_timer t = dev_timer s"
  by (cases s rule: fd_state.cases_scheme; cases t rule: fd_state.cases_scheme) simp

lemma handler_text:
  assumes "0 \<notin> set (map of_char msg :: u8 list)"
  obtains t where "print_string (cstr msg) (clear_screen s) = Some t" "shown s t"
  using shown_string [OF shown_clear assms, of s] that by (auto simp: cstr_def)

text \<open>
  C38. The default interrupt handler is entered through an interrupt gate: its wait for 200 ticks never
  ends, as no timer interrupt can arrive (unless the tick counter is about to wrap around). Through
  a trap gate, which leaves interrupts on, the same wait of the exception handler ends once the
  timer has fired 200 times.
\<close>

theorem default_int_handler_hangs:
  fixes s :: "'a fd"
  assumes "unat (pit_ticks s) < 2 ^ 32 - 200"
  shows "default_int_handler (enter_gate INT_GATE_FLAGS s) = None \<and>
    (int_flag s \<and> (\<forall>l. 200 \<le> sum_list (dev_timer s l) \<and> unat (pit_ticks s) + sum_list (dev_timer s l) < 2 ^ 32) \<longrightarrow>
       (\<exists>s'. default_excp_handler (enter_gate TRAP_GATE_FLAGS s) = Some s' \<and> pit_ticks s + 200 \<le> pit_ticks s'))"
proof -
  have "(0x8E :: u16) AND 0xF = 0xE" "(0x8F :: u16) AND 0xF = 0xF" by code_simp+
  then have gate: "enter_gate INT_GATE_FLAGS s = s\<lparr>int_flag := False\<rparr>" "enter_gate TRAP_GATE_FLAGS s = s"
    by (simp_all add: enter_gate_def)
  have goal_ticks: "unat (200 + pit_ticks s) = 200 + unat (pit_ticks s)" using assms by (simp add: unat_word_ariths)
  let ?s = "s\<lparr>int_flag := False\<rparr>"
  obtain t where t: "print_string (cstr ''DEFAULT INTERRUPT HANDLER'') (clear_screen ?s) = Some t" "shown ?s t"
    by (rule handler_text [of "''DEFAULT INTERRUPT HANDLER''" ?s]) auto
  have ticks: "\<not> int_flag t" "pit_ticks t = pit_ticks s"
    using t(2) more_ticks [of t ?s] by (auto simp: shown_def screen_change_def)
  then have "default_int_handler ?s = None"
    using t(1) goal_ticks
    by (simp add: default_int_handler_def sleep_now_def sleep_def get_tick_count_def sleep_until.simps word_less_nat_alt)
  moreover have "\<exists>s'. default_excp_handler s = Some s' \<and> pit_ticks s + 200 \<le> pit_ticks s'"
    if on: "int_flag s" and enough: "\<forall>l. 200 \<le> sum_list (dev_timer s l) \<and> unat (pit_ticks s) + sum_list (dev_timer s l) < 2 ^ 32"
  proof -
    obtain u where u: "print_string (cstr ''DEFAULT EXCEPTION HANDLER - NO ERROR CODE'') (clear_screen s) = Some u" "shown s u"
      by (rule handler_text [of "''DEFAULT EXCEPTION HANDLER - NO ERROR CODE''" s]) auto
    have f: "int_flag u" "pit_ticks u = pit_ticks s" "dev_timer u = dev_timer s"
      using u(2) on more_ticks [of u s] more_timer [of u s] by (auto simp: shown_def screen_change_def)
    then show ?thesis
      using u(1) sleep_until_returns [of u "dev_timer u (io_log u)" "200 + pit_ticks s"] enough goal_ticks
      by (auto simp: default_excp_handler_def sleep_now_def sleep_def get_tick_count_def add.commute)
  qed
  ultimately show ?thesis by (simp only: gate) blast
qed

theorem default_int_handler_hangs_witness: "default_int_handler (enter_gate INT_GATE_FLAGS demo_heap) = None"
proof -
  have "pit_ticks demo_heap = 0" by (simp add: demo_heap_def demo_fat_def demo_fd_def fd_state.defs fat_state.defs)
  then show ?thesis using default_int_handler_hangs [of demo_heap] by simp
qed

section \<open>Interrupt 0x80\<close>

lemma gate_0x80: "enter_gate 0xEE s = s\<lparr>int_flag := False\<rparr>"
proof -
  have "(0xEE :: u16) AND 0xF = 0xE" by code_simp
  then show ?thesis by (simp add: enter_gate_def)
qed

lemma call_refused:
  assumes "\<not> halted s" "3 < r_eax regs"
  shows "int_0x80 dx buf regs s = Some (regs\<lparr>r_eax := - 1\<rparr>, s)"
  using assms by (simp add: int_0x80_def syscall_dispatcher_def gate_0x80)

text \<open>
  C37. The dispatcher's bound excludes the last entry of the table: \<open>exit\<close>, which would stop the
  machine, comes back with \<open>-1\<close> and changes nothing, as does every number without an entry.
\<close>

theorem exit_call_refused:
  assumes "\<not> halted s"
  shows "exit status s = Some (- 1, s) \<and>
    (\<exists>t. syscall_exit (call_regs SYSCALL_EXIT 0) s = Some (EXIT_SUCCESS, t) \<and> halted t) \<and>
    (\<forall>dx buf regs. 3 < r_eax regs \<longrightarrow> int_0x80 dx buf regs s = Some (regs\<lparr>r_eax := - 1\<rparr>, s))"
  using call_refused [OF assms, of "call_regs SYSCALL_EXIT status"] call_refused [OF assms]
  by (simp add: exit_def syscall_exit_def call_regs_def cli_hlt_def)

theorem exit_call_refused_witness: "exit 0 demo_heap = Some (- 1, demo_heap)"
proof -
  have "\<not> halted demo_heap" by (simp add: demo_heap_def demo_fat_def demo_fd_def fd_state.defs fat_state.defs)
  then show ?thesis using exit_call_refused by blast
qed

text \<open>The interrupt flag does not matter to the heap.\<close>

lemma translate_int_flag [simp]: "translate (s\<lparr>int_flag := b\<rparr>) va = translate s va"
  by (simp add: translate_def)

lemma heap_view_int_flag [simp]: "heap_view E (s\<lparr>int_flag := b\<rparr>) = heap_view E s"
proof -
  have "translate (s\<lparr>int_flag := b, ram := m\<rparr>) va = translate (s\<lparr>ram := m\<rparr>) va" for m va
    by (simp add: translate_def)
  then show ?thesis by (simp add: fun_eq_iff heap_view_def heap_mapped_def heap_bytes_def vload8_def)
qed

lemma heap_inv_int_flag [simp]: "heap_inv E bs (s\<lparr>int_flag := b\<rparr>) = heap_inv E bs s"
  by (simp add: heap_inv_def)

lemma heap_kept_int_flag:
  assumes "heap_kept E (s\<lparr>int_flag := b\<rparr>) t"
  shows "heap_kept E s (t\<lparr>int_flag := int_flag s\<rparr>)"
  using assms by (auto simp: heap_kept_def heap_bytes_def)

text \<open>A call is the kernel's function with interrupts off; merging does nothing, since the list starts at address 0.\<close>

lemma malloc_call_block:
  assumes inv: "heap_inv E bs s" and sz: "0 < sz" "sz < 2 ^ 32"
    and fits: "fst (bs ! stops_at sz bs) = sz \<or> sz + 12 \<le> fst (bs ! stops_at sz bs)"
    and s: "malloc_iniited s" "\<not> halted s"
  shows "\<exists>t. malloc (of_nat sz) s = Some (of_nat (block_at bs (stops_at sz bs) + 12), t\<lparr>int_flag := int_flag s\<rparr>) \<and>
    malloc_next_block (of_nat sz) (s\<lparr>int_flag := False\<rparr>) = Some (of_nat (block_at bs (stops_at sz bs) + 12), t) \<and>
    heap_inv E (alloc_blocks sz bs) t \<and> heap_kept E (s\<lparr>int_flag := False\<rparr>) t"
proof -
  let ?s = "s\<lparr>int_flag := False\<rparr>"
  obtain t where t: "malloc_next_block (of_nat sz) ?s = Some (of_nat (block_at bs (stops_at sz bs) + 12), t)"
    "heap_inv E (alloc_blocks sz bs) t" "heap_kept E ?s t"
    using first_fit_step [of E bs ?s sz] inv sz fits by auto
  have "merge_free_blocks t = Some t" using t(2) by (simp add: merge_nothing heap_inv_def)
  moreover have "\<not> halted t" using t(3) s(2) by (auto simp: heap_kept_def)
  ultimately have "malloc (of_nat sz) s = Some (of_nat (block_at bs (stops_at sz bs) + 12), t\<lparr>int_flag := int_flag s\<rparr>)"
    using t(1) s(1)
    by (simp add: malloc_def int_0x80_def syscall_dispatcher_def call_regs_def syscalls_def syscall_malloc_def gate_0x80
        is_malloc_inited_def del: of_nat_add)
  then show ?thesis using t by blast
qed

lemma malloc_call:
  assumes "heap_inv E bs s" "0 < sz" "sz < 2 ^ 32"
    and "fst (bs ! stops_at sz bs) = sz \<or> sz + 12 \<le> fst (bs ! stops_at sz bs)" "malloc_iniited s" "\<not> halted s"
  shows "\<exists>s'. malloc (of_nat sz) s = Some (of_nat (block_at bs (stops_at sz bs) + 12), s') \<and>
    heap_inv E (alloc_blocks sz bs) s' \<and> heap_kept E s s'"
  using malloc_call_block [OF assms] heap_kept_int_flag by fastforce

lemma free_call_block:
  assumes inv: "heap_inv E bs s" and i: "i < length bs" and s: "\<not> halted s"
  shows "\<exists>t. free (of_nat (block_at bs i + 12)) s = Some (t\<lparr>int_flag := int_flag s\<rparr>) \<and>
    malloc_free (of_nat (block_at bs i + 12)) (s\<lparr>int_flag := False\<rparr>) = Some t \<and> heap_inv E (free_blocks i bs) t \<and>
    heap_kept E (s\<lparr>int_flag := False\<rparr>) t"
proof -
  let ?s = "s\<lparr>int_flag := False\<rparr>"
  obtain t where t: "malloc_free (of_nat (block_at bs i + 12)) ?s = Some t" "heap_inv E (free_blocks i bs) t" "heap_kept E ?s t"
    using malloc_free_block [of E bs ?s i] inv i by auto
  moreover have "\<not> halted t" using t(3) s by (auto simp: heap_kept_def)
  ultimately have "free (of_nat (block_at bs i + 12)) s = Some (t\<lparr>int_flag := int_flag s\<rparr>)"
    by (simp add: free_def int_0x80_def syscall_dispatcher_def call_regs_def syscalls_def syscall_free_def gate_0x80
        del: of_nat_add)
  then show ?thesis using t by blast
qed

lemma free_call:
  assumes "heap_inv E bs s" "i < length bs" "\<not> halted s"
  shows "\<exists>s'. free (of_nat (block_at bs i + 12)) s = Some s' \<and> heap_inv E (free_blocks i bs) s' \<and> heap_kept E s s'"
  using free_call_block [OF assms] heap_kept_int_flag by fastforce

text \<open>Releasing the block that an allocation has just taken.\<close>

lemma free_alloc_blocks:
  assumes "bs \<noteq> []" "snd (last bs)" "fst (bs ! stops_at sz bs) = sz \<Longrightarrow> Suc (stops_at sz bs) < length bs"
    and "fst (bs ! stops_at sz bs) = sz \<or> sz + 12 \<le> fst (bs ! stops_at sz bs)"
  shows "held_at 0 (free_blocks (stops_at sz bs) (alloc_blocks sz bs)) = held_at 0 bs"
    "stops_at sz bs < length (alloc_blocks sz bs)" "block_at (alloc_blocks sz bs) (stops_at sz bs) = block_at bs (stops_at sz bs)"
proof -
  let ?i = "stops_at sz bs"
  let ?xs = "take ?i bs" and ?ys = "drop (Suc ?i) bs"
  obtain n where n: "bs ! ?i = (n, True)" using stops_at_free [OF assms(1,2), of sz] by (metis prod.collapse)
  have less: "?i < length bs" by (rule stops_at_less [OF assms(1)])
  have bs: "bs = ?xs @ (n, True) # ?ys" using less n by (metis id_take_nth_drop)
  have alloc: "alloc_blocks sz bs = ?xs @ (if n = sz then [(n, False)] else [(sz, False), (n - sz - 12, True)]) @ ?ys"
    using n less by (simp add: alloc_at_def Let_def upd_conv_take_nth_drop)
  have len: "length ?xs = ?i" using less by simp
  show "?i < length (alloc_blocks sz bs)" unfolding alloc using len by auto
  show "block_at (alloc_blocks sz bs) ?i = block_at bs ?i" unfolding alloc block_at_def using len by simp
  have free: "free_blocks ?i (alloc_blocks sz bs) =
    ?xs @ (if n = sz then [(n, True)] else [(sz, True), (n - sz - 12, True)]) @ ?ys"
    unfolding alloc free_blocks_def using len assms(3) n less by (auto simp: nth_append list_update_append)
  have "n = sz \<or> sz + 12 \<le> n" using assms(4) n by simp
  then have same: "held_at a ((if n = sz then [(n, True)] else [(sz, True), (n - sz - 12, True)]) @ ys) =
    held_at a ((n, True) # ys)" for a ys
    by (auto simp: add.assoc)
  have "held_at 0 (free_blocks ?i (alloc_blocks sz bs)) = held_at 0 (?xs @ (n, True) # ?ys)"
    unfolding free held_at_append [of 0 ?xs] same ..
  then show "held_at 0 (free_blocks ?i (alloc_blocks sz bs)) = held_at 0 bs" using bs by simp
qed

text \<open>
  C22. On an initialised heap whose last block is free, a \<open>malloc\<close> that fits into the chosen block and a
  \<open>free\<close> of its result, both through interrupt 0x80, leave held what was held before, restore the
  interrupt flag, and change no memory but the heap's. (Where the request takes the last block
  exactly, \<open>free\<close> does not find it.)
\<close>

theorem malloc_free_roundtrip:
  assumes "heap_inv E bs s" and "malloc_iniited s" and "\<not> halted s" and "snd (last bs)" and "0 < sz" and "sz < 2 ^ 32"
    and "fst (bs ! stops_at sz bs) = sz \<and> Suc (stops_at sz bs) < length bs \<or> sz + 12 \<le> fst (bs ! stops_at sz bs)"
  shows "\<exists>p s1 s2 bs'. malloc (of_nat sz) s = Some (p, s1) \<and> free p s1 = Some s2 \<and> heap_inv E bs' s2 \<and>
    held_at 0 bs' = held_at 0 bs \<and> int_flag s2 = int_flag s \<and> (\<forall>x. x \<notin> heap_bytes E s \<longrightarrow> ram s2 x = ram s x)"
proof -
  have ne: "bs \<noteq> []" using assms(1) by (simp add: heap_inv_def)
  have fits: "fst (bs ! stops_at sz bs) = sz \<or> sz + 12 \<le> fst (bs ! stops_at sz bs)" using assms(7) by auto
  note f = free_alloc_blocks [OF ne assms(4) _ fits]
  obtain s1 where s1: "malloc (of_nat sz) s = Some (of_nat (block_at bs (stops_at sz bs) + 12), s1)"
    "heap_inv E (alloc_blocks sz bs) s1" "heap_kept E s s1"
    using malloc_call [OF assms(1,5,6) fits assms(2,3)] by blast
  then have "\<not> halted s1" using assms(3) by (auto simp: heap_kept_def)
  then obtain s2 where s2: "free (of_nat (block_at bs (stops_at sz bs) + 12)) s1 = Some s2"
    "heap_inv E (free_blocks (stops_at sz bs) (alloc_blocks sz bs)) s2" "heap_kept E s1 s2"
    using free_call [OF s1(2), of "stops_at sz bs"] f(2,3) assms(7) by auto
  have k: "heap_kept E s s2" using heap_kept_trans [OF s1(3) s2(3)] .
  have "held_at 0 (free_blocks (stops_at sz bs) (alloc_blocks sz bs)) = held_at 0 bs"
    by (rule f(1)) (use assms(7) in auto)
  moreover have "int_flag s2 = int_flag s" "\<forall>x. x \<notin> heap_bytes E s \<longrightarrow> ram s2 x = ram s x"
    using k by (auto simp: heap_kept_def)
  ultimately show ?thesis using s1(1) s2(1,2) by blast
qed

theorem malloc_free_roundtrip_witness:
  "\<exists>p s1 s2 bs'. malloc 100 demo_heap = Some (p, s1) \<and> free p s1 = Some s2 \<and> heap_inv 4096 bs' s2 \<and> held_at 0 bs' = {}"
proof -
  have "\<not> halted demo_heap" "malloc_iniited demo_heap"
    by (simp_all add: demo_heap_def demo_fat_def demo_fd_def fd_state.defs fat_state.defs heap_state.defs)
  then show ?thesis using malloc_free_roundtrip [OF demo_heap_inv, of 100] by fastforce
qed

end
