(* ===== verification/Heap_clients.thy ===== *)
theory Heap_clients
  imports Syscall_props
begin

text \<open>
  The clients of the heap: sequences of requests, releases and writes through the system calls implement an
  abstract store, a finite map from the addresses that are held to their contents.
\<close>

section \<open>What a call leaves alone\<close>

lemma set_free_bytes:
  assumes view: "heap_view E s M" and p: "p + 12 \<le> unat E" and t: "set_free (of_nat p) f s = Some t" and va: "va < E" "\<not> (p + 4 \<le> unat va \<and> unat va < p + 8)"
  shows "vload8 va t = vload8 va s"
proof -
  obtain t' where "set_free (of_nat p) f s = Some t'" "heap_view E t' (store32 M (of_nat (p + 4)) (if f then 1 else 0))"
    by (rule set_free_view [OF view p, of f])
  moreover have "store32 M (of_nat (p + 4)) (if f then 1 else 0) va = M va"
    by (rule store32_outside) (use va(2) in_region_of_nat [of "p + 4" 4 va] p unat_u32_bound [of E] in auto)
  ultimately show ?thesis using t view va(1) by (simp add: heap_view_def)
qed

lemma split_bytes:
  assumes view: "heap_view E s M" and h: "header M a (n, f) nx" and room: "sz + 12 \<le> n" "a + 12 + n \<le> unat E"
    and t: "malloc_split (of_nat a) (of_nat sz) s = Some t" and va: "va < E" "\<not> (a \<le> unat va \<and> unat va < a + 12 + n)"
  shows "vload8 va t = vload8 va s"
proof -
  let ?b = "a + 12 + sz"
  obtain t' where "malloc_split (of_nat a) (of_nat sz) s = Some t'"
    "heap_view E t' (put_header (put_header M ?b (n - sz - 12, True) nx) a (sz, False) (of_nat ?b))" by (rule split_view [OF view h room])
  moreover have "a + 12 < 2 ^ 32" "?b + 12 < 2 ^ 32" using room unat_u32_bound [of E] by linarith+
  then have "put_header (put_header M ?b (n - sz - 12, True) nx) a (sz, False) (of_nat ?b) va = M va"
    using va(2) room by (subst put_header_outside; (subst put_header_outside)?) auto
  ultimately show ?thesis using t view va(1) by (simp add: heap_view_def)
qed

lemma malloc_bytes:
  assumes inv: "heap_inv E bs s" and sz: "0 < sz" "sz < 2 ^ 32" and fits: "fst (bs ! stops_at sz bs) = sz \<or> sz + 12 \<le> fst (bs ! stops_at sz bs)"
    and t: "malloc_next_block (of_nat sz) s = Some (q, t)"
    and va: "va < E" "\<not> (block_at bs (stops_at sz bs) \<le> unat va \<and> unat va < block_at bs (stops_at sz bs) + 12 + fst (bs ! stops_at sz bs))"
  shows "vload8 va t = vload8 va s"
proof -
  let ?i = "stops_at sz bs"
  obtain M where M: "heap_view E s M" "chain M 0 bs 0" "bs \<noteq> []" "extent bs \<le> unat E" using heap_invE [OF inv] by blast
  note B = heap_block [OF M(2) stops_at_less [OF M(3)], of sz]
  have p: "block_at bs ?i + 12 + fst (bs ! ?i) \<le> unat E" using B(3) M(4) by linarith
  show ?thesis
  proof (cases "fst (bs ! ?i) = sz")
    case True
    then have "set_free (of_nat (block_at bs ?i)) False s = Some t"
      using t malloc_next_block_stops [OF inv sz] by (auto split: option.splits simp: bind_eq_Some_conv)
    then show ?thesis using p va by (intro set_free_bytes [OF M(1), of "block_at bs ?i" False]) auto
  next
    case False
    then have "malloc_split (of_nat (block_at bs ?i)) (of_nat sz) s = Some t"
      using t fits malloc_next_block_stops [OF inv sz] by (auto split: option.splits simp: bind_eq_Some_conv)
    moreover have h: "header M (block_at bs ?i) (fst (bs ! ?i), snd (bs ! ?i)) (if drop (Suc ?i) bs = [] then 0 else of_nat (block_at bs ?i + 12 + fst (bs ! ?i)))"
      using B(2) by (simp del: of_nat_add)
    ultimately show ?thesis using fits False by (intro split_bytes [OF M(1) h _ p _ va]) auto
  qed
qed

lemma free_bytes:
  assumes inv: "heap_inv E bs s" and i: "i < length bs" and t: "malloc_free (of_nat (block_at bs i + 12)) s = Some t"
    and va: "va < E" "\<not> (block_at bs i + 4 \<le> unat va \<and> unat va < block_at bs i + 8)"
  shows "vload8 va t = vload8 va s"
proof (cases "Suc i = length bs")
  case True
  then show ?thesis using t free_loop_block [OF inv i, of 0] inv by (simp add: malloc_free_def block_at_def heap_inv_def)
next
  case False
  obtain M where M: "heap_view E s M" "chain M 0 bs 0" "extent bs \<le> unat E" using heap_invE [OF inv] by blast
  have p: "block_at bs i + 12 \<le> unat E" using heap_block(3) [OF M(2) i] M(3) by linarith
  obtain u where u: "set_free (of_nat (block_at bs i)) True s = Some u" "heap_inv E (bs[i := (fst (bs ! i), True)]) u"
    by (rule set_free_inv [OF inv i])
  then have "merge_free_blocks u = Some u" by (simp add: merge_nothing heap_inv_def)
  then have "t = u" using t u(1) False free_loop_block [OF inv i, of 0] inv by (simp add: malloc_free_def block_at_def heap_inv_def)
  then show ?thesis using set_free_bytes [OF M(1) p u(1) va] by simp
qed

section \<open>The addresses that are held\<close>

definition payload :: "block list \<Rightarrow> nat \<Rightarrow> nat set" where
  "payload bs j = {block_at bs j + 12 ..< block_at bs j + 12 + fst (bs ! j)}"

definition held :: "block list \<Rightarrow> nat set" where
  "held bs = (\<Union>j \<in> {j. j < length bs \<and> \<not> snd (bs ! j)}. payload bs j)"

lemma block_apart:
  assumes "i < length bs" "j < length bs" "i \<noteq> j" "block_at bs i \<le> a" "a < block_at bs i + 12 + fst (bs ! i)"
  shows "\<not> (block_at bs j \<le> a \<and> a < block_at bs j + 12 + fst (bs ! j))"
  using assms block_at_mono [of i j bs] block_at_mono [of j i bs] by (cases "i < j") auto

lemma block_at_end: "j < length bs \<Longrightarrow> block_at bs j + 12 + fst (bs ! j) \<le> extent bs"
  using block_at_mono [of j "length bs" bs] by (simp add: block_at_def)

lemma held_union: "held bs = \<Union> (held_at 0 bs)"
proof -
  have "\<Union> (held_at a bs) = (\<lambda>x. a + x) ` held bs" for a
  proof (induction bs arbitrary: a)
    case (Cons b bs)
    have at: "block_at (b # bs) (Suc j) + 12 = 12 + fst b + (block_at bs j + 12)" for j by (simp add: block_at_def)
    have p: "payload (b # bs) 0 = {12 ..< 12 + fst b}" "payload (b # bs) (Suc j) = (+) (12 + fst b) ` payload bs j" for j
      unfolding payload_def at image_add_atLeastLessThan by (simp_all add: block_at_def ac_simps)
    have "{j. j < length (b # bs) \<and> \<not> snd ((b # bs) ! j)} = (if snd b then {} else {0}) \<union> Suc ` {j. j < length bs \<and> \<not> snd (bs ! j)}"
      by (auto simp: less_Suc_eq_0_disj)
    then have "held (b # bs) = (if snd b then {} else {12 ..< 12 + fst b}) \<union> (\<lambda>x. 12 + fst b + x) ` held bs"
      unfolding held_def by (simp add: p image_UN)
    then show ?case using Cons [of "a + 12 + fst b"] by (auto simp: image_Un image_image add.assoc)
  qed (simp add: held_def)
  from this [of 0] show ?thesis by simp
qed

section \<open>Writing to held memory\<close>

lemma chain_write:
  assumes "x \<in> \<Union> (held_at a bs)" "a + extent bs < 2 ^ 32"
  shows "chain (M(of_nat x := v)) a bs e = chain M a bs e"
  using assms
proof (induction bs arbitrary: a)
  case (Cons b bs)
  let ?M = "M(of_nat x := v)"
  have x: "a + 12 \<le> x" "x < a + extent (b # bs)" using Cons.prems(1) held_at_bounds [of _ a "b # bs"] by fastforce+
  then have u: "unat (of_nat x :: u32) = x" using Cons.prems(2) by (simp add: unat_of_nat_small)
  then have out: "?M y = M y" if "unat y \<noteq> x" for y using that by auto
  have "header ?M a b nx = header M a b nx" for nx by (rule header_cong) (use x(1) Cons.prems(2) out in auto)
  moreover have "chain ?M (a + 12 + fst b) bs e = chain M (a + 12 + fst b) bs e"
  proof (cases "x < a + 12 + fst b")
    case True
    then show ?thesis by (intro chain_cong out) (use Cons.prems(2) in auto)
  next
    case False
    then have "x \<in> \<Union> (held_at (a + 12 + fst b) bs)" using Cons.prems(1) by (auto split: if_splits)
    then show ?thesis by (rule Cons.IH) (use Cons.prems(2) in simp)
  qed
  ultimately show ?case by (simp only: chain.simps)
qed simp

lemma store_inv_write:
  assumes inv: "heap_inv E bs s" and a: "a \<in> held bs" and t: "vstore8 (of_nat a) b s = Some t"
  shows "heap_inv E bs t" "heap_kept E s t" "va < E \<Longrightarrow> vload8 va t = (if unat va = a then Some b else vload8 va s)"
proof -
  obtain M where M: "heap_view E s M" "chain M 0 bs 0" "malloc_list_head s = 0" "bs \<noteq> []" "0 < fst (hd bs)" "extent bs \<le> unat E"
    "extent bs < 2 ^ 32" using heap_invE [OF inv] .
  have x: "a < extent bs" using a held_at_bounds [of _ 0 bs] by (fastforce simp: held_union)
  then have u: "unat (of_nat a :: u32) = a" "of_nat a < E" using M(6,7) by (simp_all add: unat_of_nat_small word_less_nat_alt)
  obtain t' where t': "vstore8 (of_nat a) b s = Some t'" "heap_view E t' (M(of_nat a := b))" "heap_kept E s t'"
    using vstore8_view [OF M(1) u(2), of b] by blast
  have tt: "t = t'" using t t'(1) by simp
  have "chain (M(of_nat a := b)) 0 bs 0" using M(2,7) a by (subst chain_write) (simp_all add: held_union)
  then show "heap_inv E bs t" using t'(2) M(3-6) heap_kept_head [OF t'(3)] by (auto simp: heap_inv_def tt)
  show "heap_kept E s t" using t'(3) tt by simp
  show "vload8 va t = (if unat va = a then Some b else vload8 va s)" if "va < E"
    using that t'(2) M(1) u(1) by (auto simp: heap_view_def tt)
qed

section \<open>Sequences of calls\<close>

text \<open>
  The contents of the held addresses are an abstract store. A request that finds a block of exactly its size, not the last one,
  or one with room for a header, adds the region that it returns, whatever it contains; a release removes the region of a
  block in use; a write changes one byte that is held.
\<close>

type_synonym store = "nat \<Rightarrow> u8 option"

definition fits :: "nat \<Rightarrow> block list \<Rightarrow> bool" where
  "fits sz bs \<longleftrightarrow> 0 < sz \<and> sz < 2 ^ 32 \<and>
     (fst (bs ! stops_at sz bs) = sz \<and> Suc (stops_at sz bs) < length bs \<or> sz + 12 \<le> fst (bs ! stops_at sz bs))"

inductive client_step :: "'a heap \<times> block list \<times> store \<Rightarrow> 'a heap \<times> block list \<times> store \<Rightarrow> bool" where
  request: "fits sz bs \<Longrightarrow> malloc (of_nat sz) s = Some (p, s') \<Longrightarrow>
    client_step (s, bs, H) (s', alloc_blocks sz bs, \<lambda>a. if unat p \<le> a \<and> a < unat p + sz then vload8 (of_nat a) s' else H a)"
| release: "i < length bs \<Longrightarrow> \<not> snd (bs ! i) \<Longrightarrow> free (of_nat (block_at bs i + 12)) s = Some s' \<Longrightarrow>
    client_step (s, bs, H) (s', free_blocks i bs, \<lambda>a. if a \<in> payload bs i then None else H a)"
| put: "H a \<noteq> None \<Longrightarrow> vstore8 (of_nat a) b s = Some s' \<Longrightarrow> client_step (s, bs, H) (s', bs, H(a \<mapsto> b))"

definition store_inv :: "u32 \<Rightarrow> 'a heap \<times> block list \<times> store \<Rightarrow> bool" where
  "store_inv E = (\<lambda>(s, bs, H). heap_inv E bs s \<and> malloc_iniited s \<and> \<not> halted s \<and> snd (last bs) \<and> dom H = held bs \<and>
     (\<forall>a b. H a = Some b \<longrightarrow> vload8 (of_nat a) s = Some b))"

lemma heap_kept_flags: "heap_kept E s t \<Longrightarrow> malloc_iniited t = malloc_iniited s \<and> halted t = halted s"
  by (auto simp: heap_kept_def)

lemma held_address:
  assumes inv: "heap_inv E bs s" and a: "a \<in> held bs"
  obtains j where "j < length bs" "\<not> snd (bs ! j)" "a \<in> payload bs j" "unat (of_nat a :: u32) = a" "of_nat a < E"
proof -
  obtain j where j: "j < length bs" "\<not> snd (bs ! j)" "a \<in> payload bs j" using a by (auto simp: held_def)
  have "extent bs \<le> unat E" using inv by (simp add: heap_inv_def)
  then have "a < unat E" using j(3) block_at_end [OF j(1)] by (auto simp: payload_def)
  then have "unat (of_nat a :: u32) = a" "of_nat a < E" using unat_u32_bound [of E] by (simp_all add: unat_of_nat_small word_less_nat_alt)
  then show ?thesis using that j by blast
qed

lemma held_alloc:
  assumes bs: "bs \<noteq> []" "snd (last bs)" and f: "fits sz bs"
  shows "held (alloc_blocks sz bs) = {block_at bs (stops_at sz bs) + 12 ..< block_at bs (stops_at sz bs) + 12 + sz} \<union> held bs"
    "snd (last (alloc_blocks sz bs))"
proof -
  have "fst (bs ! stops_at sz bs) = sz \<or> sz + 12 \<le> fst (bs ! stops_at sz bs)" using f by (auto simp: fits_def)
  then show "held (alloc_blocks sz bs) = {block_at bs (stops_at sz bs) + 12 ..< block_at bs (stops_at sz bs) + 12 + sz} \<union> held bs"
    using alloc_blocks_held(1) [OF bs(1) stops_at_free [OF bs]] by (simp add: held_union)
  show "snd (last (alloc_blocks sz bs))"
    using bs f stops_at_less [OF bs(1), of sz] by (auto simp: alloc_at_def Let_def fits_def last_list_update last_append last_drop not_le)
qed

lemma held_free:
  assumes i: "i < length bs" "\<not> snd (bs ! i)" and last: "bs \<noteq> []" "snd (last bs)"
  shows "held (free_blocks i bs) = held bs - payload bs i" "snd (last (free_blocks i bs))"
proof -
  have si: "Suc i < length bs" using assms by (metis Suc_lessI diff_Suc_1 last_conv_nth)
  have len: "length (free_blocks i bs) = length bs" by (simp add: free_blocks_def)
  have eq: "fst (free_blocks i bs ! j) = fst (bs ! j)" "snd (free_blocks i bs ! j) \<longleftrightarrow> j = i \<or> snd (bs ! j)" if "j < length bs" for j
    using that si by (auto simp: free_blocks_def nth_list_update)
  have "map fst (free_blocks i bs) = map fst bs" using eq len by (intro nth_equalityI) auto
  then have "map fst (take j (free_blocks i bs)) = map fst (take j bs)" for j by (metis take_map)
  moreover have "extent cs = sum_list (map ((+) 12) (map fst cs))" for cs :: "block list" by (simp add: extent_def comp_def)
  ultimately have at: "block_at (free_blocks i bs) j = block_at bs j" for j by (simp only: block_at_def)
  have pay: "payload (free_blocks i bs) j = payload bs j" if "j < length bs" for j using eq(1) [OF that] by (simp add: payload_def at)
  have apart: "payload bs j \<inter> payload bs i = {}" if "j < length bs" "j \<noteq> i" for j
    using block_apart [OF i(1) that(1)] that(2) by (fastforce simp: payload_def)
  have "{j. j < length bs \<and> \<not> snd (free_blocks i bs ! j)} = {j. j < length bs \<and> \<not> snd (bs ! j)} - {i}" using eq(2) by auto
  then show "held (free_blocks i bs) = held bs - payload bs i"
    unfolding held_def len using apart pay i by (auto; blast)
  show "snd (last (free_blocks i bs))" using si last by (auto simp: free_blocks_def last_list_update)
qed

lemma client_request:
  assumes inv: "store_inv E (s, bs, H)" and f: "fits sz bs" and m: "malloc (of_nat sz) s = Some (p, s')"
  shows "store_inv E (s', alloc_blocks sz bs, \<lambda>a. if unat p \<le> a \<and> a < unat p + sz then vload8 (of_nat a) s' else H a)"
proof -
  let ?i = "stops_at sz bs" and ?s = "s\<lparr>int_flag := False\<rparr>"
  have s: "heap_inv E bs s" "malloc_iniited s" "\<not> halted s" "snd (last bs)" "dom H = held bs" and
    H: "\<And>a b. H a = Some b \<Longrightarrow> vload8 (of_nat a) s = Some b" using inv by (simp_all add: store_inv_def)
  have ne: "bs \<noteq> []" using s(1) by (simp add: heap_inv_def)
  have sz: "0 < sz" "sz < 2 ^ 32" "fst (bs ! ?i) = sz \<or> sz + 12 \<le> fst (bs ! ?i)" using f by (auto simp: fits_def)
  obtain t where t: "malloc (of_nat sz) s = Some (of_nat (block_at bs ?i + 12), t\<lparr>int_flag := int_flag s\<rparr>)"
    "malloc_next_block (of_nat sz) ?s = Some (of_nat (block_at bs ?i + 12), t)" "heap_inv E (alloc_blocks sz bs) t" "heap_kept E ?s t"
    using malloc_call_block [OF s(1) sz s(2,3)] by blast
  have s': "s' = t\<lparr>int_flag := int_flag s\<rparr>" "p = of_nat (block_at bs ?i + 12)" using m t(1) by simp_all
  note A = held_alloc [OF ne s(4) f]
  have inv': "heap_inv E (alloc_blocks sz bs) s'" using t(3) by (simp add: s')
  have "extent bs < 2 ^ 32" using heap_invE [OF s(1)] by blast
  then have up: "unat p = block_at bs ?i + 12"
    using block_at_end [OF stops_at_less [OF ne], of sz] unfolding s' by (intro unat_of_nat_plus(2)) simp
  have new: "vload8 (of_nat a) s' \<noteq> None" if "a \<in> held (alloc_blocks sz bs)" for a
    by (rule held_address [OF inv' that]) (use inv' in \<open>auto simp: heap_inv_def heap_view_def\<close>)
  have old: "vload8 (of_nat a) s' = vload8 (of_nat a) s" if a: "a \<in> held bs" for a
  proof -
    obtain j where j: "j < length bs" "\<not> snd (bs ! j)" "a \<in> payload bs j" "unat (of_nat a :: u32) = a" "of_nat a < E"
      by (rule held_address [OF s(1) a])
    have "j \<noteq> ?i" using stops_at_free [OF ne s(4)] j(2) by auto
    then have "\<not> (block_at bs ?i \<le> a \<and> a < block_at bs ?i + 12 + fst (bs ! ?i))"
      using block_apart [OF j(1) stops_at_less [OF ne], of sz a] j(3) by (auto simp: payload_def)
    then have "vload8 (of_nat a) t = vload8 (of_nat a) ?s"
      using malloc_bytes [OF _ sz t(2) j(5)] s(1) j(4) by simp
    then show ?thesis by (simp add: s' vload8_def)
  qed
  let ?H = "\<lambda>a. if unat p \<le> a \<and> a < unat p + sz then vload8 (of_nat a) s' else H a"
  have d: "a \<in> dom ?H \<longleftrightarrow> a \<in> held (alloc_blocks sz bs)" for a
    using new [of a] unfolding A(1) s(5) [symmetric] by (cases "unat p \<le> a \<and> a < unat p + sz") (auto simp: up)
  have "vload8 (of_nat a) s' = Some b" if "?H a = Some b" for a b
  proof (cases "unat p \<le> a \<and> a < unat p + sz")
    case False
    then have "H a = Some b" using that by auto
    then show ?thesis using H [of a b] old [of a] s(5) by auto
  qed (use that in simp)
  moreover have "malloc_iniited s'" "\<not> halted s'" using heap_kept_flags [OF t(4)] s(2,3) by (simp_all add: s')
  ultimately show ?thesis using inv' A(2) d by (simp add: store_inv_def set_eq_iff)
qed

lemma client_release:
  assumes inv: "store_inv E (s, bs, H)" and i: "i < length bs" "\<not> snd (bs ! i)" and m: "free (of_nat (block_at bs i + 12)) s = Some s'"
  shows "store_inv E (s', free_blocks i bs, \<lambda>a. if a \<in> payload bs i then None else H a)"
proof -
  let ?s = "s\<lparr>int_flag := False\<rparr>"
  have s: "heap_inv E bs s" "malloc_iniited s" "\<not> halted s" "snd (last bs)" "dom H = held bs" and
    H: "\<And>a b. H a = Some b \<Longrightarrow> vload8 (of_nat a) s = Some b" using inv by (simp_all add: store_inv_def)
  have ne: "bs \<noteq> []" using s(1) by (simp add: heap_inv_def)
  obtain t where t: "free (of_nat (block_at bs i + 12)) s = Some (t\<lparr>int_flag := int_flag s\<rparr>)"
    "malloc_free (of_nat (block_at bs i + 12)) ?s = Some t" "heap_inv E (free_blocks i bs) t" "heap_kept E ?s t"
    using free_call_block [OF s(1) i(1) s(3)] by blast
  have s': "s' = t\<lparr>int_flag := int_flag s\<rparr>" using m t(1) by simp
  note A = held_free [OF i ne s(4)]
  have old: "vload8 (of_nat a) s' = vload8 (of_nat a) s" if a: "a \<in> held bs" for a
  proof -
    obtain j where j: "j < length bs" "\<not> snd (bs ! j)" "a \<in> payload bs j" "unat (of_nat a :: u32) = a" "of_nat a < E"
      by (rule held_address [OF s(1) a])
    have "\<not> (block_at bs i + 4 \<le> a \<and> a < block_at bs i + 8)"
      using block_apart [OF j(1) i(1), of a] j(3) by (cases "j = i") (auto simp: payload_def)
    then have "vload8 (of_nat a) t = vload8 (of_nat a) ?s" using free_bytes [OF _ i(1) t(2) j(5)] s(1) j(4) by simp
    then show ?thesis by (simp add: s' vload8_def)
  qed
  have "vload8 (of_nat a) s' = Some b" if "H a = Some b" for a b using H [OF that] old [of a] that s(5) by auto
  moreover have "dom (\<lambda>a. if a \<in> payload bs i then None else H a) = held (free_blocks i bs)" using s(5) A(1) by (auto simp: dom_def)
  moreover have "malloc_iniited s'" "\<not> halted s'" "heap_inv E (free_blocks i bs) s'" using heap_kept_flags [OF t(4)] s(2,3) t(3) by (simp_all add: s')
  ultimately show ?thesis using A(2) by (simp add: store_inv_def)
qed

lemma client_put:
  assumes inv: "store_inv E (s, bs, H)" and a: "H a \<noteq> None" and m: "vstore8 (of_nat a) b s = Some s'"
  shows "store_inv E (s', bs, H(a \<mapsto> b))"
proof -
  have s: "heap_inv E bs s" "malloc_iniited s" "\<not> halted s" "snd (last bs)" "dom H = held bs" and
    H: "\<And>a b. H a = Some b \<Longrightarrow> vload8 (of_nat a) s = Some b" using inv by (simp_all add: store_inv_def)
  have ha: "a \<in> held bs" using a s(5) by auto
  note W = store_inv_write [OF s(1) ha m]
  have "vload8 (of_nat x) s' = Some y" if "(H(a \<mapsto> b)) x = Some y" for x y
  proof -
    have "x \<in> held bs" using that ha s(5) by (auto split: if_splits)
    then show ?thesis by (rule held_address [OF s(1)]) (use W(3) H that in \<open>auto split: if_splits\<close>)
  qed
  moreover have "dom (H(a \<mapsto> b)) = held bs" using ha s(5) by auto
  ultimately show ?thesis using W(1) heap_kept_flags [OF W(2)] s(2-4) by (simp add: store_inv_def)
qed

lemma client_step_inv: "client_step x y \<Longrightarrow> store_inv E x \<Longrightarrow> store_inv E y"
  by (induction rule: client_step.induct) (auto intro: client_request client_release client_put simp del: fun_upd_apply)

interpretation clients: invariant_steps client_step "store_inv E"
  by unfold_locales (rule client_step_inv)

text \<open>
  C4. The heap is a store: starting from a well-formed heap in which nothing is held and the last block is free, after
  any sequence of requests that fit, releases of held blocks and writes to held addresses, made through the system calls and
  the page tables, the heap is well-formed, the held addresses are the payloads of its blocks in use, which do not overlap, and
  every held address contains what was last written to it, whatever the allocator did to its headers in between;
  and every further request that fits and every release comes back. A request fits (\<open>fits\<close>) when the block where the
  search stops has exactly its size and is not the last one, or is at least 12 bytes larger. All other requests are no steps:
  those that take the last block exactly, those that leave 1 to 11 bytes, and those for which the heap grows.
\<close>

theorem heap_is_store:
  assumes "client_step\<^sup>*\<^sup>* (s, bs, Map.empty) (t, bs', H)" and "heap_inv E bs s" and "malloc_iniited s" and "\<not> halted s"
    and "snd (last bs)" and "held bs = {}"
  shows "heap_inv E bs' t \<and> dom H = held bs' \<and> (\<forall>a b. H a = Some b \<longrightarrow> vload8 (of_nat a) t = Some b) \<and>
    (\<forall>i < length bs'. \<forall>j < length bs'. i \<noteq> j \<longrightarrow> payload bs' i \<inter> payload bs' j = {}) \<and>
    (\<forall>sz. fits sz bs' \<longrightarrow> (\<exists>t'. malloc (of_nat sz) t = Some (of_nat (block_at bs' (stops_at sz bs') + 12), t'))) \<and>
    (\<forall>i < length bs'. \<exists>t'. free (of_nat (block_at bs' i + 12)) t = Some t')"
proof -
  have "store_inv E (s, bs, Map.empty)" using assms(2-6) by (simp add: store_inv_def)
  with assms(1) have inv: "store_inv E (t, bs', H)" by (rule clients.steps_invar)
  then have t: "heap_inv E bs' t" "malloc_iniited t" "\<not> halted t" by (simp_all add: store_inv_def)
  have "\<exists>t'. malloc (of_nat sz) t = Some (of_nat (block_at bs' (stops_at sz bs') + 12), t')" if "fits sz bs'" for sz
    using malloc_call [OF t(1) _ _ _ t(2,3), of sz] that unfolding fits_def by blast
  moreover have "\<exists>t'. free (of_nat (block_at bs' i + 12)) t = Some t'" if "i < length bs'" for i
    using free_call [OF t(1) that t(3)] by blast
  moreover have "payload bs' i \<inter> payload bs' j = {}" if "i < length bs'" "j < length bs'" "i \<noteq> j" for i j
    using block_apart [OF that] by (fastforce simp: payload_def)
  ultimately show ?thesis using inv by (simp add: store_inv_def del: of_nat_add)
qed

theorem heap_is_store_witness:
  "\<exists>t t' H. client_step\<^sup>*\<^sup>* (demo_heap, [(1000, True)], Map.empty) (t', [(32, False), (956, True)], H(12 \<mapsto> 7)) \<and>
     malloc 32 demo_heap = Some (12, t) \<and> vload8 12 t' = Some 7"
proof -
  have h: "heap_inv 4096 [(1000, True)] demo_heap" "malloc_iniited demo_heap" "\<not> halted demo_heap"
    using demo_heap_inv by (simp_all add: demo_heap_def demo_fat_def demo_fd_def fd_state.defs fat_state.defs heap_state.defs)
  have f: "fits 32 [(1000, True)]" by (simp add: fits_def)
  obtain t where t: "malloc 32 demo_heap = Some (12, t)" "heap_inv 4096 (alloc_blocks 32 [(1000, True)]) t"
    using malloc_call [OF h(1), of 32] h by (auto simp: block_at_def)
  let ?H = "\<lambda>a. if unat (12 :: u32) \<le> a \<and> a < unat (12 :: u32) + 32 then vload8 (of_nat a) t else None"
  have s1: "client_step (demo_heap, [(1000, True)], Map.empty) (t, [(32, False), (956, True)], ?H)"
    using client_step.request [OF f, of demo_heap 12 t Map.empty] t(1) by (simp add: alloc_at_def)
  obtain M where M: "heap_view 4096 t M" using t(2) by (auto simp: heap_inv_def)
  obtain t' where t': "vstore8 (of_nat 12) 7 t = Some t'" using vstore8_view [OF M, of 12 7] by auto
  have "?H 12 \<noteq> None" using M by (simp add: heap_view_def)
  then have "client_step (t, [(32, False), (956, True)], ?H) (t', [(32, False), (956, True)], ?H(12 \<mapsto> 7))" using t' by (rule client_step.put)
  then have tr: "client_step\<^sup>*\<^sup>* (demo_heap, [(1000, True)], Map.empty) (t', [(32, False), (956, True)], ?H(12 \<mapsto> 7))" using s1 by simp
  have "snd (last [(1000 :: nat, True)])" "held [(1000, True)] = {}" by (simp_all add: held_def)
  from heap_is_store [OF tr h this] have "\<forall>b. (?H(12 \<mapsto> 7)) 12 = Some b \<longrightarrow> vload8 (of_nat 12) t' = Some b" by blast
  then have "vload8 (of_nat 12) t' = Some 7" by simp
  then show ?thesis using tr t(1) by (intro exI [of _ t] exI [of _ t'] exI [of _ ?H]) simp
qed

end
