(* ===== verification/Virtual_props.thy ===== *)
theory Virtual_props
  imports Virtual_map
begin

text \<open>
  What \<open>vmmngr_map_page\<close> does to the entries of a well-formed address space and to the walk of the
  processor, with the page table present and with the page table allocated on the way.
\<close>

unbundle bit_operations_syntax

section \<open>The walk through the entries of a well-formed address space\<close>

lemma mmu_walk_entries:
  "mmu_walk (ram s) (curdir s) va =
     (let i = PAGE_DIR_INDEX va; j = PAGE_TABLE_INDEX va
      in if \<not> entry_present (pde s i) then None
         else if \<not> entry_present (pte s i j) then None
         else Some (entry_frame (pte s i j) OR (va AND 0xFFF)))"
  by (simp add: mmu_walk_def pde_def pte_def Let_def)

definition mapped_entry :: "u32 \<Rightarrow> u32 \<Rightarrow> u32" where
  "mapped_entry phys e = pt_entry_set_frame phys (pt_entry_add_attrib (pte_flag PTE_PRESENT) e)"

lemma mapped_entry_facts:
  assumes "phys mod 4096 = 0" "\<not> bit phys 31" "\<not> bit e 31"
  shows "entry_present (mapped_entry phys e)" "entry_frame (mapped_entry phys e) = phys"
    "\<not> bit (mapped_entry phys e) 31"
proof -
  have 31: "\<not> bit (pt_entry_add_attrib 1 e) 31"
    using assms(3) by (simp add: pt_entry_add_attrib_def bit_simps bit_1_iff)
  have "bit (pt_entry_add_attrib 1 e) 0"
    by (simp add: pt_entry_add_attrib_def bit_or_iff bit_1_iff)
  then show "entry_present (mapped_entry phys e)"
    using set_frame_low(1) [OF assms(1), of 0] by (simp add: mapped_entry_def entry_present_def)
  show "entry_frame (mapped_entry phys e) = phys"
    using set_frame_frame(1) [OF assms(1) 31] by (simp add: mapped_entry_def)
  show "\<not> bit (mapped_entry phys e) 31"
    using assms(2) 31 by (simp add: mapped_entry_def pt_entry_set_frame_def bit_simps)
qed

definition table_entry :: "u32 \<Rightarrow> u32 \<Rightarrow> u32" where
  "table_entry a e = pd_entry_set_frame a (pd_entry_add_attrib (pde_flag PDE_WRITABLE)
     (pd_entry_add_attrib (pde_flag PDE_PRESENT) e))"

lemma table_entry_facts:
  assumes "a mod 4096 = 0" "\<not> bit a 31" "\<not> bit e 31"
  shows "entry_present (table_entry a e)" "entry_frame (table_entry a e) = a"
    "\<not> bit (table_entry a e) 31"
proof -
  let ?e = "pd_entry_add_attrib 2 (pd_entry_add_attrib 1 e)"
  have 31: "\<not> bit ?e 31"
    using assms(3) by (simp add: pd_entry_add_attrib_def bit_simps bit_1_iff)
  have "bit ?e 0" by (simp add: pd_entry_add_attrib_def bit_or_iff bit_1_iff)
  then show "entry_present (table_entry a e)"
    using set_frame_low(2) [OF assms(1), of 0] by (simp add: table_entry_def entry_present_def)
  show "entry_frame (table_entry a e) = a"
    using set_frame_frame(2) [OF assms(1) 31] by (simp add: table_entry_def)
  show "\<not> bit (table_entry a e) 31"
    using assms(2) 31 by (simp add: table_entry_def pd_entry_set_frame_def bit_simps)
qed

section \<open>Mapping\<close>

lemma map_page_present:
  assumes "vmm_wf s" "entry_present (pde s (PAGE_DIR_INDEX va))"
  defines "T \<equiv> entry_frame (pde s (PAGE_DIR_INDEX va)) + 4 * PAGE_TABLE_INDEX va"
  shows "vmmngr_map_page phys va s = s\<lparr>ram := store32 (ram s) T (mapped_entry phys (load32 (ram s) T))\<rparr>"
proof -
  note D = vmm_wf_curdir [OF assms(1)] and T = vmm_wfD [OF assms(1) _ assms(2), simplified]
  have "pd_entry_is_present (load32 (ram s) (curdir s + 4 * PAGE_DIR_INDEX va)) \<noteq> 0"
    using assms(2) is_present_iff(1) by (simp add: pde_def)
  then show ?thesis
    using D(3) T(4)
    by (simp add: vmmngr_map_page_def vmmngr_get_directory_def vmmngr_pdirectory_get_entry_def
        vmmngr_ptable_get_entry_def PAGE_GET_PHYSICAL_ADDRESS_def T_def mapped_entry_def
        entry_frame_def pde_def Let_def modify32_def)
qed

lemma map_page_absent:
  assumes "vmm_wf s" "\<not> entry_present (pde s (PAGE_DIR_INDEX va))"
    and "pmmngr_alloc_block s = (a, s1)"
  defines "s2 \<equiv> s1\<lparr>ram := memset a 0 4096 (ram s1)\<rparr>"
  defines "D \<equiv> curdir s + 4 * PAGE_DIR_INDEX va"
  defines "s3 \<equiv> s2\<lparr>ram := store32 (ram s2) D (table_entry a (load32 (ram s2) D))\<rparr>"
  shows "a = 0 \<Longrightarrow> vmmngr_map_page phys va s = s"
    and "a \<noteq> 0 \<Longrightarrow> vmm_wf s3 \<Longrightarrow> curdir s3 = curdir s \<Longrightarrow>
      entry_present (pde s3 (PAGE_DIR_INDEX va)) \<Longrightarrow>
      vmmngr_map_page phys va s = vmmngr_map_page phys va s3"
proof -
  note D = vmm_wf_curdir [OF assms(1)]
  have absent: "pd_entry_is_present (load32 (ram s) (curdir s + 4 * PAGE_DIR_INDEX va)) = 0"
    using assms(2) is_present_iff(1) [of "pde s (PAGE_DIR_INDEX va)"] by (simp add: pde_def)
  have "pmm_wf s" using D(4) by (simp add: memory_wf_def)
  then show "vmmngr_map_page phys va s = s" if "a = 0"
    using that assms(3) absent frames.alloc_fail [of s s1] D(3)
    by (simp add: vmmngr_map_page_def vmmngr_get_directory_def vmmngr_pdirectory_get_entry_def Let_def)
  assume a: "a \<noteq> 0" and wf3: "vmm_wf s3" and cd: "curdir s3 = curdir s"
    and pres: "entry_present (pde s3 (PAGE_DIR_INDEX va))"
  have s3': "modify32 D (\<lambda>e. pd_entry_set_frame a (pd_entry_add_attrib 2 (pd_entry_add_attrib 1 e))) s2 = s3"
    by (simp add: s3_def modify32_def table_entry_def)
  have "pd_entry_is_present (load32 (ram s3) D) \<noteq> 0"
    using pres is_present_iff(1) by (simp add: pde_def cd D_def)
  then show "vmmngr_map_page phys va s = vmmngr_map_page phys va s3"
    using absent a D(3) assms(3) cd s3' [unfolded D_def s2_def]
    by (simp add: vmmngr_map_page_def [of phys va s] vmmngr_map_page_def [of phys va s3]
        vmmngr_get_directory_def vmmngr_pdirectory_get_entry_def Let_def D_def)
qed

text \<open>The effect of one new table entry on the walk.\<close>

lemma map_page_present_walk:
  assumes wf: "vmm_wf s" and pres: "entry_present (pde s (PAGE_DIR_INDEX va))"
    and phys: "phys mod 4096 = 0" "\<not> bit phys 31"
  defines "s' \<equiv> vmmngr_map_page phys va s"
  shows "vmm_wf s'" "curdir s' = curdir s"
    "va' div 4096 = va div 4096 \<Longrightarrow>
      mmu_walk (ram s') (curdir s') va' = Some (phys OR (va' AND 0xFFF))"
    "va' div 4096 \<noteq> va div 4096 \<Longrightarrow>
      mmu_walk (ram s') (curdir s') va' = mmu_walk (ram s) (curdir s) va'"
proof -
  let ?i = "PAGE_DIR_INDEX va" and ?j = "PAGE_TABLE_INDEX va"
  let ?v = "mapped_entry phys (pte s ?i ?j)"
  have s': "s' = s\<lparr>ram := store32 (ram s) (entry_frame (pde s ?i) + 4 * ?j) ?v\<rparr>"
    by (simp add: s'_def map_page_present [OF wf pres] pte_def)
  note v = mapped_entry_facts [OF phys, of "pte s ?i ?j"]
  have 31: "\<not> bit (pte s ?i ?j) 31" using vmm_wfD(5) [OF wf _ pres] by simp
  note W = write_pte [OF wf _ pres _ v(3) [OF 31], of ?j, simplified, folded s']
  show "vmm_wf s'" by (rule W(3))
  show "curdir s' = curdir s" by (simp add: s')
  show "va' div 4096 = va div 4096 \<Longrightarrow>
      mmu_walk (ram s') (curdir s') va' = Some (phys OR (va' AND 0xFFF))"
    using W(1,2) pres v(1,2) [OF 31] by (simp add: mmu_walk_entries Let_def page_of_indices)
  show "va' div 4096 \<noteq> va div 4096 \<Longrightarrow>
      mmu_walk (ram s') (curdir s') va' = mmu_walk (ram s) (curdir s) va'"
    using W(1,2) by (auto simp: mmu_walk_entries Let_def page_of_indices)
qed

lemma map_page_absent_walk:
  assumes wf: "vmm_wf s" and abs: "\<not> entry_present (pde s (PAGE_DIR_INDEX va))"
    and al: "fst (pmmngr_alloc_block s) \<noteq> 0" and phys: "phys mod 4096 = 0" "\<not> bit phys 31"
  defines "s' \<equiv> vmmngr_map_page phys va s"
  shows "vmm_wf s'" "curdir s' = curdir s"
    "va' div 4096 = va div 4096 \<Longrightarrow>
      mmu_walk (ram s') (curdir s') va' = Some (phys OR (va' AND 0xFFF))"
    "va' div 4096 \<noteq> va div 4096 \<Longrightarrow>
      mmu_walk (ram s') (curdir s') va' = mmu_walk (ram s) (curdir s) va'"
proof -
  obtain a s1 where a: "pmmngr_alloc_block s = (a, s1)" "a \<noteq> 0"
    using al by (cases "pmmngr_alloc_block s") auto
  let ?i = "PAGE_DIR_INDEX va"
  define s2 where "s2 = s1\<lparr>ram := memset a 0 4096 (ram s1)\<rparr>"
  define e where "e = table_entry a (pde s ?i)"
  define s3 where "s3 = s2\<lparr>ram := store32 (ram s2) (curdir s + 4 * ?i) e\<rparr>"
  note F = fresh_table [OF vmm_wf_curdir(4) [OF wf] a]
  have aa: "a mod 4096 = 0" "\<not> bit a 31" using F(2) by (simp_all add: reserved_frame_def)
  have "\<not> bit (pde s ?i) 31" using wf by (simp add: vmm_wf_def)
  note E = table_entry_facts [OF aa this, folded e_def]
  note I = install_table [OF wf index_bounds(1) abs a E, folded s2_def, folded s3_def]
  have pres: "entry_present (pde s3 ?i)" using I(2) E(1) by simp
  have same: "s' = vmmngr_map_page phys va s3"
    using map_page_absent(2) [OF wf abs a(1) a(2), of phys, folded s2_def] I(4,1,5) pres
    by (simp add: s'_def s3_def e_def)
  note W = map_page_present_walk [OF I(4) pres phys, folded same]
  show "vmm_wf s'" by (rule W(1))
  show "curdir s' = curdir s" using W(2) I(1) by simp
  show "va' div 4096 = va div 4096 \<Longrightarrow>
      mmu_walk (ram s') (curdir s') va' = Some (phys OR (va' AND 0xFFF))" by (rule W(3))
  assume ne: "va' div 4096 \<noteq> va div 4096"
  have "\<not> entry_present (0::u32)" by (simp add: entry_present_def)
  then have "mmu_walk (ram s3) (curdir s3) va' = mmu_walk (ram s) (curdir s) va'"
    using abs I(2,3) by (auto simp: mmu_walk_entries Let_def)
  with W(4) [OF ne] show "mmu_walk (ram s') (curdir s') va' = mmu_walk (ram s) (curdir s) va'"
    by simp
qed

end
