(* ===== verification/Virtual_init.thy ===== *)
theory Virtual_init
  imports Virtual_props
begin

text \<open>
  The initial address space built by \<open>vmmngr_init\<close>: the first 4 MiB mapped to themselves, the
  4 MiB from 3 GiB on mapped to the memory from 1 MiB on, everything else unmapped.
\<close>

unbundle bit_operations_syntax

section \<open>Filling a page table\<close>

lemma unat_PAGE_TABLE_INDEX: "unat (PAGE_TABLE_INDEX x) = unat x div 4096 mod 1024"
proof -
  have "PAGE_TABLE_INDEX x = take_bit 10 (drop_bit 12 x)"
    by (rule bit_word_eqI) (auto simp: PAGE_TABLE_INDEX_bits bit_simps)
  then have "PAGE_TABLE_INDEX x = x div 4096 mod 1024"
    by (simp add: take_bit_eq_mod drop_bit_eq_div)
  then show ?thesis by (simp add: unat_mod unat_div)
qed

lemma table_index_step:
  assumes "virt mod 0x400000 = (0::u32)" "j < 1024"
  shows "PAGE_TABLE_INDEX (virt + 4096 * j) = j"
proof -
  have "unat virt mod 0x400000 = 0"
    using assms(1) by (simp add: word_unat_eq_iff unat_mod)
  then obtain q where q: "unat virt = 0x400000 * q" by (metis dvd_eq_mod_eq_0 dvdE)
  then have "q < 1024" using unat_u32_bound [of virt] by simp
  moreover have "unat j < 1024" using assms(2) by (simp add: word_less_nat_alt)
  ultimately have "unat (virt + 4096 * j) = 4096 * (1024 * q + unat j)"
    using q by (simp add: unat_word_ariths)
  then show ?thesis
    using \<open>unat j < 1024\<close> by (simp add: word_unat_eq_iff unat_PAGE_TABLE_INDEX)
qed

lemma fill_table_effect:
  assumes t: "table mod 4096 = 0" and v: "virt mod 0x400000 = 0"
  shows "k < 1024 \<Longrightarrow> load32 (fill_table page table frame virt m) (table + 4 * k) = page (frame + 4096 * k)"
    "x div 4096 \<noteq> table div 4096 \<Longrightarrow> fill_table page table frame virt m x = m x"
proof -
  define body where "body = (\<lambda>i::u32. \<lambda>(frame::u32, virt, m).
    (frame + 4096, virt + 4096, store32 m (table + 4 * PAGE_TABLE_INDEX virt) (page frame)))"
  have inv: "\<exists>m'. fold (\<lambda>i. body (of_nat i)) [0..<j] (frame, virt, m) =
        (frame + 4096 * of_nat j, virt + 4096 * of_nat j, m') \<and>
      (\<forall>k<1024. load32 m' (table + 4 * k) =
         (if unat k < j then page (frame + 4096 * k) else load32 m (table + 4 * k))) \<and>
      (\<forall>x. x div 4096 \<noteq> table div 4096 \<longrightarrow> m' x = m x)" if "j \<le> 1024" for j
    using that
  proof (induction j)
    case (Suc j)
    let ?j = "of_nat j :: u32"
    have j: "?j < 1024" "unat ?j = j"
      using Suc.prems by (simp_all add: word_less_nat_alt unat_of_nat_small)
    from Suc obtain m' where m': "fold (\<lambda>i. body (of_nat i)) [0..<j] (frame, virt, m) =
        (frame + 4096 * ?j, virt + 4096 * ?j, m')"
      and slots: "\<forall>k<1024. load32 m' (table + 4 * k) =
         (if unat k < j then page (frame + 4096 * k) else load32 m (table + 4 * k))"
      and out: "\<forall>x. x div 4096 \<noteq> table div 4096 \<longrightarrow> m' x = m x" by auto
    let ?m = "store32 m' (table + 4 * ?j) (page (frame + 4096 * ?j))"
    have eq: "?j = k \<longleftrightarrow> unat k = j" for k using j(2) by (auto simp: word_unat_eq_iff)
    have "\<forall>k<1024. load32 ?m (table + 4 * k) =
         (if unat k < Suc j then page (frame + 4096 * k) else load32 m (table + 4 * k))"
      using load32_store32_slot [OF t t j(1)] slots eq by (auto simp: less_Suc_eq)
    moreover have "\<forall>x. x div 4096 \<noteq> table div 4096 \<longrightarrow> ?m x = m x"
      using out slot_in_frame [OF t j(1)] store32_outside by metis
    ultimately show ?case
      using m' table_index_step [OF v j(1)]
      by (intro exI [of _ ?m]) (simp add: body_def algebra_simps)
  qed simp
  have "for_u32 0 1024 body (frame, virt, m) = fold (\<lambda>i. body (of_nat i)) [0..<1024] (frame, virt, m)"
    by (simp add: for_u32_fold)
  with inv [of 1024] obtain m' where m': "fill_table page table frame virt m = m'"
    and slots: "\<forall>k<1024. load32 m' (table + 4 * k) =
      (if unat k < 1024 then page (frame + 4096 * k) else load32 m (table + 4 * k))"
    and out: "\<forall>x. x div 4096 \<noteq> table div 4096 \<longrightarrow> m' x = m x"
    by (auto simp: fill_table_def body_def)
  show "k < 1024 \<Longrightarrow> load32 (fill_table page table frame virt m) (table + 4 * k) = page (frame + 4096 * k)"
    using slots m' by (simp add: word_less_nat_alt)
  show "x div 4096 \<noteq> table div 4096 \<Longrightarrow> fill_table page table frame virt m x = m x"
    using out m' by simp
qed

section \<open>The stages of the set-up\<close>

text \<open>
  \<open>init_tables s = Some (a, b, s')\<close>: both tables could be allocated, cleared and filled;
  \<open>init_dir\<close> is what happens once the directory is allocated as well.
\<close>

definition init_tables :: "'a vmm \<Rightarrow> (u32 \<times> u32 \<times> 'a vmm) option" where
  "init_tables s =
     (let (a, s) = pmmngr_alloc_block s; (b, t) = pmmngr_alloc_block s
      in if a = 0 \<or> b = 0 then None
         else Some (a, b, t\<lparr>ram := fill_table kernel_page b 0x100000 0xC0000000
           (fill_table default_page a 0 0 (memset b 0 4096 (memset a 0 4096 (ram t))))\<rparr>))"

definition init_dir :: "u32 \<Rightarrow> u32 \<Rightarrow> u32 \<Rightarrow> 'a vmm \<Rightarrow> 'a vmm" where
  "init_dir a b d s =
     (let s = s\<lparr>ram := memset d 0 4096 (ram s)\<rparr>;
          s = init_pd_entry d a s;
          s = init_pd_entry (d + 4 * 768) b s
      in s\<lparr>curdir := d, cr3 := d, cr0 := cr0 s OR 0x80000000\<rparr>)"

lemma vmmngr_init_stages:
  assumes "init_tables s = Some (a, b, t)" "pmmngr_alloc_blocks 3 t = (d, u)" "d \<noteq> 0"
  shows "vmmngr_init s = init_dir a b d u"
proof -
  have "PAGE_DIR_INDEX 0 = 0" "PAGE_DIR_INDEX 0xC0000000 = 768"
    by (simp_all add: PAGE_DIR_INDEX_def)
  then show ?thesis
    using assms by (auto simp: vmmngr_init_def init_tables_def init_dir_def Let_def
        vmmngr_pdirectory_get_entry_def vmmngr_switch_pdirectory_def vmmngr_enable_paging_def
        split: prod.splits if_splits)
qed

lemma init_tables_effect:
  assumes wf: "memory_wf s" and it: "init_tables s = Some (a, b, t)"
  shows "memory_wf t" "reserved_frame t a" "reserved_frame t b" "a \<noteq> b"
    "k < 1024 \<Longrightarrow> load32 (ram t) (a + 4 * k) = default_page (4096 * k)"
    "k < 1024 \<Longrightarrow> load32 (ram t) (b + 4 * k) = kernel_page (0x100000 + 4096 * k)"
    "used_blocks t = used_blocks s + 2" "max_blocks t = max_blocks s"
proof -
  obtain s1 s2 where al: "pmmngr_alloc_blocks 1 s = (a, s1)" "pmmngr_alloc_blocks 1 s1 = (b, s2)"
    and nz: "a \<noteq> 0" "b \<noteq> 0"
    and t: "t = s2\<lparr>ram := fill_table kernel_page b 0x100000 0xC0000000
           (fill_table default_page a 0 0 (memset b 0 4096 (memset a 0 4096 (ram s2))))\<rparr>"
    using it by (auto simp: init_tables_def pmmngr_alloc_block_def Let_def split: prod.splits if_splits)
  note A = alloc_blocks_reserved [OF wf al(1) _ nz(1), simplified]
  note B = alloc_blocks_reserved [OF A(1) al(2) _ nz(2), simplified]
  have a: "reserved_frame s2 a" and b: "reserved_frame s2 b" and ne: "a \<noteq> b"
    using A(2) B(2,4,5) by blast+
  have al_a: "a mod 4096 = 0" "b mod 4096 = 0" using a b by (simp_all add: reserved_frame_def)
  have div: "a div 4096 \<noteq> b div 4096" using aligned_eq [OF al_a] ne by blast
  have v: "(0::u32) mod 0x400000 = 0" "(0xC0000000::u32) mod 0x400000 = 0" by simp_all
  note fa = fill_table_effect [OF al_a(1) v(1)] and fb = fill_table_effect [OF al_a(2) v(2)]
  have map: "memory_map t = memory_map s2" "max_blocks t = max_blocks s2"
    "\<And>x. map_byte s2 x \<Longrightarrow> ram t x = ram s2 x"
    using a b fa(2) fb(2) frame_clear_map [OF a] frame_clear_map [OF b]
    by (simp_all add: t reserved_frame_def)
  note same = map_unchanged [OF map]
  show "memory_wf t" "reserved_frame t a" "reserved_frame t b" "a \<noteq> b"
    using same(3,4) B(1) a b ne by auto
  show "k < 1024 \<Longrightarrow> load32 (ram t) (b + 4 * k) = kernel_page (0x100000 + 4096 * k)"
    by (simp add: t fb(1))
  show "load32 (ram t) (a + 4 * k) = default_page (4096 * k)" if "k < 1024"
    using fa(1) [OF that] load32_slot_cong [OF al_a(1) that fb(2)] div by (simp add: t)
  have pwf: "pmm_wf s" "pmm_wf s1" using wf A(1) by (simp_all add: memory_wf_def)
  show "used_blocks t = used_blocks s + 2" "max_blocks t = max_blocks s"
    using alloc_blocks_effect(7,8) [OF pwf(1) al(1) nz(1)] alloc_blocks_effect(7,8) [OF pwf(2) al(2) nz(2)]
    by (simp_all add: t)
qed

definition dir_entry :: "u32 \<Rightarrow> u32" where
  "dir_entry p = pd_entry_set_frame p 7"

lemma dir_entry_facts:
  assumes "p mod 4096 = 0" "\<not> bit p 31"
  shows "entry_present (dir_entry p)" "entry_frame (dir_entry p) = p" "\<not> bit (dir_entry p) 31"
proof -
  show "entry_present (dir_entry p)"
    using set_frame_low(2) [OF assms(1), of 0 7] by (simp add: dir_entry_def entry_present_def)
  show "entry_frame (dir_entry p) = p"
    using set_frame_frame(2) [OF assms(1), of 7] by (simp add: dir_entry_def)
  show "\<not> bit (dir_entry p) 31"
    using assms(2) by (simp add: dir_entry_def pd_entry_set_frame_def bit_simps)
qed

lemma init_page_facts:
  assumes "f mod 4096 = 0" "\<not> bit f 31"
  shows "entry_present (default_page f)" "entry_frame (default_page f) = f" "\<not> bit (default_page f) 31"
    "entry_present (kernel_page f)" "entry_frame (kernel_page f) = f" "\<not> bit (kernel_page f) 31"
proof -
  have eq: "default_page f = pt_entry_set_frame f 7" "kernel_page f = pt_entry_set_frame f 5"
    by (simp_all add: default_page_def kernel_page_def pt_entry_add_attrib_def)
  show "entry_present (default_page f)" "entry_present (kernel_page f)"
    using set_frame_low(1) [OF assms(1), of 0] by (simp_all add: eq entry_present_def)
  show "entry_frame (default_page f) = f" "entry_frame (kernel_page f) = f"
    using set_frame_frame(1) [OF assms(1)] by (simp_all add: eq)
  show "\<not> bit (default_page f) 31" "\<not> bit (kernel_page f) 31"
    using assms(2) by (simp_all add: eq pt_entry_set_frame_def bit_simps)
qed

lemma init_dir_ram:
  assumes d: "d mod 4096 = 0"
  shows "ram (init_dir a b d u) =
    store32 (store32 (memset d 0 4096 (ram u)) (d + 4 * 0) (dir_entry a)) (d + 4 * 768) (dir_entry b)"
    "curdir (init_dir a b d u) = d" "memory_map (init_dir a b d u) = memory_map u"
    "max_blocks (init_dir a b d u) = max_blocks u"
    "cr0 (init_dir a b d u) = cr0 u OR 0x80000000" "cr3 (init_dir a b d u) = d"
proof -
  have zero: "load32 (memset d 0 4096 m) (d + 4 * k) = 0" if "k < 1024" for k m
    using slot_in_frame [OF d that] in_frame_iff [OF d] by (intro load32_zero) (auto simp: memset_apply)
  have "load32 (store32 (memset d 0 4096 (ram u)) (d + 4 * 0) v) (d + 4 * 768) = 0" for v
    using load32_store32_slot [OF d d, of 0 768] zero [of 768] by simp
  with zero [of 0] show "ram (init_dir a b d u) =
    store32 (store32 (memset d 0 4096 (ram u)) (d + 4 * 0) (dir_entry a)) (d + 4 * 768) (dir_entry b)"
    by (simp add: init_dir_def init_pd_entry_def Let_def dir_entry_def pd_entry_add_attrib_def)
qed (simp_all add: init_dir_def init_pd_entry_def Let_def modify32_def)

lemma init_dir_entries:
  assumes d: "d mod 4096 = 0" and k: "k < 1024"
  shows "pde (init_dir a b d u) k = (if k = 0 then dir_entry a else if k = 768 then dir_entry b else 0)"
    and "p mod 4096 = 0 \<Longrightarrow> p \<noteq> d \<Longrightarrow>
      load32 (ram (init_dir a b d u)) (p + 4 * k) = load32 (ram u) (p + 4 * k)"
proof -
  have "load32 (memset d 0 4096 (ram u)) (d + 4 * k) = 0"
    using slot_in_frame [OF d k] in_frame_iff [OF d] by (intro load32_zero) (auto simp: memset_apply)
  moreover have "(0::u32) < 1024" "(768::u32) < 1024" by simp_all
  note slot = load32_store32_slot [OF d d this(1) k] load32_store32_slot [OF d d this(2) k]
  ultimately show "pde (init_dir a b d u) k =
      (if k = 0 then dir_entry a else if k = 768 then dir_entry b else 0)"
    by (simp only: pde_def init_dir_ram [OF d] slot) auto
  assume p: "p mod 4096 = 0" "p \<noteq> d"
  then have "load32 (memset d 0 4096 (ram u)) (p + 4 * k) = load32 (ram u) (p + 4 * k)"
    using in_frame_iff [OF d] aligned_eq [OF p(1) d]
    by (intro load32_slot_cong [OF p(1) k]) (auto simp: memset_apply)
  then show "load32 (ram (init_dir a b d u)) (p + 4 * k) = load32 (ram u) (p + 4 * k)"
    using load32_store32_slot [OF d p(1) _ k, of 0] load32_store32_slot [OF d p(1) _ k, of 768] p(2)
    by (simp add: init_dir_ram [OF d])
qed

lemma init_dir_wf:
  assumes u: "memory_wf u" "reserved_frame u a" "reserved_frame u b" "reserved_frame u d"
    and ne: "a \<noteq> b" "a \<noteq> d" "b \<noteq> d"
    and ta: "\<And>k. k < 1024 \<Longrightarrow> \<not> bit (load32 (ram u) (a + 4 * k)) 31"
    and tb: "\<And>k. k < 1024 \<Longrightarrow> \<not> bit (load32 (ram u) (b + 4 * k)) 31"
  shows "vmm_wf (init_dir a b d u)"
proof -
  let ?f = "init_dir a b d u"
  have d: "d mod 4096 = 0" and a: "a mod 4096 = 0" "\<not> bit a 31" and b: "b mod 4096 = 0" "\<not> bit b 31"
    using u(2-4) by (simp_all add: reserved_frame_def)
  have map: "memory_map ?f = memory_map u" "max_blocks ?f = max_blocks u"
    "\<And>x. map_byte u x \<Longrightarrow> ram ?f x = ram u x"
    using frame_write_map [OF u(4), of 0] frame_write_map [OF u(4), of 768] frame_clear_map [OF u(4)]
    by (simp_all add: init_dir_ram [OF d])
  have res: "reserved_frame ?f p = reserved_frame u p" for p by (rule map_unchanged(3) [OF map])
  note ea = dir_entry_facts [OF a] and eb = dir_entry_facts [OF b]
  note pde' = init_dir_entries(1) [OF d, of _ a b u]
  have tab: "pte ?f 0 j = load32 (ram u) (a + 4 * j)" "pte ?f 768 j = load32 (ram u) (b + 4 * j)"
    if "j < 1024" for j
    using init_dir_entries(2) [OF d that a(1) ne(2)] init_dir_entries(2) [OF d that b(1) ne(3)]
      ea(2) eb(2) by (simp_all add: pte_def pde')
  have absent: "\<not> entry_present 0" by (simp add: entry_present_def)
  show ?thesis
    unfolding vmm_wf_def init_dir_ram(2) [OF d]
    using u ne ea eb ta tb absent map_unchanged(4) [OF map u(1)] tab
    by (auto simp: res pde')
qed

section \<open>The parts of an address\<close>

lemma address_parts:
  "unat (PAGE_DIR_INDEX va) = unat va div 0x400000" "unat (va AND 0xFFF) = unat va mod 4096"
  "va = 0x400000 * PAGE_DIR_INDEX va + 4096 * PAGE_TABLE_INDEX va + (va AND 0xFFF)"
proof -
  have "PAGE_DIR_INDEX va = drop_bit 22 va"
    by (rule bit_word_eqI) (auto simp: PAGE_DIR_INDEX_bits bit_simps dest: bit_imp_le_length)
  then show dir: "unat (PAGE_DIR_INDEX va) = unat va div 0x400000"
    by (simp add: drop_bit_eq_div unat_div)
  have "(0xFFF :: u32) = mask 12" by (simp add: mask_eq_exp_minus_1)
  then have "va AND 0xFFF = va mod 4096"
    by (simp only: take_bit_eq_mask [symmetric] take_bit_eq_mod) simp
  then show off: "unat (va AND 0xFFF) = unat va mod 4096" by (simp add: unat_mod)
  have "0x400000 * (x div 0x400000) + 4096 * (x div 4096 mod 1024) + x mod 4096 = x" for x :: nat
  proof -
    have "x div 4096 = 1024 * (x div 4096 div 1024) + x div 4096 mod 1024" by simp
    moreover have "x div 4096 div 1024 = x div 0x400000" by (simp add: div_mult2_eq [symmetric])
    moreover have "x = 4096 * (x div 4096) + x mod 4096" by simp
    ultimately show ?thesis by linarith
  qed
  from this [of "unat va"]
  show "va = 0x400000 * PAGE_DIR_INDEX va + 4096 * PAGE_TABLE_INDEX va + (va AND 0xFFF)"
    using unat_u32_bound [of va]
    by (intro word_unat_eq_iff [THEN iffD2])
      (simp add: unat_word_ariths dir off unat_PAGE_TABLE_INDEX)
qed

lemma or_offset: "p mod 4096 = 0 \<Longrightarrow> p OR (va AND 0xFFF) = p + (va AND (0xFFF::u32))"
  by (rule disjunctive_add [symmetric]) (auto simp: aligned_bits bit_simps)

lemma dir_index_ranges:
  "PAGE_DIR_INDEX va = 0 \<longleftrightarrow> va < 0x400000"
  "PAGE_DIR_INDEX va = 768 \<longleftrightarrow> 0xC0000000 \<le> va \<and> va < 0xC0400000"
  by (auto simp: word_unat_eq_iff address_parts(1) word_less_nat_alt word_le_nat_alt)

section \<open>Properties of the set-up\<close>

lemma page_frames:
  "4096 * PAGE_TABLE_INDEX va mod 4096 = 0" "\<not> bit (4096 * PAGE_TABLE_INDEX va) 31"
  "(0x100000 + 4096 * PAGE_TABLE_INDEX va) mod 4096 = 0"
  "\<not> bit (0x100000 + 4096 * PAGE_TABLE_INDEX va) 31"
proof -
  have "unat (PAGE_TABLE_INDEX va) < 1024" by (simp add: unat_PAGE_TABLE_INDEX)
  then have u: "unat (4096 * PAGE_TABLE_INDEX va) = 4096 * unat (PAGE_TABLE_INDEX va)"
    "unat (0x100000 + 4096 * PAGE_TABLE_INDEX va) = 4096 * (256 + unat (PAGE_TABLE_INDEX va))"
    "unat (PAGE_TABLE_INDEX va) < 1024"
    by (simp_all add: unat_word_ariths)
  then show "4096 * PAGE_TABLE_INDEX va mod 4096 = 0"
    "(0x100000 + 4096 * PAGE_TABLE_INDEX va) mod 4096 = 0"
    by (simp_all add: word_unat_eq_iff unat_mod)
  show "\<not> bit (4096 * PAGE_TABLE_INDEX va) 31" "\<not> bit (0x100000 + 4096 * PAGE_TABLE_INDEX va) 31"
    using u by (intro below_2G_bit; simp add: word_less_nat_alt)+
qed

lemma table_frames:
  assumes "k < (1024::u32)"
  shows "4096 * k mod 4096 = 0" "\<not> bit (4096 * k) 31"
    "(0x100000 + 4096 * k) mod 4096 = 0" "\<not> bit (0x100000 + 4096 * k) 31"
  using page_frames [of "0 + 4096 * k"] table_index_step [of 0, OF _ assms] by simp_all

lemma vmmngr_init_ok:
  assumes wf: "memory_wf s" and it: "init_tables s = Some (a, b, t)"
    and al: "pmmngr_alloc_blocks 3 t = (d, u)" and d: "d \<noteq> 0"
  defines "f \<equiv> vmmngr_init s"
  shows "vmm_wf f" "cr3 f = curdir f" "bit (cr0 f) 31"
    "mmu_walk (ram f) (cr3 f) va =
      (if va < 0x400000 then Some va
       else if 0xC0000000 \<le> va \<and> va < 0xC0400000 then Some (va - 0xC0000000 + 0x100000)
       else None)"
    "k < 1024 \<Longrightarrow> pde f k = (if k = 0 then dir_entry a else if k = 768 then dir_entry b else 0)"
proof -
  note T = init_tables_effect [OF wf it]
  note A = alloc_blocks_reserved [OF T(1) al _ d, simplified]
  have f: "f = init_dir a b d u" using vmmngr_init_stages [OF it al d] by (simp add: f_def)
  have res: "reserved_frame u a" "reserved_frame u b" "a \<noteq> d" "b \<noteq> d"
    using A(4,5) T(2,3) by blast+
  have aln: "a mod 4096 = 0" "\<not> bit a 31" "b mod 4096 = 0" "\<not> bit b 31" "d mod 4096 = 0"
    using res A(2) by (simp_all add: reserved_frame_def)
  have page: "load32 (ram u) (p + 4 * k) = load32 (ram t) (p + 4 * k)"
    if "reserved_frame t p" "k < 1024" for p k
    using that alloc_blocks_ram [OF _ al] T(1)
    by (intro load32_slot_cong) (auto simp: reserved_frame_def memory_wf_def)
  have ta: "load32 (ram u) (a + 4 * k) = default_page (4096 * k)"
    "load32 (ram u) (b + 4 * k) = kernel_page (0x100000 + 4096 * k)" if "k < 1024" for k
    using page T(2,3,5,6) that by simp_all
  show wf': "vmm_wf f"
    unfolding f using A(1,2) res T(4) table_frames init_page_facts(3,6)
    by (intro init_dir_wf) (simp_all add: ta)
  show cr3: "cr3 f = curdir f" by (simp add: f init_dir_ram [OF aln(5)])
  show "bit (cr0 f) 31" by (simp add: f init_dir_ram [OF aln(5)] bit_or_iff bit_simps)
  note pde' = init_dir_entries(1) [OF aln(5), of _ a b u, folded f]
  then show "k < 1024 \<Longrightarrow> pde f k = (if k = 0 then dir_entry a else if k = 768 then dir_entry b else 0)" .
  have pte': "pte f 0 j = default_page (4096 * j)" "pte f 768 j = kernel_page (0x100000 + 4096 * j)"
    if "j < 1024" for j
    using init_dir_entries(2) [OF aln(5) that aln(1) res(3), of a b u]
      init_dir_entries(2) [OF aln(5) that aln(3) res(4), of a b u] ta [OF that]
      dir_entry_facts(2) [OF aln(1,2)] dir_entry_facts(2) [OF aln(3,4)]
    by (simp_all add: pte_def pde' f [symmetric])
  have low: "4096 * PAGE_TABLE_INDEX va + (va AND 0xFFF) = va" if "PAGE_DIR_INDEX va = 0"
    using address_parts(3) [of va] that by simp
  have high: "0x100000 + 4096 * PAGE_TABLE_INDEX va + (va AND 0xFFF) = va - 0xC0000000 + 0x100000"
    if "PAGE_DIR_INDEX va = 768"
    using address_parts(3) [of va] that by (simp add: algebra_simps)
  have "\<not> entry_present 0" by (simp add: entry_present_def)
  then show "mmu_walk (ram f) (cr3 f) va =
      (if va < 0x400000 then Some va
       else if 0xC0000000 \<le> va \<and> va < 0xC0400000 then Some (va - 0xC0000000 + 0x100000)
       else None)"
    unfolding cr3 mmu_walk_entries Let_def dir_index_ranges [symmetric]
    using page_frames [of va] init_page_facts dir_entry_facts(1) [OF aln(1,2)]
      dir_entry_facts(1) [OF aln(3,4)]
    by (auto simp: pde' pte' or_offset low high)
qed

end
