(* ===== verification/Physical_owner.thy ===== *)
theory Physical_owner
  imports Physical_alloc
begin

text \<open>
  Correctness of the physical memory manager: first fit, exact effect on the set of used
  blocks, failure without effect, free as the inverse of allocate, the region functions of
  the boot sequence, and the ownership discipline as a step relation over the allocator's
  operations.
\<close>

section \<open>Ownership as a step relation\<close>

text \<open>
  A state of the relation is the manager's state and the runs \<open>(first block, length)\<close> that
  clients hold. \<open>alloc\<close> is a successful \<open>pmmngr_alloc_blocks\<close>, \<open>refuse\<close> an unsuccessful one,
  \<open>release\<close> a \<open>pmmngr_free_blocks\<close> of a held run, \<open>reserve\<close> a \<open>pmmngr_deinit_region\<close>. A run may
  extend past the end of the map, since the search does not stop there. Only a request for more blocks than the machine
  has is left out: the counters may have drifted so far that it succeeds, and its run then wraps around.
\<close>

definition in_map :: "'a pmm \<Rightarrow> u32 \<Rightarrow> u32 \<Rightarrow> bool" where
  "in_map s b n \<longleftrightarrow> unat b + unat n \<le> 32 * unat (max_blocks s div 32)"

inductive pmm_step :: "'a pmm \<times> (u32 \<times> u32) set \<Rightarrow> 'a pmm \<times> (u32 \<times> u32) set \<Rightarrow> bool" where
  alloc: "n \<le> max_blocks s \<Longrightarrow> pmmngr_alloc_blocks n s = (a, s') \<Longrightarrow> a \<noteq> 0 \<Longrightarrow>
    pmm_step (s, L) (s', insert (a div BLOCK_SIZE, n) L)"
| refuse: "pmmngr_alloc_blocks n s = (0, s') \<Longrightarrow> pmm_step (s, L) (s', L)"
| release: "(b, n) \<in> L \<Longrightarrow>
    pmm_step (s, L) (pmmngr_free_blocks (b * BLOCK_SIZE) n s, L - {(b, n)})"
| reserve: "pmm_step (s, L) (pmmngr_deinit_region base sz s, L)"

definition in_run :: "u32 \<times> u32 \<Rightarrow> u32 \<Rightarrow> bool" where
  "in_run r c \<longleftrightarrow> c - fst r < snd r"

definition starts_in_map :: "'a pmm \<Rightarrow> u32 \<times> u32 \<Rightarrow> bool" where
  "starts_in_map s r \<longleftrightarrow> 0 < fst r \<and> unat (fst r) < 32 * unat (max_blocks s div 32) \<and> snd r \<le> max_blocks s"

definition owned :: "'a pmm \<Rightarrow> (u32 \<times> u32) set \<Rightarrow> bool" where
  "owned s L \<longleftrightarrow> pmm_wf s \<and>
     (\<forall>r \<in> L. starts_in_map s r \<and> (\<forall>c. in_run r c \<longrightarrow> block_used s c)) \<and>
     (\<forall>r \<in> L. \<forall>r' \<in> L. r \<noteq> r' \<longrightarrow> (\<forall>c. \<not> (in_run r c \<and> in_run r' c)))"

lemma in_map_bound:
  assumes "pmm_wf s" "in_map s b n"
  shows "unat b + unat n < 0x100000"
proof -
  have "32 * unat (max_blocks s div 32) \<le> unat (max_blocks s)" by (simp add: unat_div)
  with assms show ?thesis by (simp add: in_map_def pmm_wf_def word_less_nat_alt)
qed

lemma in_run_iff:
  assumes "pmm_wf s" "starts_in_map s r"
  shows "in_run r c \<longleftrightarrow> unat (fst r) \<le> unat c \<and> unat c < unat (fst r) + unat (snd r)" "unat (fst r) < 0x100000"
proof -
  have "32 * unat (max_blocks s div 32) \<le> unat (max_blocks s)" by (simp add: unat_div)
  with assms have b: "unat (fst r) < 0x100000" "unat (snd r) < 0x100000"
    by (simp_all add: starts_in_map_def pmm_wf_def word_less_nat_alt word_le_nat_alt)
  then show "in_run r c \<longleftrightarrow> unat (fst r) \<le> unat c \<and> unat c < unat (fst r) + unat (snd r)" "unat (fst r) < 0x100000"
    using unat_u32_bound [of c] by (auto simp: in_run_def word_less_nat_alt unat_sub_if')
qed

text \<open>
  Two runs that start in the map and have a block in common have one in common that lies in the map: if theirs lies behind
  the end, both contain the last block of the map.
\<close>

lemma runs_meet_in_map:
  assumes wf: "pmm_wf s" and r: "starts_in_map s r" "starts_in_map s r'" and c: "in_run r c" "in_run r' c"
  obtains d where "in_run r d" "in_run r' d" "unat d < 32 * unat (max_blocks s div 32)"
proof (cases "unat c < 32 * unat (max_blocks s div 32)")
  case False
  let ?e = "32 * unat (max_blocks s div 32) - 1"
  note I = in_run_iff(1) [OF wf r(1)] in_run_iff(1) [OF wf r(2)]
  have "?e < unat c" "?e < 2 ^ 32" using False r unat_u32_bound [of c] by (auto simp: starts_in_map_def)
  moreover have "unat (of_nat ?e :: u32) = ?e" using \<open>?e < 2 ^ 32\<close> by (simp add: unat_of_nat_small)
  ultimately have "in_run r (of_nat ?e)" "in_run r' (of_nat ?e)" "unat (of_nat ?e :: u32) < 32 * unat (max_blocks s div 32)"
    using c r I by (auto simp: starts_in_map_def)
  then show ?thesis by (rule that)
qed (use c that in blast)

lemma run_not_block_0: "pmm_wf s \<Longrightarrow> starts_in_map s r \<Longrightarrow> \<not> in_run r 0"
  by (simp add: in_run_iff) (simp add: starts_in_map_def word_less_nat_alt)

lemma owned_alloc:
  assumes own: "owned s L" and n: "n \<le> max_blocks s" and al: "pmmngr_alloc_blocks n s = (a, s')" and a: "a \<noteq> 0"
  shows "owned s' (insert (a div BLOCK_SIZE, n) L)"
proof -
  let ?r = "(a div 4096, n)"
  from own have wf: "pmm_wf s" by (simp add: owned_def)
  note eff = alloc_blocks_effect [OF wf al a]
  have "a div 4096 \<noteq> 0" using eff(4) wf by (auto simp: pmm_wf_def)
  moreover have "a div 4096 div 32 < max_blocks s div 32" using eff(2) by (simp add: candidate_def)
  moreover from this have "unat (a div 4096) < 32 * unat (max_blocks s div 32)"
    by (simp add: word_less_nat_alt unat_div [of _ 32])
  ultimately have r: "starts_in_map s ?r" using n by (simp add: starts_in_map_def word_gt_0)
  have free: "\<not> block_used s c" if "in_run ?r c" "unat c < 32 * unat (max_blocks s div 32)" for c
    using candidate_free [OF eff(2), of "c - a div 4096"] that in_run_iff(1) [OF wf r] by (simp add: in_run_def unat_sub_if')
  have "\<not> (in_run ?r c \<and> in_run r' c)" if "r' \<in> L" for r' c
  proof
    have r': "starts_in_map s r'" "\<And>d. in_run r' d \<Longrightarrow> block_used s d" using own that by (simp_all add: owned_def)
    assume "in_run ?r c \<and> in_run r' c"
    then obtain d where "in_run ?r d" "in_run r' d" "unat d < 32 * unat (max_blocks s div 32)"
      using runs_meet_in_map [OF wf r r'(1)] by blast
    then show False using free r'(2) by blast
  qed
  moreover have "starts_in_map s' = starts_in_map s" by (simp add: fun_eq_iff starts_in_map_def eff(8))
  moreover have "block_used s' c \<longleftrightarrow> in_run ?r c \<or> block_used s c" for c using eff(6) [of c] by (simp add: in_run_def)
  ultimately show ?thesis using own alloc_blocks_wf [OF wf al] r unfolding owned_def by auto
qed

lemma owned_release:
  assumes own: "owned s L" and r: "(b, n) \<in> L"
  shows "owned (pmmngr_free_blocks (b * BLOCK_SIZE) n s) (L - {(b, n)})"
proof -
  from own r have wf: "pmm_wf s" and b: "starts_in_map s (b, n)" by (auto simp: owned_def)
  then have "b < 0x100000" using in_run_iff(2) [OF wf b] by (simp add: word_less_nat_alt)
  then have eff: "block_used (pmmngr_free_blocks (b * BLOCK_SIZE) n s) c \<longleftrightarrow>
      \<not> in_run (b, n) c \<and> block_used s c" for c
    by (simp add: free_blocks_effect block_address in_run_def)
  have "pmm_wf (pmmngr_free_blocks (b * BLOCK_SIZE) n s)"
    using wf run_not_block_0 [OF wf b] by (simp add: pmm_wf_def eff free_blocks_effect(3))
  then show ?thesis
    using own r unfolding owned_def starts_in_map_def
    by (simp add: eff free_blocks_effect(3)) blast
qed

lemma owned_reserve:
  "owned s L \<Longrightarrow> owned (pmmngr_deinit_region base sz s) L"
  unfolding owned_def starts_in_map_def pmm_wf_def by (auto simp: deinit_region_effect)

lemma pmm_step_owned: "pmm_step x y \<Longrightarrow> owned (fst x) (snd x) \<Longrightarrow> owned (fst y) (snd y)"
proof (induction rule: pmm_step.induct)
  case (refuse n s s' L)
  then have "s' = s" using alloc_blocks_null [of s n s'] by (simp add: owned_def)
  with refuse show ?case by simp
qed (auto intro: owned_alloc owned_release owned_reserve)

interpretation owners: invariant_steps pmm_step "\<lambda>x. owned (fst x) (snd x)"
  by unfold_locales (rule pmm_step_owned)

section \<open>Properties\<close>

text \<open>A small manager for the witnesses: 64 blocks, block 0 reserved, map at 0x30000.\<close>

definition demo_pmm :: pmm_state where
  "demo_pmm = \<lparr>ram = (\<lambda>x. if x = 0x30000 then 1 else 0), io_log = [], dev_b = (\<lambda>_ _. 0),
     dev_w = (\<lambda>_ _. 0), cr0 = 0, cr2 = 0, cr3 = 0, int_flag = False, halted = False,
     invlpg_log = [], cursor_x = 0, cursor_y = 0, memory_size = 0x40000, used_blocks = 1, max_blocks = 64,
     memory_map = 0x30000\<rparr>"

lemma demo_pmm_wf: "pmm_wf demo_pmm"
  by code_simp

lemma demo_pmm_alloc3: "pmmngr_alloc_blocks 3 demo_pmm = (0x1000, snd (pmmngr_alloc_blocks 3 demo_pmm))"
proof -
  have "fst (pmmngr_alloc_blocks 3 demo_pmm) = 0x1000" by code_simp
  then show ?thesis by (metis prod.collapse)
qed

text \<open>
  C6. Every run that a client holds is marked used and does not contain block 0, and any two of them are disjoint, after any
  sequence of successful allocations of at most as many blocks as the machine has, refusals, releases of held runs and
  reservations. A run may extend past the end of the map; such a run, too, overlaps no other.
\<close>

theorem held_runs_disjoint:
  assumes "pmm_wf s" and "pmm_step\<^sup>*\<^sup>* (s, {}) (s', L)" and "(b, n) \<in> L"
  shows "(\<forall>c. c - b < n \<longrightarrow> block_used s' c \<and> c \<noteq> 0) \<and>
    (\<forall>b' n'. (b', n') \<in> L \<and> (b', n') \<noteq> (b, n) \<longrightarrow> (\<forall>c. \<not> (c - b < n \<and> c - b' < n')))"
proof -
  have "owned s' L"
    using owners.steps_invar [OF assms(2)] assms(1) by (simp add: owned_def)
  then have wf: "pmm_wf s'" and r: "starts_in_map s' (b, n)" "\<And>c. c - b < n \<Longrightarrow> block_used s' c"
    and dis: "\<And>b' n' c. (b', n') \<in> L \<Longrightarrow> (b', n') \<noteq> (b, n) \<Longrightarrow> \<not> (c - b < n \<and> c - b' < n')"
    using assms(3) by (fastforce simp: owned_def in_run_def)+
  have "\<not> 0 - b < n" using run_not_block_0 [OF wf r(1)] by (simp add: in_run_def)
  then show ?thesis using r(2) dis by blast
qed

theorem held_runs_disjoint_witness:
  "\<exists>s' L. pmm_step\<^sup>*\<^sup>* (demo_pmm, {}) (s', L) \<and> (1, 3) \<in> L \<and> (4, 1) \<in> L \<and>
     (\<forall>c. c - 1 < 3 \<longrightarrow> block_used s' c \<and> c \<noteq> 0 \<and> \<not> c - 4 < (1::u32))"
proof -
  let ?s1 = "snd (pmmngr_alloc_blocks 3 demo_pmm)"
  let ?s2 = "snd (pmmngr_alloc_blocks 1 ?s1)"
  have "pmm_step (demo_pmm, {}) (?s1, {(1, 3)})"
    using pmm_step.alloc [OF _ demo_pmm_alloc3, of "{}"] by (simp add: demo_pmm_def)
  moreover have "fst (pmmngr_alloc_blocks 1 ?s1) = 0x4000" by code_simp
  then have "pmmngr_alloc_blocks 1 ?s1 = (0x4000, ?s2)" by (metis prod.collapse)
  then have "pmm_step (?s1, {(1, 3)}) (?s2, {(4, 1), (1, 3)})"
    using pmm_step.alloc [of 1 ?s1 "0x4000" ?s2 "{(1, 3)}"]
      alloc_blocks_effect(8) [OF demo_pmm_wf demo_pmm_alloc3] by (simp add: demo_pmm_def)
  ultimately have run: "pmm_step\<^sup>*\<^sup>* (demo_pmm, {}) (?s2, {(4, 1), (1, 3)})" by auto
  have "(\<forall>c. c - 1 < 3 \<longrightarrow> block_used ?s2 c \<and> c \<noteq> 0) \<and>
    (\<forall>b' n'. (b', n') \<in> {(4, 1), (1, 3)} \<and> (b', n') \<noteq> (1, 3) \<longrightarrow> (\<forall>c :: u32. \<not> (c - 1 < 3 \<and> c - b' < n')))"
    by (rule held_runs_disjoint [OF demo_pmm_wf run]) simp
  then have "\<forall>c. c - 1 < 3 \<longrightarrow> block_used ?s2 c \<and> c \<noteq> 0 \<and> \<not> c - 4 < (1::u32)" by auto
  then show ?thesis using run by blast
qed

text \<open>
  C19. A successful allocation takes the first start that the search accepts: all blocks of the run that lie in
  the map were free, for every earlier start whose run lies in the map some block of that run is used, and afterwards
  exactly the blocks of the run are used in addition, with the counter raised by their number. In particular, where the run
  lies in the map it is the first fit. It need not: the search accepts runs that extend past the end of the
  map, of which only the part in the map is known to have been free.
\<close>

theorem alloc_blocks_first_fit:
  assumes "pmm_wf s" and "pmmngr_alloc_blocks n s = (a, s')" and "a \<noteq> 0"
  shows "(\<forall>k < n. unat (a div BLOCK_SIZE) + unat k < 32 * unat (max_blocks s div 32) \<longrightarrow> \<not> block_used s (a div BLOCK_SIZE + k)) \<and>
    (\<forall>b. b < a div BLOCK_SIZE \<and> in_map s b n \<longrightarrow> (\<exists>c. c - b < n \<and> block_used s c)) \<and>
    (\<forall>c. block_used s' c \<longleftrightarrow> c - a div BLOCK_SIZE < n \<or> block_used s c) \<and>
    a mod BLOCK_SIZE = 0 \<and> used_blocks s' = used_blocks s + n"
proof -
  note eff = alloc_blocks_effect [OF assms(1-3)]
  have "\<not> candidate s n b" if "b < a div BLOCK_SIZE" for b
    using that mmap_first_free_blocks_cases [OF eff(3), of s] eff(2,11) by auto
  then have "\<exists>c. c - b < n \<and> block_used s c" if "b < a div BLOCK_SIZE" "in_map s b n" for b
    using that candidate_iff_run [OF that(2) [unfolded in_map_def] eff(3)] by blast
  moreover note candidate_free [OF eff(2)]
  ultimately show ?thesis using eff by blast
qed

theorem alloc_blocks_first_fit_witness:
  "\<forall>c. block_used (snd (pmmngr_alloc_blocks 3 demo_pmm)) c \<longleftrightarrow>
     c - 1 < (3::u32) \<or> block_used demo_pmm c"
  using alloc_blocks_first_fit [OF demo_pmm_wf demo_pmm_alloc3] by simp

text \<open>
  C21. The search is complete: when more blocks are free than asked for and some run inside the
  map is free, the allocation succeeds, at an address not above that run.
\<close>

theorem alloc_blocks_complete:
  assumes "pmm_wf s" and "n \<noteq> 0" and "n < pmmngr_get_free_block_count s" and "in_map s b n"
    and "\<forall>c. c - b < n \<longrightarrow> \<not> block_used s c"
  shows "fst (pmmngr_alloc_blocks n s) \<noteq> 0 \<and> fst (pmmngr_alloc_blocks n s) div BLOCK_SIZE \<le> b"
  using alloc_blocks_succeeds [OF assms(1,2), of b] assms(3-5)
  by (simp add: in_map_def pmmngr_get_free_block_count_def)

theorem alloc_blocks_complete_witness:
  "fst (pmmngr_alloc_blocks 2 demo_pmm) \<noteq> 0 \<and>
   fst (pmmngr_alloc_blocks 2 demo_pmm) div BLOCK_SIZE \<le> 7"
proof (rule alloc_blocks_complete [OF demo_pmm_wf])
  have "c = 7 \<or> c = 8" if "c - 7 < (2::u32)" for c :: u32
    using that in_region_2 [of 7 c] by (auto simp: in_region_def)
  moreover have "\<not> block_used demo_pmm 7" "\<not> block_used demo_pmm 8" by code_simp+
  ultimately show "\<forall>c. c - 7 < 2 \<longrightarrow> \<not> block_used demo_pmm c" by blast
qed (simp_all add: pmmngr_get_free_block_count_def in_map_def demo_pmm_def)

text \<open>A refused allocation returns the null address and changes nothing.\<close>

theorem alloc_blocks_refused:
  assumes "pmm_wf s" and "fst (pmmngr_alloc_blocks n s) = 0"
  shows "snd (pmmngr_alloc_blocks n s) = s"
  using alloc_blocks_null [OF assms(1), of n] assms(2) by (metis prod.collapse)

theorem alloc_blocks_refused_witness:
  "snd (pmmngr_alloc_blocks 63 demo_pmm) = demo_pmm"
proof (rule alloc_blocks_refused [OF demo_pmm_wf])
  show "fst (pmmngr_alloc_blocks 63 demo_pmm) = 0" by code_simp
qed

text \<open>
  Freeing what was allocated restores the set of used blocks and the counter.
\<close>

theorem alloc_free_roundtrip:
  assumes "pmm_wf s" and "pmmngr_alloc_blocks n s = (a, s')" and "a \<noteq> 0"
    and "in_map s (a div BLOCK_SIZE) n"
  shows "block_used (pmmngr_free_blocks a n s') = block_used s \<and>
    used_blocks (pmmngr_free_blocks a n s') = used_blocks s"
proof -
  note eff = alloc_blocks_effect [OF assms(1-3)]
  have "\<not> block_used s c" if "c - a div BLOCK_SIZE < n" for c
    using that eff(2) candidate_iff_run [OF assms(4) [unfolded in_map_def] eff(3)] by blast
  then show ?thesis
    using eff(6,7) by (auto simp: fun_eq_iff free_blocks_effect)
qed

theorem alloc_free_roundtrip_witness:
  "block_used (pmmngr_free_blocks 0x1000 3 (snd (pmmngr_alloc_blocks 3 demo_pmm))) =
     block_used demo_pmm"
  using alloc_free_roundtrip [OF demo_pmm_wf demo_pmm_alloc3]
  by (simp add: in_map_def demo_pmm_def)

text \<open>
  C6. After \<open>pmmngr_init\<close> every block whose bit the map's whole bytes hold is in use, the
  counter says that all blocks are, and no allocation succeeds.
\<close>

theorem pmmngr_init_all_used:
  "(\<forall>n. n div 8 < sz div BLOCK_SIZE div 8 \<longrightarrow> block_used (pmmngr_init start sz s) n) \<and>
   pmmngr_get_used_block_count (pmmngr_init start sz s) = sz div BLOCK_SIZE \<and>
   pmmngr_alloc_blocks k (pmmngr_init start sz s) = (0, pmmngr_init start sz s)"
  using block_used_init [of _ sz start s]
  by (simp add: pmmngr_get_used_block_count_def pmmngr_alloc_blocks_def
      pmmngr_get_free_block_count_def pmmngr_init_def Let_def pmmngr_get_block_count_def
      pmmngr_get_memory_size_def)

theorem pmmngr_init_all_used_witness:
  "block_used (pmmngr_init 0x30000 0x40000 demo_pmm) 63"
  using pmmngr_init_all_used [of "0x40000" "0x30000" demo_pmm] by simp

text \<open>
  C7. \<open>pmmngr_init_region\<close> frees exactly the whole blocks of the region, except that block 0
  is in use afterwards; \<open>pmmngr_deinit_region\<close> reserves exactly the whole blocks of the region.
\<close>

theorem region_functions_exact:
  "(block_used (pmmngr_init_region base sz s) c \<longleftrightarrow>
      c = 0 \<or> \<not> c - base div BLOCK_SIZE < sz div BLOCK_SIZE \<and> block_used s c) \<and>
   (block_used (pmmngr_deinit_region base sz s) c \<longleftrightarrow>
      c - base div BLOCK_SIZE < sz div BLOCK_SIZE \<or> block_used s c) \<and>
   used_blocks (pmmngr_init_region base sz s) = used_blocks s - sz div BLOCK_SIZE \<and>
   used_blocks (pmmngr_deinit_region base sz s) = used_blocks s + sz div BLOCK_SIZE"
  by (simp add: init_region_effect deinit_region_effect)

text \<open>
  C28. Initialising, releasing regions and reserving regions in any order, as the boot sequence
  does, establishes the invariant of the allocator.
\<close>

datatype region_op = Init_region u32 u32 | Deinit_region u32 u32

fun run_region :: "region_op \<Rightarrow> 'a pmm \<Rightarrow> 'a pmm" where
  "run_region (Init_region base sz) = pmmngr_init_region base sz"
| "run_region (Deinit_region base sz) = pmmngr_deinit_region base sz"

theorem boot_establishes_wf:
  assumes "0x8000 \<le> sz"
  shows "pmm_wf (fold run_region ops (pmmngr_init start sz s))"
proof -
  have "0 < sz div 4096 div 8"
    using assms by (simp add: word_less_nat_alt word_le_nat_alt unat_div)
  then have "block_used (pmmngr_init start sz s) 0" by (simp add: block_used_init)
  moreover have "max_blocks (pmmngr_init start sz s) < 0x100000"
    using unat_u32_bound [of sz]
    by (simp add: pmmngr_init_def Let_def pmmngr_get_memory_size_def word_less_nat_alt unat_div)
  ultimately have init: "pmm_wf (pmmngr_init start sz s)" by (simp add: pmm_wf_def)
  have step: "pmm_wf (run_region op t)" if "pmm_wf t" for op and t :: "'a pmm"
    using that by (cases op) (simp_all add: pmm_wf_def init_region_effect deinit_region_effect)
  have "pmm_wf t \<Longrightarrow> pmm_wf (fold run_region ops t)" for t :: "'a pmm"
    by (induction ops arbitrary: t) (simp_all add: step)
  with init show ?thesis by blast
qed

theorem boot_establishes_wf_witness:
  "pmm_wf (fold run_region [Init_region 0 0x9F000, Deinit_region 0x1000 0x15000]
     (pmmngr_init 0x30000 0x2000000 demo_pmm))"
  by (rule boot_establishes_wf) simp

text \<open>
  The search does not stop at the end of the map: with 64 blocks of which only 32 and 63 are
  free, a request for two adjacent blocks is answered with blocks 63 and 64, the second of which
  does not exist.
\<close>

theorem alloc_blocks_past_the_end:
  "\<exists>s :: pmm_state. pmm_wf s \<and> max_blocks s = 64 \<and>
     fst (pmmngr_alloc_blocks 2 s) = 63 * BLOCK_SIZE \<and>
     block_used (snd (pmmngr_alloc_blocks 2 s)) 64 \<and> \<not> block_used s 64"
proof (intro exI conjI)
  let ?s = "demo_pmm\<lparr>ram := \<lambda>x. if x - 0x30000 < 4 then 0xFF else if x = 0x30004 then 0xFE
      else if x = 0x30007 then 0x7F else if x - 0x30005 < 2 then 0xFF else 0\<rparr>"
  show "pmm_wf ?s" "max_blocks ?s = 64" "fst (pmmngr_alloc_blocks 2 ?s) = 63 * BLOCK_SIZE"
    "\<not> block_used ?s 64" by code_simp+
  then show "block_used (snd (pmmngr_alloc_blocks 2 ?s)) 64"
    using alloc_blocks_effect(6) [of ?s 2 "63 * BLOCK_SIZE" "snd (pmmngr_alloc_blocks 2 ?s)" 64]
    by (cases "pmmngr_alloc_blocks 2 ?s") simp
qed

text \<open>
  C10. The counter drifts from the map: releasing a region that starts at 0 lowers
  \<open>used_blocks\<close> for block 0 although block 0 is marked used again, so the manager counts one
  free block that does not exist.
\<close>

theorem init_region_miscounts_block_0:
  assumes "block_used s 0" and "BLOCK_SIZE \<le> sz"
  shows "used_blocks (pmmngr_init_region 0 sz s) = used_blocks s - sz div BLOCK_SIZE \<and>
    (\<forall>c. block_used s c \<and> \<not> block_used (pmmngr_init_region 0 sz s) c \<longrightarrow>
      0 < c \<and> c < sz div BLOCK_SIZE)"
  using assms by (auto simp: init_region_effect word_gt_0)

theorem init_region_miscounts_block_0_witness:
  "used_blocks (pmmngr_init_region 0 0x4000 (pmmngr_init 0x30000 0x40000 demo_pmm)) = 60"
  using init_region_miscounts_block_0 [of "pmmngr_init 0x30000 0x40000 demo_pmm" "0x4000"]
    block_used_init [of 0 "0x40000" "0x30000" demo_pmm]
  by (simp add: pmmngr_init_def Let_def pmmngr_get_memory_size_def pmmngr_get_block_count_def)

end
