(* ===== verification/Virtual_space.thy ===== *)
theory Virtual_space
  imports Virtual_init Physical_owner
begin

text \<open>
  Correctness of the virtual memory manager as properties: the address space that the set-up
  builds and when it succeeds, mapping and unmapping of pages, and address translation in software.
\<close>

unbundle bit_operations_syntax

section \<open>When the set-up succeeds\<close>

lemma room_left:
  assumes "unat n + unat k < unat (m - u)"
  shows "n < m - (u + k :: u32)"
proof -
  have "unat ((m - u) - k) = unat (m - u) - unat k"
    using assms by (subst unat_sub_if') simp
  then have "unat n < unat ((m - u) - k)" using assms by simp
  then show ?thesis by (simp only: word_less_nat_alt diff_diff_add)
qed

lemma init_tables_used:
  assumes wf: "memory_wf s" and it: "init_tables s = Some (a, b, t)" and c: "block_in_map s c"
  shows "block_used t c \<longleftrightarrow> c = a div 4096 \<or> c = b div 4096 \<or> block_used s c"
proof -
  obtain s1 s2 where al: "pmmngr_alloc_blocks 1 s = (a, s1)" "pmmngr_alloc_blocks 1 s1 = (b, s2)"
    and nz: "a \<noteq> 0" "b \<noteq> 0"
    and t: "t = s2\<lparr>ram := fill_table kernel_page b 0x100000 0xC0000000
           (fill_table default_page a 0 0 (memset b 0 4096 (memset a 0 4096 (ram s2))))\<rparr>"
    using it by (auto simp: init_tables_def pmmngr_alloc_block_def Let_def split: prod.splits if_splits)
  note A = alloc_blocks_reserved [OF wf al(1) _ nz(1), simplified]
  note B = alloc_blocks_reserved [OF A(1) al(2) _ nz(2), simplified]
  have res: "reserved_frame s2 a" "reserved_frame s2 b" using A(2) B(2,4) by blast+
  have pwf: "pmm_wf s" "pmm_wf s1" using wf A(1) by (simp_all add: memory_wf_def)
  note ea = alloc_blocks_effect [OF pwf(1) al(1) nz(1)] and eb = alloc_blocks_effect [OF pwf(2) al(2) nz(2)]
  have aln: "a mod 4096 = 0" "b mod 4096 = 0" using res by (simp_all add: reserved_frame_def)
  have v: "(0::u32) mod 0x400000 = 0" "(0xC0000000::u32) mod 0x400000 = 0" by simp_all
  have "block_used t c = block_used s2 c"
  proof (rule block_used_cong)
    show "block_in_map s2 c" using c by (simp add: block_in_map_def ea(8) eb(8))
    fix x assume "map_byte s2 x"
    with res show "ram t x = ram s2 x"
      using fill_table_effect(2) [OF aln(1) v(1)] fill_table_effect(2) [OF aln(2) v(2)]
        frame_clear_map [OF res(1)] frame_clear_map [OF res(2)]
      by (simp add: t reserved_frame_def)
  qed (simp_all add: t)
  then show ?thesis using ea(6) [of c] eb(6) [of c] by (auto simp: word_less_1)
qed

lemma init_tables_exists:
  assumes wf: "memory_wf s" and free: "2 < max_blocks s - used_blocks s" and inm: "in_map s b 2"
    and run: "\<not> block_used s b" "\<not> block_used s (b + 1)"
  obtains a a' t where "init_tables s = Some (a, a', t)" "a div 4096 \<le> b" "a' div 4096 \<le> b + 1"
proof -
  have pwf: "pmm_wf s" using wf by (simp add: memory_wf_def)
  obtain a s1 where al: "pmmngr_alloc_blocks 1 s = (a, s1)" by fastforce
  have one: "c - d < 1 \<longleftrightarrow> c = d" for c d :: u32 by (auto simp: word_less_1)
  have nf: "1 < max_blocks s - used_blocks s" "1 < max_blocks s - (used_blocks s + 1)"
    using free room_left [of 1 1] by (simp_all add: word_less_nat_alt)
  have fits: "unat b + unat (1::u32) \<le> 32 * unat (max_blocks s div 32)"
    "unat (b + 1) + unat (1::u32) \<le> 32 * unat (max_blocks s div 32)"
    using inm in_map_bound [OF pwf inm] by (simp_all add: in_map_def unat_word_ariths)
  have a: "a \<noteq> 0" "a div 4096 \<le> b"
    using alloc_blocks_succeeds [OF pwf _ nf(1) fits(1)] al one run(1) by auto
  note A = alloc_blocks_effect [OF pwf al a(1)]
  have pwf1: "pmm_wf s1" by (rule alloc_blocks_wf [OF pwf al])
  obtain a' s2 where al': "pmmngr_alloc_blocks 1 s1 = (a', s2)" by fastforce
  have "b + 1 \<noteq> a div 4096"
  proof
    assume "b + 1 = a div 4096"
    then have "b + 1 \<le> b" using a(2) by simp
    with in_map_bound [OF pwf inm] show False by (simp add: word_le_nat_alt unat_word_ariths)
  qed
  then have "\<not> block_used s1 (b + 1)" using A(6) [of "b + 1"] run(2) one by auto
  then have a': "a' \<noteq> 0" "a' div 4096 \<le> b + 1"
    using alloc_blocks_succeeds [OF pwf1, of 1 "b + 1"] al' one nf(2) fits(2) A(7,8) by auto
  show ?thesis
    using that a a' al al' by (simp add: init_tables_def pmmngr_alloc_block_def Let_def)
qed


lemma vmmngr_init_places:
  assumes wf: "memory_wf s" and free: "5 < pmmngr_get_free_block_count s" and inm: "in_map s b 5"
    and run: "\<forall>c. c - b < 5 \<longrightarrow> \<not> block_used s c"
  obtains a a' t d u where "init_tables s = Some (a, a', t)" "pmmngr_alloc_blocks 3 t = (d, u)" "d \<noteq> 0"
    "a div 4096 \<le> b" "a' div 4096 \<le> b + 1" "d div 4096 \<le> b + 2"
proof -
  let ?w = "32 * unat (max_blocks s div 32)"
  have pwf: "pmm_wf s" using wf by (simp add: memory_wf_def)
  have ub: "unat b + 5 \<le> ?w" "unat b + 5 < 0x100000"
    using inm in_map_bound [OF pwf inm] by (simp_all add: in_map_def)
  have free': "5 < unat (max_blocks s - used_blocks s)"
    using free by (simp add: pmmngr_get_free_block_count_def word_less_nat_alt)
  have "in_map s b 2" using ub by (simp add: in_map_def)
  moreover have "\<not> block_used s b" "\<not> block_used s (b + 1)" using run by simp_all
  moreover have "2 < max_blocks s - used_blocks s" using free' by (simp add: word_less_nat_alt)
  ultimately obtain a a' t where it: "init_tables s = Some (a, a', t)"
    and le: "a div 4096 \<le> b" "a' div 4096 \<le> b + 1"
    using init_tables_exists [OF wf] by blast
  note T = init_tables_effect [OF wf it]
  have later: "\<not> block_used t c" if c: "c - (b + 2) < 3" for c
  proof -
    define k where "k = c - (b + 2)"
    have k: "unat k < 3" "c = b + 2 + k" using c by (simp_all add: k_def word_less_nat_alt)
    then have uc: "unat c = unat b + 2 + unat k" using ub by (simp add: unat_word_ariths)
    have "c - b = 2 + k" using k(2) by simp
    moreover have "unat (2 + k) < 5" using k(1) by (simp add: unat_word_ariths)
    ultimately have "\<not> block_used s c" using run by (simp add: word_less_nat_alt)
    moreover have "c \<noteq> a div 4096" "c \<noteq> a' div 4096"
      using le uc ub by (auto simp: word_le_nat_alt unat_word_ariths)
    moreover have "block_in_map s c"
      using uc k(1) ub(1) by (simp add: block_in_map_def word_less_nat_alt unat_div)
    ultimately show ?thesis using init_tables_used [OF wf it] by simp
  qed
  have "pmm_wf t" using T(1) by (simp add: memory_wf_def)
  moreover have "3 < max_blocks t - used_blocks t"
    using free' room_left [of 3 2] by (simp add: T(7,8))
  moreover have "unat (b + 2) + unat (3::u32) \<le> 32 * unat (max_blocks t div 32)"
    using ub by (simp add: T(8) unat_word_ariths)
  ultimately have "fst (pmmngr_alloc_blocks 3 t) \<noteq> 0" "fst (pmmngr_alloc_blocks 3 t) div 4096 \<le> b + 2"
    using alloc_blocks_succeeds [of t 3 "b + 2"] later by simp_all
  then show ?thesis using that it le by (metis prod.collapse)
qed

lemma vmmngr_init_succeeds:
  assumes wf: "memory_wf s" and free: "5 < pmmngr_get_free_block_count s" and inm: "in_map s b 5"
    and run: "\<forall>c. c - b < 5 \<longrightarrow> \<not> block_used s c"
  obtains a a' t d u where "init_tables s = Some (a, a', t)" "pmmngr_alloc_blocks 3 t = (d, u)" "d \<noteq> 0"
  by (rule vmmngr_init_places [OF assms]) (rule that)

section \<open>Properties of the set-up\<close>

text \<open>
  The address space of the kernel: the first 4 MiB mapped to themselves, 4 MiB from 3 GiB on mapped
  to the memory from 1 MiB on, every other access a page fault.
\<close>

definition kernel_space :: "u32 \<Rightarrow> u32 option" where
  "kernel_space va =
     (if va < 0x400000 then Some va
      else if 0xC0000000 \<le> va \<and> va < 0xC0400000 then Some (va - 0xC0000000 + 0x100000)
      else None)"

lemma vmmngr_init_paging:
  assumes "\<not> bit (cr0 s) 31" "bit (cr0 (vmmngr_init s)) 31"
  obtains a b t d u where "init_tables s = Some (a, b, t)" "pmmngr_alloc_blocks 3 t = (d, u)" "d \<noteq> 0"
proof -
  obtain a s1 b s2 where al: "pmmngr_alloc_block s = (a, s1)" "pmmngr_alloc_block s1 = (b, s2)"
    by fastforce
  have cr0: "cr0 s1 = cr0 s" "cr0 s2 = cr0 s"
    using alloc_blocks_cpu [of 1 s a s1] alloc_blocks_cpu [of 1 s1 b s2] al
    by (simp_all add: pmmngr_alloc_block_def)
  then have nz: "a \<noteq> 0" "b \<noteq> 0"
    using assms al by (auto simp: vmmngr_init_def Let_def split: if_splits)
  then obtain t where it: "init_tables s = Some (a, b, t)" "cr0 t = cr0 s2"
    and t: "t = s2\<lparr>ram := fill_table kernel_page b 0x100000 0xC0000000
           (fill_table default_page a 0 0 (memset b 0 4096 (memset a 0 4096 (ram s2))))\<rparr>"
    using al by (simp add: init_tables_def Let_def)
  obtain d u where du: "pmmngr_alloc_blocks 3 t = (d, u)" by fastforce
  have "cr0 u = cr0 s" using alloc_blocks_cpu [OF du] cr0 it(2) by simp
  then have "d \<noteq> 0"
    using assms al nz du t by (auto simp: vmmngr_init_def Let_def split: if_splits)
  then show ?thesis using that it(1) du by blast
qed

text \<open>
  C14. When the set-up turns paging on, CR3 holds the new directory, the processor translates
  exactly the kernel's address space, and the address space is well-formed.
\<close>

theorem vmmngr_init_address_space:
  assumes "memory_wf s" and "\<not> bit (cr0 s) 31" and "bit (cr0 (vmmngr_init s)) 31"
  shows "vmm_wf (vmmngr_init s) \<and> cr3 (vmmngr_init s) = curdir (vmmngr_init s) \<and>
    mmu_walk (ram (vmmngr_init s)) (cr3 (vmmngr_init s)) = kernel_space"
proof -
  obtain a b t d u where "init_tables s = Some (a, b, t)" "pmmngr_alloc_blocks 3 t = (d, u)" "d \<noteq> 0"
    using vmmngr_init_paging [OF assms(2,3)] .
  note ok = vmmngr_init_ok [OF assms(1) this]
  show ?thesis using ok(1,2,4) by (auto simp: kernel_space_def)
qed

text \<open>
  The set-up succeeds and turns paging on whenever more than five blocks are free and five
  adjacent ones exist in the map.
\<close>

theorem vmmngr_init_completes:
  assumes "memory_wf s" and "5 < pmmngr_get_free_block_count s" and "in_map s b 5"
    and "\<forall>c. c - b < 5 \<longrightarrow> \<not> block_used s c"
  shows "bit (cr0 (vmmngr_init s)) 31 \<and> cr3 (vmmngr_init s) = curdir (vmmngr_init s) \<and>
    mmu_walk (ram (vmmngr_init s)) (cr3 (vmmngr_init s)) = kernel_space"
proof -
  obtain a b t d u where "init_tables s = Some (a, b, t)" "pmmngr_alloc_blocks 3 t = (d, u)" "d \<noteq> 0"
    using vmmngr_init_succeeds [OF assms] .
  note ok = vmmngr_init_ok [OF assms(1) this]
  show ?thesis using ok(2-4) by (auto simp: kernel_space_def)
qed

section \<open>A machine for the witnesses\<close>

text \<open>64 blocks, block 0 and the block of the bitmap reserved.\<close>

definition demo_vmm :: vmm_state where
  "demo_vmm = \<lparr>ram = (\<lambda>x. if x = 0x30000 \<or> x = 0x30006 then 1 else 0), io_log = [],
     dev_b = (\<lambda>_ _. 0), dev_w = (\<lambda>_ _. 0), cr0 = 0, cr2 = 0, cr3 = 0, int_flag = False,
     halted = False, invlpg_log = [], cursor_x = 0, cursor_y = 0, memory_size = 0x40000, used_blocks = 2, max_blocks = 64,
     memory_map = 0x30000, curdir = 0\<rparr>"

lemma demo_vmm_wf: "memory_wf demo_vmm"
proof -
  have "x div 4096 = 48" if "map_byte demo_vmm x" for x
  proof -
    define r where "r = x - 0x30000"
    have "unat r < 12" "x = 0x30000 + r"
      using that by (simp_all add: r_def map_byte_def in_region_def demo_vmm_def word_less_nat_alt)
    then show ?thesis by (simp add: word_unat_eq_iff unat_div unat_word_ariths)
  qed
  moreover have "block_in_map demo_vmm 48" "block_used demo_vmm 48" "block_used demo_vmm 0"
    by code_simp+
  ultimately show ?thesis
    by (auto simp: memory_wf_def map_reserved_def pmm_wf_def) (simp_all add: demo_vmm_def)
qed

lemma demo_vmm_run: "\<forall>c. c - 1 < 5 \<longrightarrow> \<not> block_used demo_vmm c"
proof (intro allI impI)
  fix c :: u32 assume c: "c - 1 < 5"
  define r where "r = c - 1"
  have "unat r < 5" "c = 1 + r" using c by (simp_all add: r_def word_less_nat_alt)
  then have "unat c \<in> {1, 2, 3, 4, 5}" by (auto simp: unat_word_ariths)
  then have "c = 1 \<or> c = 2 \<or> c = 3 \<or> c = 4 \<or> c = 5" by (auto simp: word_unat_eq_iff)
  moreover have "\<not> block_used demo_vmm 1" "\<not> block_used demo_vmm 2" "\<not> block_used demo_vmm 3"
    "\<not> block_used demo_vmm 4" "\<not> block_used demo_vmm 5" by code_simp+
  ultimately show "\<not> block_used demo_vmm c" by blast
qed

lemma demo_vmm_room: "5 < pmmngr_get_free_block_count demo_vmm" "in_map demo_vmm 1 5"
  by (simp_all add: pmmngr_get_free_block_count_def in_map_def demo_vmm_def)

definition demo_space :: vmm_state where
  "demo_space = vmmngr_init demo_vmm"

lemma demo_space_ok: "vmm_wf demo_space" "cr3 demo_space = curdir demo_space"
  "bit (cr0 demo_space) 31" "mmu_walk (ram demo_space) (curdir demo_space) = kernel_space"
  "pde demo_space 512 = 0"
proof -
  obtain a b t d u where "init_tables demo_vmm = Some (a, b, t)" "pmmngr_alloc_blocks 3 t = (d, u)" "d \<noteq> 0"
    using vmmngr_init_succeeds [OF demo_vmm_wf demo_vmm_room demo_vmm_run] .
  note ok = vmmngr_init_ok [OF demo_vmm_wf this]
  show "vmm_wf demo_space" "cr3 demo_space = curdir demo_space"
    "bit (cr0 demo_space) 31" "mmu_walk (ram demo_space) (curdir demo_space) = kernel_space"
    "pde demo_space 512 = 0"
    using ok(1-4) ok(5) [of 512] by (auto simp: kernel_space_def demo_space_def)
qed

theorem vmmngr_init_address_space_witness:
  "mmu_walk (ram (vmmngr_init demo_vmm)) (cr3 (vmmngr_init demo_vmm)) 0xC0000123 = Some 0x100123"
proof -
  have "\<not> bit (cr0 demo_vmm) 31" by (simp add: demo_vmm_def)
  then have "mmu_walk (ram (vmmngr_init demo_vmm)) (cr3 (vmmngr_init demo_vmm)) = kernel_space"
    using vmmngr_init_address_space [OF demo_vmm_wf] demo_space_ok(3) unfolding demo_space_def by blast
  then show ?thesis by (simp only: kernel_space_def) simp
qed

theorem vmmngr_init_completes_witness: "bit (cr0 (vmmngr_init demo_vmm)) 31"
  using vmmngr_init_completes [OF demo_vmm_wf demo_vmm_room demo_vmm_run] by simp

end
