(* ===== verification/Virtual_ops.thy ===== *)
theory Virtual_ops
  imports Virtual_space
begin

text \<open>
  Properties of the page operations: mapping that fails, unmapping, translation in software, and
  the allocation of a page for an entry.
\<close>

unbundle bit_operations_syntax

section \<open>Unmapping\<close>

definition unmapped_entry :: "u32 \<Rightarrow> u32" where
  "unmapped_entry e = pt_entry_del_attrib (pte_flag PTE_PRESENT) (pt_entry_set_frame 0 e)"

lemma unmapped_entry_facts:
  "\<not> entry_present (unmapped_entry e)" "\<not> bit e 31 \<Longrightarrow> \<not> bit (unmapped_entry e) 31"
  by (simp_all add: unmapped_entry_def entry_present_def pt_entry_del_attrib_def
      pt_entry_set_frame_def bit_simps bit_1_iff)

lemma get_page_present:
  assumes "vmm_wf s" "entry_present (pde s (PAGE_DIR_INDEX va))"
  shows "vmmngr_get_page va s = entry_frame (pde s (PAGE_DIR_INDEX va)) + 4 * PAGE_TABLE_INDEX va"
    "vmmngr_get_page va s \<noteq> 0"
proof -
  note D = vmm_wf_curdir [OF assms(1)] and T = vmm_wfD [OF assms(1) index_bounds(1) assms(2)]
  show eq: "vmmngr_get_page va s = entry_frame (pde s (PAGE_DIR_INDEX va)) + 4 * PAGE_TABLE_INDEX va"
    using D(3) T(4)
    by (simp add: vmmngr_get_page_def vmmngr_get_directory_def vmmngr_pdirectory_get_entry_def
        vmmngr_ptable_get_entry_def PAGE_GET_PHYSICAL_ADDRESS_def entry_frame_def pde_def Let_def)
  have frame: "x div 4096 = entry_frame (pde s (PAGE_DIR_INDEX va)) div 4096"
    if "in_region (entry_frame (pde s (PAGE_DIR_INDEX va)) + 4 * PAGE_TABLE_INDEX va) 4 x" for x
    using slot_in_frame [OF T(3) index_bounds(2) that] .
  show "vmmngr_get_page va s \<noteq> 0"
  proof
    assume "vmmngr_get_page va s = 0"
    with eq frame [of 0] have "0 = entry_frame (pde s (PAGE_DIR_INDEX va)) div 4096"
      by (simp add: in_region_def)
    with aligned_eq [OF T(3), of 0] T(4) show False by simp
  qed
qed

lemma unmap_page_present:
  assumes "vmm_wf s" "entry_present (pde s (PAGE_DIR_INDEX va))"
  defines "T \<equiv> entry_frame (pde s (PAGE_DIR_INDEX va)) + 4 * PAGE_TABLE_INDEX va"
  shows "vmmngr_unmap_page va s = s\<lparr>ram := store32 (ram s) T (unmapped_entry (load32 (ram s) T))\<rparr>"
  using get_page_present [OF assms(1,2)]
  by (simp add: vmmngr_unmap_page_def T_def unmapped_entry_def Let_def modify32_def)

lemma unmap_page_absent:
  assumes "vmm_wf s" "entry_frame (pde s (PAGE_DIR_INDEX va)) = 0"
  shows "vmmngr_unmap_page va s = s"
  using assms(2) vmm_wf_curdir(3) [OF assms(1)]
  by (simp add: vmmngr_unmap_page_def vmmngr_get_page_def vmmngr_get_directory_def
      vmmngr_pdirectory_get_entry_def vmmngr_ptable_get_entry_def PAGE_GET_PHYSICAL_ADDRESS_def
      entry_frame_def pde_def Let_def)

lemma unmap_page_walk:
  assumes wf: "vmm_wf s" and pres: "entry_present (pde s (PAGE_DIR_INDEX virt))"
  defines "s' \<equiv> vmmngr_unmap_page virt s"
  shows "vmm_wf s'" "mmu_walk (ram s') (curdir s') va =
    (if va div 4096 = virt div 4096 then None else mmu_walk (ram s) (curdir s) va)"
proof -
  let ?i = "PAGE_DIR_INDEX virt" and ?j = "PAGE_TABLE_INDEX virt"
  let ?v = "unmapped_entry (pte s ?i ?j)"
  have s': "s' = s\<lparr>ram := store32 (ram s) (entry_frame (pde s ?i) + 4 * ?j) ?v\<rparr>"
    by (simp add: s'_def unmap_page_present [OF wf pres] pte_def)
  have "\<not> bit (pte s ?i ?j) 31" using vmm_wfD(5) [OF wf _ pres] by simp
  note W = write_pte [OF wf _ pres _ unmapped_entry_facts(2) [OF this], of ?j, simplified, folded s']
  show "vmm_wf s'" by (rule W(3))
  show "mmu_walk (ram s') (curdir s') va =
    (if va div 4096 = virt div 4096 then None else mmu_walk (ram s) (curdir s) va)"
    using W(1,2) unmapped_entry_facts(1)
    by (auto simp: mmu_walk_entries Let_def page_of_indices)
qed

section \<open>Properties\<close>

lemma demo_space_mapped: "entry_present (pde demo_space (PAGE_DIR_INDEX 0x1000))"
proof -
  have "mmu_walk (ram demo_space) (curdir demo_space) 0x1000 = Some 0x1000"
    unfolding demo_space_ok(4) by (simp add: kernel_space_def)
  then show ?thesis unfolding mmu_walk_entries Let_def by (auto split: if_splits)
qed

lemma vmmngr_init_max: "max_blocks (vmmngr_init s) = max_blocks s"
proof -
  have al: "max_blocks (snd (pmmngr_alloc_blocks n t)) = max_blocks t" for n and t :: "'a vmm"
    by (cases n t rule: alloc_blocks_cases) simp_all
  have al1: "max_blocks (snd (pmmngr_alloc_block t)) = max_blocks t" for t :: "'a vmm"
    by (simp add: pmmngr_alloc_block_def al)
  show ?thesis
    unfolding vmmngr_init_def Let_def split_beta
    by (simp add: al al1 init_pd_entry_def vmmngr_switch_pdirectory_def vmmngr_enable_paging_def
        modify32_def Let_def)
qed

lemma map_page_walk:
  assumes "vmm_wf s" and "phys mod PAGE_SIZE = 0" and "phys < 0x80000000"
    and "entry_present (pde s (PAGE_DIR_INDEX virt)) \<or> fst (pmmngr_alloc_block s) \<noteq> 0"
  shows "vmm_wf (vmmngr_map_page phys virt s) \<and>
    (\<forall>va. mmu_walk (ram (vmmngr_map_page phys virt s)) (curdir (vmmngr_map_page phys virt s)) va =
      (if va div PAGE_SIZE = virt div PAGE_SIZE then Some (phys OR (va AND 0xFFF))
       else mmu_walk (ram s) (curdir s) va))"
  using map_page_present_walk [OF assms(1) _ assms(2) below_2G_bit [OF assms(3)], of virt]
    map_page_absent_walk [OF assms(1) _ _ assms(2) below_2G_bit [OF assms(3)], of virt] assms(4)
  by (metis (no_types, lifting))

lemma unmap_page_any:
  assumes "vmm_wf s"
    and "entry_present (pde s (PAGE_DIR_INDEX virt)) \<or> pde s (PAGE_DIR_INDEX virt) = 0"
  shows "vmm_wf (vmmngr_unmap_page virt s) \<and>
    (\<forall>va. mmu_walk (ram (vmmngr_unmap_page virt s)) (curdir (vmmngr_unmap_page virt s)) va =
      (if va div PAGE_SIZE = virt div PAGE_SIZE then None else mmu_walk (ram s) (curdir s) va))"
proof (cases "entry_present (pde s (PAGE_DIR_INDEX virt))")
  case True
  then show ?thesis using unmap_page_walk [OF assms(1) True] by simp
next
  case False
  with assms(2) have "entry_frame (pde s (PAGE_DIR_INDEX virt)) = 0" by (simp add: entry_frame_def)
  with False assms(1) show ?thesis
    by (auto simp: unmap_page_absent mmu_walk_entries Let_def page_of_indices)
qed





text \<open>
  Mapping into a region that has no page table, when no block is free for one, changes
  nothing at all.
\<close>

theorem map_page_refused:
  assumes "vmm_wf s" and "\<not> entry_present (pde s (PAGE_DIR_INDEX virt))"
    and "fst (pmmngr_alloc_block s) = 0"
  shows "vmmngr_map_page phys virt s = s"
  using map_page_absent(1) [OF assms(1,2), of 0 "snd (pmmngr_alloc_block s)"] assms(3)
  by (metis prod.collapse)

theorem map_page_refused_witness:
  "vmmngr_map_page 0x5000 0x80000000 (demo_space\<lparr>used_blocks := 64\<rparr>) = demo_space\<lparr>used_blocks := 64\<rparr>"
proof (rule map_page_refused)
  let ?s = "demo_space\<lparr>used_blocks := 64\<rparr>"
  have max: "max_blocks demo_space = 64"
    using vmmngr_init_max [of demo_vmm] by (simp add: demo_space_def demo_vmm_def)
  then show "fst (pmmngr_alloc_block ?s) = 0"
    by (simp add: pmmngr_alloc_block_def pmmngr_alloc_blocks_def pmmngr_get_free_block_count_def)
  have "pde ?s = pde demo_space" "pte ?s = pte demo_space"
    by (simp_all add: fun_eq_iff pde_def pte_def)
  then show "vmm_wf ?s" "\<not> entry_present (pde ?s (PAGE_DIR_INDEX 0x80000000))"
    using demo_space_ok(1,5)
    by (simp_all add: vmm_wf_def memory_wf_def reserved_frame_def map_reserved_def pmm_wf_def
        map_byte_def block_in_map_def PAGE_DIR_INDEX_def entry_present_def)
qed

text \<open>
  The software translation agrees with the processor exactly on page boundaries: elsewhere
  it adds the offset in words, not in bytes.
\<close>

theorem virt_to_phys_only_aligned:
  assumes "vmm_wf s" and "mmu_walk (ram s) (curdir s) va = Some pa"
  shows "vmmngr_virt_to_phys va s = pa \<longleftrightarrow> va mod PAGE_SIZE = 0"
proof -
  let ?i = "PAGE_DIR_INDEX va" and ?j = "PAGE_TABLE_INDEX va"
  have pres: "entry_present (pde s ?i)" and pa: "pa = entry_frame (pte s ?i ?j) OR (va AND 0xFFF)"
    using assms(2) by (auto simp: mmu_walk_entries Let_def split: if_splits)
  have soft: "vmmngr_virt_to_phys va s = entry_frame (pte s ?i ?j) + 4 * (va AND 0xFFF)"
    using get_page_present(1) [OF assms(1) pres]
    by (simp add: vmmngr_virt_to_phys_def PAGE_GET_PHYSICAL_ADDRESS_def pte_def entry_frame_def Let_def)
  have off: "unat (va AND 0xFFF) = unat va mod 4096" by (rule address_parts(2))
  have "pa = entry_frame (pte s ?i ?j) + (va AND 0xFFF)" using pa or_offset by simp
  then have "vmmngr_virt_to_phys va s = pa \<longleftrightarrow> 4 * (va AND 0xFFF) = va AND 0xFFF"
    by (simp add: soft)
  also have "\<dots> \<longleftrightarrow> unat va mod 4096 = 0"
  proof -
    have "unat (4 * (va AND 0xFFF)) = 4 * (unat va mod 4096)"
      by (simp add: unat_word_ariths off)
    then show ?thesis by (auto simp: word_unat_eq_iff off)
  qed
  finally show ?thesis by (simp add: word_unat_eq_iff unat_mod)
qed

theorem virt_to_phys_only_aligned_witness: "vmmngr_virt_to_phys 0x1234 demo_space \<noteq> 0x1234"
proof -
  have "mmu_walk (ram demo_space) (curdir demo_space) 0x1234 = Some 0x1234"
    unfolding demo_space_ok(4) by (simp add: kernel_space_def)
  then show ?thesis
    using virt_to_phys_only_aligned [OF demo_space_ok(1), of "0x1234" "0x1234"] by simp
qed

text \<open>
  Allocating a page for an entry points the entry to a block that was free, and freeing the
  page of that entry gives the block back and clears the present bit.
\<close>

theorem alloc_page_free_page:
  assumes "memory_wf s" and "\<not> bit e 31" and "vmmngr_alloc_page e s = ((p, e'), s')" and "p \<noteq> 0"
  shows "\<not> block_used s (p div BLOCK_SIZE) \<and> block_used s' (p div BLOCK_SIZE) \<and>
    entry_present e' \<and> entry_frame e' = p \<and>
    block_used (snd (vmmngr_free_page e' s')) = block_used s \<and>
    \<not> entry_present (fst (vmmngr_free_page e' s'))"
proof -
  have al: "pmmngr_alloc_block s = (p, s')"
    and e': "e' = pt_entry_add_attrib (pte_flag PTE_PRESENT) (pt_entry_set_frame p e)"
    using assms(3,4) by (auto simp: vmmngr_alloc_page_def Let_def split: prod.splits if_splits)
  have pwf: "pmm_wf s" using assms(1) by (simp add: memory_wf_def)
  note A = alloc_blocks_effect [OF pwf al [unfolded pmmngr_alloc_block_def] assms(4)]
  have p: "p mod 4096 = 0" "\<not> bit p 31"
    using A(1) max_blocks_frame_bit [OF _ A(5)] assms(1) by (simp_all add: memory_wf_def)
  have "bit (e' AND pte_flag PTE_FRAME) n = bit p n" for n
  proof (cases "n < 32")
    case True
    then have "n < 31 \<or> n = 31" by linarith
    with p assms(2) show ?thesis
      by (auto simp: e' pt_entry_add_attrib_def pt_entry_set_frame_def bit_simps aligned_bits bit_1_iff
          not_less)
  qed (auto dest: bit_imp_le_length)
  then have pfn: "pt_entry_pfn e' = p" by (auto simp: pt_entry_pfn_def intro: bit_eqI)
  have frame: "entry_frame e' = p"
  proof -
    have "entry_frame (x OR 1) = entry_frame x" for x
      by (rule bit_word_eqI) (auto simp: bit_entry_frame bit_or_iff bit_1_iff)
    then show ?thesis
      using set_frame_frame(1) [OF p(1) assms(2)] by (simp add: e' pt_entry_add_attrib_def)
  qed
  have "block_used (snd (vmmngr_free_page e' s')) = block_used s"
    using pfn assms(4) A(4,6)
    by (auto simp: vmmngr_free_page_def Let_def pmmngr_free_block_def free_blocks_effect fun_eq_iff
        word_less_1)
  then show ?thesis
    using A(4,6) frame
    by (auto simp: e' vmmngr_free_page_def Let_def entry_present_def pt_entry_add_attrib_def
        pt_entry_del_attrib_def bit_simps bit_1_iff)
qed

theorem alloc_page_free_page_witness:
  "block_used (snd (vmmngr_free_page 0x1003 (snd (vmmngr_alloc_page 2 demo_vmm)))) = block_used demo_vmm"
proof -
  have "fst (vmmngr_alloc_page 2 demo_vmm) = (0x1000, 0x1003)" by code_simp
  then have "vmmngr_alloc_page 2 demo_vmm = ((0x1000, 0x1003), snd (vmmngr_alloc_page 2 demo_vmm))"
    by (metis prod.collapse)
  from alloc_page_free_page [OF demo_vmm_wf _ this] show ?thesis by simp
qed

end
