(* ===== verification/Virtual_trace.thy ===== *)
theory Virtual_trace
  imports Virtual_ops
begin

text \<open>
  The address space over time: sequences of the operations that kernel code uses on pages, against an abstract
  address space, a finite map from pages to frames, and the set of frames that clients hold.
\<close>

unbundle bit_operations_syntax

section \<open>The frames of an address space\<close>

definition table_frame :: "'a vmm \<Rightarrow> u32 \<Rightarrow> bool" where
  "table_frame s p \<longleftrightarrow> p = curdir s \<or> (\<exists>i<1024. entry_present (pde s i) \<and> p = entry_frame (pde s i))"

lemma table_frame_reserved: "vmm_wf s \<Longrightarrow> table_frame s p \<Longrightarrow> reserved_frame s p"
  using vmm_wf_curdir(1) vmm_wfD(1) by (auto simp: table_frame_def)

lemma walk_cong:
  assumes wf: "vmm_wf s" and same: "\<And>x p. table_frame s p \<Longrightarrow> x div 4096 = p div 4096 \<Longrightarrow> m x = ram s x"
  shows "mmu_walk m (curdir s) va = mmu_walk (ram s) (curdir s) va"
proof -
  let ?i = "PAGE_DIR_INDEX va" and ?j = "PAGE_TABLE_INDEX va"
  have d: "load32 m (curdir s + 4 * ?i) = load32 (ram s) (curdir s + 4 * ?i)"
    by (rule load32_slot_cong [OF vmm_wf_curdir(2) [OF wf] index_bounds(1)]) (use same [of "curdir s"] in \<open>simp add: table_frame_def\<close>)
  show ?thesis
  proof (cases "entry_present (pde s ?i)")
    case True
    let ?F = "entry_frame (pde s ?i)"
    have "table_frame s ?F" using True index_bounds(1) [of va] unfolding table_frame_def by blast
    then have "load32 m (?F + 4 * ?j) = load32 (ram s) (?F + 4 * ?j)"
      using same by (intro load32_slot_cong [OF vmm_wfD(3) [OF wf index_bounds(1) True] index_bounds(2)]) blast
    then show ?thesis using d by (simp add: mmu_walk_def Let_def pde_def)
  next
    case False
    then show ?thesis using d by (simp add: mmu_walk_def Let_def pde_def)
  qed
qed

text \<open>Memory outside bitmap and page tables does not matter.\<close>

lemma vmm_wf_cong:
  fixes s :: "'a vmm"
  assumes wf: "vmm_wf s" and map: "\<And>x. map_byte s x \<Longrightarrow> m x = ram s x"
    and tab: "\<And>x p. table_frame s p \<Longrightarrow> x div 4096 = p div 4096 \<Longrightarrow> m x = ram s x"
  shows "vmm_wf (s\<lparr>ram := m\<rparr>)" "\<And>i. i < 1024 \<Longrightarrow> pde (s\<lparr>ram := m\<rparr>) i = pde s i" "table_frame (s\<lparr>ram := m\<rparr>) p = table_frame s p"
proof -
  let ?t = "s\<lparr>ram := m\<rparr>"
  have "table_frame s (curdir s)" by (simp add: table_frame_def)
  then have "load32 m (curdir s + 4 * i) = load32 (ram s) (curdir s + 4 * i)" if "i < 1024" for i
    using load32_slot_cong [OF vmm_wf_curdir(2) [OF wf] that, of m "ram s"] tab by blast
  then show pde: "pde ?t i = pde s i" if "i < 1024" for i using that by (simp add: pde_def)
  have pte: "pte ?t i j = pte s i j" if "i < 1024" "j < 1024" "entry_present (pde s i)" for i j
  proof -
    have "table_frame s (entry_frame (pde s i))" using that unfolding table_frame_def by blast
    then show ?thesis
      using load32_slot_cong [OF vmm_wfD(3) [OF wf that(1,3)] that(2), of m "ram s"] tab pde [OF that(1)] by (simp add: pte_def)
  qed
  have c: "memory_map ?t = memory_map s" "max_blocks ?t = max_blocks s" "\<And>x. map_byte s x \<Longrightarrow> ram ?t x = ram s x" using map by simp_all
  have "reserved_frame ?t q = reserved_frame s q" for q by (rule map_unchanged(3) [OF c])
  moreover have "memory_wf ?t" using map_unchanged(4) [OF c] vmm_wf_curdir(4) [OF wf] by blast
  ultimately show "vmm_wf ?t" using wf pte unfolding vmm_wf_def by (simp add: pde)
  show "table_frame ?t p = table_frame s p" using pde by (auto simp: table_frame_def)
qed

text \<open>A frame in use that holds neither bitmap nor page tables.\<close>

definition client_frame :: "'a vmm \<Rightarrow> u32 \<Rightarrow> bool" where
  "client_frame s p \<longleftrightarrow> block_used s (p div 4096) \<and> (\<forall>x. map_byte s x \<longrightarrow> x div 4096 \<noteq> p div 4096) \<and>
     (\<forall>q. table_frame s q \<longrightarrow> q div 4096 \<noteq> p div 4096) \<and> block_in_map s (p div 4096)"

section \<open>What the kernel reaches through the identity mapping\<close>

text \<open>
  With paging on, the code reaches bitmap, directory and page tables at virtual addresses equal to their physical ones, and so
  it does its stack (which the boot loader puts below 0x90000), the frame buffer and its own image from 1 MiB on. The
  pages of all these, the last ones taken generously as 512 KiB to 4 MiB, are those that \<open>kernel_uses\<close>. The operations
  do what the code does as long as these pages are mapped to themselves.
\<close>

definition kernel_uses :: "'a vmm \<Rightarrow> u32 \<Rightarrow> bool" where
  "kernel_uses s pn \<longleftrightarrow> 0x80 \<le> pn \<and> pn < 0x400 \<or> (\<exists>x. map_byte s x \<and> x div PAGE_SIZE = pn) \<or>
     (\<exists>q. table_frame s q \<and> q div PAGE_SIZE = pn)"

definition self_mapped :: "'a vmm \<Rightarrow> bool" where
  "self_mapped s \<longleftrightarrow> (\<forall>x. kernel_uses s (x div PAGE_SIZE) \<longrightarrow> mmu_walk (ram s) (curdir s) x = Some x)"

lemma kernel_uses_cong: "map_byte t = map_byte s \<Longrightarrow> (\<And>q. table_frame t q = table_frame s q) \<Longrightarrow> kernel_uses t = kernel_uses s"
  by (simp add: fun_eq_iff kernel_uses_def)

lemma self_mapped_change:
  assumes "self_mapped s" "\<And>pn. kernel_uses t pn \<Longrightarrow> kernel_uses s pn"
    "\<And>x. kernel_uses s (x div PAGE_SIZE) \<Longrightarrow> mmu_walk (ram t) (curdir t) x = mmu_walk (ram s) (curdir s) x"
  shows "self_mapped t"
  using assms by (simp add: self_mapped_def)

lemma walk_same_page:
  assumes "mmu_walk m d a = Some a" "a mod 4096 = 0" "x div 4096 = a div (4096 :: u32)"
  shows "mmu_walk m d x = Some x"
proof -
  have i: "PAGE_DIR_INDEX x = PAGE_DIR_INDEX a" "PAGE_TABLE_INDEX x = PAGE_TABLE_INDEX a" using assms(3) page_of_indices by blast+
  have "unat a mod 4096 = 0" using assms(2) by (simp add: word_unat_eq_iff unat_mod)
  then have "a AND 0xFFF = 0" using address_parts(2) [of a] by (simp add: word_unat_eq_iff)
  moreover have "a OR (x AND 0xFFF) = x"
  proof -
    have "a OR (x AND 0xFFF) = a + (x AND 0xFFF)" by (rule or_offset [OF assms(2)])
    also have "unat \<dots> = unat x"
    proof -
      have "unat a = 4096 * (unat a div 4096)" "unat x div 4096 = unat a div 4096"
        using \<open>unat a mod 4096 = 0\<close> mult_div_mod_eq [of 4096 "unat a"] arg_cong [OF assms(3), of unat] by (simp_all add: unat_div)
      then have "unat a + unat x mod 4096 = unat x" by (metis mult_div_mod_eq)
      then show ?thesis using unat_u32_bound [of x] by (simp add: unat_word_ariths address_parts(2))
    qed
    finally show ?thesis by (simp add: word_unat_eq_iff)
  qed
  ultimately show ?thesis using assms(1) by (auto simp: mmu_walk_def Let_def i split: if_splits)
qed

section \<open>Changes of the bitmap\<close>

lemma bitmap_change:
  fixes s t :: "'a vmm"
  assumes wf: "vmm_wf s" and t: "memory_wf t" "curdir t = curdir s" "\<And>x. \<not> map_byte s x \<Longrightarrow> ram t x = ram s x"
    and res: "\<And>p. table_frame s p \<Longrightarrow> reserved_frame t p"
  shows "vmm_wf t" "\<And>i. i < 1024 \<Longrightarrow> pde t i = pde s i" "table_frame t q = table_frame s q"
    "mmu_walk (ram t) (curdir t) va = mmu_walk (ram s) (curdir s) va"
proof -
  have same: "load32 (ram t) (p + 4 * k) = load32 (ram s) (p + 4 * k)" if "table_frame s p" "k < 1024" for p k
  proof (rule load32_slot_cong [OF _ that(2)])
    have r: "reserved_frame s p" by (rule table_frame_reserved [OF wf that(1)])
    then show "p mod 4096 = 0" by (simp add: reserved_frame_def)
    fix x assume "x div 4096 = p div 4096"
    then have "\<not> map_byte s x" using r by (auto simp: reserved_frame_def)
    then show "ram t x = ram s x" by (rule t(3))
  qed
  have dir: "table_frame s (curdir s)" by (simp add: table_frame_def)
  have tab: "table_frame s (entry_frame (pde s i))" if "i < 1024" "entry_present (pde s i)" for i
    using that unfolding table_frame_def by blast
  show pde: "pde t i = pde s i" if "i < 1024" for i using same [OF dir that] by (simp add: pde_def t(2))
  have pte: "pte t i j = pte s i j" if "i < 1024" "j < 1024" "entry_present (pde s i)" for i j
    using same [OF tab [OF that(1,3)] that(2)] pde [OF that(1)] by (simp add: pte_def)
  show "vmm_wf t" using wf t(1) res [OF dir] res [OF tab] pte unfolding vmm_wf_def by (simp add: pde t(2))
  show "mmu_walk (ram t) (curdir t) va = mmu_walk (ram s) (curdir s) va" by (simp add: mmu_walk_entries Let_def pde pte)
  show "table_frame t q = table_frame s q" using pde by (auto simp: table_frame_def t(2))
qed

lemma alloc_keeps_space:
  assumes wf: "vmm_wf s" and al: "pmmngr_alloc_blocks n s = (a, t)" and n: "n \<le> 32" and a: "a \<noteq> 0"
  shows "vmm_wf t" "\<And>i. i < 1024 \<Longrightarrow> pde t i = pde s i" "curdir t = curdir s"
    "mmu_walk (ram t) (curdir t) va = mmu_walk (ram s) (curdir s) va"
    "\<And>p. reserved_frame s p \<Longrightarrow> reserved_frame t p" "table_frame t q = table_frame s q"
proof -
  note D = vmm_wf_curdir [OF wf]
  have pwf: "pmm_wf s" using D(4) by (simp add: memory_wf_def)
  note R = alloc_blocks_reserved [OF D(4) al n a]
  show cd: "curdir t = curdir s" using alloc_blocks_effect(10) [OF pwf al a] by (rule curdir_more)
  show res: "reserved_frame s p \<Longrightarrow> reserved_frame t p" for p by (rule R(4))
  have "reserved_frame t p" if "table_frame s p" for p using table_frame_reserved [OF wf that] by (rule res)
  note B = bitmap_change [OF wf R(1) cd alloc_blocks_ram [OF pwf al n] this]
  show "vmm_wf t" "\<And>i. i < 1024 \<Longrightarrow> pde t i = pde s i" "mmu_walk (ram t) (curdir t) va = mmu_walk (ram s) (curdir s) va"
    "table_frame t q = table_frame s q" by (rule B; assumption)+
qed

lemma free_keeps_space:
  fixes s :: "'a vmm"
  assumes wf: "vmm_wf s" and p: "client_frame s p" "p mod 4096 = 0" "p \<noteq> 0"
  defines "t \<equiv> pmmngr_free_block p s"
  shows "vmm_wf t" "mmu_walk (ram t) (curdir t) va = mmu_walk (ram s) (curdir s) va"
    "client_frame t x \<longleftrightarrow> client_frame s x \<and> x div 4096 \<noteq> p div 4096" "kernel_uses t = kernel_uses s"
proof -
  have t: "t = (mmap_unset (p div 4096) s)\<lparr>used_blocks := used_blocks s - 1\<rparr>"
    by (simp add: t_def pmmngr_free_block_def pmmngr_free_blocks_def Let_def for_u32.simps)
  have f: "memory_map t = memory_map s" "max_blocks t = max_blocks s" "curdir t = curdir s"
    by (simp_all add: t mmap_unset_def)
  have used: "block_used t c \<longleftrightarrow> c \<noteq> p div 4096 \<and> block_used s c" for c by (simp add: t bitmap.used_rem)
  have eq: "map_byte t = map_byte s" "block_in_map t = block_in_map s" by (auto simp: fun_eq_iff map_byte_def block_in_map_def f)
  have ram: "ram t x = ram s x" if "\<not> map_byte s x" for x
  proof -
    have "p div 4096 div 32 \<le> max_blocks s div 32" using p(1) by (auto simp: client_frame_def block_in_map_def intro: less_imp_le)
    then have "\<not> in_region (memory_map s + 4 * (p div 4096 div 32)) 4 x"
      using map_offset [of "p div 4096" s "x - (memory_map s + 4 * (p div 4096 div 32))"] that by (auto simp: in_region_def)
    then show ?thesis by (simp add: t mmap_unset_def store32_outside)
  qed
  have p0: "p div 4096 \<noteq> 0" using p(2,3) aligned_eq [OF p(2), of 0] by auto
  have m: "memory_wf t"
    using vmm_wf_curdir(4) [OF wf] p(1) p0 by (auto simp: memory_wf_def pmm_wf_def map_reserved_def client_frame_def used eq f)
  have "reserved_frame t q" if "table_frame s q" for q
  proof -
    have "reserved_frame s q" by (rule table_frame_reserved [OF wf that])
    then show ?thesis using that p(1) by (auto simp: reserved_frame_def client_frame_def used eq)
  qed
  note B = bitmap_change [OF wf m f(3) ram this]
  show "vmm_wf t" "mmu_walk (ram t) (curdir t) va = mmu_walk (ram s) (curdir s) va" by (rule B; assumption)+
  show "client_frame t x \<longleftrightarrow> client_frame s x \<and> x div 4096 \<noteq> p div 4096" by (auto simp: client_frame_def used eq B(3))
  show "kernel_uses t = kernel_uses s" by (rule kernel_uses_cong [OF eq(1) B(3)])
qed

section \<open>What the operations do to frames\<close>

lemma present_table:
  assumes "entry_present (pde s (PAGE_DIR_INDEX va))"
  shows "table_frame s (entry_frame (pde s (PAGE_DIR_INDEX va)))"
  using assms index_bounds(1) [of va] unfolding table_frame_def by blast

lemma table_write:
  fixes s :: "'a vmm"
  assumes wf: "vmm_wf s" and pres: "entry_present (pde s (PAGE_DIR_INDEX va))" and v: "\<not> bit v 31"
  defines "t \<equiv> s\<lparr>ram := store32 (ram s) (entry_frame (pde s (PAGE_DIR_INDEX va)) + 4 * PAGE_TABLE_INDEX va) v\<rparr>"
  shows "table_frame t q = table_frame s q" "map_byte s x \<Longrightarrow> ram t x = ram s x" "client_frame s x \<Longrightarrow> ram t x = ram s x"
    "client_frame t x = client_frame s x" "i < 1024 \<Longrightarrow> pde t i = pde s i"
proof -
  let ?F = "entry_frame (pde s (PAGE_DIR_INDEX va))"
  have F: "reserved_frame s ?F" by (rule vmm_wfD(1) [OF wf index_bounds(1) pres])
  show pde: "i < 1024 \<Longrightarrow> pde t i = pde s i" for i unfolding t_def by (rule write_pte(1) [OF wf index_bounds(1) pres index_bounds(2) v])
  then show tf: "table_frame t q = table_frame s q" for q by (auto simp: table_frame_def t_def)
  show mb: "map_byte s x \<Longrightarrow> ram t x = ram s x" for x using frame_write_map [OF F index_bounds(2)] by (simp add: t_def)
  show "ram t x = ram s x" if "client_frame s x"
  proof -
    have "x div 4096 \<noteq> ?F div 4096" using that present_table [OF pres] by (auto simp: client_frame_def)
    then have "\<not> in_region (?F + 4 * PAGE_TABLE_INDEX va) 4 x"
      using slot_in_frame [OF _ index_bounds(2), of ?F va x] F by (auto simp: reserved_frame_def)
    then show ?thesis by (simp add: t_def store32_outside)
  qed
  have c: "memory_map t = memory_map s" "max_blocks t = max_blocks s" "\<And>x. map_byte s x \<Longrightarrow> ram t x = ram s x" using mb by (simp_all add: t_def)
  show "client_frame t x = client_frame s x"
    using block_used_cong [OF c, of "x div 4096"] map_unchanged(1,2) [OF c] by (auto simp: client_frame_def tf)
qed

text \<open>A new table adds its own frame to those of the address space.\<close>

lemma install_frames:
  fixes s :: "'a vmm"
  assumes wf: "vmm_wf s" and i: "i < 1024" "\<not> entry_present (pde s i)"
    and a: "pmmngr_alloc_block s = (a, s1)" "a \<noteq> 0" and e: "entry_present e" "entry_frame e = a" "\<not> bit e 31"
  defines "s2 \<equiv> s1\<lparr>ram := memset a 0 4096 (ram s1)\<rparr>"
  defines "s3 \<equiv> s2\<lparr>ram := store32 (ram s2) (curdir s + 4 * i) e\<rparr>"
  shows "map_byte s3 = map_byte s" "table_frame s3 q \<Longrightarrow> table_frame s q \<or> q = a" "\<And>x. map_byte s1 x \<Longrightarrow> ram s3 x = ram s1 x"
    "memory_map s3 = memory_map s1" "max_blocks s3 = max_blocks s1"
proof -
  note al = a(1) [unfolded pmmngr_alloc_block_def] and D = vmm_wf_curdir [OF wf]
  note F = fresh_table [OF D(4) a, folded s2_def] and R = alloc_blocks_reserved [OF D(4) al _ a(2), simplified]
    and I = install_table [OF wf i a e, folded s2_def, folded s3_def]
  have mb2: "map_byte s2 = map_byte s1" by (auto simp: s2_def map_byte_def fun_eq_iff)
  show c: "\<And>x. map_byte s1 x \<Longrightarrow> ram s3 x = ram s1 x" "memory_map s3 = memory_map s1" "max_blocks s3 = max_blocks s1"
    using frame_write_map [OF F(3) [OF D(1)] i(1)] frame_clear_map [OF R(2)] by (simp_all add: mb2 s3_def) (simp_all add: s2_def)
  show "map_byte s3 = map_byte s" using map_unchanged(1) [OF c(2,3,1)] R(6) by (simp add: fun_eq_iff)
  show "table_frame s q \<or> q = a" if "table_frame s3 q"
    using that I(1,2) e(2) by (fastforce simp: table_frame_def split: if_splits)
qed

lemma install_keeps_frames:
  fixes s :: "'a vmm"
  assumes wf: "vmm_wf s" and i: "i < 1024" "\<not> entry_present (pde s i)"
    and a: "pmmngr_alloc_block s = (a, s1)" "a \<noteq> 0" and e: "entry_present e" "entry_frame e = a" "\<not> bit e 31"
    and x: "client_frame s x"
  defines "s2 \<equiv> s1\<lparr>ram := memset a 0 4096 (ram s1)\<rparr>"
  shows "client_frame (s2\<lparr>ram := store32 (ram s2) (curdir s + 4 * i) e\<rparr>) x"
proof -
  define s3 where "s3 = s2\<lparr>ram := store32 (ram s2) (curdir s + 4 * i) e\<rparr>"
  note al = a(1) [unfolded pmmngr_alloc_block_def] and D = vmm_wf_curdir [OF wf]
  have pwf: "pmm_wf s" using D(4) by (simp add: memory_wf_def)
  note A = alloc_blocks_effect [OF pwf al a(2)] and R = alloc_blocks_reserved [OF D(4) al _ a(2), simplified]
    and I = install_frames [OF wf i a e, folded s2_def, folded s3_def]
  note c = I(4,5,3)
  have "block_used s3 (x div 4096)"
    using block_used_cong [OF c, of "x div 4096"] x A(6) by (simp add: client_frame_def block_in_map_def A(8))
  moreover have "block_in_map s3 = block_in_map s"
    using map_unchanged(2) [OF c] by (simp add: fun_eq_iff block_in_map_def A(8))
  moreover have "q div 4096 \<noteq> x div 4096" if "table_frame s3 q" for q
    using I(2) [OF that] x R(3) by (auto simp: client_frame_def)
  moreover note I(1)
  ultimately show ?thesis using x by (auto simp: client_frame_def s3_def)
qed

text \<open>Where the page table is missing, mapping a page is mapping it after a new table was installed.\<close>

lemma map_page_installs:
  fixes s :: "'a vmm"
  assumes wf: "vmm_wf s" and abs: "\<not> entry_present (pde s (PAGE_DIR_INDEX va))" and al: "fst (pmmngr_alloc_block s) \<noteq> 0"
  obtains s3 where "vmm_wf s3" "entry_present (pde s3 (PAGE_DIR_INDEX va))" "\<And>phys. vmmngr_map_page phys va s = vmmngr_map_page phys va s3"
    "\<And>x. client_frame s x \<Longrightarrow> client_frame s3 x" "map_byte s3 = map_byte s"
    "\<And>q. table_frame s3 q \<Longrightarrow> table_frame s q \<or> q = fst (pmmngr_alloc_block s)"
proof -
  let ?i = "PAGE_DIR_INDEX va"
  obtain a s1 where a: "pmmngr_alloc_block s = (a, s1)" "a \<noteq> 0" using al by (cases "pmmngr_alloc_block s") auto
  define e where "e = table_entry a (pde s ?i)"
  define s2 where "s2 = s1\<lparr>ram := memset a 0 4096 (ram s1)\<rparr>"
  define s3 where "s3 = s2\<lparr>ram := store32 (ram s2) (curdir s + 4 * ?i) e\<rparr>"
  have "a mod 4096 = 0" "\<not> bit a 31" using fresh_table(2) [OF vmm_wf_curdir(4) [OF wf] a] by (simp_all add: reserved_frame_def)
  moreover have "\<not> bit (pde s ?i) 31" using wf by (simp add: vmm_wf_def)
  ultimately have E: "entry_present e" "entry_frame e = a" "\<not> bit e 31" unfolding e_def by (rule table_entry_facts)+
  note I = install_table [OF wf index_bounds(1) abs a E, folded s2_def, folded s3_def]
    and K = install_frames [OF wf index_bounds(1) abs a E, folded s2_def, folded s3_def]
  have pres: "entry_present (pde s3 ?i)" using I(2) E(1) by simp
  have same: "vmmngr_map_page phys va s = vmmngr_map_page phys va s3" for phys
    using map_page_absent(2) [OF wf abs a(1) a(2), of phys, folded s2_def] I(4,1,5) pres by (simp add: s3_def e_def)
  have "client_frame s3 x" if "client_frame s x" for x
    unfolding s3_def s2_def by (rule install_keeps_frames [OF wf index_bounds(1) abs a E that])
  then show ?thesis using that [OF I(4) pres same _ K(1)] K(2) a(1) by simp
qed

lemma map_page_frames:
  fixes s :: "'a vmm"
  assumes wf: "vmm_wf s" and pres: "entry_present (pde s (PAGE_DIR_INDEX va))" and phys: "phys mod 4096 = 0" "\<not> bit phys 31"
  shows "client_frame (vmmngr_map_page phys va s) x = client_frame s x" "kernel_uses (vmmngr_map_page phys va s) = kernel_uses s"
proof -
  have "\<not> bit (pte s (PAGE_DIR_INDEX va) (PAGE_TABLE_INDEX va)) 31" by (rule vmm_wfD(5) [OF wf index_bounds(1) pres index_bounds(2)])
  note T = table_write [OF wf pres mapped_entry_facts(3) [OF phys this [unfolded pte_def]]]
  show "client_frame (vmmngr_map_page phys va s) x = client_frame s x" unfolding map_page_present [OF wf pres] by (rule T(4))
  show "kernel_uses (vmmngr_map_page phys va s) = kernel_uses s"
    unfolding map_page_present [OF wf pres] by (rule kernel_uses_cong [OF _ T(1)]) (auto simp: map_byte_def)
qed

lemma map_keeps_frames:
  fixes s :: "'a vmm"
  assumes wf: "vmm_wf s" and phys: "phys mod 4096 = 0" "\<not> bit phys 31"
    and ok: "entry_present (pde s (PAGE_DIR_INDEX va)) \<or> fst (pmmngr_alloc_block s) \<noteq> 0"
  shows "client_frame s x \<Longrightarrow> client_frame (vmmngr_map_page phys va s) x"
    "kernel_uses (vmmngr_map_page phys va s) pn \<Longrightarrow> kernel_uses s pn \<or>
       \<not> entry_present (pde s (PAGE_DIR_INDEX va)) \<and> pn = fst (pmmngr_alloc_block s) div 4096"
proof (atomize (full), cases "entry_present (pde s (PAGE_DIR_INDEX va))")
  case False
  then have "fst (pmmngr_alloc_block s) \<noteq> 0" using ok by simp
  from map_page_installs [OF wf False this] obtain s3 where s3: "vmm_wf s3" "entry_present (pde s3 (PAGE_DIR_INDEX va))"
    "\<And>phys. vmmngr_map_page phys va s = vmmngr_map_page phys va s3"
    "\<And>x. client_frame s x \<Longrightarrow> client_frame s3 x" "map_byte s3 = map_byte s"
    "\<And>q. table_frame s3 q \<Longrightarrow> table_frame s q \<or> q = fst (pmmngr_alloc_block s)" by metis
  note F = map_page_frames [OF s3(1,2) phys, folded s3(3)]
  have "kernel_uses s pn \<or> pn = fst (pmmngr_alloc_block s) div 4096" if uses: "kernel_uses s3 pn"
  proof (cases "\<exists>q. table_frame s3 q \<and> q div 4096 = pn")
    case True
    then obtain q where "table_frame s q \<or> q = fst (pmmngr_alloc_block s)" "q div 4096 = pn" using s3(6) by blast
    then show ?thesis by (auto simp: kernel_uses_def)
  qed (use uses s3(5) in \<open>auto simp: kernel_uses_def\<close>)
  then show "(client_frame s x \<longrightarrow> client_frame (vmmngr_map_page phys va s) x) \<and> (kernel_uses (vmmngr_map_page phys va s) pn \<longrightarrow>
      kernel_uses s pn \<or> \<not> entry_present (pde s (PAGE_DIR_INDEX va)) \<and> pn = fst (pmmngr_alloc_block s) div 4096)"
    using F s3(4) False by auto
qed (use map_page_frames [OF wf _ phys] in auto)

section \<open>Sequences of operations\<close>

text \<open>An abstract address space maps page numbers to frames.\<close>

type_synonym space = "u32 \<Rightarrow> u32 option"

definition space_walk :: "space \<Rightarrow> u32 \<Rightarrow> u32 option" where
  "space_walk A va = map_option (\<lambda>f. f OR (va AND 0xFFF)) (A (va div PAGE_SIZE))"

text \<open>
  The steps, with the abstract space and the set of frames that clients hold: a page is mapped, or the call is refused since
  there is no memory for a table; a page is unmapped; a frame is handed out, or refused; a frame is given back. The pages that are
  mapped or unmapped are not those that the kernel uses itself, and where a new page table is needed, the block found for it
  is mapped to itself and is not the page to be mapped: otherwise the code would lose its own tables.
\<close>

definition table_room :: "'a vmm \<Rightarrow> u32 \<Rightarrow> bool" where
  "table_room s virt \<longleftrightarrow> (let a = fst (pmmngr_alloc_block s)
     in a \<noteq> 0 \<and> mmu_walk (ram s) (curdir s) a = Some a \<and> a div PAGE_SIZE \<noteq> virt div PAGE_SIZE)"

inductive page_step :: "'a vmm \<times> space \<times> u32 set \<Rightarrow> 'a vmm \<times> space \<times> u32 set \<Rightarrow> bool" where
  map_page: "phys mod PAGE_SIZE = 0 \<Longrightarrow> phys < 0x80000000 \<Longrightarrow> \<not> kernel_uses s (virt div PAGE_SIZE) \<Longrightarrow>
    entry_present (pde s (PAGE_DIR_INDEX virt)) \<or> table_room s virt \<Longrightarrow>
    page_step (s, A, H) (vmmngr_map_page phys virt s, A(virt div PAGE_SIZE \<mapsto> phys), H)"
| refuse_map: "\<not> entry_present (pde s (PAGE_DIR_INDEX virt)) \<Longrightarrow> fst (pmmngr_alloc_block s) = 0 \<Longrightarrow>
    page_step (s, A, H) (vmmngr_map_page phys virt s, A, H)"
| unmap_page: "\<not> kernel_uses s (virt div PAGE_SIZE) \<Longrightarrow>
    entry_present (pde s (PAGE_DIR_INDEX virt)) \<or> pde s (PAGE_DIR_INDEX virt) = 0 \<Longrightarrow>
    page_step (s, A, H) (vmmngr_unmap_page virt s, A(virt div PAGE_SIZE := None), H)"
| alloc_page: "vmmngr_alloc_page e s = ((p, e'), s') \<Longrightarrow> p \<noteq> 0 \<Longrightarrow> page_step (s, A, H) (s', A, insert p H)"
| refuse_alloc: "vmmngr_alloc_page e s = ((0, e'), s') \<Longrightarrow> page_step (s, A, H) (s', A, H)"
| free_page: "pt_entry_pfn e \<in> H \<Longrightarrow> page_step (s, A, H) (snd (vmmngr_free_page e s), A, H - {pt_entry_pfn e})"

definition space_inv :: "'a vmm \<times> space \<times> u32 set \<Rightarrow> bool" where
  "space_inv = (\<lambda>(s, A, H). vmm_wf s \<and> self_mapped s \<and> (\<forall>va. mmu_walk (ram s) (curdir s) va = space_walk A va) \<and>
     (\<forall>p \<in> H. p mod 4096 = 0 \<and> p \<noteq> 0 \<and> client_frame s p))"

lemma unmap_keeps_frames:
  fixes s :: "'a vmm"
  assumes wf: "vmm_wf s" and ok: "entry_present (pde s (PAGE_DIR_INDEX va)) \<or> pde s (PAGE_DIR_INDEX va) = 0"
  shows "client_frame (vmmngr_unmap_page va s) x = client_frame s x" "kernel_uses (vmmngr_unmap_page va s) = kernel_uses s"
proof (atomize (full), cases "entry_present (pde s (PAGE_DIR_INDEX va))")
  case True
  have "\<not> bit (pte s (PAGE_DIR_INDEX va) (PAGE_TABLE_INDEX va)) 31" by (rule vmm_wfD(5) [OF wf index_bounds(1) True index_bounds(2)])
  note T = table_write [OF wf True unmapped_entry_facts(2) [OF this [unfolded pte_def]]]
  have "kernel_uses (vmmngr_unmap_page va s) = kernel_uses s"
    unfolding unmap_page_present [OF wf True] by (rule kernel_uses_cong [OF _ T(1)]) (auto simp: map_byte_def)
  then show "client_frame (vmmngr_unmap_page va s) x = client_frame s x \<and> kernel_uses (vmmngr_unmap_page va s) = kernel_uses s"
    using T(4) unfolding unmap_page_present [OF wf True] by simp
next
  case False
  then show "client_frame (vmmngr_unmap_page va s) x = client_frame s x \<and> kernel_uses (vmmngr_unmap_page va s) = kernel_uses s"
    using ok unmap_page_absent [OF wf, of va] by (simp add: entry_frame_def)
qed

lemma alloc_keeps_frames:
  fixes s :: "'a vmm"
  assumes wf: "vmm_wf s" and al: "pmmngr_alloc_blocks 1 s = (p, t)" "p \<noteq> 0"
  shows "client_frame t x \<longleftrightarrow> client_frame s x \<or> x div 4096 = p div 4096"
proof -
  note D = vmm_wf_curdir [OF wf]
  have pwf: "pmm_wf s" using D(4) by (simp add: memory_wf_def)
  note A = alloc_blocks_effect [OF pwf al] and R = alloc_blocks_reserved [OF D(4) al(1) _ al(2), simplified]
    and S = alloc_keeps_space [OF wf al(1) _ al(2), simplified]
  have eq: "map_byte t = map_byte s" "block_in_map t = block_in_map s" using R(6) by (auto simp: fun_eq_iff block_in_map_def A(8))
  have used: "block_used t c \<longleftrightarrow> c = p div 4096 \<or> block_used s c" for c using A(6) [of c] by (simp add: word_less_nat_alt unat_eq_0)
  have "q div 4096 \<noteq> p div 4096" if "table_frame s q" for q
    using table_frame_reserved [OF wf that] R(3) by (auto simp: reserved_frame_def)
  moreover have "block_in_map s (p div 4096)" "\<And>y. map_byte s y \<Longrightarrow> y div 4096 \<noteq> p div 4096"
    using R(2,6) by (auto simp: reserved_frame_def eq)
  ultimately show ?thesis by (auto simp: client_frame_def eq used S(6))
qed

lemma space_walk_upd:
  "space_walk (A(pn := v)) va = (if va div PAGE_SIZE = pn then map_option (\<lambda>f. f OR (va AND 0xFFF)) v else space_walk A va)"
  by (simp add: space_walk_def)

text \<open>The kernel's own pages stay mapped to themselves, a new page table included.\<close>

lemma map_keeps_self:
  fixes s :: "'a vmm"
  assumes wf: "vmm_wf s" and self: "self_mapped s" and phys: "phys mod PAGE_SIZE = 0" "phys < 0x80000000"
    and virt: "\<not> kernel_uses s (virt div PAGE_SIZE)" and ok: "entry_present (pde s (PAGE_DIR_INDEX virt)) \<or> table_room s virt"
  shows "self_mapped (vmmngr_map_page phys virt s)"
  unfolding self_mapped_def
proof (intro allI impI)
  let ?a = "fst (pmmngr_alloc_block s)" and ?t = "vmmngr_map_page phys virt s"
  have al: "entry_present (pde s (PAGE_DIR_INDEX virt)) \<or> ?a \<noteq> 0" using ok by (auto simp: table_room_def Let_def)
  fix x assume "kernel_uses ?t (x div PAGE_SIZE)"
  then consider "kernel_uses s (x div PAGE_SIZE)" | "\<not> entry_present (pde s (PAGE_DIR_INDEX virt))" "x div PAGE_SIZE = ?a div PAGE_SIZE"
    using map_keeps_frames(2) [OF wf phys(1) below_2G_bit [OF phys(2)] al] by blast
  then have "mmu_walk (ram s) (curdir s) x = Some x \<and> x div PAGE_SIZE \<noteq> virt div PAGE_SIZE"
  proof cases
    case 1
    then show ?thesis using self virt by (auto simp: self_mapped_def)
  next
    case 2
    then have r: "mmu_walk (ram s) (curdir s) ?a = Some ?a" "?a div PAGE_SIZE \<noteq> virt div PAGE_SIZE" using ok by (auto simp: table_room_def Let_def)
    have "?a mod 4096 = 0" using frames.alloc_aligned [of s ?a "snd (pmmngr_alloc_block s)"] wf by (simp add: vmm_wf_def memory_wf_def)
    then show ?thesis using walk_same_page [OF r(1) _ 2(2)] r(2) 2(2) by simp
  qed
  then show "mmu_walk (ram ?t) (curdir ?t) x = Some x" using map_page_walk [OF wf phys al] by simp
qed

lemma page_step_inv:
  assumes "page_step x y" "space_inv x"
  shows "space_inv y"
  using assms
proof (induction rule: page_step.induct)
  case (map_page phys s virt A H)
  then have wf: "vmm_wf s" by (simp add: space_inv_def)
  have ok: "entry_present (pde s (PAGE_DIR_INDEX virt)) \<or> fst (pmmngr_alloc_block s) \<noteq> 0" using map_page(4) by (auto simp: table_room_def Let_def)
  note W = map_page_walk [OF wf map_page(1,2) ok] and F = map_keeps_frames(1) [OF wf map_page(1) below_2G_bit [OF map_page(2)] ok]
  have "self_mapped s" using map_page(5) by (simp add: space_inv_def)
  then have "self_mapped (vmmngr_map_page phys virt s)" by (rule map_keeps_self [OF wf _ map_page(1-4)])
  then show ?case using map_page(5) W F by (auto simp: space_inv_def space_walk_upd)
next
  case (refuse_map s virt A H phys)
  then have wf: "vmm_wf s" by (simp add: space_inv_def)
  have "vmmngr_map_page phys virt s = s"
    using map_page_absent(1) [OF wf refuse_map(1), of 0 "snd (pmmngr_alloc_block s)"] refuse_map(2) by (metis prod.collapse)
  then show ?case using refuse_map(3) by simp
next
  case (unmap_page s virt A H)
  then have wf: "vmm_wf s" by (simp add: space_inv_def)
  note W = unmap_page_any [OF wf unmap_page(2)] and F = unmap_keeps_frames [OF wf unmap_page(2)]
  have "self_mapped s" using unmap_page(3) by (simp add: space_inv_def)
  then have "self_mapped (vmmngr_unmap_page virt s)" by (rule self_mapped_change) (use F(2) W unmap_page(1) in auto)
  then show ?case using unmap_page(3) W F(1) by (auto simp: space_inv_def space_walk_upd)
next
  case (alloc_page e s p e' s' A H)
  then have wf: "vmm_wf s" by (simp add: space_inv_def)
  have al: "pmmngr_alloc_blocks 1 s = (p, s')" using alloc_page(1,2)
    by (auto simp: vmmngr_alloc_page_def pmmngr_alloc_block_def split: prod.splits if_splits)
  note S = alloc_keeps_space [OF wf al _ alloc_page(2), simplified] and F = alloc_keeps_frames [OF wf al alloc_page(2)]
  have "p mod 4096 = 0" using alloc_blocks_reserved(2) [OF vmm_wf_curdir(4) [OF wf] al _ alloc_page(2)] by (simp add: reserved_frame_def)
  moreover have "map_byte s' = map_byte s" using alloc_blocks_reserved(6) [OF vmm_wf_curdir(4) [OF wf] al _ alloc_page(2)] by (simp add: fun_eq_iff)
  then have "kernel_uses s' = kernel_uses s" by (rule kernel_uses_cong) (rule S(6))
  then have "self_mapped s'" using alloc_page(3) S(4) by (auto simp: space_inv_def self_mapped_def)
  ultimately show ?case using alloc_page(2,3) S(1,4) F by (auto simp: space_inv_def)
next
  case (refuse_alloc e s e' s' A H)
  then have "pmm_wf s" by (simp add: space_inv_def vmm_wf_def memory_wf_def)
  moreover have "pmmngr_alloc_block s = (0, s')" using refuse_alloc(1)
    by (auto simp: vmmngr_alloc_page_def Let_def split: prod.splits if_splits)
  ultimately have "s' = s" using frames.alloc_fail by blast
  then show ?case using refuse_alloc(2) by simp
next
  case (free_page e H s A)
  let ?p = "pt_entry_pfn e"
  have wf: "vmm_wf s" and p: "?p mod 4096 = 0" "?p \<noteq> 0" "client_frame s ?p" using free_page by (auto simp: space_inv_def)
  note S = free_keeps_space [OF wf p(3,1,2)]
  have "snd (vmmngr_free_page e s) = pmmngr_free_block ?p s" using p(2) by (simp add: vmmngr_free_page_def Let_def)
  moreover have "q div 4096 \<noteq> ?p div 4096" if "q \<in> H" "q \<noteq> ?p" for q
    using that free_page(2) aligned_eq [OF p(1), of q] by (auto simp: space_inv_def)
  moreover have "self_mapped (pmmngr_free_block ?p s)"
    using free_page(2) S(2,4) by (auto simp: space_inv_def self_mapped_def)
  ultimately show ?case using free_page(2) S by (auto simp: space_inv_def)
qed

interpretation pages: invariant_steps page_step space_inv
  by unfold_locales (rule page_step_inv)

text \<open>The abstract space of a state.\<close>

definition space_of :: "'a vmm \<Rightarrow> space" where
  "space_of s pn = mmu_walk (ram s) (curdir s) (pn * PAGE_SIZE)"

lemma space_of_walk: "mmu_walk (ram s) (curdir s) va = space_walk (space_of s) va"
proof -
  let ?b = "va div 4096 * 4096"
  have u: "unat ?b = unat va div 4096 * 4096" using unat_u32_bound [of va] by (simp add: unat_word_ariths unat_div)
  then have "?b div 4096 = va div 4096" by (simp add: word_unat_eq_iff unat_div)
  then have "PAGE_DIR_INDEX ?b = PAGE_DIR_INDEX va" "PAGE_TABLE_INDEX ?b = PAGE_TABLE_INDEX va" using page_of_indices by blast+
  moreover have "?b AND 0xFFF = 0" using address_parts(2) [of ?b] u by (simp add: word_unat_eq_iff)
  ultimately show ?thesis by (simp add: space_walk_def space_of_def mmu_walk_entries Let_def)
qed

text \<open>
  C5. Every sequence of page operations implements an abstract address space, a map from pages to frames, together with
  a set of frames that clients hold: starting from a well-formed address space and nothing held, after any mappings (with or
  without a new page table), refused mappings, unmappings, allocations, refusals and releases the
  processor translates every address as the map says, the page tables are well-formed, and the held
  frames are in use and contain neither page tables nor the allocator's bitmap. The code reaches bitmap and tables through the
  identity mapping: at the start the pages that the kernel uses are mapped to themselves, the operations do not map or
  unmap them, a new page table lies in a block that is mapped to itself, and they remain so.
\<close>

theorem address_space_refined:
  assumes "page_step\<^sup>*\<^sup>* (s, space_of s, {}) (t, B, H)" and "vmm_wf s" and "self_mapped s"
  shows "vmm_wf t \<and> self_mapped t \<and> (\<forall>va. mmu_walk (ram t) (curdir t) va = space_walk B va) \<and>
    (\<forall>p \<in> H. block_used t (p div BLOCK_SIZE) \<and> (\<forall>q. table_frame t q \<longrightarrow> q div BLOCK_SIZE \<noteq> p div BLOCK_SIZE) \<and>
      (\<forall>x. map_byte t x \<longrightarrow> x div BLOCK_SIZE \<noteq> p div BLOCK_SIZE))"
proof -
  have "space_inv (s, space_of s, {})" using assms(2,3) space_of_walk [of s] by (simp add: space_inv_def)
  with assms(1) have "space_inv (t, B, H)" by (rule pages.steps_invar)
  then show ?thesis by (simp add: space_inv_def client_frame_def)
qed

text \<open>After the set-up, the kernel's pages are mapped to themselves when all of them lie in the first 4 MiB.\<close>

lemma kernel_uses_range: "vmm_wf s \<Longrightarrow> kernel_uses s pn \<Longrightarrow> block_in_map s pn \<or> 0x80 \<le> pn \<and> pn < 0x400"
  using table_frame_reserved [of s] vmm_wf_curdir(4) [of s]
  by (auto simp: kernel_uses_def reserved_frame_def memory_wf_def map_reserved_def)

lemma kernel_space_self_mapped:
  assumes "mmu_walk (ram s) (curdir s) = kernel_space" "\<And>pn. kernel_uses s pn \<Longrightarrow> pn < 0x400"
  shows "self_mapped s"
proof -
  have "x < 0x400000" if "x div 4096 < 0x400" for x :: u32 using that by (simp add: word_less_nat_alt unat_div)
  then show ?thesis using assms by (simp add: self_mapped_def kernel_space_def)
qed

lemma demo_space_uses: "kernel_uses demo_space pn \<Longrightarrow> pn < 64 \<or> 0x80 \<le> pn \<and> pn < 0x400" "self_mapped demo_space"
proof -
  have "max_blocks demo_space = 64" using vmmngr_init_max [of demo_vmm] by (simp add: demo_space_def demo_vmm_def)
  then have "unat pn < 64" if "block_in_map demo_space pn" for pn using that by (simp add: block_in_map_def word_less_nat_alt unat_div)
  then show u: "pn < 64 \<or> 0x80 \<le> pn \<and> pn < 0x400" if "kernel_uses demo_space pn" for pn
    using kernel_uses_range [OF demo_space_ok(1) that] by (auto simp: word_less_nat_alt)
  have "pn < 0x400" if "kernel_uses demo_space pn" for pn using u [OF that] by (auto intro: less_trans)
  then show "self_mapped demo_space" by (rule kernel_space_self_mapped [OF demo_space_ok(4)])
qed

theorem address_space_refined_witness:
  "\<exists>t. page_step\<^sup>*\<^sup>* (demo_space, space_of demo_space, {}) (t, (space_of demo_space)(0x50 \<mapsto> 0x30000000, 0x51 := None), {}) \<and>
     mmu_walk (ram t) (curdir t) 0x50234 = Some 0x30000234 \<and> mmu_walk (ram t) (curdir t) 0x51010 = None"
proof -
  let ?s = "vmmngr_map_page 0x30000000 0x50000 demo_space" and ?A = "(space_of demo_space)(0x50 \<mapsto> 0x30000000)"
  have "PAGE_DIR_INDEX 0x50000 = PAGE_DIR_INDEX 0x1000" by (simp add: PAGE_DIR_INDEX_def)
  then have p: "entry_present (pde demo_space (PAGE_DIR_INDEX 0x50000))" using demo_space_mapped by simp
  have nk: "\<not> kernel_uses demo_space 0x50" "\<not> kernel_uses demo_space 0x51" using demo_space_uses(1) [of "0x50"] demo_space_uses(1) [of "0x51"] by auto
  have s: "page_step (demo_space, space_of demo_space, {}) (?s, ?A, {})"
    using page_step.map_page [of "0x30000000" demo_space "0x50000" "space_of demo_space" "{}"] p nk(1) by simp
  have "mmu_walk (ram ?s) (curdir ?s) 0x51000 = mmu_walk (ram demo_space) (curdir demo_space) 0x51000"
    using map_page_walk [OF demo_space_ok(1), of "0x30000000" "0x50000"] p by simp
  also have "\<dots> = Some 0x51000" unfolding demo_space_ok(4) by (simp add: kernel_space_def)
  finally have "entry_present (pde ?s (PAGE_DIR_INDEX 0x51000))" unfolding mmu_walk_entries Let_def by (auto split: if_splits)
  moreover have "\<not> kernel_uses ?s 0x51" using map_page_frames(2) [OF demo_space_ok(1) p, of "0x30000000"] nk(2) by (simp add: bit_simps)
  ultimately have "page_step (?s, ?A, {}) (vmmngr_unmap_page 0x51000 ?s, ?A(0x51 := None), {})"
    using page_step.unmap_page [of ?s "0x51000" ?A "{}"] by simp
  then have tr: "page_step\<^sup>*\<^sup>* (demo_space, space_of demo_space, {}) (vmmngr_unmap_page 0x51000 ?s, ?A(0x51 := None), {})" using s by simp
  show ?thesis
    using address_space_refined [OF tr demo_space_ok(1) demo_space_uses(2)] tr
    by (intro exI [of _ "vmmngr_unmap_page 0x51000 ?s"]) (simp add: space_walk_def)
qed

end
