(* ===== verification/Heap_init.thy ===== *)
theory Heap_init
  imports Heap_props Virtual_trace
begin

text \<open>
  Setting up the heap in a paged address space: \<open>malloc_init\<close> takes a run of physical blocks and
  maps it at virtual address 0, after which the heap is one free block.
\<close>

unbundle bit_operations_syntax

section \<open>Mapping one page of the heap\<close>

definition heap_entry :: "u32 \<Rightarrow> u32 \<Rightarrow> u32" where
  "heap_entry phys e = pt_entry_add_attrib (pte_flag PTE_WRITABLE) (mapped_entry phys e)"

lemma heap_entry_facts:
  assumes "phys mod 4096 = 0" "\<not> bit phys 31" "\<not> bit e 31"
  shows "entry_present (heap_entry phys e)" "entry_frame (heap_entry phys e) = phys" "\<not> bit (heap_entry phys e) 31"
proof -
  note m = mapped_entry_facts [OF assms]
  show "entry_present (heap_entry phys e)" "\<not> bit (heap_entry phys e) 31"
    using m(1,3) by (simp_all add: heap_entry_def entry_present_def pt_entry_add_attrib_def bit_simps)
  have "entry_frame (heap_entry phys e) = entry_frame (mapped_entry phys e)"
    by (rule bit_word_eqI) (auto simp: heap_entry_def entry_frame_def pt_entry_add_attrib_def bit_simps)
  then show "entry_frame (heap_entry phys e) = phys" using m(2) by simp
qed

lemma map_heap_page_eq:
  assumes wf: "vmm_wf s" and pres: "entry_present (pde s (PAGE_DIR_INDEX va))"
    and phys: "phys mod 4096 = 0" "\<not> bit phys 31"
  defines "T \<equiv> entry_frame (pde s (PAGE_DIR_INDEX va)) + 4 * PAGE_TABLE_INDEX va"
  shows "map_heap_page phys va s = s\<lparr>ram := store32 (ram s) T (heap_entry phys (load32 (ram s) T))\<rparr>"
proof -
  let ?t = "vmmngr_map_page phys va s"
  have eq: "?t = s\<lparr>ram := store32 (ram s) T (mapped_entry phys (load32 (ram s) T))\<rparr>"
    unfolding T_def by (rule map_page_present [OF wf pres])
  have wt: "vmm_wf ?t" by (rule map_page_present_walk(1) [OF wf pres phys])
  note T = vmm_wfD [OF wf _ pres]
  have 31: "\<not> bit (pte s (PAGE_DIR_INDEX va) (PAGE_TABLE_INDEX va)) 31" using T(5) by simp
  have "pde ?t (PAGE_DIR_INDEX va) = pde s (PAGE_DIR_INDEX va)"
    using write_pte(1) [OF wf _ pres _ mapped_entry_facts(3) [OF phys 31], of "PAGE_TABLE_INDEX va"]
    by (simp add: eq T_def pte_def)
  then have "vmmngr_get_page va ?t = T"
    using get_page_present(1) [OF wt, of va] pres by (simp add: T_def)
  then show ?thesis
    unfolding map_heap_page_def Let_def eq [symmetric]
    by (simp add: modify32_def eq heap_entry_def)
qed

lemma map_heap_page_step:
  assumes wf: "vmm_wf s" and pres: "entry_present (pde s (PAGE_DIR_INDEX va))"
    and phys: "phys mod 4096 = 0" "\<not> bit phys 31"
  defines "t \<equiv> map_heap_page phys va s"
  shows "vmm_wf t" "\<And>i. i < 1024 \<Longrightarrow> pde t i = pde s i" "\<exists>m. t = s\<lparr>ram := m\<rparr>"
    "mmu_walk (ram t) (curdir t) va' =
      (if va' div 4096 = va div 4096 then Some (phys OR (va' AND 0xFFF)) else mmu_walk (ram s) (curdir s) va')"
    "\<And>p. reserved_frame t p = reserved_frame s p" "\<And>x. map_byte s x \<Longrightarrow> ram t x = ram s x"
proof -
  let ?i = "PAGE_DIR_INDEX va" and ?j = "PAGE_TABLE_INDEX va"
  let ?v = "heap_entry phys (pte s ?i ?j)"
  have t: "t = s\<lparr>ram := store32 (ram s) (entry_frame (pde s ?i) + 4 * ?j) ?v\<rparr>"
    unfolding t_def map_heap_page_eq [OF wf pres phys] by (simp add: pte_def)
  have 31: "\<not> bit (pte s ?i ?j) 31" using vmm_wfD(5) [OF wf _ pres] by simp
  note v = heap_entry_facts [OF phys 31]
  note W = write_pte [OF wf _ pres _ v(3), of ?j, simplified, folded t]
  show "vmm_wf t" by (rule W(3))
  show "pde t i = pde s i" if "i < 1024" for i using W(1) that .
  show "\<exists>m. t = s\<lparr>ram := m\<rparr>" using t by blast
  show "mmu_walk (ram t) (curdir t) va' =
      (if va' div 4096 = va div 4096 then Some (phys OR (va' AND 0xFFF)) else mmu_walk (ram s) (curdir s) va')"
    using W(1,2) v(1,2) pres by (auto simp: mmu_walk_entries Let_def page_of_indices)
  show mb: "\<And>x. map_byte s x \<Longrightarrow> ram t x = ram s x"
    using frame_write_map [OF vmm_wfD(1) [OF wf _ pres], of ?j] by (simp add: t)
  show "reserved_frame t p = reserved_frame s p" for p by (intro map_unchanged(3) mb) (simp_all add: t)
qed

section \<open>Mapping the run\<close>

text \<open>The loop: after \<open>k\<close> pages the first \<open>k\<close> pages of the address space lead into the run.\<close>

definition heap_pages :: "u32 \<Rightarrow> nat \<Rightarrow> 'a heap \<Rightarrow> 'a heap \<Rightarrow> bool" where
  "heap_pages a k s t \<longleftrightarrow> vmm_wf t \<and> (\<forall>i<1024. pde t i = pde s i) \<and> (\<exists>m. t = s\<lparr>ram := m\<rparr>) \<and>
     (\<forall>x. map_byte s x \<longrightarrow> ram t x = ram s x) \<and>
     (\<forall>va. mmu_walk (ram t) (curdir t) va =
        (if unat va < 4096 * k then Some (a + va) else mmu_walk (ram s) (curdir s) va))"

lemma page_number: "k < 0x100000 \<Longrightarrow> va div 4096 = (of_nat (4096 * k) :: u32) div 4096 \<longleftrightarrow> unat va div 4096 = k"
proof -
  assume "k < 0x100000"
  then have "unat (of_nat (4096 * k) :: u32) = 4096 * k" by (simp add: unat_of_nat_small del: of_nat_mult)
  then show ?thesis by (simp add: word_unat_eq_iff unat_div del: of_nat_mult)
qed

lemma page_offset:
  assumes "a mod 4096 = 0" "unat va div 4096 = k" "unat a + 4096 * k < 2 ^ 32"
  shows "(a + of_nat (4096 * k)) OR (va AND 0xFFF) = a + (va :: u32)"
proof -
  have k: "unat (of_nat (4096 * k) :: u32) = 4096 * k" using assms(3) by (simp add: unat_of_nat_small del: of_nat_mult)
  have off: "va AND 0xFFF = va mod 4096"
    using take_bit_eq_mask [of 12 va] by (simp add: mask_eq_exp_minus_1 take_bit_eq_mod)
  have "unat va = 4096 * k + unat va mod 4096" using assms(2) by (metis mult_div_mod_eq)
  then have va: "of_nat (4096 * k) + va mod 4096 = va"
    using k unat_u32_bound [of va] by (simp add: word_unat_eq_iff unat_word_ariths unat_mod del: of_nat_mult)
  have "(a + of_nat (4096 * k)) mod 4096 = 0"
    using assms(1,3) k by (simp add: word_unat_eq_iff unat_word_ariths unat_mod mod_add_left_eq del: of_nat_mult)
  then have "(a + of_nat (4096 * k)) OR (va AND 0xFFF) = a + of_nat (4096 * k) + (va AND 0xFFF)" by (rule or_offset)
  then show ?thesis using va off by (simp add: add.assoc del: of_nat_mult)
qed

lemma heap_pages_step:
  assumes hp: "heap_pages a k s t" and pres: "entry_present (pde s 0)" and k: "k < 1024"
    and a: "a mod 4096 = 0" "unat a + 4096 * Suc k \<le> 2 ^ 31"
  shows "heap_pages a (Suc k) s (map_heap_page (a + of_nat (4096 * k)) (of_nat (4096 * k)) t)"
proof -
  let ?p = "a + of_nat (4096 * k)" and ?va = "of_nat (4096 * k) :: u32"
  have u: "unat ?va = 4096 * k" using k by (simp add: unat_of_nat_small del: of_nat_mult)
  have idx: "PAGE_DIR_INDEX ?va = 0" using u k by (simp add: dir_index_ranges word_less_nat_alt del: of_nat_mult)
  have pt: "entry_present (pde t (PAGE_DIR_INDEX ?va))" using hp pres idx by (simp add: heap_pages_def)
  have up: "unat ?p = unat a + 4096 * k" using a(2) u by (simp add: unat_word_ariths del: of_nat_mult)
  then have p: "?p mod 4096 = 0" "\<not> bit ?p 31"
    using a u by (simp_all add: word_unat_eq_iff unat_mod below_2G_bit word_less_nat_alt del: of_nat_mult)
  have wf: "vmm_wf t" using hp by (simp add: heap_pages_def)
  note S = map_heap_page_step [OF wf pt p]
  have page: "va div 4096 = ?va div 4096 \<longleftrightarrow> 4096 * k \<le> unat va \<and> unat va < 4096 * Suc k" for va :: u32
    using page_number [of k va] k by (auto simp: div_nat_eqI less_mult_imp_div_less simp del: of_nat_mult)
  have "mmu_walk (ram (map_heap_page ?p ?va t)) (curdir (map_heap_page ?p ?va t)) va =
      (if unat va < 4096 * Suc k then Some (a + va) else mmu_walk (ram s) (curdir s) va)" for va
  proof -
    have "?p OR (va AND 0xFFF) = a + va" if "4096 * k \<le> unat va" "unat va < 4096 * Suc k"
    proof (rule page_offset [OF a(1)])
      show "unat va div 4096 = k" using that by (simp add: div_nat_eqI)
    qed (use a(2) in simp)
    then show ?thesis using S(4) [of va] hp page [of va] unfolding heap_pages_def by (auto simp del: of_nat_mult)
  qed
  moreover have "map_byte t = map_byte s" using hp by (auto simp: heap_pages_def map_byte_def fun_eq_iff)
  ultimately show ?thesis using S hp unfolding heap_pages_def by (auto simp del: of_nat_mult)
qed

lemma heap_pages_loop:
  fixes s :: "'a heap"
  assumes wf: "vmm_wf s" and pres: "entry_present (pde s 0)" and n: "n \<le> 1024"
    and a: "a mod 4096 = 0" "unat a + 4096 * n \<le> 2 ^ 31"
  obtains t where "for_u32 0 (of_nat n) (\<lambda>i (phys, virt, s). (phys + PAGE_SIZE, virt + PAGE_SIZE, map_heap_page phys virt s))
      (a, 0, s) = (a + of_nat (4096 * n), of_nat (4096 * n), t)" "heap_pages a n s t"
proof -
  let ?body = "\<lambda>(i::nat) (phys, virt, s :: 'a heap). (phys + PAGE_SIZE, virt + PAGE_SIZE, map_heap_page phys virt s)"
  have "\<exists>t. fold ?body [0..<k] (a, 0, s) = (a + of_nat (4096 * k), of_nat (4096 * k), t) \<and> heap_pages a k s t"
    if "k \<le> n" for k
    using that
  proof (induction k)
    case 0
    have "\<exists>m. s = s\<lparr>ram := m\<rparr>" by (metis heap_mem.kept_refl heap_kept_def)
    with wf show ?case by (simp add: heap_pages_def)
  next
    case (Suc k)
    then obtain t where t: "fold ?body [0..<k] (a, 0, s) = (a + of_nat (4096 * k), of_nat (4096 * k), t)" "heap_pages a k s t"
      by auto
    have "heap_pages a (Suc k) s (map_heap_page (a + of_nat (4096 * k)) (of_nat (4096 * k)) t)"
      by (rule heap_pages_step [OF t(2) pres _ a(1)]) (use Suc.prems n a(2) in auto)
    with t(1) show ?case by (simp add: algebra_simps)
  qed
  from this [of n] obtain t where t: "fold ?body [0..<n] (a, 0, s) = (a + of_nat (4096 * n), of_nat (4096 * n), t)"
    "heap_pages a n s t" by auto
  have "unat (of_nat n :: u32) = n" using n by (simp add: unat_of_nat_small)
  then show ?thesis using that t by (simp add: for_u32_fold split_beta')
qed

section \<open>The heap is apart from the page tables\<close>

lemma heap_mapped_run:
  fixes s :: "'a vmm"
  assumes wf: "vmm_wf s" and on: "bit (cr0 s) 31" "cr3 s = curdir s" and n: "unat a + 4096 * n \<le> 2 ^ 31"
    and walk: "\<And>va. unat va < 4096 * n \<Longrightarrow> mmu_walk (ram s) (curdir s) va = Some (a + va)"
    and sep: "\<And>x p. table_frame s p \<Longrightarrow> x div 4096 = p div 4096 \<Longrightarrow> \<not> (unat a \<le> unat x \<and> unat x < unat a + 4096 * n)"
  shows "heap_mapped (of_nat (4096 * n)) s"
proof -
  have E: "va < of_nat (4096 * n) \<longleftrightarrow> unat va < 4096 * n" for va :: u32
    using n by (simp add: word_less_nat_alt unat_of_nat_small del: of_nat_mult)
  have tr: "translate s va = Some (a + va)" if "va < of_nat (4096 * n)" for va
    using that walk on E by (simp add: translate_def)
  have "translate (s\<lparr>ram := m\<rparr>) va = translate s va"
    if m: "\<forall>x. x \<notin> heap_bytes (of_nat (4096 * n)) s \<longrightarrow> m x = ram s x" for m va
  proof -
    have "m x = ram s x" if "table_frame s p" "x div 4096 = p div 4096" for x p
    proof -
      have "x \<notin> heap_bytes (of_nat (4096 * n)) s"
      proof
        assume "x \<in> heap_bytes (of_nat (4096 * n)) s"
        then obtain va where "va < of_nat (4096 * n)" "x = a + va" using tr by (auto simp: heap_bytes_def)
        then have "unat va < 4096 * n" "unat x = unat a + unat va" using E n by (simp_all add: unat_word_ariths del: of_nat_mult)
        then show False using sep [OF that] by simp
      qed
      then show ?thesis using m by blast
    qed
    then have "mmu_walk m (curdir s) va = mmu_walk (ram s) (curdir s) va" by (rule walk_cong [OF wf])
    then show ?thesis using on by (simp add: translate_def)
  qed
  then show ?thesis unfolding heap_mapped_def using tr by (auto simp del: of_nat_mult)
qed

section \<open>Establishing the heap\<close>

text \<open>The number of pages that a request of some bytes needs.\<close>

definition pages_for :: "u32 \<Rightarrow> nat" where
  "pages_for bytes = (unat bytes + 4095) div 4096"

lemma pages_for_code:
  "(if 0 < bytes mod PAGE_SIZE then bytes div PAGE_SIZE + 1 else bytes div PAGE_SIZE) = of_nat (pages_for bytes)"
proof -
  define q r where "q = unat bytes div 4096" and "r = unat bytes mod 4096"
  have b: "unat bytes = 4096 * q + r" "r < 4096" by (simp_all add: q_def r_def)
  have "pages_for bytes = (if 0 < r then q + 1 else q)"
    using b by (auto simp: pages_for_def div_nat_eqI)
  moreover have "bytes div PAGE_SIZE = of_nat q" using word_arith_nat_div [of bytes PAGE_SIZE] by (simp add: q_def)
  moreover have "0 < bytes mod PAGE_SIZE \<longleftrightarrow> 0 < r" by (simp add: word_less_nat_alt unat_mod r_def)
  ultimately show ?thesis by simp
qed

lemma run_in_map:
  assumes wf: "pmm_wf s" "max_blocks s \<le> 0x80000" and im: "in_map s (a div 4096) (of_nat n)" and n: "n \<le> 32"
    and a: "a mod 4096 = 0"
  shows "unat a + 4096 * n \<le> 2 ^ 31" "unat a = 4096 * (unat a div 4096)"
proof -
  show "unat a = 4096 * (unat a div 4096)"
    using a by (simp add: word_unat_eq_iff unat_mod) (metis dvd_eq_mod_eq_0 dvd_mult_div_cancel)
  moreover have "unat a div 4096 + n \<le> 32 * (unat (max_blocks s) div 32)"
    using im n by (simp add: in_map_def unat_div unat_of_nat_small)
  moreover have "unat (max_blocks s) \<le> 0x80000" using wf(2) by (simp add: word_le_nat_alt)
  moreover have "32 * (unat (max_blocks s) div 32) \<le> unat (max_blocks s)" by simp
  moreover have aux: "q + n \<le> 0x80000 \<Longrightarrow> p = 4096 * q \<Longrightarrow> p + 4096 * n \<le> 2 ^ 31" for p q :: nat by simp
  ultimately have "unat a div 4096 + n \<le> 0x80000" "unat a = 4096 * (unat a div 4096)" by linarith+
  then show "unat a + 4096 * n \<le> 2 ^ 31" using aux by blast
qed

lemma run_separate:
  assumes "\<And>c. c - a div 4096 < of_nat n \<Longrightarrow> \<not> block_used s c" "block_used s (p div 4096)" "x div 4096 = p div 4096"
    and n: "unat a + 4096 * n \<le> 2 ^ 31" "unat a = 4096 * (unat a div 4096)"
  shows "\<not> (unat a \<le> unat x \<and> unat x < unat a + 4096 * n)"
proof
  assume x: "unat a \<le> unat x \<and> unat x < unat a + 4096 * n"
  then have "unat a div 4096 \<le> unat x div 4096" "unat x div 4096 < unat a div 4096 + n"
    using n(2) by (auto simp: div_le_mono less_mult_imp_div_less)
  then have "x div 4096 - a div 4096 < of_nat n"
    using n(1) by (simp add: word_less_nat_alt unat_sub_if' unat_div unat_of_nat_small)
  with assms(1) [of "x div 4096"] assms(2,3) show False by simp
qed

text \<open>The fields of the heap itself do not matter to the memory managers.\<close>

lemmas memory_defs = vmm_wf_def memory_wf_def pmm_wf_def map_reserved_def reserved_frame_def map_byte_def
  block_in_map_def block_used_def mmap_word_def pde_def pte_def

lemma heap_fields [simp]:
  "vmm_wf (s\<lparr>total_malloc_pages := v\<rparr>) = vmm_wf s" "vmm_wf (s\<lparr>malloc_phys_addr := v\<rparr>) = vmm_wf s"
  "vmm_wf (s\<lparr>malloc_list_head := v\<rparr>) = vmm_wf s"
  "pde (s\<lparr>total_malloc_pages := v\<rparr>) = pde s" "pde (s\<lparr>malloc_phys_addr := v\<rparr>) = pde s"
  "pde (s\<lparr>malloc_list_head := v\<rparr>) = pde s"
  "block_used (s\<lparr>total_malloc_pages := v\<rparr>) = block_used s" "reserved_frame (s\<lparr>total_malloc_pages := v\<rparr>) = reserved_frame s"
  by (simp_all add: memory_defs fun_eq_iff)

lemma heap_alloc:
  assumes wf: "vmm_wf s" and n: "0 < n" "n \<le> 32"
    and room: "of_nat n < pmmngr_get_free_block_count s"
    and run: "in_map s b (of_nat n)" "\<And>c. c - b < of_nat n \<Longrightarrow> \<not> block_used s c"
    and al: "pmmngr_alloc_blocks (of_nat n) s = (a, t)"
  shows "a \<noteq> 0" "a mod 4096 = 0" "\<And>c. c - a div 4096 < of_nat n \<Longrightarrow> \<not> block_used s c"
    "unat a + 4096 * n \<le> 2 ^ 31" "unat a = 4096 * (unat a div 4096)"
proof -
  have un: "unat (of_nat n :: u32) = n" using n by (simp add: unat_of_nat_small)
  then have n0: "(of_nat n :: u32) \<noteq> 0" using n by auto
  have pwf: "pmm_wf s" "max_blocks s \<le> 0x80000" using vmm_wf_curdir(4) [OF wf] by (simp_all add: memory_wf_def)
  note ok = alloc_blocks_succeeds [OF pwf(1) n0 _ run(1) [unfolded in_map_def] run(2), unfolded al fst_conv]
  show a: "a \<noteq> 0" using ok(1) room by (simp add: pmmngr_get_free_block_count_def)
  note E = alloc_blocks_effect [OF pwf(1) al a]
  show aa: "a mod 4096 = 0" by (rule E(1))
  have "a div 4096 \<le> b" using ok(2) room by (simp add: pmmngr_get_free_block_count_def)
  then have im: "in_map s (a div 4096) (of_nat n)"
    using run(1) by (simp add: in_map_def word_le_nat_alt)
  show "\<not> block_used s c" if "c - a div 4096 < of_nat n" for c
    using that E(2) candidate_iff_run [OF im [unfolded in_map_def] n0] by blast
  show "unat a + 4096 * n \<le> 2 ^ 31" "unat a = 4096 * (unat a div 4096)"
    using run_in_map [OF pwf im n(2) aa] by blast+
qed

lemma heap_more:
  fixes s s' :: "'a heap"
  assumes "pmm_state.more s' = pmm_state.more s"
  shows "total_malloc_pages s' = total_malloc_pages s" "malloc_virt_addr s' = malloc_virt_addr s"
  using assms by (cases s; cases s'; simp)+

lemma heap_view_run:
  \<comment> \<open>the state after the loop of \<open>malloc_init\<close>\<close>
  fixes s t :: "'a heap"
  assumes wf: "vmm_wf s" and free: "\<And>c. c - a div 4096 < of_nat n \<Longrightarrow> \<not> block_used s c"
    and a: "unat a + 4096 * n \<le> 2 ^ 31" "unat a = 4096 * (unat a div 4096)"
    and t: "vmm_wf t" "\<And>i. i < 1024 \<Longrightarrow> pde t i = pde s i" "curdir t = curdir s" "bit (cr0 t) 31" "cr3 t = curdir t"
    and walk: "\<And>va. unat va < 4096 * n \<Longrightarrow> mmu_walk (ram t) (curdir t) va = Some (a + va)"
  shows "heap_view (of_nat (4096 * n)) t (\<lambda>va. ram t (a + va))"
proof -
  have "block_used s (p div 4096)" if "table_frame t p" for p
    using that vmm_wf_curdir(1) [OF wf] vmm_wfD(1) [OF wf] t(2,3)
    by (auto simp: table_frame_def reserved_frame_def)
  then have "heap_mapped (of_nat (4096 * n)) t"
    using run_separate [OF free _ _ a] by (intro heap_mapped_run [OF t(1,4,5) a(1) walk]) blast+
  moreover have "vload8 va t = Some (ram t (a + va))" if "va < of_nat (4096 * n)" for va
  proof -
    have "unat va < 4096 * n" using that a(1) by (simp add: word_less_nat_alt unat_of_nat_small del: of_nat_mult)
    then show ?thesis using walk t(4,5) by (simp add: vload8_def translate_def)
  qed
  ultimately show ?thesis by (simp add: heap_view_def)
qed

text \<open>The first half of \<open>malloc_init\<close>: the run is allocated and mapped.\<close>

lemma heap_run:
  fixes s :: "'a heap"
  assumes wf: "vmm_wf s" and on: "bit (cr0 s) 31" "cr3 s = curdir s" and pres: "entry_present (pde s 0)"
    and virt: "malloc_virt_addr s = 0" and n': "0 < n" "n \<le> 32"
    and room: "of_nat n < pmmngr_get_free_block_count s"
    and run: "in_map s b (of_nat n)" "\<forall>c. c - b < of_nat n \<longrightarrow> \<not> block_used s c"
  defines "s0 \<equiv> s\<lparr>total_malloc_pages := of_nat n\<rparr>"
  obtains a s1 t where "pmmngr_alloc_blocks (of_nat n) s0 = (a, s1)" "malloc_virt_addr s1 = 0" "total_malloc_pages s1 = of_nat n"
    "for_u32 0 (of_nat n) (\<lambda>i (phys, virt, s). (phys + PAGE_SIZE, virt + PAGE_SIZE, map_heap_page phys virt s))
      (a, 0, s1\<lparr>malloc_phys_addr := a, malloc_list_head := 0\<rparr>) = (a + of_nat (4096 * n), of_nat (4096 * n), t)"
    "malloc_list_head t = 0" "total_malloc_pages t = of_nat n" "bit (cr0 t) 31" "cr3 t = curdir t" 
    "a mod 4096 = 0" "\<not> block_used s (a div 4096)" "unat a + 4096 * n \<le> 2 ^ 31"
    "heap_view (of_nat (4096 * n)) t (\<lambda>va. ram t (a + va))"
    "\<And>va. mmu_walk (ram t) (curdir t) va = (if unat va < 4096 * n then Some (a + va) else mmu_walk (ram s) (curdir s) va)"
    "\<exists>m. t = s1\<lparr>malloc_phys_addr := a, malloc_list_head := 0, ram := m\<rparr>" "vmm_wf t" "\<And>p. table_frame t p = table_frame s p"
    "\<And>i. i < 1024 \<Longrightarrow> pde t i = pde s i" "\<And>c. c - a div 4096 < of_nat n \<Longrightarrow> \<not> block_used s c"
    "\<And>x. map_byte s1 x \<Longrightarrow> ram t x = ram s1 x"
proof -
  have wf0: "vmm_wf s0" and room0: "of_nat n < pmmngr_get_free_block_count s0" "in_map s0 b (of_nat n)"
    and run0: "\<And>c. c - b < of_nat n \<Longrightarrow> \<not> block_used s0 c"
    using wf room run by (simp_all add: s0_def pmmngr_get_free_block_count_def in_map_def)
  obtain a s1 where al: "pmmngr_alloc_blocks (of_nat n) s0 = (a, s1)" by fastforce
  note A = heap_alloc [OF wf0 n' room0 run0 al]
  have n32: "(of_nat n :: u32) \<le> 32" using n' by (simp add: word_le_nat_alt unat_of_nat_small)
  note S = alloc_keeps_space [OF wf0 al n32 A(1)]
  define s2 where "s2 = s1\<lparr>malloc_phys_addr := a, malloc_list_head := 0\<rparr>"
  have pwf: "pmm_wf s0" using vmm_wf_curdir(4) [OF wf0] by (simp add: memory_wf_def)
  have f1: "total_malloc_pages s1 = of_nat n" "malloc_virt_addr s1 = 0" "cr0 s1 = cr0 s" "cr3 s1 = cr3 s"
    using heap_more [OF alloc_blocks_effect(10) [OF pwf al A(1)]] alloc_blocks_cpu [OF al] virt by (simp_all add: s0_def)
  have wf2: "vmm_wf s2" "entry_present (pde s2 0)" using S(1,2) pres by (simp_all add: s2_def s0_def)
  have n1024: "n \<le> 1024" using n' by simp
  obtain t where t: "for_u32 0 (of_nat n) (\<lambda>i (phys, virt, s). (phys + PAGE_SIZE, virt + PAGE_SIZE, map_heap_page phys virt s))
      (a, 0, s2) = (a + of_nat (4096 * n), of_nat (4096 * n), t)" "heap_pages a n s2 t"
    by (rule heap_pages_loop [OF wf2 n1024 A(2,4)])
  from t(2) obtain m where m: "t = s2\<lparr>ram := m\<rparr>" by (auto simp: heap_pages_def)
  have tf: "vmm_wf t" "\<And>i. i < 1024 \<Longrightarrow> pde t i = pde s0 i" "curdir t = curdir s0" "bit (cr0 t) 31" "cr3 t = curdir t"
    using t(2) S(2,3) f1 on by (simp_all add: heap_pages_def m s2_def s0_def)
  have walk: "mmu_walk (ram t) (curdir t) va = (if unat va < 4096 * n then Some (a + va) else mmu_walk (ram s) (curdir s) va)" for va
    using t(2) S(4) [of va] by (simp add: heap_pages_def s2_def s0_def)
  have walk_in: "mmu_walk (ram t) (curdir t) va = Some (a + va)" if "unat va < 4096 * n" for va
    using walk [of va] that by simp
  note view = heap_view_run [OF wf0 A(3) A(4,5) tf walk_in]
  have "a div 4096 - a div 4096 < (of_nat n :: u32)" using n' by (simp add: word_less_nat_alt unat_of_nat_small)
  with A(3) have "\<not> block_used s (a div 4096)" by (simp add: s0_def)
  moreover have "table_frame t p = table_frame s p" for p using tf(2,3) by (auto simp: table_frame_def s0_def)
  moreover have "\<exists>m. t = s1\<lparr>malloc_phys_addr := a, malloc_list_head := 0, ram := m\<rparr>" using m unfolding s2_def by blast
  moreover have "pde t i = pde s i" if "i < 1024" for i using tf(2) [OF that] by (simp add: s0_def)
  moreover have "\<not> block_used s c" if "c - a div 4096 < of_nat n" for c using A(3) [of c] that by (simp add: s0_def)
  moreover have "ram t x = ram s1 x" if "map_byte s1 x" for x using t(2) that by (simp add: heap_pages_def s2_def map_byte_def)
  ultimately show ?thesis
    using f1 tf by (intro that [OF al f1(2,1) t(1) [unfolded s2_def] _ _ tf(4,5) A(2) _ A(4) view walk _ tf(1)])
      (simp_all add: m s2_def)
qed

lemma heap_view_inited: "heap_view E (s\<lparr>malloc_iniited := f\<rparr>) M = heap_view E s M"
  by (simp add: heap_view_def heap_mapped_def heap_bytes_def vload8_def translate_def)

lemma vstore8_head: "vstore8 p b s = Some s' \<Longrightarrow> malloc_list_head s' = malloc_list_head s"
  by (auto simp: vstore8_def)

lemma set_keeps_head:
  "set_size p v s = Some s' \<Longrightarrow> malloc_list_head s' = malloc_list_head s"
  "set_free p f s = Some s' \<Longrightarrow> malloc_list_head s' = malloc_list_head s"
  "set_next p v s = Some s' \<Longrightarrow> malloc_list_head s' = malloc_list_head s"
  by (auto simp: set_size_def set_free_def set_next_def vstore32_def bind_eq_Some_conv dest!: vstore8_head)

lemma malloc_init_run:
  fixes s :: "'a heap"
  assumes wf: "vmm_wf s" and on: "bit (cr0 s) 31" "cr3 s = curdir s" and pres: "entry_present (pde s 0)"
    and virt: "malloc_virt_addr s = 0" and n: "0 < pages_for bytes" "pages_for bytes \<le> 32"
    and room: "of_nat (pages_for bytes) < pmmngr_get_free_block_count s"
    and run: "in_map s b (of_nat (pages_for bytes))" "\<forall>c. c - b < of_nat (pages_for bytes) \<longrightarrow> \<not> block_used s c"
  defines "n \<equiv> pages_for bytes"
  obtains a s1 t u where "pmmngr_alloc_blocks (of_nat n) (s\<lparr>total_malloc_pages := of_nat n\<rparr>) = (a, s1)"
    "\<exists>m. t = s1\<lparr>malloc_phys_addr := a, malloc_list_head := 0, ram := m\<rparr>" "vmm_wf t" "\<And>p. table_frame t p = table_frame s p"
    "bit (cr0 t) 31" "cr3 t = curdir t" "heap_kept (of_nat (4096 * n)) t u" "malloc_init bytes s = Some (u\<lparr>malloc_iniited := True\<rparr>)"
    "heap_inv (of_nat (4096 * n)) [(4096 * n - 12, True)] (u\<lparr>malloc_iniited := True\<rparr>)" "a mod 4096 = 0" "\<not> block_used s (a div 4096)"
    "\<And>va. translate u va = (if unat va < 4096 * n then Some (a + va) else translate s va)"
    "\<And>i. i < 1024 \<Longrightarrow> pde t i = pde s i" "\<And>c. c - a div 4096 < of_nat n \<Longrightarrow> \<not> block_used s c" "unat a + 4096 * n \<le> 2 ^ 31"
    "total_malloc_pages u = of_nat n" "malloc_virt_addr u = 0" "\<And>x. map_byte s1 x \<Longrightarrow> ram t x = ram s1 x"
proof -
  note n' = n [folded n_def] and room = room [folded n_def] and run = run [folded n_def]
  obtain a s1 t where al: "pmmngr_alloc_blocks (of_nat n) (s\<lparr>total_malloc_pages := of_nat n\<rparr>) = (a, s1)"
    "malloc_virt_addr s1 = 0" "total_malloc_pages s1 = of_nat n"
    and loop: "for_u32 0 (of_nat n) (\<lambda>i (phys, virt, s). (phys + PAGE_SIZE, virt + PAGE_SIZE, map_heap_page phys virt s))
      (a, 0, s1\<lparr>malloc_phys_addr := a, malloc_list_head := 0\<rparr>) = (a + of_nat (4096 * n), of_nat (4096 * n), t)"
    and t: "malloc_list_head t = 0" "total_malloc_pages t = of_nat n" "bit (cr0 t) 31" "cr3 t = curdir t"
    and a: "a mod 4096 = 0" "\<not> block_used s (a div 4096)" "unat a + 4096 * n \<le> 2 ^ 31"
    and view: "heap_view (of_nat (4096 * n)) t (\<lambda>va. ram t (a + va))"
    and walk: "\<And>va. mmu_walk (ram t) (curdir t) va = (if unat va < 4096 * n then Some (a + va) else mmu_walk (ram s) (curdir s) va)"
    and kept: "\<exists>m. t = s1\<lparr>malloc_phys_addr := a, malloc_list_head := 0, ram := m\<rparr>" "vmm_wf t" "\<And>p. table_frame t p = table_frame s p"
    and pages_free: "\<And>i. i < 1024 \<Longrightarrow> pde t i = pde s i" "\<And>c. c - a div 4096 < of_nat n \<Longrightarrow> \<not> block_used s c"
    and mb: "\<And>x. map_byte s1 x \<Longrightarrow> ram t x = ram s1 x"
    by (rule heap_run [OF wf on pres virt n' room run]) (rule that; assumption)
  let ?E = "of_nat (4096 * n) :: u32" and ?b = "(4096 * n - 12, True)"
  have En: "unat ?E = 4096 * n" using a(3) by (simp add: unat_of_nat_small del: of_nat_mult)
  then have "0 + 12 \<le> unat ?E" using n' by simp
  then obtain t1 t2 t3 where w: "set_size (of_nat 0) (of_nat (4096 * n - 12)) t = Some t1"
    "set_free (of_nat 0) True t1 = Some t2" "set_next (of_nat 0) 0 t2 = Some t3"
    and v3: "heap_view ?E t3 (put_header (\<lambda>va. ram t (a + va)) 0 ?b 0)" and k3: "heap_kept ?E t t3"
    by (rule put_header_view [OF view])
  have pages: "(let s = s\<lparr>total_malloc_pages := bytes div PAGE_SIZE\<rparr>
      in if 0 < bytes mod PAGE_SIZE then s\<lparr>total_malloc_pages := total_malloc_pages s + 1\<rparr> else s) =
      s\<lparr>total_malloc_pages := of_nat n\<rparr>"
    using pages_for_code [of bytes] by (auto simp: n_def split: if_splits)
  have size_w: "(of_nat n :: u32) * PAGE_SIZE - 12 = of_nat (4096 * n - 12)" using n' by (simp add: of_nat_diff)
  have heads: "malloc_list_head t1 = 0" "malloc_list_head t2 = 0" "malloc_list_head t3 = 0"
    using set_keeps_head w t(1) by metis+
  have init: "malloc_init bytes s = Some (t3\<lparr>malloc_iniited := True\<rparr>)"
    using pages al loop w heads t by (simp add: malloc_init_def Let_def size_w del: of_nat_mult)
  have tr: "translate t3 va = (if unat va < 4096 * n then Some (a + va) else translate s va)" for va
    using k3 walk [of va] t(3,4) on by (simp add: heap_kept_def translate_def)
  have "heap_inv ?E [?b] (t3\<lparr>malloc_iniited := True\<rparr>)"
    using v3 heads(3) n' En header_put_header [of 0 "\<lambda>va. ram t (a + va)" ?b 0]
    by (auto simp: heap_inv_def heap_view_inited simp del: of_nat_mult)
  moreover have "total_malloc_pages t3 = of_nat n" "malloc_virt_addr t3 = 0" using k3 kept(1) al(2,3) by (auto simp: heap_kept_def)
  ultimately show ?thesis by (intro that [OF al(1) kept t(3,4) k3 init _ a(1,2) tr pages_free a(3) _ _ mb])
qed

end
