(* ===== verification/Heap_grow.thy ===== *)
theory Heap_grow
  imports Heap_init
begin

text \<open>
  The heap grows: when the last block is too small, \<open>malloc_next_block\<close> takes physical blocks one by one, maps each
  behind the heap and adds it to the last block. The pages of the heap are private: neither bitmap nor page
  tables lie in them, so that the memory managers and the heap do not disturb each other.
\<close>

unbundle bit_operations_syntax

section \<open>The heap in its address space\<close>

definition heap_space :: "nat \<Rightarrow> 'a vmm \<Rightarrow> bool" where
  "heap_space n s \<longleftrightarrow> vmm_wf s \<and> bit (cr0 s) 31 \<and> cr3 s = curdir s \<and> entry_present (pde s 0) \<and> n \<le> 1024 \<and>
     (\<forall>va. unat va < 4096 * n \<longrightarrow> (\<exists>p. mmu_walk (ram s) (curdir s) va = Some p \<and> client_frame s p)) \<and>
     (\<forall>va vb. unat va < 4096 * n \<longrightarrow> unat vb < 4096 * n \<longrightarrow>
        mmu_walk (ram s) (curdir s) va = mmu_walk (ram s) (curdir s) vb \<longrightarrow> va = vb)"

lemma heap_end: "n \<le> 1024 \<Longrightarrow> unat (of_nat (4096 * n) :: u32) = 4096 * n"
  by (simp add: unat_of_nat_small del: of_nat_mult)

lemma heap_space_translate: "heap_space n s \<Longrightarrow> translate s va = mmu_walk (ram s) (curdir s) va"
  by (simp add: heap_space_def translate_def)

lemma heap_space_bytes:
  assumes "heap_space n s" "x \<in> heap_bytes (of_nat (4096 * n)) s"
  shows "client_frame s x"
proof -
  have n: "n \<le> 1024" using assms(1) by (simp add: heap_space_def)
  obtain va where va: "unat va < 4096 * n" "translate s va = Some x"
    using assms(2) heap_end [OF n] by (auto simp: heap_bytes_def word_less_nat_alt simp del: of_nat_mult)
  then show ?thesis using assms(1) heap_space_translate [OF assms(1), of va] by (auto simp: heap_space_def)
qed

lemma heap_space_kept:
  fixes s t :: "'a vmm"
  assumes sp: "heap_space n s" and k: "heap_kept (of_nat (4096 * n)) s t"
  shows "heap_space n t" "block_in_map s c \<Longrightarrow> block_used t c = block_used s c" "max_blocks t = max_blocks s"
    "used_blocks t = used_blocks s" "block_in_map t = block_in_map s" "kernel_uses t = kernel_uses s"
proof -
  obtain m where m: "t = s\<lparr>ram := m\<rparr>" using k by (auto simp: heap_kept_def)
  have wf: "vmm_wf s" using sp by (simp add: heap_space_def)
  have out: "m x = ram s x" if "\<not> client_frame s x" for x
    using k m heap_space_bytes [OF sp, of x] that by (auto simp: heap_kept_def)
  have map: "m x = ram s x" if "map_byte s x" for x using out [of x] that by (auto simp: client_frame_def)
  have tab: "m x = ram s x" if "table_frame s p" "x div 4096 = p div 4096" for x p
    using out [of x] that by (auto simp: client_frame_def)
  note W = vmm_wf_cong [OF wf map tab, folded m]
  have f: "memory_map t = memory_map s" "max_blocks t = max_blocks s" "\<And>x. map_byte s x \<Longrightarrow> ram t x = ram s x" using m map by simp_all
  show bu: "block_used t c = block_used s c" if "block_in_map s c" for c by (rule block_used_cong [OF f that])
  show "max_blocks t = max_blocks s" "used_blocks t = used_blocks s" by (simp_all add: m)
  show bm: "block_in_map t = block_in_map s" by (rule map_unchanged(2) [OF f])
  have mb: "map_byte t = map_byte s" by (rule map_unchanged(1) [OF f])
  show "kernel_uses t = kernel_uses s" by (rule kernel_uses_cong [OF mb W(3)])
  have pr: "client_frame s p \<Longrightarrow> client_frame t p" for p using bu W(3) by (simp add: client_frame_def bm mb)
  have tr: "mmu_walk (ram t) (curdir t) va = mmu_walk (ram s) (curdir s) va" for va
    using k sp by (simp add: heap_kept_def heap_space_def translate_def m)
  have "entry_present (pde t 0)" using W(2) sp by (simp add: heap_space_def)
  then show "heap_space n t" using sp W(1) pr tr unfolding heap_space_def by (auto simp: m)
qed

lemma heap_space_mapped:
  assumes sp: "heap_space n s"
  shows "heap_mapped (of_nat (4096 * n)) s"
proof -
  let ?E = "of_nat (4096 * n) :: u32"
  have n: "n \<le> 1024" and wf: "vmm_wf s" using sp by (simp_all add: heap_space_def)
  have E: "va < ?E \<longleftrightarrow> unat va < 4096 * n" for va by (simp add: word_less_nat_alt heap_end [OF n] del: of_nat_mult)
  have "translate (s\<lparr>ram := m\<rparr>) va = translate s va" if m: "\<forall>x. x \<notin> heap_bytes ?E s \<longrightarrow> m x = ram s x" for m va
  proof -
    have "m x = ram s x" if "table_frame s p" "x div 4096 = p div 4096" for x p
      using m heap_space_bytes [OF sp, of x] that by (auto simp: client_frame_def)
    then have "mmu_walk m (curdir s) va = mmu_walk (ram s) (curdir s) va" by (rule walk_cong [OF wf])
    then show ?thesis using sp by (simp add: heap_space_def translate_def)
  qed
  then show ?thesis
    using sp unfolding heap_mapped_def E heap_space_translate [OF sp] by (auto simp: heap_space_def)
qed

section \<open>One more page\<close>

lemma page_block:
  assumes "a mod 4096 = (0 :: u32)" "unat va < 4096"
  shows "(a + va) div 4096 = a div 4096"
proof -
  obtain k where k: "unat a = 4096 * k" using assms(1) by (auto simp: word_unat_eq_iff unat_mod)
  then have "unat (a + va) = 4096 * k + unat va" using assms(2) unat_u32_bound [of a] by (simp add: unat_word_ariths)
  then show ?thesis using k assms(2) by (simp add: word_unat_eq_iff unat_div)
qed

lemma page_frame:
  assumes "p mod 4096 = (0 :: u32)"
  shows "(p OR (va AND 0xFFF)) div 4096 = p div 4096"
    "va div 4096 = vb div 4096 \<Longrightarrow> p OR (va AND 0xFFF) = p OR (vb AND 0xFFF) \<Longrightarrow> va = vb"
proof -
  have o: "p OR (va AND 0xFFF) = p + (va AND 0xFFF)" "p OR (vb AND 0xFFF) = p + (vb AND 0xFFF)" by (rule or_offset [OF assms])+
  have u: "unat (x AND 0xFFF) = unat x mod 4096" for x :: u32 by (rule address_parts(2))
  show "(p OR (va AND 0xFFF)) div 4096 = p div 4096" unfolding o by (rule page_block [OF assms]) (simp add: u)
  assume e: "va div 4096 = vb div 4096" "p OR (va AND 0xFFF) = p OR (vb AND 0xFFF)"
  then have "va AND 0xFFF = vb AND 0xFFF" unfolding o by simp
  then have "unat va mod 4096 = unat vb mod 4096" using u by metis
  moreover have "unat va div 4096 = unat vb div 4096" using arg_cong [OF e(1), of unat] by (simp add: unat_div)
  ultimately show "va = vb" by (metis mult_div_mod_eq word_unat_eq_iff)
qed

text \<open>An address space in which one more page leads to a frame of its own.\<close>

lemma heap_space_extend:
  fixes s t :: "'a vmm"
  assumes sp: "heap_space n s" and n: "n < 1024" and t: "vmm_wf t" "bit (cr0 t) 31" "cr3 t = curdir t" "entry_present (pde t 0)"
    and walk: "\<And>va. mmu_walk (ram t) (curdir t) va =
      (if unat va div 4096 = n then Some (p OR (va AND 0xFFF)) else mmu_walk (ram s) (curdir s) va)" and p: "p mod 4096 = 0"
    and old: "\<And>x. client_frame s x \<Longrightarrow> client_frame t x" and ap: "\<And>x. client_frame s x \<Longrightarrow> x div 4096 \<noteq> p div 4096"
    and new: "\<And>x. x div 4096 = p div 4096 \<Longrightarrow> client_frame t x"
  shows "heap_space (Suc n) t"
proof -
  have lt: "unat va < 4096 * Suc n \<longleftrightarrow> unat va < 4096 * n \<or> unat va div 4096 = n" for va :: u32
    by (auto simp: div_nat_eqI less_mult_imp_div_less)
  have walk_old: "mmu_walk (ram t) (curdir t) va = mmu_walk (ram s) (curdir s) va" if "unat va < 4096 * n" for va
    using walk [of va] that by (auto simp: less_mult_imp_div_less)
  have walk_new: "mmu_walk (ram t) (curdir t) va = Some (p OR (va AND 0xFFF))" if "unat va div 4096 = n" for va using walk [of va] that by simp
  have inj: "va = vb" if "unat va < 4096 * Suc n" "unat vb < 4096 * Suc n"
    "mmu_walk (ram t) (curdir t) va = mmu_walk (ram t) (curdir t) vb" for va vb
  proof -
    have mixed: False if m: "unat x < 4096 * n" "unat y div 4096 = n" "mmu_walk (ram t) (curdir t) x = mmu_walk (ram t) (curdir t) y" for x y
    proof -
      obtain q where "mmu_walk (ram s) (curdir s) x = Some q" "client_frame s q" using sp m(1) unfolding heap_space_def by blast
      then show False using ap [of q] page_frame(1) [OF p, of y] walk_old [OF m(1)] walk_new [OF m(2)] m(3) by simp
    qed
    show ?thesis
    proof (cases "unat va < 4096 * n \<and> unat vb < 4096 * n")
      case True
      then show ?thesis using sp that(3) walk_old by (simp add: heap_space_def)
    next
      case False
      then have d: "unat va div 4096 = n" "unat vb div 4096 = n" using that mixed [of va vb] mixed [of vb va] lt by metis+
      then have "va div 4096 = vb div 4096" by (simp add: word_unat_eq_iff unat_div)
      then show ?thesis using page_frame(2) [OF p] that(3) walk_new d by simp
    qed
  qed
  have ex: "\<exists>q. mmu_walk (ram t) (curdir t) va = Some q \<and> client_frame t q" if "unat va < 4096 * Suc n" for va
  proof (cases "unat va < 4096 * n")
    case True
    then show ?thesis using sp old walk_old by (auto simp: heap_space_def)
  next
    case False
    then have "unat va div 4096 = n" using that lt by blast
    then show ?thesis using walk_new new page_frame(1) [OF p] by simp
  qed
  show ?thesis using t ex inj n unfolding heap_space_def by simp
qed

text \<open>A physical block is taken and mapped behind the heap.\<close>

lemma map_new_page:
  fixes s :: "'a heap"
  assumes sp: "heap_space n s" and n: "n < 1024" and al: "pmmngr_alloc_blocks 1 s = (p, s1)" "p \<noteq> 0"
  defines "t \<equiv> vmmngr_map_page p (of_nat (4096 * n)) s1"
  shows "heap_space (Suc n) t" "\<And>va. mmu_walk (ram t) (curdir t) va =
      (if unat va div 4096 = n then Some (p OR (va AND 0xFFF)) else mmu_walk (ram s) (curdir s) va)"
    "\<And>x. client_frame s x \<Longrightarrow> ram t x = ram s x"
    "\<And>c. block_in_map s c \<Longrightarrow> block_used t c \<longleftrightarrow> c = p div 4096 \<or> block_used s c" "used_blocks t = used_blocks s + 1"
    "max_blocks t = max_blocks s" "pmm_state.more t = pmm_state.more s" "kernel_uses t = kernel_uses s"
proof -
  have wf: "vmm_wf s" and on: "bit (cr0 s) 31" "cr3 s = curdir s" and pres: "entry_present (pde s 0)" using sp by (simp_all add: heap_space_def)
  have mwf: "memory_wf s" "pmm_wf s" using vmm_wf_curdir(4) [OF wf] by (simp_all add: memory_wf_def)
  note S = alloc_keeps_space [OF wf al(1) _ al(2), simplified] and R = alloc_blocks_reserved [OF mwf(1) al(1) _ al(2), simplified]
    and A = alloc_blocks_effect [OF mwf(2) al]
  let ?va = "of_nat (4096 * n) :: u32"
  have u: "unat ?va = 4096 * n" using n by (intro heap_end) simp
  have idx: "PAGE_DIR_INDEX ?va = 0" using u n by (simp add: dir_index_ranges word_less_nat_alt del: of_nat_mult)
  have pg: "va div 4096 = ?va div 4096 \<longleftrightarrow> unat va div 4096 = n" for va using page_number [of n va] n by simp
  have pres1: "entry_present (pde s1 (PAGE_DIR_INDEX ?va))" using pres S(2) idx by simp
  have p: "p mod 4096 = 0" "\<not> bit p 31" using R(2) by (simp_all add: reserved_frame_def)
  have 31: "\<not> bit (pte s1 (PAGE_DIR_INDEX ?va) (PAGE_TABLE_INDEX ?va)) 31" by (rule vmm_wfD(5) [OF S(1) index_bounds(1) pres1 index_bounds(2)])
  note t = t_def [unfolded map_page_present [OF S(1) pres1]] and MW = map_page_present_walk [OF S(1) pres1 p, folded t_def]
    and T = table_write [OF S(1) pres1 mapped_entry_facts(3) [OF p 31 [unfolded pte_def]]] and C = alloc_keeps_frames [OF wf al]
  note T = T [folded t]
  have c: "memory_map t = memory_map s1" "max_blocks t = max_blocks s1" "\<And>x. map_byte s1 x \<Longrightarrow> ram t x = ram s1 x" using T(2) by (simp_all add: t)
  show walk: "mmu_walk (ram t) (curdir t) va = (if unat va div 4096 = n then Some (p OR (va AND 0xFFF)) else mmu_walk (ram s) (curdir s) va)" for va
    using MW(3,4) [of va] S(4) [of va] pg [of va] by simp
  show used: "block_used t d \<longleftrightarrow> d = p div 4096 \<or> block_used s d" if "block_in_map s d" for d
    using block_used_cong [OF c, of d] that A(6) [of d] by (simp add: block_in_map_def A(8) word_less_nat_alt unat_eq_0)
  show "used_blocks t = used_blocks s + 1" "max_blocks t = max_blocks s" by (simp_all add: t A(7,8))
  show "pmm_state.more t = pmm_state.more s" using A(10) by (simp add: t)
  have "map_byte s1 = map_byte s" using R(6) by (simp add: fun_eq_iff)
  then have "kernel_uses s1 = kernel_uses s" by (rule kernel_uses_cong) (rule S(6))
  then show "kernel_uses t = kernel_uses s" using map_page_frames(2) [OF S(1) pres1 p] by (simp add: t_def)
  show "ram t x = ram s x" if "client_frame s x" for x
    using that T(3) [of x] C [of x] alloc_blocks_ram [OF mwf(2) al(1), of x] by (auto simp: client_frame_def)
  have ap: "x div 4096 \<noteq> p div 4096" if "client_frame s x" for x using that R(3) by (auto simp: client_frame_def)
  have "cr0 t = cr0 s" "cr3 t = cr3 s" "curdir t = curdir s" using alloc_blocks_cpu [OF al(1)] S(3) by (simp_all add: t)
  moreover have "entry_present (pde t 0)" using T(5) S(2) pres by simp
  ultimately show "heap_space (Suc n) t"
    using on by (intro heap_space_extend [OF sp n MW(1) _ _ _ walk p(1) _ ap]) (simp_all add: T(4) C)
qed

section \<open>A larger last block\<close>

lemma set_size_last:
  assumes inv: "heap_inv E (xs @ [(l, f)]) s" and l': "extent xs + 12 + l' \<le> unat E" "0 < l'"
  obtains s' where "set_size (of_nat (extent xs)) (of_nat l') s = Some s'" "heap_inv E (xs @ [(l', f)]) s'" "heap_kept E s s'"
proof -
  let ?p = "extent xs"
  obtain M where M: "heap_view E s M" "chain M 0 (xs @ [(l, f)]) 0" "malloc_list_head s = 0" "0 < fst (hd (xs @ [(l, f)]))"
    "extent (xs @ [(l, f)]) \<le> unat E" using heap_invE [OF inv] by blast
  let ?M = "store32 M (of_nat ?p) (of_nat l')"
  have b: "?p + 12 < 2 ^ 32" "?p + 12 \<le> unat E" using l' unat_u32_bound [of E] by linarith+
  obtain s' where s': "set_size (of_nat ?p) (of_nat l') s = Some s'" "heap_view E s' ?M" "heap_kept E s s'"
    by (rule set_size_view [OF M(1) b(2)])
  have out: "?M x = M x" if "\<not> (?p \<le> unat x \<and> unat x < ?p + 4)" for x
    using that in_region_of_nat [of ?p 4 x] b(1) by (intro store32_outside) simp
  have h: "header M ?p (l, f) 0" and cx: "chain M 0 xs (of_nat ?p)" using M(2) by (simp_all add: chain_append)
  have "load32 ?M (of_nat (?p + 8)) = load32 M (of_nat (?p + 8))"
    by (rule load32_cong, rule out) (use in_region_of_nat [of "?p + 8" 4] b(1) in auto)
  moreover have "load32 ?M (of_nat (?p + 4)) = load32 M (of_nat (?p + 4))"
    by (rule load32_cong, rule out) (use in_region_of_nat [of "?p + 4" 4] b(1) in auto)
  ultimately have "header ?M ?p (l', f) 0" using h by (simp add: header_def)
  moreover have "chain ?M 0 xs (of_nat ?p)" using cx chain_cong [of 0 xs ?M M] out b(1) by simp
  ultimately have "chain ?M 0 (xs @ [(l', f)]) 0" by (simp add: chain_append)
  moreover have "0 < fst (hd (xs @ [(l', f)]))" using M(4) l'(2) by (cases xs) simp_all
  ultimately show ?thesis
    using that s' M(3) l'(1) heap_kept_head [OF s'(3)] by (auto simp: heap_inv_def)
qed

lemma heap_inv_wider:
  assumes inv: "heap_inv E bs s" and E: "unat E \<le> unat E'" and m: "heap_mapped E' t" and hd: "malloc_list_head t = 0"
    and same: "\<And>va. va < E \<Longrightarrow> vload8 va t = vload8 va s"
  shows "heap_inv E' bs t"
proof -
  obtain M where M: "heap_view E s M" "chain M 0 bs 0" "bs \<noteq> []" "0 < fst (hd bs)" "extent bs \<le> unat E" "extent bs < 2 ^ 32"
    using heap_invE [OF inv] by blast
  define M' where "M' va = the (vload8 va t)" for va
  have "vload8 va t \<noteq> None" if "va < E'" for va using m that by (auto simp: heap_mapped_def vload8_def)
  then have v: "heap_view E' t M'" using m by (auto simp: heap_view_def M'_def)
  have "M' x = M x" if "unat x < extent bs" for x
    using same [of x] M(1,5) that by (simp add: M'_def heap_view_def word_less_nat_alt)
  then have "chain M' 0 bs 0" using chain_cong [of 0 bs M' M] M(2,6) by simp
  then show ?thesis using v hd M(3-5) E by (auto simp: heap_inv_def)
qed

section \<open>The loop\<close>

definition free_run :: "'a pmm \<Rightarrow> u32 \<Rightarrow> nat \<Rightarrow> bool" where
  "free_run s b k \<longleftrightarrow> k < unat (pmmngr_get_free_block_count s) \<and> unat b + k \<le> 32 * unat (max_blocks s div 32) \<and>
     (\<forall>c. unat b \<le> unat c \<and> unat c < unat b + k \<longrightarrow> \<not> block_used s c)"

lemma free_run_alloc:
  assumes wf: "memory_wf s" and run: "free_run s b (Suc k)"
  obtains p s1 where "pmmngr_alloc_blocks 1 s = (p, s1)" "p \<noteq> 0" "p div 4096 \<le> b"
proof -
  have pwf: "pmm_wf s" using wf by (simp add: memory_wf_def)
  have "\<not> block_used s c" if "c - b < 1" for c
  proof -
    have "c = b" using that by (simp add: word_less_nat_alt unat_eq_0)
    then show ?thesis using run by (simp add: free_run_def)
  qed
  moreover have "1 < max_blocks s - used_blocks s" "unat b + unat (1 :: u32) \<le> 32 * unat (max_blocks s div 32)"
    using run by (simp_all add: free_run_def pmmngr_get_free_block_count_def word_less_nat_alt)
  ultimately have "fst (pmmngr_alloc_blocks 1 s) \<noteq> 0" "fst (pmmngr_alloc_blocks 1 s) div 4096 \<le> b"
    using alloc_blocks_succeeds [OF pwf, of 1 b] by auto
  then show ?thesis using that by (metis prod.collapse)
qed

lemma free_run_step:
  assumes wf: "memory_wf s" and run: "free_run s b (Suc k)" and q: "q \<le> b"
    and t: "used_blocks t = used_blocks s + 1" "max_blocks t = max_blocks s"
      "\<And>c. block_in_map s c \<Longrightarrow> block_used t c \<longleftrightarrow> c = q \<or> block_used s c"
  shows "free_run t (b + 1) k"
proof -
  have b: "unat b + Suc k \<le> 32 * (unat (max_blocks s) div 32)" using run by (simp add: free_run_def unat_div)
  have "unat (max_blocks s) \<le> 0x80000" using wf by (simp add: memory_wf_def word_le_nat_alt)
  then have u: "unat (b + 1) = unat b + 1" using b by (simp add: unat_word_ariths)
  have "\<not> block_used t c" if "unat (b + 1) \<le> unat c" "unat c < unat (b + 1) + k" for c
  proof -
    have "unat c div 32 < unat (max_blocks s) div 32" using that(2) u b by linarith
    then have "block_in_map s c" by (simp add: block_in_map_def word_less_nat_alt unat_div)
    moreover have "c \<noteq> q" using that(1) u q by (auto simp: word_le_nat_alt)
    moreover have "\<not> block_used s c" using run that u by (simp add: free_run_def)
    ultimately show ?thesis using t(3) by simp
  qed
  moreover have "unat (max_blocks s - used_blocks s - 1) = unat (max_blocks s - used_blocks s) - 1"
    using run by (intro unat_minus_one) (auto simp: free_run_def pmmngr_get_free_block_count_def)
  ultimately show ?thesis
    using run b u t(1,2) by (auto simp: free_run_def pmmngr_get_free_block_count_def diff_diff_eq [symmetric] unat_div)
qed

lemma heap_fields_more:
  fixes s t :: "'a heap"
  assumes "pmm_state.more t = pmm_state.more s"
  shows "malloc_list_head t = malloc_list_head s" "total_malloc_pages t = total_malloc_pages s"
  using assms by (cases s; cases t; simp)+

lemma total_fields [simp]:
  "heap_space n (s\<lparr>total_malloc_pages := v\<rparr>) = heap_space n s" "heap_inv E bs (s\<lparr>total_malloc_pages := v\<rparr>) = heap_inv E bs s"
  "free_run (s\<lparr>total_malloc_pages := v\<rparr>) b k = free_run s b k" "translate (s\<lparr>total_malloc_pages := v\<rparr>) va = translate s va"
  "kernel_uses (s\<lparr>total_malloc_pages := v\<rparr>) = kernel_uses s"
proof -
  show "kernel_uses (s\<lparr>total_malloc_pages := v\<rparr>) = kernel_uses s"
    by (rule kernel_uses_cong) (simp_all add: fun_eq_iff map_byte_def table_frame_def)
  show "translate (s\<lparr>total_malloc_pages := v\<rparr>) va = translate s va" for va by (simp add: translate_def)
  then have "heap_view E (s\<lparr>total_malloc_pages := v\<rparr>) = heap_view E s"
    by (simp add: fun_eq_iff heap_view_def heap_mapped_def heap_bytes_def vload8_def translate_def)
  then show "heap_inv E bs (s\<lparr>total_malloc_pages := v\<rparr>) = heap_inv E bs s" by (simp add: heap_inv_def)
  show "free_run (s\<lparr>total_malloc_pages := v\<rparr>) b k = free_run s b k" by (simp add: free_run_def pmmngr_get_free_block_count_def)
  show "heap_space n (s\<lparr>total_malloc_pages := v\<rparr>) = heap_space n s"
    by (simp add: heap_space_def client_frame_def table_frame_def map_byte_def block_in_map_def)
qed

lemma grow_page:
  fixes s :: "'a heap"
  assumes sp: "heap_space n s" and n: "n < 1024" and inv: "heap_inv (of_nat (4096 * n)) (xs @ [(l, f)]) s" and run: "free_run s b (Suc k)"
  obtains t where "grow_heap (Suc k) (of_nat (extent xs)) (of_nat (4096 * n)) s = grow_heap k (of_nat (extent xs)) (of_nat (4096 * Suc n)) t"
    "heap_space (Suc n) t" "heap_inv (of_nat (4096 * Suc n)) (xs @ [(l + 4096, f)]) t" "free_run t (b + 1) k"
    "total_malloc_pages t = total_malloc_pages s + 1" "\<And>va. unat va div 4096 \<noteq> n \<Longrightarrow> translate t va = translate s va"
    "kernel_uses t = kernel_uses s"
proof -
  let ?E = "of_nat (4096 * n) :: u32" and ?E' = "of_nat (4096 * Suc n) :: u32" and ?p = "of_nat (extent xs) :: u32"
  have wf: "memory_wf s" using sp vmm_wf_curdir(4) by (auto simp: heap_space_def)
  obtain p s1 where al: "pmmngr_alloc_blocks 1 s = (p, s1)" "p \<noteq> 0" "p div 4096 \<le> b" by (rule free_run_alloc [OF wf run])
  define t where "t = vmmngr_map_page p ?E s1"
  note N = map_new_page [OF sp n al(1,2), folded t_def]
  have u: "unat ?E = 4096 * n" "unat ?E' = 4096 * Suc n" using n by (intro heap_end; simp)+
  have hd0: "malloc_list_head s = 0" using inv by (simp add: heap_inv_def)
  have tr: "translate t va = translate s va" if "unat va div 4096 \<noteq> n" for va
    using that N(2) [of va] heap_space_translate [OF sp] heap_space_translate [OF N(1)] by simp
  have "vload8 va t = vload8 va s" if va: "va < ?E" for va
  proof -
    have lt: "unat va < 4096 * n" using va u(1) by (simp add: word_less_nat_alt)
    then obtain x where x: "mmu_walk (ram s) (curdir s) va = Some x" "client_frame s x" using sp unfolding heap_space_def by blast
    have "unat va div 4096 \<noteq> n" using lt by (auto simp: less_mult_imp_div_less)
    then show ?thesis using tr [of va] x N(3) heap_space_translate [OF sp] by (simp add: vload8_def)
  qed
  then have inv': "heap_inv ?E' (xs @ [(l, f)]) t"
    using heap_inv_wider [OF inv, of ?E' t] heap_space_mapped [OF N(1)] u heap_fields_more [OF N(7)] hd0 by simp
  obtain M where M: "heap_view ?E' t M" "chain M 0 (xs @ [(l, f)]) 0" "extent (xs @ [(l, f)]) \<le> unat ?E'"
    using heap_invE [OF inv'] by blast
  have "header M (extent xs) (l, f) 0" using M(2) by (simp add: chain_append)
  then have bsz: "block_size ?p t = Some (of_nat l)" using read_header(1) [OF M(1)] M(3) by simp
  have "extent (xs @ [(l, f)]) \<le> unat ?E" using inv by (simp add: heap_inv_def)
  then have ext: "extent xs + 12 + (l + 4096) \<le> unat ?E'" using u by simp
  obtain t' where t': "set_size ?p (of_nat (l + 4096)) t = Some t'" "heap_inv ?E' (xs @ [(l + 4096, f)]) t'" "heap_kept ?E' t t'"
    by (rule set_size_last [OF inv' ext]) simp
  note K = heap_space_kept [OF N(1) t'(3)]
  let ?t = "t'\<lparr>total_malloc_pages := total_malloc_pages t' + 1\<rparr>"
  have "vmmngr_alloc_page 0 s = ((p, pt_entry_add_attrib (pte_flag PTE_PRESENT) (pt_entry_set_frame p 0)), s1)"
    using al(1,2) by (simp add: vmmngr_alloc_page_def pmmngr_alloc_block_def)
  moreover have "?E + PAGE_SIZE = ?E'" "(of_nat l :: u32) + PAGE_SIZE = of_nat (l + 4096)" by (simp_all add: algebra_simps)
  ultimately have go: "grow_heap (Suc k) ?p ?E s = grow_heap k ?p ?E' ?t"
    using al(2) bsz t'(1) by (simp add: t_def [symmetric] Let_def del: of_nat_mult of_nat_add)
  have "free_run t' (b + 1) k"
    by (rule free_run_step [OF wf run al(3)]) (use N(4-6) K(2-5) in \<open>simp_all add: block_in_map_def\<close>)
  moreover have "translate t' va = translate t va" "total_malloc_pages t' = total_malloc_pages t" for va using t'(3) by (auto simp: heap_kept_def)
  ultimately show thesis
    using that [OF go] K(1,6) t'(2) tr heap_fields_more [OF N(7)] N(8) by simp
qed

lemma grow_heap_run:
  fixes s :: "'a heap"
  assumes "heap_space n s" "n + k \<le> 1024" "heap_inv (of_nat (4096 * n)) (xs @ [(l, f)]) s" "free_run s b k"
  shows "\<exists>t. grow_heap k (of_nat (extent xs)) (of_nat (4096 * n)) s = Some t \<and> heap_space (n + k) t \<and>
    heap_inv (of_nat (4096 * (n + k))) (xs @ [(l + 4096 * k, f)]) t \<and> total_malloc_pages t = total_malloc_pages s + of_nat k \<and>
    kernel_uses t = kernel_uses s \<and> (\<forall>va. unat va < 4096 * n \<or> 4096 * (n + k) \<le> unat va \<longrightarrow> translate t va = translate s va)"
  using assms
proof (induction k arbitrary: n l s b)
  case 0
  then show ?case by simp
next
  case (Suc k)
  then have n: "n < 1024" by simp
  obtain t where t: "grow_heap (Suc k) (of_nat (extent xs)) (of_nat (4096 * n)) s = grow_heap k (of_nat (extent xs)) (of_nat (4096 * Suc n)) t"
    "heap_space (Suc n) t" "heap_inv (of_nat (4096 * Suc n)) (xs @ [(l + 4096, f)]) t" "free_run t (b + 1) k"
    "total_malloc_pages t = total_malloc_pages s + 1" "\<And>va. unat va div 4096 \<noteq> n \<Longrightarrow> translate t va = translate s va"
    "kernel_uses t = kernel_uses s"
    by (rule grow_page [OF Suc.prems(1) n Suc.prems(3,4)]) (rule that; assumption)
  have "Suc n + k \<le> 1024" using Suc.prems(2) by simp
  from Suc.IH [OF t(2) this t(3,4)] obtain u where u: "grow_heap k (of_nat (extent xs)) (of_nat (4096 * Suc n)) t = Some u"
    "heap_space (Suc n + k) u" "heap_inv (of_nat (4096 * (Suc n + k))) (xs @ [(l + 4096 + 4096 * k, f)]) u"
    "total_malloc_pages u = total_malloc_pages t + of_nat k"
    "\<forall>va. unat va < 4096 * Suc n \<or> 4096 * (Suc n + k) \<le> unat va \<longrightarrow> translate u va = translate t va" "kernel_uses u = kernel_uses t" by blast
  have "translate u va = translate s va" if "unat va < 4096 * n \<or> 4096 * (n + Suc k) \<le> unat va" for va
  proof -
    have "unat va div 4096 \<noteq> n" using that by auto
    moreover have "unat va < 4096 * Suc n \<or> 4096 * (Suc n + k) \<le> unat va" using that by auto
    ultimately show ?thesis using t(6) [of va] u(5) by metis
  qed
  moreover have "l + 4096 + 4096 * k = l + 4096 * Suc k" "Suc n + k = n + Suc k" by simp_all
  ultimately show ?case using t(1,5,7) u(1-4,6) by (simp add: add.assoc del: of_nat_mult grow_heap.simps)
qed

text \<open>The number of pages that are added.\<close>

definition extra_pages :: "nat \<Rightarrow> nat \<Rightarrow> nat" where
  "extra_pages l sz = (sz + 12 - l + 4095) div 4096"

lemma extra_pages_bounds:
  assumes "l < sz"
  shows "0 < extra_pages l sz" "sz + 12 \<le> l + 4096 * extra_pages l sz" "k < extra_pages l sz \<Longrightarrow> l + 4096 * k < sz + 12"
  using assms by (auto simp: extra_pages_def)

lemma pages_needed_extra:
  assumes l: "l < sz" "sz + 12 + 4096 < 2 ^ 32" and c: "0 < c" "c \<le> extra_pages l sz"
  shows "pages_needed (of_nat l) (of_nat sz) (of_nat c) = Some (of_nat (extra_pages l sz))"
proof -
  let ?e = "extra_pages l sz"
  have test: "(of_nat l :: u32) + of_nat c * PAGE_SIZE < of_nat sz + 12 \<longleftrightarrow> l + 4096 * c < sz + 12" if "c \<le> ?e" for c
  proof -
    have "4096 * c \<le> 4096 * ?e" "4096 * ?e \<le> sz + 12 - l + 4095" using that by (auto simp: extra_pages_def)
    then have "l + 4096 * c < 2 ^ 32" using l by linarith
    moreover have "(of_nat l :: u32) + of_nat c * PAGE_SIZE = of_nat (l + 4096 * c)" by (simp add: algebra_simps)
    moreover have "(of_nat sz :: u32) + 12 = of_nat (sz + 12)" by simp
    ultimately show ?thesis using l(2) by (simp add: word_less_nat_alt unat_of_nat_small del: of_nat_add of_nat_mult)
  qed
  show ?thesis
    using c
  proof (induction "?e - c" arbitrary: c)
    case 0
    then have "c = ?e" by simp
    then show ?case using test [of c] extra_pages_bounds(2) [OF l(1)] by (subst pages_needed.simps) simp
  next
    case (Suc d)
    then have "c < ?e" by simp
    then show ?case
      using Suc.hyps(1) [of "Suc c"] Suc.hyps(2) test [of c] extra_pages_bounds(3) [OF l(1)]
      by (subst pages_needed.simps) (simp add: add.commute)
  qed
qed

section \<open>The heap as it is set up\<close>

lemma run_block:
  assumes "a mod 4096 = (0 :: u32)" "unat a + 4096 * n \<le> 2 ^ 31" "unat va < 4096 * n"
  shows "(a + va) div 4096 - a div 4096 < of_nat n"
proof -
  obtain k where k: "unat a = 4096 * k" using assms(1) by (auto simp: word_unat_eq_iff unat_mod)
  have "unat (a + va) = 4096 * k + unat va" using k assms(2,3) by (simp add: unat_word_ariths)
  then have "unat ((a + va) div 4096) = k + unat va div 4096" "unat (a div 4096) = k" using k by (simp_all add: unat_div)
  moreover have "unat va div 4096 < n" using assms(3) by (simp add: less_mult_imp_div_less)
  ultimately show ?thesis using assms(2) by (simp add: word_less_nat_alt unat_sub_if' unat_of_nat_small)
qed

lemma heap_space_run:
  fixes s t :: "'a vmm"
  assumes wf: "vmm_wf s" "vmm_wf t" and on: "bit (cr0 t) 31" "cr3 t = curdir t" "entry_present (pde t 0)" and n: "n \<le> 32"
    and a: "a mod 4096 = 0" "unat a + 4096 * n \<le> 2 ^ 31" and walk: "\<And>va. unat va < 4096 * n \<Longrightarrow> translate t va = Some (a + va)"
    and free: "\<And>c. c - a div 4096 < of_nat n \<Longrightarrow> \<not> block_used s c \<and> block_used t c \<and> block_in_map t c"
    and same: "\<And>p. table_frame t p = table_frame s p" "map_byte t = map_byte s"
  shows "heap_space n t"
proof -
  have w: "mmu_walk (ram t) (curdir t) va = Some (a + va)" if "unat va < 4096 * n" for va
    using walk [OF that] on(1,2) by (simp add: translate_def)
  have "client_frame t (a + va)" if "unat va < 4096 * n" for va
  proof -
    note f = free [OF run_block [OF a that]]
    have "block_used s (x div 4096)" if "map_byte s x" for x using vmm_wf_curdir(4) [OF wf(1)] that by (simp add: memory_wf_def map_reserved_def)
    moreover have "block_used s (q div 4096)" if "table_frame s q" for q
      using that vmm_wf_curdir(1) [OF wf(1)] vmm_wfD(1) [OF wf(1)] by (auto simp: table_frame_def reserved_frame_def)
    ultimately show ?thesis using f unfolding client_frame_def same by metis
  qed
  then show ?thesis using wf(2) on n w unfolding heap_space_def by simp
qed

lemma malloc_init_space:
  fixes s :: "'a heap"
  assumes wf: "vmm_wf s" and on: "bit (cr0 s) 31" "cr3 s = curdir s" and pres: "entry_present (pde s 0)"
    and virt: "malloc_virt_addr s = 0" and n: "0 < pages_for bytes" "pages_for bytes \<le> 32"
    and room: "of_nat (pages_for bytes) < pmmngr_get_free_block_count s"
    and run: "in_map s b (of_nat (pages_for bytes))" "\<forall>c. c - b < of_nat (pages_for bytes) \<longrightarrow> \<not> block_used s c"
  defines "n \<equiv> pages_for bytes"
  obtains a t where "malloc_init bytes s = Some t" "heap_inv (of_nat (4096 * n)) [(4096 * n - 12, True)] t" "heap_space n t"
    "total_malloc_pages t = of_nat n" "malloc_virt_addr t = 0" "used_blocks t = used_blocks s + of_nat n" "max_blocks t = max_blocks s"
    "\<And>c. block_in_map s c \<Longrightarrow> block_used t c \<longleftrightarrow> c - a div 4096 < of_nat n \<or> block_used s c"
    "is_malloc_inited t" "a mod 4096 = 0" "\<not> block_used s (a div 4096)" "kernel_uses t = kernel_uses s"
    "\<And>va. translate t va = (if unat va < 4096 * n then Some (a + va) else translate s va)"
proof -
  obtain a s1 t u where al: "pmmngr_alloc_blocks (of_nat n) (s\<lparr>total_malloc_pages := of_nat n\<rparr>) = (a, s1)"
    and t: "\<exists>m. t = s1\<lparr>malloc_phys_addr := a, malloc_list_head := 0, ram := m\<rparr>" "vmm_wf t" "\<And>p. table_frame t p = table_frame s p"
      "bit (cr0 t) 31" "cr3 t = curdir t"
    and u: "heap_kept (of_nat (4096 * n)) t u" "malloc_init bytes s = Some (u\<lparr>malloc_iniited := True\<rparr>)"
      "heap_inv (of_nat (4096 * n)) [(4096 * n - 12, True)] (u\<lparr>malloc_iniited := True\<rparr>)"
    and a: "a mod 4096 = 0" and tr: "\<And>va. translate u va = (if unat va < 4096 * n then Some (a + va) else translate s va)"
    and f: "\<And>i. i < 1024 \<Longrightarrow> pde t i = pde s i" "\<And>c. c - a div 4096 < of_nat n \<Longrightarrow> \<not> block_used s c" "unat a + 4096 * n \<le> 2 ^ 31"
      "total_malloc_pages u = of_nat n" "malloc_virt_addr u = 0" "\<And>x. map_byte s1 x \<Longrightarrow> ram t x = ram s1 x"
    by (rule malloc_init_run [OF assms(1-10), folded n_def]) (rule that; assumption)
  let ?s = "s\<lparr>total_malloc_pages := of_nat n\<rparr>"
  have n': "0 < n" "n \<le> 32" using n by (simp_all add: n_def)
  have un: "unat (of_nat n :: u32) = n" using n' by (simp add: unat_of_nat_small)
  have afree: "\<not> block_used s (a div 4096)" using f(2) [of "a div 4096"] un n' by (simp add: word_less_nat_alt)
  then have a0: "a \<noteq> 0" using vmm_wf_curdir(4) [OF wf] by (auto simp: memory_wf_def pmm_wf_def)
  have pwf: "pmm_wf ?s" using vmm_wf_curdir(4) [OF wf] by (simp add: memory_wf_def pmm_wf_def)
  note A = alloc_blocks_effect [OF pwf al a0]
  have tm: "memory_map t = memory_map s1" "max_blocks t = max_blocks s1" "\<And>x. map_byte s1 x \<Longrightarrow> ram t x = ram s1 x" using t(1) f(6) by auto
  have used: "block_used t c \<longleftrightarrow> c - a div 4096 < of_nat n \<or> block_used s c" if "block_in_map s c" for c
    using block_used_cong [OF tm, of c] A(6) [of c] that by (simp add: block_in_map_def A(8))
  have bm: "block_in_map t c = block_in_map s c" "map_byte t = map_byte s" for c
    by (auto simp: fun_eq_iff block_in_map_def map_byte_def tm A(8,9))
  have "translate t va = translate u va" for va using u(1) by (simp add: heap_kept_def)
  then have walk: "translate t va = Some (a + va)" if "unat va < 4096 * n" for va using tr [of va] that by simp
  have im: "block_in_map s c" if "c - a div 4096 < of_nat n" for c
  proof -
    have "fst (pmmngr_alloc_blocks (of_nat n) ?s) div 4096 \<le> b"
      by (rule alloc_blocks_succeeds(2) [OF pwf]) (use un n' room run in \<open>auto simp: n_def in_map_def pmmngr_get_free_block_count_def\<close>)
    then have "unat (a div 4096) \<le> unat b" using al by (simp add: word_le_nat_alt)
    moreover have "unat b + n \<le> 32 * (unat (max_blocks s) div 32)" using run(1) un by (simp add: in_map_def n_def unat_div)
    moreover have "unat c < unat (a div 4096) + n" using that un unat_u32_bound [of c] f(3)
      by (auto simp: word_less_nat_alt unat_sub_if' unat_div split: if_splits)
    ultimately have "unat c div 32 < unat (max_blocks s) div 32" by linarith
    then show ?thesis by (simp add: block_in_map_def word_less_nat_alt unat_div)
  qed
  have "entry_present (pde t 0)" using f(1) pres by simp
  then have sp: "heap_space n t"
    by (rule heap_space_run [OF wf t(2,4,5) _ n'(2) a f(3) walk _ t(3) bm(2)]) (use used im f(2) bm(1) in \<open>simp_all\<close>)
  note K = heap_space_kept [OF sp u(1)]
  have inited: "heap_space n (u\<lparr>malloc_iniited := True\<rparr>) = heap_space n u" "block_used (u\<lparr>malloc_iniited := True\<rparr>) = block_used u"
    by (simp_all add: heap_space_def client_frame_def table_frame_def memory_defs fun_eq_iff)
  have "used_blocks t = used_blocks s + of_nat n" "max_blocks t = max_blocks s" using t(1) A(7,8) by auto
  moreover have "kernel_uses (u\<lparr>malloc_iniited := True\<rparr>) = kernel_uses s"
    using K(6) kernel_uses_cong [OF bm(2) t(3)] by (simp add: fun_eq_iff kernel_uses_def table_frame_def map_byte_def pde_def)
  moreover have "translate (u\<lparr>malloc_iniited := True\<rparr>) va = translate u va" for va by (simp add: translate_def)
  ultimately show thesis
    using that [OF u(2,3), of a] K used f(4,5) a afree tr by (simp add: inited bm(1) is_malloc_inited_def)
qed

section \<open>A request that no block satisfies\<close>

lemma malloc_grow_run:
  fixes s :: "'a heap"
  assumes "heap_space n s" and "heap_inv (of_nat (4096 * n)) (xs @ [(l, f)]) s" and "malloc_virt_addr s = 0"
    and "total_malloc_pages s = of_nat n" and "stops_at sz (xs @ [(l, f)]) = length xs" and "l < sz"
    and "n + extra_pages l sz \<le> 1024" and "free_run s b (extra_pages l sz)"
  shows "\<exists>t. malloc_next_block (of_nat sz) s = Some (of_nat (extent xs + 12), t) \<and>
    heap_inv (of_nat (4096 * (n + extra_pages l sz))) (xs @ [(sz, False), (l + 4096 * extra_pages l sz - sz - 12, True)]) t \<and>
    heap_space (n + extra_pages l sz) t \<and> total_malloc_pages t = of_nat (n + extra_pages l sz) \<and>
    kernel_uses t = kernel_uses s \<and> (\<forall>va. unat va < 4096 * n \<or> 4096 * (n + extra_pages l sz) \<le> unat va \<longrightarrow> translate t va = translate s va)"
proof -
  let ?k = "extra_pages l sz" and ?bs = "xs @ [(l, f)]"
  have k: "0 < ?k" "sz + 12 \<le> l + 4096 * ?k" using extra_pages_bounds [OF assms(6)] by simp_all
  have n: "n \<le> 1024" and ext: "extent ?bs \<le> 4096 * n" using assms(1,2) heap_end [of n] by (auto simp: heap_space_def heap_inv_def)
  have sz: "sz + 12 + 4096 < 2 ^ 32" "0 < sz" "sz < 2 ^ 32" using k(2) ext assms(6,7) by auto
  have at: "block_at ?bs (length xs) = extent xs" "?bs ! length xs = (l, f)" by (simp_all add: block_at_def)
  note eq = malloc_next_block_stops [OF assms(2) sz(2,3), unfolded assms(5) at]
  have pn: "pages_needed (of_nat l) (of_nat sz) 1 = Some (of_nat ?k)"
    using pages_needed_extra [OF assms(6) sz(1), of 1] k(1) by simp
  have uk: "unat (of_nat ?k :: u32) = ?k" using assms(7) by (simp add: unat_of_nat_small)
  obtain t where t: "grow_heap ?k (of_nat (extent xs)) (of_nat (4096 * n)) s = Some t" "heap_space (n + ?k) t"
    "heap_inv (of_nat (4096 * (n + ?k))) (xs @ [(l + 4096 * ?k, f)]) t" "total_malloc_pages t = total_malloc_pages s + of_nat ?k"
    "\<forall>va. unat va < 4096 * n \<or> 4096 * (n + ?k) \<le> unat va \<longrightarrow> translate t va = translate s va" "kernel_uses t = kernel_uses s"
    using grow_heap_run [OF assms(1,7,2,8)] by blast
  have i: "length xs < length (xs @ [(l + 4096 * ?k, f)])" "sz + 12 \<le> fst ((xs @ [(l + 4096 * ?k, f)]) ! length xs)" using k(2) by simp_all
  obtain u where u: "malloc_split (of_nat (extent xs)) (of_nat sz) t = Some u"
    "heap_inv (of_nat (4096 * (n + ?k))) (xs @ [(sz, False), (l + 4096 * ?k - sz - 12, True)]) u" "heap_kept (of_nat (4096 * (n + ?k))) t u"
    by (rule split_inv [OF t(3) i sz(2)]) (simp add: block_at_def del: of_nat_mult)
  have "malloc_virt_addr s + total_malloc_pages s * PAGE_SIZE = of_nat (4096 * n)" using assms(3,4) by simp
  then have "malloc_next_block (of_nat sz) s = Some (of_nat (extent xs) + 12, u)"
    using eq assms(6) pn uk t(1) u(1) by (simp del: of_nat_mult)
  moreover have "translate u va = translate t va" "total_malloc_pages u = total_malloc_pages t" for va using u(3) by (auto simp: heap_kept_def)
  ultimately show ?thesis
    using u(2) heap_space_kept(1,6) [OF t(2) u(3)] t(4-6) assms(4) by (simp add: add.commute del: of_nat_mult)
qed

end
