(* ===== verification/Heap_paged.thy ===== *)
theory Heap_paged
  imports Heap_grow
begin

text \<open>
  The heap and paging together: setting up the heap and growing it, with the pages that the kernel uses itself kept mapped to
  themselves, so that the code that maps the pages of the heap keeps reaching its bitmap and its page tables.
\<close>

unbundle bit_operations_syntax

text \<open>The heap may take pages of the identity mapping as long as the kernel does not use them.\<close>

lemma self_mapped_outside:
  fixes s t :: "'a vmm"
  assumes self: "self_mapped s" and uses: "kernel_uses t = kernel_uses s"
    and on: "bit (cr0 s) 31" "cr3 s = curdir s" "bit (cr0 t) 31" "cr3 t = curdir t"
    and same: "\<And>va. unat va < 4096 * n \<or> 4096 * k \<le> unat va \<Longrightarrow> translate t va = translate s va"
    and free: "\<And>j. n \<le> j \<Longrightarrow> j < k \<Longrightarrow> \<not> kernel_uses s (of_nat j)"
  shows "self_mapped t"
proof (rule self_mapped_change [OF self])
  show "kernel_uses s pn" if "kernel_uses t pn" for pn using that uses by simp
  fix x assume u: "kernel_uses s (x div PAGE_SIZE)"
  have "unat x < 4096 * n \<or> 4096 * k \<le> unat x"
  proof (rule ccontr)
    assume "\<not> (unat x < 4096 * n \<or> 4096 * k \<le> unat x)"
    then have "n \<le> unat x div 4096" "unat x div 4096 < k" by (auto simp: less_eq_div_iff_mult_less_eq less_mult_imp_div_less)
    moreover have "x div PAGE_SIZE = of_nat (unat x div 4096)" using word_arith_nat_div [of x PAGE_SIZE] by simp
    ultimately show False using u free by simp
  qed
  from same [OF this] show "mmu_walk (ram t) (curdir t) x = mmu_walk (ram s) (curdir s) x" using on by (simp add: translate_def)
qed

section \<open>Setting up\<close>

text \<open>
  C20. In a paged address space with enough free memory, in which the pages that the kernel uses are mapped to themselves and
  are not among the first pages that the heap takes, \<open>malloc_init\<close> returns for at most 32 pages; afterwards the
  first pages of the address space lead into a run of blocks that were free before, every other
  translation is as before, the kernel's pages are still mapped to themselves, and the heap is one free block that fills its
  pages. In particular a heap of more than one page hides the sector buffer at 0x1000 from the processor.
\<close>

theorem malloc_init_establishes_heap:
  fixes s :: "'a heap"
  assumes wf: "vmm_wf s" and on: "bit (cr0 s) 31" "cr3 s = curdir s" and pres: "entry_present (pde s 0)"
    and virt: "malloc_virt_addr s = 0" and n: "0 < pages_for bytes" "pages_for bytes \<le> 32"
    and room: "of_nat (pages_for bytes) < pmmngr_get_free_block_count s"
    and run: "in_map s b (of_nat (pages_for bytes))" "\<forall>c. c - b < of_nat (pages_for bytes) \<longrightarrow> \<not> block_used s c"
    and self: "self_mapped s" and free: "\<forall>j < pages_for bytes. \<not> kernel_uses s (of_nat j)"
  shows "\<exists>a s'. malloc_init bytes s = Some s' \<and>
    heap_inv (of_nat (4096 * pages_for bytes)) [(4096 * pages_for bytes - 12, True)] s' \<and>
    is_malloc_inited s' \<and> a mod PAGE_SIZE = 0 \<and> \<not> block_used s (a div PAGE_SIZE) \<and> self_mapped s' \<and>
    (\<forall>va. translate s' va = (if unat va < 4096 * pages_for bytes then Some (a + va) else translate s va))"
proof -
  obtain a t where t: "malloc_init bytes s = Some t" "heap_inv (of_nat (4096 * pages_for bytes)) [(4096 * pages_for bytes - 12, True)] t"
    "heap_space (pages_for bytes) t" "is_malloc_inited t" "a mod 4096 = 0" "\<not> block_used s (a div 4096)" "kernel_uses t = kernel_uses s"
    "\<And>va. translate t va = (if unat va < 4096 * pages_for bytes then Some (a + va) else translate s va)"
    by (rule malloc_init_space [OF assms(1-10)]) (rule that; assumption)
  have "bit (cr0 t) 31" "cr3 t = curdir t" using t(3) by (simp_all add: heap_space_def)
  then have "self_mapped t"
    by (rule self_mapped_outside [OF self t(7) on, of 0 "pages_for bytes"]) (use t(8) free in auto)
  then show ?thesis by (intro exI [of _ a] exI [of _ t]) (simp add: t del: of_nat_mult)
qed

section \<open>Growing\<close>

text \<open>
  C16. The heap grows when no block fits: if the search ends at a last block that is smaller than the request and enough
  adjacent physical blocks are free, \<open>malloc_next_block\<close> returns the payload of that block after as many pages as the
  request needs were taken from the physical memory manager, mapped behind the heap and added to the block. The heap
  is then a well-formed list again in which the block is split for the request, the address space is well-formed, its
  pages still lie apart from bitmap and page tables, and every other address translates as before. The heap stays below 512 KiB
  and its new pages are none that the kernel uses itself; those are mapped to themselves before and after.
\<close>

theorem malloc_grows_heap:
  fixes s :: "'a heap"
  assumes "heap_space n s" and "heap_inv (of_nat (4096 * n)) (xs @ [(l, f)]) s" and "malloc_virt_addr s = 0"
    and "total_malloc_pages s = of_nat n" and "stops_at sz (xs @ [(l, f)]) = length xs" and "l < sz"
    and "n + extra_pages l sz \<le> 0x80" and "free_run s b (extra_pages l sz)"
    and "self_mapped s" and "\<forall>j. n \<le> j \<and> j < n + extra_pages l sz \<longrightarrow> \<not> kernel_uses s (of_nat j)"
  shows "\<exists>t. malloc_next_block (of_nat sz) s = Some (of_nat (extent xs + 12), t) \<and>
    heap_inv (of_nat (4096 * (n + extra_pages l sz))) (xs @ [(sz, False), (l + 4096 * extra_pages l sz - sz - 12, True)]) t \<and>
    heap_space (n + extra_pages l sz) t \<and> total_malloc_pages t = of_nat (n + extra_pages l sz) \<and> self_mapped t \<and>
    (\<forall>va. unat va < 4096 * n \<or> 4096 * (n + extra_pages l sz) \<le> unat va \<longrightarrow> translate t va = translate s va)"
proof -
  let ?k = "extra_pages l sz"
  have k: "n + ?k \<le> 1024" using assms(7) by simp
  obtain t where t: "malloc_next_block (of_nat sz) s = Some (of_nat (extent xs + 12), t)"
    "heap_inv (of_nat (4096 * (n + ?k))) (xs @ [(sz, False), (l + 4096 * ?k - sz - 12, True)]) t" "heap_space (n + ?k) t"
    "total_malloc_pages t = of_nat (n + ?k)" "kernel_uses t = kernel_uses s"
    "\<And>va. unat va < 4096 * n \<or> 4096 * (n + ?k) \<le> unat va \<Longrightarrow> translate t va = translate s va"
    using malloc_grow_run [OF assms(1-6) k assms(8)] by blast
  have "bit (cr0 s) 31" "cr3 s = curdir s" "bit (cr0 t) 31" "cr3 t = curdir t" using assms(1) t(3) by (simp_all add: heap_space_def)
  then have "self_mapped t" by (rule self_mapped_outside [where n = n and k = "n + ?k", OF assms(9) t(5)]) (use t(6) assms(10) in blast)+
  then show ?thesis using t by blast
qed

section \<open>A concrete address space\<close>

text \<open>
  64 blocks: bitmap in block 48, a page directory in block 33 and one page table in block 32, which maps the first 4 MiB to
  themselves.
\<close>

definition demo_memory :: memory where
  "demo_memory x =
     (if x div 4096 = 32 then ucast (drop_bit (8 * unat (x mod 4)) (default_page (4096 * ((x - 0x20000) div 4))))
      else if x = 0x30000 \<or> x = 0x30006 then 1 else if x = 0x30004 \<or> x = 0x21000 then 3 else if x = 0x21002 then 2 else 0)"

definition demo_paged :: heap_state where
  "demo_paged = demo_heap\<lparr>ram := demo_memory, cr0 := 0x80000000, cr3 := 0x21000, memory_size := 0x40000, used_blocks := 4,
     max_blocks := 64, memory_map := 0x30000, curdir := 0x21000, malloc_virt_addr := 0\<rparr>"

lemma demo_paged_fields: "memory_map demo_paged = 0x30000" "max_blocks demo_paged = 64" "curdir demo_paged = 0x21000"
  "used_blocks demo_paged = 4" "cr3 demo_paged = 0x21000" "bit (cr0 demo_paged) 31" "malloc_virt_addr demo_paged = 0"
  "ram demo_paged = demo_memory"
  by (simp_all add: demo_paged_def)

lemma demo_paged_blocks: "block_used demo_paged 0" "block_used demo_paged 32" "block_used demo_paged 33"
  "block_used demo_paged 48" "0 < i \<Longrightarrow> i < 6 \<Longrightarrow> \<not> block_used demo_paged i"
proof -
  have w: "mmap_word demo_paged 0 = 1" "mmap_word demo_paged 1 = 0x10003"
    by (simp_all add: mmap_word_def demo_paged_fields demo_memory_def load32_def)
  show "block_used demo_paged 0" "block_used demo_paged 32" "block_used demo_paged 33" "block_used demo_paged 48"
    by (simp_all add: block_used_def w bit_simps)
  assume "0 < i" "i < 6"
  then have "0 < unat i" "i div 32 = 0" "unat (i mod 32) = unat i" by (simp_all add: word_less_nat_alt word_unat_eq_iff unat_div unat_mod)
  then show "\<not> block_used demo_paged i" by (simp add: block_used_def w bit_1_iff)
qed

lemma demo_paged_map: "map_byte demo_paged x \<Longrightarrow> x div 4096 = 48"
proof -
  assume "map_byte demo_paged x"
  moreover define r where "r = x - 0x30000"
  ultimately have "unat r < 12" "x = 0x30000 + r"
    by (simp_all add: map_byte_def in_region_def demo_paged_fields word_less_nat_alt)
  then show ?thesis by (simp add: word_unat_eq_iff unat_div unat_word_ariths)
qed

lemma demo_paged_pde: "pde demo_paged 0 = 0x20003" "0 < i \<Longrightarrow> i < 1024 \<Longrightarrow> pde demo_paged i = 0"
proof -
  show "pde demo_paged 0 = 0x20003" by (simp add: pde_def demo_paged_fields demo_memory_def load32_def)
  assume i: "0 < i" "i < 1024"
  show "pde demo_paged i = 0"
    unfolding pde_def demo_paged_fields
  proof (rule load32_zero)
    fix x :: u32 assume "in_region (0x21000 + 4 * i) 4 x"
    then have "unat x = 0x21000 + 4 * unat i + unat (x - (0x21000 + 4 * i))" "unat (x - (0x21000 + 4 * i)) < 4"
      using slot_unat(1) [of "0x21000" i "x - (0x21000 + 4 * i)"] i by (simp_all add: in_region_def word_less_nat_alt)
    moreover have "0 < unat i" "unat i < 1024" using i by (simp_all add: word_less_nat_alt unat_gt_0)
    ultimately have "0x21004 \<le> unat x" "unat x < 0x22000" by linarith+
    then show "demo_memory x = 0" by (auto simp: demo_memory_def word_unat_eq_iff unat_div)
  qed
qed

lemma demo_paged_pte: "j < 1024 \<Longrightarrow> pte demo_paged 0 j = default_page (4096 * j)"
proof -
  assume j: "j < 1024"
  have "demo_memory (0x20000 + 4 * j + of_nat i) = ucast (drop_bit (8 * i) (default_page (4096 * j)))" if "i < 4" for i
  proof -
    let ?x = "0x20000 + 4 * j + of_nat i"
    have "unat (of_nat i :: u32) = i" using that by (simp add: unat_of_nat_small)
    moreover have "(0x20000 + 4 * unat j + i) mod 4 = i" using that by presburger
    moreover from calculation(1) have "unat ?x = 0x20000 + 4 * unat j + i" "?x div 4096 = 32"
      using slot_unat [of "0x20000" j "of_nat i"] j that by (simp_all add: word_less_nat_alt)
    ultimately have "(?x - 0x20000) div 4 = j" "unat (?x mod 4) = i" "?x div 4096 = 32"
      using that j by (simp_all add: word_unat_eq_iff unat_div unat_mod unat_word_ariths word_less_nat_alt)
    then show ?thesis unfolding demo_memory_def by simp
  qed
  from this [of 0] this [of 1] this [of 2] this [of 3] have "load32 demo_memory (0x20000 + 4 * j) = default_page (4096 * j)"
    by (intro load32_bytes) simp_all
  then show ?thesis by (simp add: pte_def demo_paged_pde demo_paged_fields entry_frame_def)
qed

lemma demo_paged_wf: "vmm_wf demo_paged" "entry_present (pde demo_paged 0)"
proof -
  have frame: "entry_frame (0x20003 :: u32) = 0x20000" "entry_present (0x20003 :: u32)" "\<not> entry_present (0 :: u32)"
    by (simp_all add: entry_frame_def entry_present_def)
  have pres: "i = 0" if "i < 1024" "entry_present (pde demo_paged i)" for i
    using that demo_paged_pde(2) [of i] frame(3) by (cases "i = 0") (auto simp: word_gt_0)
  have res: "reserved_frame demo_paged 0x20000" "reserved_frame demo_paged 0x21000"
    using demo_paged_map demo_paged_blocks by (auto simp: reserved_frame_def block_in_map_def demo_paged_fields)
  have "memory_wf demo_paged"
    using demo_paged_map demo_paged_blocks by (auto simp: memory_wf_def map_reserved_def pmm_wf_def demo_paged_fields block_in_map_def)
  moreover have "\<not> bit (pde demo_paged i) 31" if "i < 1024" for i
    using that demo_paged_pde by (cases "i = 0") (auto simp: word_gt_0 bit_simps)
  moreover have "reserved_frame demo_paged (entry_frame (pde demo_paged i)) \<and>
      entry_frame (pde demo_paged i) \<noteq> 0x21000 \<and> (\<forall>j<1024. \<not> bit (pte demo_paged i j) 31)"
    if "i < 1024" "entry_present (pde demo_paged i)" for i
    using pres [OF that] res(1) frame(1) demo_paged_pde(1) init_page_facts(3) [OF table_frames(1,2)] by (simp add: demo_paged_pte)
  moreover have "i = j" if "i < 1024" "j < 1024" "entry_present (pde demo_paged i)" "entry_present (pde demo_paged j)" for i j
    using pres that by blast
  ultimately show "vmm_wf demo_paged"
    using res(2) unfolding vmm_wf_def demo_paged_fields by (simp (no_asm_simp)) blast
  show "entry_present (pde demo_paged 0)" using frame demo_paged_pde(1) by simp
qed

lemma demo_paged_uses: "kernel_uses demo_paged pn \<Longrightarrow> 32 \<le> pn \<and> pn < 0x400" "self_mapped demo_paged"
proof -
  have tab: "q div 4096 = 32 \<or> q div 4096 = 33" if tf: "table_frame demo_paged q" for q
  proof (cases "q = curdir demo_paged")
    case False
    then obtain i where i: "i < 1024" "entry_present (pde demo_paged i)" "q = entry_frame (pde demo_paged i)"
      using tf by (auto simp: table_frame_def)
    then have "i = 0" using demo_paged_pde(2) [of i] by (cases "i = 0") (auto simp: word_gt_0 entry_present_def)
    then show ?thesis using i(3) demo_paged_pde(1) by (simp add: entry_frame_def)
  qed (simp add: demo_paged_fields)
  show uses: "32 \<le> pn \<and> pn < 0x400" if ku: "kernel_uses demo_paged pn" for pn
  proof -
    consider "0x80 \<le> pn" "pn < 0x400" | "pn = 48" | "pn = 32 \<or> pn = 33"
      using ku demo_paged_map tab by (auto simp: kernel_uses_def)
    then show ?thesis by cases (auto intro: order_trans [of _ "0x80"])
  qed
  have walk: "mmu_walk (ram demo_paged) (curdir demo_paged) va = Some va" if "va < 0x400000" for va
  proof -
    have "PAGE_DIR_INDEX va = 0" using that by (simp add: dir_index_ranges)
    then show ?thesis
      using init_page_facts [OF page_frames(1,2) [of va]] or_offset [OF page_frames(1) [of va]] address_parts(3) [of va] demo_paged_wf(2)
      by (simp add: mmu_walk_entries Let_def demo_paged_pte)
  qed
  have "x < 0x400000" if "x div 4096 < 0x400" for x :: u32 using that by (simp add: word_less_nat_alt unat_div)
  then show "self_mapped demo_paged" using uses walk by (simp add: self_mapped_def)
qed

text \<open>A heap of one page, set up for a request of 256 bytes, answers a request of 5000 bytes.\<close>

lemma demo_paged_room: "pages_for 256 = 1" "\<forall>c. c - 3 < of_nat (pages_for 256) \<longrightarrow> \<not> block_used demo_paged c"
  "in_map demo_paged 3 (of_nat (pages_for 256))" "of_nat (pages_for 256) < pmmngr_get_free_block_count demo_paged"
  "\<forall>j < pages_for 256. \<not> kernel_uses demo_paged (of_nat j)"
proof -
  show n: "pages_for 256 = 1" by (simp add: pages_for_def)
  have "c = 3" if "c - 3 < (1::u32)" for c using that by (simp add: word_less_1)
  then show "\<forall>c. c - 3 < of_nat (pages_for 256) \<longrightarrow> \<not> block_used demo_paged c"
    using demo_paged_blocks(5) [of 3] unfolding n of_nat_1 by auto
  show "in_map demo_paged 3 (of_nat (pages_for 256))" "of_nat (pages_for 256) < pmmngr_get_free_block_count demo_paged"
    by (simp_all add: n in_map_def pmmngr_get_free_block_count_def demo_paged_fields)
  show "\<forall>j < pages_for 256. \<not> kernel_uses demo_paged (of_nat j)" using demo_paged_uses(1) [of 0] by (auto simp: n)
qed

theorem malloc_init_establishes_heap_witness:
  "\<exists>s'. malloc_init 256 demo_paged = Some s' \<and> heap_inv 4096 [(4084, True)] s'"
proof -
  have "\<exists>a s'. malloc_init 256 demo_paged = Some s' \<and>
    heap_inv (of_nat (4096 * pages_for 256)) [(4096 * pages_for 256 - 12, True)] s' \<and>
    is_malloc_inited s' \<and> a mod PAGE_SIZE = 0 \<and> \<not> block_used demo_paged (a div PAGE_SIZE) \<and> self_mapped s' \<and>
    (\<forall>va. translate s' va = (if unat va < 4096 * pages_for 256 then Some (a + va) else translate demo_paged va))"
    by (rule malloc_init_establishes_heap [OF demo_paged_wf(1) _ _ demo_paged_wf(2) _ _ _ demo_paged_room(4,3,2) demo_paged_uses(2) demo_paged_room(5)])
      (simp_all add: demo_paged_fields demo_paged_room(1))
  then show ?thesis by (auto simp: demo_paged_room(1))
qed

lemma demo_paged_init:
  obtains s where "malloc_init 256 demo_paged = Some s" "heap_inv (of_nat (4096 * 1)) ([] @ [(4084, True)]) s" "heap_space 1 s"
    "total_malloc_pages s = of_nat 1" "malloc_virt_addr s = 0" "free_run s 4 1 \<or> free_run s 5 1" "self_mapped s"
    "kernel_uses s = kernel_uses demo_paged"
proof -
  note n = demo_paged_room(1)
  have c: "c - b < 1 \<longleftrightarrow> c = b" for b c :: u32 by (auto simp: word_less_nat_alt unat_eq_0)
  obtain a s where s: "malloc_init 256 demo_paged = Some s" "heap_inv (of_nat (4096 * 1)) [(4096 * 1 - 12, True)] s" "heap_space 1 s"
    "total_malloc_pages s = of_nat 1" "malloc_virt_addr s = 0" "used_blocks s = used_blocks demo_paged + of_nat 1" "max_blocks s = max_blocks demo_paged"
    "\<And>c. block_in_map demo_paged c \<Longrightarrow> block_used s c \<longleftrightarrow> c - a div 4096 < of_nat 1 \<or> block_used demo_paged c"
    "kernel_uses s = kernel_uses demo_paged" "\<And>va. translate s va = (if unat va < 4096 * 1 then Some (a + va) else translate demo_paged va)"
    by (rule malloc_init_space [OF demo_paged_wf(1) _ _ demo_paged_wf(2) _ _ _ demo_paged_room(4,3,2), unfolded n])
      (simp_all add: demo_paged_fields that)
  have "bit (cr0 s) 31" "cr3 s = curdir s" using s(3) by (simp_all add: heap_space_def)
  then have self: "self_mapped s"
    by (rule self_mapped_outside [where n = 0 and k = 1, OF demo_paged_uses(2) s(9), rotated 2])
      (use s(10) demo_paged_room(5) n in \<open>auto simp: demo_paged_fields\<close>)
  have im: "block_in_map demo_paged 4" "block_in_map demo_paged 5" by (simp_all add: block_in_map_def demo_paged_fields)
  have fr: "free_run s b 1" if "\<not> block_used s b" "unat b < 6" for b
  proof -
    have "c = b" if "unat b \<le> unat c" "unat c < unat b + 1" for c using that by (intro word_unat_eq_iff [THEN iffD2]) simp
    then have "\<forall>c. unat b \<le> unat c \<and> unat c < unat b + 1 \<longrightarrow> \<not> block_used s c" using that(1) by blast
    then show ?thesis using that(2) s(6,7) by (simp add: free_run_def demo_paged_fields pmmngr_get_free_block_count_def)
  qed
  have "\<not> block_used s 4 \<or> \<not> block_used s 5"
    using s(8) [OF im(1)] s(8) [OF im(2)] demo_paged_blocks(5) [of 4] demo_paged_blocks(5) [of 5] by (auto simp: c)
  then have "free_run s 4 1 \<or> free_run s 5 1" using fr [of 4] fr [of 5] by auto
  then show thesis using that [OF s(1) _ s(3-5) _ self s(9)] s(2) by simp
qed

theorem malloc_grows_heap_witness:
  "\<exists>s t. malloc_init 256 demo_paged = Some s \<and> malloc_next_block 5000 s = Some (12, t) \<and>
     heap_inv 8192 [(5000, False), (3168, True)] t \<and> self_mapped t"
proof -
  obtain s where s: "malloc_init 256 demo_paged = Some s" "heap_inv (of_nat (4096 * 1)) ([] @ [(4084, True)]) s" "heap_space 1 s"
    "total_malloc_pages s = of_nat 1" "malloc_virt_addr s = 0" "free_run s 4 1 \<or> free_run s 5 1" "self_mapped s"
    "kernel_uses s = kernel_uses demo_paged" by (rule demo_paged_init)
  have e: "extra_pages 4084 5000 = 1" by (simp add: extra_pages_def)
  from s(6) obtain b where b: "free_run s b (extra_pages 4084 5000)" unfolding e by blast
  have "\<not> kernel_uses s 1" using demo_paged_uses(1) [of 1] s(8) by (auto simp: word_le_nat_alt)
  then have "\<forall>j. 1 \<le> j \<and> j < 1 + extra_pages 4084 5000 \<longrightarrow> \<not> kernel_uses s (of_nat j)" by (auto simp: e le_less_Suc_eq)
  from malloc_grows_heap [OF s(3,2,5,4) _ _ _ b s(7) this] s(1) show ?thesis by (auto simp: e)
qed

end
