(* ===== verification/Virtual_paged.thy ===== *)
theory Virtual_paged
  imports Virtual_trace Heap_view
begin

text \<open>
  Page tables under paging. The operations of the virtual memory manager are modelled at physical addresses. Here the same
  code runs with every access to the directory and to a page table translated by the processor, byte by byte: as long as the
  kernel's pages are mapped to themselves and are not remapped, it does not fault and ends in the same state.
\<close>

unbundle bit_operations_syntax

section \<open>The operations with translated accesses\<close>

definition vmodify32 :: "u32 \<Rightarrow> (u32 \<Rightarrow> u32) \<Rightarrow> 'a machine_scheme \<Rightarrow> 'a machine_scheme option" where
  "vmodify32 p f s = do {
     v \<leftarrow> vload32 p s;
     vstore32 p (f v) s
   }"

definition paged_memset :: "u32 \<Rightarrow> u8 \<Rightarrow> nat \<Rightarrow> 'a machine_scheme \<Rightarrow> 'a machine_scheme option" where
  "paged_memset p b n s = fold (\<lambda>k r. r \<bind> vstore8 (p + of_nat k) b) [0..<n] (Some s)"

definition paged_new_table :: "u32 \<Rightarrow> 'a vmm \<Rightarrow> ('a vmm + 'a vmm) option" where
  "paged_new_table entry s =
     (let (table, s) = pmmngr_alloc_block s
      in if table = 0 then Some (Inl s)
         else do {
           s \<leftarrow> paged_memset table 0 (unat sizeof_ptable) s;
           s \<leftarrow> vmodify32 entry (pd_entry_add_attrib (pde_flag PDE_PRESENT)) s;
           s \<leftarrow> vmodify32 entry (pd_entry_add_attrib (pde_flag PDE_WRITABLE)) s;
           s \<leftarrow> vmodify32 entry (pd_entry_set_frame table) s;
           Some (Inr s)
         })"

definition paged_map_page :: "u32 \<Rightarrow> u32 \<Rightarrow> 'a vmm \<Rightarrow> 'a vmm option" where
  "paged_map_page phys_addr virt_addr s =
     (let e = vmmngr_pdirectory_get_entry (vmmngr_get_directory s) virt_addr
      in do {
        v \<leftarrow> vload32 e s;
        r \<leftarrow> (if pd_entry_is_present v = 0 then paged_new_table e s else Some (Inr s));
        case r of
          Inl s \<Rightarrow> Some s
        | Inr s \<Rightarrow> do {
            v \<leftarrow> vload32 e s;
            let page = vmmngr_ptable_get_entry (v AND NOT 0xFFF) virt_addr;
            s \<leftarrow> vmodify32 page (pt_entry_add_attrib (pte_flag PTE_PRESENT)) s;
            vmodify32 page (pt_entry_set_frame phys_addr) s
          }
      })"

definition paged_unmap_page :: "u32 \<Rightarrow> 'a vmm \<Rightarrow> 'a vmm option" where
  "paged_unmap_page addr s = do {
     v \<leftarrow> vload32 (vmmngr_pdirectory_get_entry (vmmngr_get_directory s) addr) s;
     let page = vmmngr_ptable_get_entry (v AND NOT 0xFFF) addr;
     if page = 0 then Some s
     else do {
       s \<leftarrow> vmodify32 page (pt_entry_set_frame 0) s;
       vmodify32 page (pt_entry_del_attrib (pte_flag PTE_PRESENT)) s
     }
   }"

section \<open>Writes that leave the mapping of some addresses alone\<close>

definition agrees :: "u32 set \<Rightarrow> memory \<Rightarrow> memory \<Rightarrow> bool" where
  "agrees A m m' \<longleftrightarrow> (\<forall>y. y \<notin> A \<longrightarrow> m y = m' y)"

definition keeps_self :: "'a vmm \<Rightarrow> u32 set \<Rightarrow> u32 set \<Rightarrow> bool" where
  \<comment> \<open>paging is on, and whatever the bytes of \<open>A\<close> hold, the addresses of \<open>K\<close> (with \<open>A\<close> among them) are mapped to themselves\<close>
  "keeps_self s K A \<longleftrightarrow> bit (cr0 s) 31 \<and> cr3 s = curdir s \<and> A \<subseteq> K \<and>
     (\<forall>m x. agrees A m (ram s) \<longrightarrow> x \<in> K \<longrightarrow> mmu_walk m (curdir s) x = Some x)"

lemma agrees_write: "agrees A m m' \<Longrightarrow> x \<in> A \<Longrightarrow> agrees A (m(x := b)) m'"
  by (simp add: agrees_def)

lemma slot_subset: "{y. in_region p 4 y} \<subseteq> A \<longleftrightarrow> p \<in> A \<and> p + 1 \<in> A \<and> p + 2 \<in> A \<and> p + 3 \<in> A"
  by (auto simp: in_region_4)

lemma agrees_store32: "agrees A m m' \<Longrightarrow> {y. in_region p 4 y} \<subseteq> A \<Longrightarrow> agrees A (store32 m p v) m'"
  by (simp add: slot_subset store32_def agrees_write)

lemma self_load32:
  assumes "keeps_self s K A" "agrees A m (ram s)" "{y. in_region p 4 y} \<subseteq> K"
  shows "vload32 p (s\<lparr>ram := m\<rparr>) = Some (load32 m p)"
proof -
  have "vload8 x (s\<lparr>ram := m\<rparr>) = Some (m x)" if "x \<in> K" for x
    using assms(1,2) that by (simp add: keeps_self_def vload8_def translate_def)
  then show ?thesis using assms(3) by (simp add: slot_subset vload32_def load32_def or.assoc)
qed

lemma self_store8:
  assumes "keeps_self s K A" "agrees A m (ram s)" "x \<in> A"
  shows "vstore8 x b (s\<lparr>ram := m\<rparr>) = Some (s\<lparr>ram := m(x := b)\<rparr>)"
  using assms by (auto simp: keeps_self_def vstore8_def translate_def)

lemma self_modify32:
  assumes "keeps_self s K A" "agrees A m (ram s)" "{y. in_region p 4 y} \<subseteq> A"
  shows "vmodify32 p f (s\<lparr>ram := m\<rparr>) = Some (s\<lparr>ram := store32 m p (f (load32 m p))\<rparr>)"
proof -
  have "{y. in_region p 4 y} \<subseteq> K" using assms(1,3) by (auto simp: keeps_self_def)
  moreover have "vstore32 p v (s\<lparr>ram := m\<rparr>) = Some (s\<lparr>ram := store32 m p v\<rparr>)" for v
    using assms(2,3) by (simp add: slot_subset vstore32_def store32_def self_store8 [OF assms(1)] agrees_write)
  ultimately show ?thesis by (simp add: vmodify32_def self_load32 [OF assms(1,2)])
qed

lemma self_memset:
  assumes "keeps_self s K A" "agrees A m (ram s)" "{y. in_region p n y} \<subseteq> A"
  shows "paged_memset p b (unat n) (s\<lparr>ram := m\<rparr>) = Some (s\<lparr>ram := memset p b n m\<rparr>)"
proof -
  have sub: "y \<in> A" if "unat (y - p) < unat n" for y using assms(3) that by (auto simp: in_region_def word_less_nat_alt)
  have "paged_memset p b k (s\<lparr>ram := m\<rparr>) = Some (s\<lparr>ram := memset p b (of_nat k) m\<rparr>)" if "k \<le> unat n" for k
    using that
  proof (induction k)
    case 0
    have "memset p b 0 m = m" by (simp add: fun_eq_iff memset_apply in_region_def)
    then show ?case by (simp add: paged_memset_def)
  next
    case (Suc k)
    let ?m = "memset p b (of_nat k) m" and ?x = "p + of_nat k"
    have k: "k < 2 ^ 32" "unat (of_nat k :: u32) = k" "unat (of_nat (Suc k) :: u32) = Suc k"
      using Suc.prems unat_u32_bound [of n] by (simp_all add: unat_of_nat_small del: of_nat_Suc)
    have "agrees A ?m (ram s)"
      using assms(2) sub Suc.prems k(2) by (simp add: agrees_def memset_apply in_region_def word_less_nat_alt)
    moreover have "?x \<in> A" by (rule sub) (use Suc.prems k(2) in simp)
    ultimately have "vstore8 ?x b (s\<lparr>ram := ?m\<rparr>) = Some (s\<lparr>ram := ?m(?x := b)\<rparr>)" by (rule self_store8 [OF assms(1)])
    moreover have "?m(?x := b) = memset p b (of_nat (Suc k)) m"
    proof
      fix y
      have "y = ?x \<longleftrightarrow> unat (y - p) = k" using k(2) by (metis add.commute diff_add_cancel add_diff_cancel_right' word_unat_eq_iff)
      then show "(?m(?x := b)) y = memset p b (of_nat (Suc k)) m y"
        using k by (auto simp: memset_apply in_region_def word_less_nat_alt simp del: of_nat_Suc)
    qed
    ultimately show ?case using Suc by (simp add: paged_memset_def del: of_nat_Suc)
  qed
  from this [of "unat n"] show ?thesis by simp
qed

section \<open>Entries\<close>

text \<open>An entry of a page table decides on its own page only, whatever it holds.\<close>

lemma slots_apart:
  assumes "p mod 4096 = 0" "q mod 4096 = (0::u32)" "k < 1024" "l < 1024" "p \<noteq> q \<or> k \<noteq> l" "in_region (q + 4 * l) 4 x"
  shows "\<not> in_region (p + 4 * k) 4 x"
proof (cases "p = q")
  case True
  have "apart (q + 4 * l) 4 (q + 4 * k) 4" using True assms(3-5) by (intro elements_apart) (auto intro: less_trans)
  then show ?thesis using apart_regions [OF _ assms(6)] True by simp
next
  case False
  then show ?thesis using slot_in_frame [OF assms(1,3), of x] slot_in_frame [OF assms(2,4,6)] aligned_eq [OF assms(1,2)] by auto
qed

lemma walk_other_slot:
  assumes wf: "vmm_wf s" and p: "p mod 4096 = 0" "k < 1024" and m: "agrees ({y. in_region (p + 4 * k) 4 y} \<union> B) m (ram s)"
    and B: "\<And>y q. table_frame s q \<Longrightarrow> y div 4096 = q div 4096 \<Longrightarrow> y \<notin> B"
    and dir: "p \<noteq> curdir s \<or> k \<noteq> PAGE_DIR_INDEX x"
    and tab: "entry_present (pde s (PAGE_DIR_INDEX x)) \<Longrightarrow> p \<noteq> entry_frame (pde s (PAGE_DIR_INDEX x)) \<or> k \<noteq> PAGE_TABLE_INDEX x"
  shows "mmu_walk m (curdir s) x = mmu_walk (ram s) (curdir s) x"
proof -
  have same: "load32 m (q + 4 * l) = load32 (ram s) (q + 4 * l)" if "table_frame s q" "l < 1024" "p \<noteq> q \<or> k \<noteq> l" for q l
  proof (rule load32_cong)
    have q: "q mod 4096 = 0" using table_frame_reserved [OF wf that(1)] by (simp add: reserved_frame_def)
    fix y assume y: "in_region (q + 4 * l) 4 y"
    then have "\<not> in_region (p + 4 * k) 4 y" "y \<notin> B"
      using slots_apart [OF p(1) q p(2) that(2,3)] B [OF that(1) slot_in_frame [OF q that(2)]] by blast+
    then show "m y = ram s y" using m by (simp add: agrees_def)
  qed
  have d: "load32 m (curdir s + 4 * PAGE_DIR_INDEX x) = pde s (PAGE_DIR_INDEX x)"
    using same [of "curdir s" "PAGE_DIR_INDEX x"] dir by (simp add: table_frame_def pde_def)
  show ?thesis
  proof (cases "entry_present (pde s (PAGE_DIR_INDEX x))")
    case True
    then show ?thesis using same [OF present_table [OF True] index_bounds(2)] tab by (simp add: mmu_walk_def Let_def d) (simp add: pde_def)
  next
    case False
    then show ?thesis by (simp add: mmu_walk_def Let_def d) (simp add: pde_def)
  qed
qed

text \<open>The pages of the directory and of one page table.\<close>

definition two_pages :: "u32 \<Rightarrow> u32 \<Rightarrow> u32 set" where
  "two_pages p q = {x. x div 4096 = p div 4096 \<or> x div 4096 = q div 4096}"

lemma slot_two_pages:
  assumes "p mod 4096 = 0" "k < 1024"
  shows "{y. in_region (p + 4 * k) 4 y} \<subseteq> two_pages p q" "{y. in_region (p + 4 * k) 4 y} \<subseteq> two_pages q p"
  using slot_in_frame [OF assms] by (auto simp: two_pages_def)

lemma keeps_self_pte:
  assumes wf: "vmm_wf s" and on: "bit (cr0 s) 31" "cr3 s = curdir s" and pres: "entry_present (pde s (PAGE_DIR_INDEX va))"
    and self: "\<And>x. x \<in> two_pages (curdir s) F \<Longrightarrow> mmu_walk (ram s) (curdir s) x = Some x" and F: "F = entry_frame (pde s (PAGE_DIR_INDEX va))"
    and va: "va \<notin> two_pages (curdir s) F"
  shows "keeps_self s (two_pages (curdir s) F) {y. in_region (F + 4 * PAGE_TABLE_INDEX va) 4 y}"
proof -
  note T = vmm_wfD [OF wf index_bounds(1) pres, folded F]
  have "mmu_walk m (curdir s) x = Some x"
    if m: "agrees {y. in_region (F + 4 * PAGE_TABLE_INDEX va) 4 y} m (ram s)" and x: "x \<in> two_pages (curdir s) F" for m x
  proof -
    have "x div 4096 \<noteq> va div 4096" using x va by (auto simp: two_pages_def)
    then have ne: "PAGE_DIR_INDEX x \<noteq> PAGE_DIR_INDEX va \<or> PAGE_TABLE_INDEX va \<noteq> PAGE_TABLE_INDEX x" by (auto simp: page_of_indices)
    have "mmu_walk m (curdir s) x = mmu_walk (ram s) (curdir s) x"
    proof (rule walk_other_slot [OF wf T(3) index_bounds(2), where B = "{}"])
      assume "entry_present (pde s (PAGE_DIR_INDEX x))"
      from T(6) [OF index_bounds(1) this] ne show "F \<noteq> entry_frame (pde s (PAGE_DIR_INDEX x)) \<or> PAGE_TABLE_INDEX va \<noteq> PAGE_TABLE_INDEX x" by auto
    qed (use m T(2) in auto)
    then show ?thesis using self [OF x] by simp
  qed
  then show ?thesis using on slot_two_pages(2) [OF T(3) index_bounds(2)] by (simp add: keeps_self_def)
qed

lemma keeps_self_pde:
  assumes wf: "vmm_wf s" and on: "bit (cr0 s) 31" "cr3 s = curdir s" and abs: "\<not> entry_present (pde s (PAGE_DIR_INDEX va))"
    and self: "\<And>x. x \<in> two_pages (curdir s) a \<Longrightarrow> mmu_walk (ram s) (curdir s) x = Some x"
    and a: "\<And>q. table_frame s q \<Longrightarrow> q div 4096 \<noteq> a div 4096"
  shows "keeps_self s (two_pages (curdir s) a) ({y. in_region (curdir s + 4 * PAGE_DIR_INDEX va) 4 y} \<union> {y. y div 4096 = a div 4096})"
proof -
  note D = vmm_wf_curdir [OF wf]
  have "mmu_walk m (curdir s) x = Some x"
    if m: "agrees ({y. in_region (curdir s + 4 * PAGE_DIR_INDEX va) 4 y} \<union> {y. y div 4096 = a div 4096}) m (ram s)"
      and x: "x \<in> two_pages (curdir s) a" for m x
  proof -
    have pres: "entry_present (pde s (PAGE_DIR_INDEX x))" using self [OF x] by (auto simp: mmu_walk_def pde_def Let_def split: if_splits)
    then have "PAGE_DIR_INDEX va \<noteq> PAGE_DIR_INDEX x" using abs by auto
    then have "mmu_walk m (curdir s) x = mmu_walk (ram s) (curdir s) x"
      using vmm_wfD(2) [OF wf index_bounds(1) pres] by (intro walk_other_slot [OF wf D(2) index_bounds(1) m]) (use a in auto)
    then show ?thesis using self [OF x] by simp
  qed
  then show ?thesis using on slot_two_pages(1) [OF D(2) index_bounds(1)] by (auto simp: keeps_self_def two_pages_def)
qed

section \<open>Translated and physical accesses give the same\<close>

lemma load_dir_entry:
  assumes wf: "vmm_wf s" and on: "bit (cr0 s) 31" "cr3 s = curdir s"
    and self: "\<And>x. x div 4096 = curdir s div 4096 \<Longrightarrow> mmu_walk (ram s) (curdir s) x = Some x"
  shows "vload32 (vmmngr_pdirectory_get_entry (vmmngr_get_directory s) va) s = Some (pde s (PAGE_DIR_INDEX va))"
proof -
  note D = vmm_wf_curdir [OF wf]
  have "agrees {} m (ram s) \<longleftrightarrow> m = ram s" for m by (auto simp: agrees_def)
  then have "keeps_self s (two_pages (curdir s) (curdir s)) {}" using on self by (simp add: keeps_self_def two_pages_def)
  from self_load32 [OF this _ slot_two_pages(1) [OF D(2) index_bounds(1)], of "ram s" va]
  show ?thesis using D(3) by (simp add: agrees_def vmmngr_pdirectory_get_entry_def vmmngr_get_directory_def pde_def)
qed

lemma paged_present:
  assumes wf: "vmm_wf s" and on: "bit (cr0 s) 31" "cr3 s = curdir s" and pres: "entry_present (pde s (PAGE_DIR_INDEX va))"
    and self: "\<And>x. x \<in> two_pages (curdir s) (entry_frame (pde s (PAGE_DIR_INDEX va))) \<Longrightarrow> mmu_walk (ram s) (curdir s) x = Some x"
    and va: "va \<notin> two_pages (curdir s) (entry_frame (pde s (PAGE_DIR_INDEX va)))"
  shows "paged_map_page phys va s = Some (vmmngr_map_page phys va s)" "paged_unmap_page va s = Some (vmmngr_unmap_page va s)"
proof -
  define T where "T = entry_frame (pde s (PAGE_DIR_INDEX va)) + 4 * PAGE_TABLE_INDEX va"
  have K: "keeps_self s (two_pages (curdir s) (entry_frame (pde s (PAGE_DIR_INDEX va)))) {y. in_region T 4 y}"
    unfolding T_def by (rule keeps_self_pte [OF wf on pres self refl va])
  have m: "vmodify32 T f (s\<lparr>ram := m\<rparr>) = Some (s\<lparr>ram := store32 m T (f (load32 m T))\<rparr>)" if "agrees {y. in_region T 4 y} m (ram s)" for f m
    by (rule self_modify32 [OF K that]) simp
  have ag: "agrees {y. in_region T 4 y} (ram s) (ram s)" "agrees {y. in_region T 4 y} (store32 (ram s) T v) (ram s)" for v
    by (simp_all add: agrees_def store32_outside)
  have m1: "vmodify32 T f s \<bind> vmodify32 T g = Some (s\<lparr>ram := store32 (ram s) T (g (f (load32 (ram s) T)))\<rparr>)" for f g
    using m [OF ag(1), of f] m [OF ag(2), of g] by simp
  have ld: "vload32 (vmmngr_pdirectory_get_entry (vmmngr_get_directory s) va) s = Some (pde s (PAGE_DIR_INDEX va))"
    by (rule load_dir_entry [OF wf on]) (use self in \<open>simp add: two_pages_def\<close>)
  have p: "pd_entry_is_present (pde s (PAGE_DIR_INDEX va)) \<noteq> 0" using pres is_present_iff(1) by simp
  have T: "vmmngr_ptable_get_entry (pde s (PAGE_DIR_INDEX va) AND NOT 0xFFF) va = T" "T \<noteq> 0"
    using get_page_present [OF wf pres] vmm_wf_curdir(3) [OF wf]
    by (simp_all add: T_def vmmngr_get_page_def vmmngr_get_directory_def vmmngr_pdirectory_get_entry_def PAGE_GET_PHYSICAL_ADDRESS_def pde_def Let_def)
  show "paged_map_page phys va s = Some (vmmngr_map_page phys va s)"
    unfolding map_page_present [OF wf pres] by (simp add: paged_map_page_def ld p T(1) [simplified] Let_def m1 mapped_entry_def T_def [symmetric])
  show "paged_unmap_page va s = Some (vmmngr_unmap_page va s)"
    unfolding unmap_page_present [OF wf pres] by (simp add: paged_unmap_page_def ld T(2) T(1) [simplified] Let_def m1 unmapped_entry_def T_def [symmetric])
qed

lemma paged_table:
  assumes wf: "vmm_wf s" and on: "bit (cr0 s) 31" "cr3 s = curdir s" and abs: "\<not> entry_present (pde s (PAGE_DIR_INDEX va))"
    and self: "\<And>x. x \<in> two_pages (curdir s) a \<Longrightarrow> mmu_walk (ram s) (curdir s) x = Some x"
    and al: "pmmngr_alloc_block s = (a, s1)" "a \<noteq> 0"
  defines "D \<equiv> curdir s + 4 * PAGE_DIR_INDEX va"
  defines "s2 \<equiv> s1\<lparr>ram := memset a 0 4096 (ram s1)\<rparr>"
  shows "paged_new_table D s = Some (Inr (s2\<lparr>ram := store32 (ram s2) D (table_entry a (load32 (ram s2) D))\<rparr>))"
proof -
  note al' = al(1) [unfolded pmmngr_alloc_block_def] and W = vmm_wf_curdir [OF wf]
  note S = alloc_keeps_space [OF wf al' _ al(2), simplified] and R = alloc_blocks_reserved [OF W(4) al' _ al(2), simplified]
  have a: "a mod 4096 = 0" using R(2) by (simp add: reserved_frame_def)
  have on1: "bit (cr0 s1) 31" "cr3 s1 = curdir s1" using alloc_blocks_cpu [OF al'] on S(3) by simp_all
  define A where "A = {y. in_region D 4 y} \<union> {y. y div 4096 = a div 4096}"
  have K: "keeps_self s1 (two_pages (curdir s1) a) A" unfolding A_def D_def S(3) [symmetric]
  proof (rule keeps_self_pde [OF S(1) on1])
    show "\<not> entry_present (pde s1 (PAGE_DIR_INDEX va))" using abs S(2) by simp
    show "x \<in> two_pages (curdir s1) a \<Longrightarrow> mmu_walk (ram s1) (curdir s1) x = Some x" for x using self S(3,4) by simp
    show "q div 4096 \<noteq> a div 4096" if "table_frame s1 q" for q
      using R(3) table_frame_reserved [OF wf, of q] that S(6) by (auto simp: reserved_frame_def)
  qed
  have "{y. in_region a 4096 y} \<subseteq> A" using in_frame_iff [OF a] by (auto simp: A_def)
  from self_memset [OF K _ this, of "ram s1" 0] have ms: "paged_memset a 0 4096 s1 = Some s2" by (simp add: agrees_def s2_def)
  have ag: "agrees A (ram s2) (ram s1)" using in_frame_iff [OF a] by (auto simp: agrees_def s2_def memset_apply A_def)
  have D: "{y. in_region D 4 y} \<subseteq> A" by (auto simp: A_def)
  have m: "vmodify32 D f (s2\<lparr>ram := m\<rparr>) = Some (s2\<lparr>ram := store32 m D (f (load32 m D))\<rparr>)" if "agrees A m (ram s1)" for f m
    using self_modify32 [OF K that D] by (simp add: s2_def)
  note st = agrees_store32 [OF ag D]
  show ?thesis using m [OF ag] al ms
    by (simp add: paged_new_table_def m [OF st] table_entry_def)
qed

lemma kernel_two_pages:
  assumes "self_mapped s" "table_frame s p" "x \<in> two_pages (curdir s) p"
  shows "mmu_walk (ram s) (curdir s) x = Some x" "kernel_uses s (x div PAGE_SIZE)"
proof -
  have "table_frame s (curdir s)" by (simp add: table_frame_def)
  then show "kernel_uses s (x div PAGE_SIZE)" using assms(2,3) by (fastforce simp: two_pages_def kernel_uses_def)
  with assms(1) show "mmu_walk (ram s) (curdir s) x = Some x" by (simp add: self_mapped_def)
qed

lemma load_dir_self:
  assumes "vmm_wf s" "bit (cr0 s) 31" "cr3 s = curdir s" "self_mapped s"
  shows "vload32 (vmmngr_pdirectory_get_entry (vmmngr_get_directory s) va) s = Some (pde s (PAGE_DIR_INDEX va))"
proof (rule load_dir_entry [OF assms(1-3)])
  have "table_frame s (curdir s)" by (simp add: table_frame_def)
  then show "mmu_walk (ram s) (curdir s) x = Some x" if "x div 4096 = curdir s div 4096" for x
    by (rule kernel_two_pages(1) [OF assms(4)]) (use that in \<open>simp add: two_pages_def\<close>)
qed

text \<open>
  With paging on, the kernel's pages mapped to themselves, and a page that the kernel does not use, \<open>vmmngr_map_page\<close> and
  \<open>vmmngr_unmap_page\<close> with translated accesses do not fault and end in the state that the model gives.
\<close>

theorem paged_unmap_page_same:
  assumes wf: "vmm_wf s" and on: "bit (cr0 s) 31" "cr3 s = curdir s" and self: "self_mapped s"
    and va: "\<not> kernel_uses s (va div PAGE_SIZE)" and e: "entry_present (pde s (PAGE_DIR_INDEX va)) \<or> pde s (PAGE_DIR_INDEX va) = 0"
  shows "paged_unmap_page va s = Some (vmmngr_unmap_page va s)"
proof (cases "entry_present (pde s (PAGE_DIR_INDEX va))")
  case True
  note K = kernel_two_pages [OF self present_table [OF True]]
  show ?thesis by (rule paged_present(2) [OF wf on True]) (use K va in blast)+
next
  case False
  have "vmmngr_unmap_page va s = s" using False e by (intro unmap_page_absent [OF wf]) (auto simp: entry_frame_def)
  then show ?thesis using False e load_dir_self [OF wf on self, of va] by (auto simp: paged_unmap_page_def vmmngr_ptable_get_entry_def Let_def)
qed

lemma paged_map_installed:
  fixes s :: "'a vmm"
  assumes wf: "vmm_wf s" and on: "bit (cr0 s) 31" "cr3 s = curdir s" and abs: "\<not> entry_present (pde s (PAGE_DIR_INDEX va))"
    and a: "pmmngr_alloc_block s = (a, s1)" "a \<noteq> 0"
    and self: "\<And>x. x \<in> two_pages (curdir s) a \<Longrightarrow> mmu_walk (ram s) (curdir s) x = Some x" and va: "va \<notin> two_pages (curdir s) a"
  shows "paged_map_page phys va s = Some (vmmngr_map_page phys va s)"
proof -
  let ?i = "PAGE_DIR_INDEX va" and ?D = "curdir s + 4 * PAGE_DIR_INDEX va"
  let ?e = "table_entry a (pde s ?i)"
  note W = vmm_wf_curdir [OF wf]
  have "a mod 4096 = 0" "\<not> bit a 31" using fresh_table(2) [OF W(4) a] by (simp_all add: reserved_frame_def)
  moreover have "\<not> bit (pde s ?i) 31" using wf by (simp add: vmm_wf_def)
  ultimately have E: "entry_present ?e" "entry_frame ?e = a" "\<not> bit ?e 31" by (rule table_entry_facts)+
  define s2 where "s2 = s1\<lparr>ram := memset a 0 4096 (ram s1)\<rparr>"
  define s3 where "s3 = s2\<lparr>ram := store32 (ram s2) ?D ?e\<rparr>"
  note I = install_table [OF wf index_bounds(1) abs a E, folded s2_def, folded s3_def]
  have pres: "entry_present (pde s3 ?i)" "entry_frame (pde s3 ?i) = a" using I(2) E by simp_all
  have on3: "bit (cr0 s3) 31" "cr3 s3 = curdir s3"
    using alloc_blocks_cpu [OF a(1) [unfolded pmmngr_alloc_block_def]] on I(1) by (simp_all add: s3_def s2_def)
  have self3: "mmu_walk (ram s3) (curdir s3) x = Some x" if "x \<in> two_pages (curdir s3) a" for x
  proof -
    have w: "mmu_walk (ram s) (curdir s) x = Some x" using self [of x] that I(1) by simp
    then have "entry_present (pde s (PAGE_DIR_INDEX x))" by (auto simp: mmu_walk_entries Let_def split: if_splits)
    then have "PAGE_DIR_INDEX x \<noteq> ?i" using abs by auto
    then show ?thesis using w I(2,3) by (simp add: mmu_walk_entries Let_def split: if_splits)
  qed
  have P: "paged_map_page phys va s3 = Some (vmmngr_map_page phys va s3)"
    by (rule paged_present(1) [OF I(4) on3 pres(1)]) (use self3 va I(1) pres(2) in simp_all)
  have D: "vmmngr_pdirectory_get_entry (vmmngr_get_directory s) va = ?D" "vmmngr_get_directory s3 = vmmngr_get_directory s"
    using W(3) I(1) by (simp_all add: vmmngr_pdirectory_get_entry_def vmmngr_get_directory_def)
  have ld: "vload32 ?D s = Some (pde s ?i)" "vload32 ?D s3 = Some (pde s3 ?i)"
    using load_dir_entry [OF wf on self, of va] load_dir_entry [OF I(4) on3 self3, of va] by (simp_all add: D two_pages_def)
  have "paged_new_table ?D s = Some (Inr s3)"
    using paged_table [OF wf on abs self a, folded s2_def] I(5) by (simp add: s3_def)
  moreover have "pd_entry_is_present (pde s ?i) = 0" "pd_entry_is_present (pde s3 ?i) \<noteq> 0"
    using abs pres(1) is_present_iff(1) by metis+
  ultimately have "paged_map_page phys va s = paged_map_page phys va s3" by (simp add: paged_map_page_def D ld Let_def)
  moreover have "vmmngr_map_page phys va s = vmmngr_map_page phys va s3"
    using map_page_absent(2) [OF wf abs a, of phys, folded s2_def] I(4,1,5) pres(1) by (simp add: s3_def)
  ultimately show ?thesis using P by simp
qed

theorem paged_map_page_same:
  assumes wf: "vmm_wf s" and on: "bit (cr0 s) 31" "cr3 s = curdir s" and self: "self_mapped s"
    and va: "\<not> kernel_uses s (va div PAGE_SIZE)"
    and ok: "entry_present (pde s (PAGE_DIR_INDEX va)) \<or> table_room s va \<or> fst (pmmngr_alloc_block s) = 0"
  shows "paged_map_page phys va s = Some (vmmngr_map_page phys va s)"
proof -
  obtain a s1 where a: "pmmngr_alloc_block s = (a, s1)" by fastforce
  consider "entry_present (pde s (PAGE_DIR_INDEX va))" | "\<not> entry_present (pde s (PAGE_DIR_INDEX va))" "a = 0"
    | "\<not> entry_present (pde s (PAGE_DIR_INDEX va))" "a \<noteq> 0" by blast
  then show ?thesis
  proof cases
    case 1
    note K = kernel_two_pages [OF self present_table [OF 1]]
    show ?thesis by (rule paged_present(1) [OF wf on 1]) (use K va in blast)+
  next
    case 2
    have "pmm_wf s" using wf by (simp add: vmm_wf_def memory_wf_def)
    then have "s1 = s" using frames.alloc_fail [of s s1] a 2(2) by simp
    moreover have "pd_entry_is_present (pde s (PAGE_DIR_INDEX va)) = 0" using 2(1) is_present_iff(1) by metis
    ultimately show ?thesis
      using a 2(2) map_page_absent(1) [OF wf 2(1) a 2(2), of phys] load_dir_self [OF wf on self, of va]
      by (simp add: paged_map_page_def Let_def paged_new_table_def)
  next
    case 3
    then have room: "mmu_walk (ram s) (curdir s) a = Some a" "a div 4096 \<noteq> va div 4096" using ok a by (simp_all add: table_room_def)
    have "a mod 4096 = 0" using fresh_table(2) [OF vmm_wf_curdir(4) [OF wf] a 3(2)] by (simp add: reserved_frame_def)
    then have "mmu_walk (ram s) (curdir s) x = Some x \<and> x div 4096 \<noteq> va div 4096" if "x div 4096 = a div 4096" for x
      using walk_same_page [OF room(1)] that room(2) by simp
    moreover have "mmu_walk (ram s) (curdir s) x = Some x \<and> x div 4096 \<noteq> va div 4096" if "x div 4096 = curdir s div 4096" for x
      using kernel_two_pages [OF self, of "curdir s" x] that va by (auto simp: table_frame_def two_pages_def)
    ultimately show ?thesis by (intro paged_map_installed [OF wf on 3(1) a 3(2)]) (auto simp: two_pages_def)
  qed
qed

end
