(* ===== verification/Disk_errors.thy ===== *)
theory Disk_errors
  imports Fat_files
begin

text \<open>
  The file system on a drive that does not find its cylinders: after nine attempts the driver gives up and returns the null
  pointer, and the file system takes the memory at address 0 for the sector.
\<close>

unbundle bit_operations_syntax

section \<open>A drive that never arrives\<close>

text \<open>After a seek the drive reports another cylinder than the one asked for, and a seek transfers nothing.\<close>

definition drive_stuck :: "'a fd \<Rightarrow> bool" where
  "drive_stuck s \<longleftrightarrow> drive_ready s \<and> seek_quiet s \<and>
     (\<forall>h st r xs hdr cyl. fifo_out h = xs @ [0x0F, hdr, cyl, 8] \<longrightarrow> dev_b s (h @ [In_b 0x3F5 st, In_b 0x3F4 r]) 0x3F5 \<noteq> cyl)"

lemma same_drive_stuck: "same_drive s t \<Longrightarrow> drive_stuck t = drive_stuck s"
  using same_drive_ok(1) [of s t] by (simp add: drive_stuck_def seek_quiet_def same_drive_def)

lemma drive_stuck_update [simp]: "drive_stuck (s\<lparr>ram := m\<rparr>) = drive_stuck s" "drive_stuck (t\<lparr>FAT := b\<rparr>) = drive_stuck t"
  by (simp_all add: drive_stuck_def drive_ready_def seek_quiet_def)

lemma seek_gives_up:
  assumes "drive_stuck s" "unat head < 2"
  shows "\<exists>s'. fd_seek_loop n cy1 head s = Some (- 1, s') \<and> (\<exists>bs. fd_step bs s s')"
  using assms(1)
proof (induction n arbitrary: s)
  case 0
  show ?case by (auto intro: exI [of _ "[]"])
next
  case (Suc n)
  have ready: "drive_ready s" "seek_quiet s" using Suc.prems by (simp_all add: drive_stuck_def)
  obtain u h st r xs hdr where u: "fd_seek_loop (Suc n) cy1 head s =
      (if cy1 = ucast (dev_b s (h @ [In_b 0x3F5 st, In_b 0x3F4 r]) 0x3F5) then Some (0, u) else fd_seek_loop n cy1 head u)"
    "fifo_out h = xs @ [0x0F, hdr, ucast cy1, 8]" "\<exists>bs. fd_step bs s u"
    by (rule seek_attempt [OF ready assms(2), of n cy1])
  have "dev_b s (h @ [In_b 0x3F5 st, In_b 0x3F4 r]) 0x3F5 \<noteq> ucast cy1" using Suc.prems u(2) unfolding drive_stuck_def by blast
  moreover have "ucast (ucast b :: u32) = b" for b :: u8 by (rule bit_word_eqI) (simp add: bit_simps)
  ultimately have "cy1 \<noteq> ucast (dev_b s (h @ [In_b 0x3F5 st, In_b 0x3F4 r]) 0x3F5)" by metis
  moreover have "drive_stuck u" using u(3) Suc.prems same_drive_stuck by (auto simp: fd_step_def)
  ultimately show ?case using Suc.IH [of u] u(1,3) fd_step_trans by fastforce
qed

lemma read_sector_stuck:
  assumes "drive_stuck s"
  obtains s' where "fd_read_sector lba s = Some (0, s')" "same_drive s s'" "ram s' = ram s"
proof -
  obtain head track sector where chs: "fd_lba_to_chs lba = (head, track, sector)" by (metis prod.exhaust)
  have head: "unat head < 2" using fd_lba_to_chs_unat(1) [OF chs] by (simp add: less_mult_imp_div_less)
  have ready: "drive_ready s" "\<not> 3 < current_drive s" using assms by (auto simp: drive_stuck_def drive_ready_def)
  obtain t where t: "fd_control_motor True s = Some t" "fd_step [] s t" using motor_step [OF ready(1)] .
  have "drive_stuck t" "current_drive t = current_drive s"
    using assms t(2) same_drive_stuck by (auto simp: fd_step_def same_drive_def)
  then obtain u bs where u: "fd_seek track head t = Some (- 1, u)" "fd_step bs t u"
    using seek_gives_up [of t head 9 track] head ready(2) by (auto simp: fd_seek_def)
  have "fd_read_sector lba s = Some (0, u)" using ready(2) t(1) u(1) by (simp add: fd_read_sector_def chs)
  moreover have "same_drive s u" "ram u = ram s" using t(2) u(2) by (auto simp: fd_step_def intro: same_drive_trans)
  ultimately show thesis using that by blast
qed

section \<open>What a file then holds\<close>

text \<open>The table entry that the memory at address 0 gives for a cluster.\<close>

definition null_entry :: "memory \<Rightarrow> u32 \<Rightarrow> u16" where
  "null_entry m c = fat_entry c (list_word (bytes_at m 0 512 @ bytes_at m 0 512) (unat ((c div 2 + c) mod 512)))"

lemma next_cluster_stuck:
  fixes s :: "'a fat"
  assumes "drive_stuck s"
  obtains s' where "fat_next_cluster c s = Some (null_entry (ram s) c, s')" "ram s' = ram s" "fat_frame s s'"
proof -
  let ?off = "c div 2 + c"
  obtain t where t: "fd_read_sector (?off div SECTOR_SIZE + 1) s = Some (0, t)" "same_drive s t" "ram t = ram s"
    by (rule read_sector_stuck [OF assms])
  define u where "u = t\<lparr>FAT := bytes_at (ram t) 0 512 @ drop 512 (FAT t)\<rparr>"
  have "drive_stuck u" using assms same_drive_stuck [OF t(2)] by (simp add: u_def)
  then obtain v where v: "fd_read_sector (?off div SECTOR_SIZE + 1 + 1) u = Some (0, v)" "same_drive u v" "ram v = ram u"
    by (rule read_sector_stuck)
  have "FAT v = FAT u" using fat_keptD(2) [OF same_drive_fat_kept [OF v(2)]] .
  then have "fat_next_cluster c s = Some (null_entry (ram s) c, v\<lparr>FAT := bytes_at (ram s) 0 512 @ bytes_at (ram s) 0 512\<rparr>)"
    using t(1,3) v(1,3) by (simp add: fat_next_cluster_def Let_def null_entry_def u_def)
  moreover have "fat_frame s v"
    using fat_frame_trans [of s t v] fat_keptD(1) [OF same_drive_fat_kept [OF t(2)]] fat_keptD(1) [OF same_drive_fat_kept [OF v(2)]]
    by (simp add: u_def)
  ultimately show thesis using that t(3) v(3) by (simp add: u_def)
qed

text \<open>
  C35. When the drive does not find a cylinder, nobody notices: after nine attempts \<open>fd_read_sector\<close> returns the null
  pointer, and \<open>fat_read_file\<close> comes back as usual, with the first 512 bytes of memory in the buffer instead of the sector. The
  next cluster of the file, or its end, is what these bytes would say as a file allocation table.
\<close>

theorem fat_read_file_failed_seek:
  fixes s :: "'a fat"
  assumes "drive_stuck s" and "apart buffer 512 0 512"
  shows "\<exists>f' s'. fat_read_file (Some f) buffer s = Some (Some f', s') \<and> (\<forall>k < 512. ram s' (buffer + of_nat k) = ram s (of_nat k)) \<and>
    same_outside buffer 512 (ram s) (ram s') \<and> mount_info s' = mount_info s \<and>
    (let e = null_entry (ram s) (f_current_cluster f)
     in f' = (if 0xFF8 \<le> e \<or> e = 0 then f\<lparr>f_end := 1\<rparr> else f\<lparr>f_current_cluster := ucast e\<rparr>))"
proof -
  let ?c = "f_current_cluster f" and ?m = "memcpy buffer 0 SECTOR_SIZE (ram s)"
  obtain t where t: "fd_read_sector (fd_chs_to_lba (ucast ?c) + data_offset (mount_info s)) s = Some (0, t)" "same_drive s t" "ram t = ram s"
    by (rule read_sector_stuck [OF assms(1)])
  have m: "?m x = (if in_region buffer 512 x then ram s (x - buffer) else ram s x)" for x
    using memcpy_apply [OF assms(2), of "ram s" x] by simp
  have low: "?m (of_nat k) = ram s (of_nat k)" if "k < 512" for k
  proof -
    have "in_region 0 512 (of_nat k)" using that by (simp add: in_region_def word_less_nat_alt unat_of_nat_small)
    then have "\<not> in_region buffer 512 (of_nat k)" using apart_regions [of 0 512 buffer 512] assms(2) apart_sym by blast
    then show ?thesis by (simp add: m)
  qed
  then have "bytes_at ?m 0 512 = bytes_at (ram s) 0 512" by (simp add: bytes_at_def)
  then have "null_entry ?m ?c = null_entry (ram s) ?c" by (simp only: null_entry_def)
  moreover have "drive_stuck (t\<lparr>ram := ?m\<rparr>)" using assms(1) same_drive_stuck [OF t(2)] by simp
  ultimately obtain u where u: "fat_next_cluster ?c (t\<lparr>ram := ?m\<rparr>) = Some (null_entry (ram s) ?c, u)" "ram u = ?m" "fat_frame t u"
    using next_cluster_stuck [of "t\<lparr>ram := ?m\<rparr>" ?c] by auto
  have mi: "mount_info u = mount_info s"
    using u(3) fat_keptD(3) [OF same_drive_fat_kept [OF t(2)]] by (simp add: fat_frame_def)
  have "ram u (buffer + of_nat k) = ram s (of_nat k)" if "k < 512" for k
    using that by (simp add: u(2) m in_region_def word_less_nat_alt unat_of_nat_small)
  moreover have "same_outside buffer 512 (ram s) (ram u)" by (simp add: same_outside_def u(2) m)
  ultimately show ?thesis using t(1,3) u(1) mi by (simp add: fat_read_file_def Let_def)
qed

text \<open>A drive that reports the complement of the cylinder asked for.\<close>

definition stuck_fat :: fat_state where
  "stuck_fat = demo_fat\<lparr>dev_b := \<lambda>h p. if p = 0x3F4 then 0x80 else case rev (fifo_out h) of _ # cyl # _ \<Rightarrow> NOT cyl | _ \<Rightarrow> 0\<rparr>"

lemma stuck_fat_stuck: "drive_stuck stuck_fat"
proof -
  have ok: "drive_ready demo_fat" "drive_seeks demo_fat" using demo_fat_ok by (simp_all add: drive_ok_def)
  have "seek_quiet stuck_fat" using ok(2) unfolding drive_seeks_def seek_quiet_def stuck_fat_def by simp
  moreover have "drive_ready stuck_fat" using ok(1) by (simp add: drive_ready_def stuck_fat_def bit_simps)
  moreover have "NOT cyl \<noteq> cyl" for cyl :: u8
  proof
    assume "NOT cyl = cyl"
    then have "bit (NOT cyl) 0 = bit cyl 0" by simp
    then show False by (simp add: bit_simps)
  qed
  ultimately show ?thesis by (simp add: drive_stuck_def stuck_fat_def)
qed

theorem fat_read_file_failed_seek_witness:
  "\<exists>f' s'. fat_read_file (Some demo_file) 0x9000 stuck_fat = Some (Some f', s') \<and> ram s' 0x9005 = ram stuck_fat 5 \<and> f_end f' = 1"
proof -
  have m: "ram stuck_fat = (\<lambda>_. 0)" by (simp add: stuck_fat_def demo_fat_def demo_fd_def fd_state.defs)
  have e: "null_entry (ram stuck_fat) (f_current_cluster demo_file) = 0" unfolding m demo_file_def by code_simp
  have "apart 0x9000 512 0 512" by (simp add: apart_def)
  from fat_read_file_failed_seek [OF stuck_fat_stuck this, of demo_file] obtain f' s' where
    r: "fat_read_file (Some demo_file) 0x9000 stuck_fat = Some (Some f', s')"
      "\<forall>k < 512. ram s' (0x9000 + of_nat k) = ram stuck_fat (of_nat k)" "f' = demo_file\<lparr>f_end := 1\<rparr>"
    unfolding e Let_def by auto
  from r(2) have "ram s' (0x9000 + of_nat 5) = ram stuck_fat (of_nat 5)" by (rule allE [where x = 5]) simp
  then show ?thesis using r(1,3) by simp
qed

end
