(* ===== verification/Stdio.thy ===== *)
theory Stdio
  imports Syscalls "HOL-Library.Signed_Division"
begin

text \<open>
  Formatted output, \<^verbatim>\<open>C/stdio.c\<close>. The text is built in a buffer from the heap, which is accessed at
  virtual addresses; the format and the strings among the arguments are the bytes of the object
  behind the pointer. \<open>None\<close>: a page fault, a read or write outside an object, an argument that is
  missing or of another kind than its conversion, or a loop that does not end.
\<close>

unbundle bit_operations_syntax

section \<open>State\<close>

text \<open>\<open>write_len\<close> is the global \<^verbatim>\<open>len\<close>.\<close>

record stdio_state = heap_state +
  write_buffer :: u32
  write_len :: u32

type_synonym 'a stdio = "'a stdio_state_scheme"

datatype printf_arg = Word_arg u32 | String_arg "u8 list"

section \<open>String functions at virtual addresses\<close>

definition vmemset :: "u32 \<Rightarrow> u8 \<Rightarrow> u32 \<Rightarrow> 'a machine_scheme \<Rightarrow> 'a machine_scheme option" where
  "vmemset buffer byte len s = for_u32 0 len (\<lambda>i r. r \<bind> vstore8 (buffer + i) byte) (Some s)"

partial_function (option) vstrcpy :: "u32 \<Rightarrow> u32 \<Rightarrow> 'a machine_scheme \<Rightarrow> 'a machine_scheme option" where
  "vstrcpy dst src s =
     Option.bind (vload8 src s) (\<lambda>c.
       if c = 0 then Some s else Option.bind (vstore8 dst c s) (vstrcpy (dst + 1) (src + 1)))"

partial_function (option) vprint_string :: "u32 \<Rightarrow> 'a display \<Rightarrow> 'a display option" where
  "vprint_string str s =
     Option.bind (vload8 str s) (\<lambda>c.
       if c = 0 then Some s else vprint_string (str + 1) (print_char c s))"

section \<open>Conversions\<close>

text \<open>\<^verbatim>\<open>write_buffer[len++] = c\<close>.\<close>

definition write_char :: "u8 \<Rightarrow> 'a stdio \<Rightarrow> 'a stdio option" where
  "write_char c s = do {
     s' \<leftarrow> vstore8 (write_buffer s + write_len s) c s;
     Some (s'\<lparr>write_len := write_len s + 1\<rparr>)
   }"

fun write_chars :: "u8 list \<Rightarrow> 'a stdio \<Rightarrow> 'a stdio option" where
  "write_chars [] s = Some s"
| "write_chars (c # cs) s = write_char c s \<bind> write_chars cs"

text \<open>
  \<^verbatim>\<open>while (--i >= 0) write_buffer[len++] = buf[i]\<close>; the first argument is \<^verbatim>\<open>i\<close>.
\<close>

primrec write_back :: "nat \<Rightarrow> u8 list \<Rightarrow> 'a stdio \<Rightarrow> 'a stdio option" where
  "write_back 0 buf s = Some s"
| "write_back (Suc i) buf s =
     (if i < length buf then write_char (buf ! i) s \<bind> write_back i buf else None)"

text \<open>A write to the local \<^verbatim>\<open>buf[16]\<close>.\<close>

definition put_digit :: "nat \<Rightarrow> u8 \<Rightarrow> u8 list \<Rightarrow> u8 list option" where
  "put_digit i c buf = (if i < length buf then Some (buf[i := c]) else None)"

function hex_digits :: "u32 \<Rightarrow> nat \<Rightarrow> u8 list \<Rightarrow> (nat \<times> u8 list) option" where
  "hex_digits n i buf =
     (case put_digit i (ascii_numbers ! unat (n mod 16)) buf of
        None \<Rightarrow> None
      | Some buf \<Rightarrow> if 0 < n div 16 then hex_digits (n div 16) (i + 1) buf else Some (i + 1, buf))"
  by pat_completeness auto
termination
  by (relation "measure (\<lambda>(n, _). unat n)") (auto simp: word_less_nat_alt unat_div)

definition printf_hex :: "u32 \<Rightarrow> 'a stdio \<Rightarrow> 'a stdio option" where
  "printf_hex num s = do {
     let pad = num < 0x10;
     (i, buf) \<leftarrow> hex_digits num 0 (replicate 16 0);
     s \<leftarrow> (if pad then write_char 0x30 s else Some s);
     write_back i buf s
   }"

text \<open>
  \<^verbatim>\<open>n\<close> is an \<^verbatim>\<open>int32_t\<close>, with C's division; a negative index into \<^verbatim>\<open>digits\<close> is outside the array.
\<close>

function int_digits :: "int \<Rightarrow> nat \<Rightarrow> u8 list \<Rightarrow> (nat \<times> u8 list) option" where
  "int_digits n i buf =
     (if n smod 10 < 0 then None
      else case put_digit i (ascii_numbers ! nat (n smod 10)) buf of
        None \<Rightarrow> None
      | Some buf \<Rightarrow> if 0 < n sdiv 10 then int_digits (n sdiv 10) (i + 1) buf else Some (i + 1, buf))"
  by pat_completeness auto
termination
proof (relation "measure (\<lambda>(n, _). nat n)", goal_cases)
  case (2 n i buf buf')
  then have "0 < n" by (cases "n < 0") (auto simp: signed_divide_int_def sgn_if split: if_splits)
  then show ?case using 2 by (simp add: signed_divide_int_def)
qed simp

definition printf_int :: "int \<Rightarrow> 'a stdio \<Rightarrow> 'a stdio option" where
  "printf_int num s = do {
     let (negative, n) = (if num < 0 then (True, wrap32 (- num)) else (False, num));
     (i, buf) \<leftarrow> int_digits n 0 (replicate 16 0);
     (i, buf) \<leftarrow> (if negative then do { buf \<leftarrow> put_digit i 0x2D buf; Some (i + 1, buf) } else Some (i, buf));
     write_back i buf s
   }"

section \<open>\<^verbatim>\<open>printf\<close>\<close>

text \<open>The characters that \<^verbatim>\<open>while (*s)\<close> passes.\<close>

fun until_nul :: "u8 list \<Rightarrow> u8 list option" where
  "until_nul [] = None"
| "until_nul (c # cs) = (if c = 0 then Some [] else map_option (Cons c) (until_nul cs))"

text \<open>\<^verbatim>\<open>while (len > max)\<close>.\<close>

partial_function (option) grow_buffer :: "u32 \<Rightarrow> 'a stdio \<Rightarrow> (u32 \<times> 'a stdio) option" where
  "grow_buffer max_len s =
     (if max_len < write_len s
      then Option.bind (malloc (max_len * 2) s) (\<lambda>(temp_buffer, s).
        Option.bind (vmemset temp_buffer 0 (max_len * 2) s) (\<lambda>s.
          Option.bind (vstrcpy temp_buffer (write_buffer s) s) (\<lambda>s.
            Option.bind (free (write_buffer s) s) (\<lambda>s.
              grow_buffer (max_len * 2) (s\<lparr>write_buffer := temp_buffer\<rparr>)))))
      else Some (max_len, s))"

text \<open>The \<^verbatim>\<open>switch\<close> on the character behind a percent sign; the arguments that remain are returned.\<close>

definition convert :: "u8 \<Rightarrow> printf_arg list \<Rightarrow> 'a stdio \<Rightarrow> (printf_arg list \<times> 'a stdio) option" where
  "convert c args s =
     (if c = of_char CHR ''d'' then
        (case args of Word_arg w # args \<Rightarrow> map_option (Pair args) (printf_int (sint w) s) | _ \<Rightarrow> None)
      else if c = of_char CHR ''x'' then
        (case args of
           Word_arg w # args \<Rightarrow> do {
             s \<leftarrow> write_char 0x30 s;
             s \<leftarrow> write_char (of_char CHR ''x'') s;
             map_option (Pair args) (printf_hex w s)
           }
         | _ \<Rightarrow> None)
      else if c = of_char CHR ''s'' then
        (case args of
           String_arg str # args \<Rightarrow> do {
             cs \<leftarrow> until_nul str;
             let cs = (if cs = [] then map of_char ''(null)'' else cs);
             map_option (Pair args) (write_chars cs s)
           }
         | _ \<Rightarrow> None)
      else if c = of_char CHR ''c'' then
        (case args of Word_arg w # args \<Rightarrow> map_option (Pair args) (write_char (ucast w) s) | _ \<Rightarrow> None)
      else if c = of_char CHR ''%'' then map_option (Pair args) (write_char c s)
      else do {
        s \<leftarrow> write_char (of_char CHR ''%'') s;
        s \<leftarrow> write_char c s;
        Some (args, s)
      })"

text \<open>The loop over the format; \<open>st\<close> tells whether \<^verbatim>\<open>state\<close> is the percent sign.\<close>

fun printf_loop :: "u8 list \<Rightarrow> bool \<Rightarrow> u32 \<Rightarrow> printf_arg list \<Rightarrow> 'a stdio \<Rightarrow> 'a stdio option" where
  "printf_loop [] st max_len args s = None"
| "printf_loop (c # fmt) st max_len args s =
     (if c = 0 then Some s
      else do {
        (max_len, s) \<leftarrow> grow_buffer max_len s;
        if \<not> st
        then if c = of_char CHR ''%'' then printf_loop fmt True max_len args s
             else do { s \<leftarrow> write_char c s; printf_loop fmt False max_len args s }
        else do { (args, s) \<leftarrow> convert c args s; printf_loop fmt False max_len args s }
      })"

definition printf :: "u8 list \<Rightarrow> printf_arg list \<Rightarrow> 'a stdio \<Rightarrow> 'a stdio option" where
  "printf fmt args s = do {
     let max_len = 256;
     let s = s\<lparr>write_len := 0\<rparr>;
     (p, s) \<leftarrow> malloc max_len s;
     let s = s\<lparr>write_buffer := p\<rparr>;
     s \<leftarrow> vmemset (write_buffer s) 0 max_len s;
     s \<leftarrow> printf_loop fmt False max_len args s;
     s \<leftarrow> vstore8 (write_buffer s + write_len s) 0 s;
     s \<leftarrow> vprint_string (write_buffer s) s;
     free (write_buffer s) s
   }"

declare hex_digits.simps [simp del] int_digits.simps [simp del]

end
