(* ===== verification/Userspace.thy ===== *)
theory Userspace
  imports Stdio
begin

text \<open>
  The command interpreter, \<^verbatim>\<open>userspace.c\<close>. It polls the keyboard while interrupts arrive: the field
  \<open>dev_input\<close>, a function of the port history, gives the interrupts before each poll of one wait for a
  key (those that arrive at other times are counted before the next poll). \<open>None\<close>: a fault, a
  device that does not answer, or a loop that does not end.
\<close>

unbundle bit_operations_syntax

section \<open>Keys\<close>

datatype irq = Timer_irq | Keyboard_irq

record user_state = stdio_state +
  dev_input :: "io_event list \<Rightarrow> irq list list"

type_synonym 'a user = "'a user_state_scheme"

primrec take_irqs :: "irq list \<Rightarrow> 'a user \<Rightarrow> 'a user option" where
  "take_irqs [] s = Some s"
| "take_irqs (q # qs) s =
     (case q of
        Timer_irq \<Rightarrow> take_irqs qs (timer_irq0_handler s)
      | Keyboard_irq \<Rightarrow> keyboard_irq1_handler s \<bind> take_irqs qs)"

primrec get_key_loop :: "irq list list \<Rightarrow> 'a user \<Rightarrow> (KEYCODE \<times> 'a user) option" where
  "get_key_loop [] s = None"
| "get_key_loop (qs # arrivals) s = do {
     s \<leftarrow> take_irqs qs s;
     key \<leftarrow> keyboard_get_last_key s;
     if key = KEY_UNKNOWN then get_key_loop arrivals s else Some (key, s)
   }"

definition get_key :: "'a user \<Rightarrow> (KEYCODE \<times> 'a user) option" where
  "get_key s = do {
     (key, s) \<leftarrow> get_key_loop (dev_input s (io_log s)) s;
     Some (key, keyboard_discard_last_key s)
   }"

section \<open>Commands\<close>

text \<open>The loop of \<open>input_cmd\<close>; the index \<^verbatim>\<open>i\<close> is an \<^verbatim>\<open>int\<close>, and may fall below 0.\<close>

partial_function (option) input_loop :: "u32 \<Rightarrow> int \<Rightarrow> int \<Rightarrow> 'a user \<Rightarrow> (int \<times> 'a user) option" where
  "input_loop buf len i s =
     (if i < len
      then Option.bind (get_key s) (\<lambda>(key, s).
        if key = KEY_RETURN then Some (i, s)
        else Option.bind
          (if key = KEY_BACKSPACE
           then Option.bind (vstore8 (buf + of_int i) 0 s) (\<lambda>s. Some (wrap32 (i - 1), s))
           else let c = keyboard_key_to_ascii key
                in if c \<noteq> 0 then Option.bind (vstore8 (buf + of_int i) c s) (\<lambda>s. Some (wrap32 (i + 1), s))
                   else Some (i, s))
          (\<lambda>(i, s). Option.bind (sleep_now 10 s) (input_loop buf len i)))
      else Some (i, s))"

definition input_cmd :: "u32 \<Rightarrow> int \<Rightarrow> 'a user \<Rightarrow> 'a user option" where
  "input_cmd buf len s = do {
     (i, s) \<leftarrow> input_loop buf len 0 s;
     vstore8 (buf + of_int i) 0 s
   }"

text \<open>\<open>strcmp\<close> of the string at a virtual address with a literal.\<close>

fun vstrcmp :: "u32 \<Rightarrow> u8 list \<Rightarrow> 'a machine_scheme \<Rightarrow> int option" where
  "vstrcmp str1 [] s = None"
| "vstrcmp str1 (b # str2) s = do {
     a \<leftarrow> vload8 str1 s;
     if a \<noteq> 0 \<and> a = b then vstrcmp (str1 + 1) str2 s else Some (uint a - uint b)
   }"

definition cmd :: "'a user \<Rightarrow> 'a user option" where
  "cmd s = printf (10 # cstr ''cmd />'') [] s"

text \<open>
  The file system reads the sector buffer of the driver and copies sectors at addresses that its model takes to be
  physical. For the command \<^verbatim>\<open>read\<close> they are virtual: opening and reading are described where paging maps the
  sector buffer to itself and the 512 bytes at \<open>buf\<close> to consecutive addresses, and are \<open>None\<close> elsewhere.
\<close>

definition mapped_at :: "'a machine_scheme \<Rightarrow> u32 \<Rightarrow> u32 \<Rightarrow> bool" where
  "mapped_at s virt phys \<longleftrightarrow>
     list_all (\<lambda>k. translate s (virt + of_nat k) = Some (phys + of_nat k)) [0..<512]"

definition user_open_file :: "FILE \<Rightarrow> u8 list \<Rightarrow> 'a user \<Rightarrow> (FILE \<times> 'a user) option" where
  "user_open_file junk fname s =
     (if mapped_at s DMA_BUFFER DMA_BUFFER then vol_open_file junk (Some fname) s else None)"

definition user_read_file :: "FILE \<Rightarrow> u32 \<Rightarrow> 'a user \<Rightarrow> (FILE \<times> 'a user) option" where
  "user_read_file file buf s = do {
     phys \<leftarrow> translate s buf;
     if mapped_at s DMA_BUFFER DMA_BUFFER \<and> mapped_at s buf phys
     then do { (f, s) \<leftarrow> vol_read_file (Some file) phys s; f \<leftarrow> f; Some (f, s) }
     else None
   }"

text \<open>\<^verbatim>\<open>for (i = 0; i < 128; i++) printf("%x ", buf[i])\<close>.\<close>

definition dump_buffer :: "u32 \<Rightarrow> 'a user \<Rightarrow> 'a user option" where
  "dump_buffer buf s = for_u32 0 128 (\<lambda>i r. do {
     s \<leftarrow> r;
     b \<leftarrow> vload8 (buf + i) s;
     printf (cstr ''%x '') [Word_arg (ucast b)] s
   }) (Some s)"

partial_function (option) read_loop :: "FILE \<Rightarrow> u32 \<Rightarrow> 'a user \<Rightarrow> 'a user option" where
  "read_loop file buf s =
     (if f_end file = 1 then Some s
      else Option.bind (user_read_file file buf s) (\<lambda>(file, s).
        Option.bind (dump_buffer buf s) (\<lambda>s.
          Option.bind
            (if f_end file \<noteq> 1
             then Option.bind (printf ([10, 13] @ cstr ''---------[Press \"q\" to quit]---------'') [] s) (\<lambda>s.
               Option.bind (get_key s) (\<lambda>(key, s).
                 if key = KEY_Q then Some (True, s)
                 else map_option (Pair False) (printf [13, 0] [] s)))
             else Some (False, s))
            (\<lambda>(quit, s).
              if quit then Some s
              else Option.bind (vmemset buf 0 128 s) (read_loop file buf)))))"

definition cmd_read :: "FILE \<Rightarrow> 'a user \<Rightarrow> 'a user option" where
  \<comment> \<open>the first argument is the uninitialised local of the driver\<close>
  "cmd_read junk s = do {
     (file, s) \<leftarrow> user_open_file junk (cstr ''KRNL    SYS'') s;
     (buf, s) \<leftarrow> malloc 128 s;
     s \<leftarrow> printf ([10, 10, 13] @ map of_char ''---------[%s]---------'' @ [10, 13, 0]) [String_arg (f_name file)] s;
     read_loop file buf s
   }"

definition run_cmd :: "FILE \<Rightarrow> u32 \<Rightarrow> 'a user \<Rightarrow> (bool \<times> 'a user) option" where
  "run_cmd junk buf s = do {
     help \<leftarrow> vstrcmp buf (cstr ''help'') s;
     if help = 0 then do {
       s \<leftarrow> printf (10 # map of_char ''Supported commands:'' @ [10, 0]) [] s;
       s \<leftarrow> printf (map of_char '' - exit: quits and halts the system'' @ [10, 0]) [] s;
       s \<leftarrow> printf (map of_char '' - clear: clears the screen'' @ [10, 0]) [] s;
       s \<leftarrow> printf (map of_char '' - help: displays this message'' @ [10, 0]) [] s;
       s \<leftarrow> printf (map of_char '' - read: reads a file'' @ [10, 0]) [] s;
       Some (False, s)
     }
     else do {
       exit \<leftarrow> vstrcmp buf (cstr ''exit'') s;
       if exit = 0 then Some (True, s)
       else do {
         clear \<leftarrow> vstrcmp buf (cstr ''clear'') s;
         if clear = 0 then Some (False, clear_screen s)
         else do {
           read \<leftarrow> vstrcmp buf (cstr ''read'') s;
           if read = 0 then map_option (Pair False) (cmd_read junk s)
           else map_option (Pair False) (printf (10 # cstr ''Unknown command'') [] s)
         }
       }
     }
   }"

section \<open>The interpreter\<close>

abbreviation MAX_CMD_LEN :: u32 where "MAX_CMD_LEN \<equiv> 99"

partial_function (option) run_loop :: "FILE \<Rightarrow> u32 \<Rightarrow> 'a user \<Rightarrow> 'a user option" where
  "run_loop junk cmd_buf s =
     Option.bind (vmemset cmd_buf 0 MAX_CMD_LEN s) (\<lambda>s.
       Option.bind (cmd s) (\<lambda>s.
         Option.bind (input_cmd cmd_buf (uint MAX_CMD_LEN) s) (\<lambda>s.
           Option.bind (run_cmd junk cmd_buf s) (\<lambda>(quit, s).
             if quit then Some s else run_loop junk cmd_buf s))))"

definition run :: "FILE \<Rightarrow> 'a user \<Rightarrow> 'a user option" where
  "run junk s = do {
     (cmd_buf, s) \<leftarrow> malloc MAX_CMD_LEN s;
     s \<leftarrow> run_loop junk cmd_buf s;
     free cmd_buf s
   }"

definition logo :: "u8 list" where
  "logo =
     map of_char ''    __  _______  _____'' @ [10] @
     map of_char ''   /  |/  / __ '' @ [0x5C] @ map of_char ''/ ___/'' @ [10] @
     map of_char ''  / /|_/ / / / /'' @ [0x5C] @ map of_char ''__ '' @ [0x5C] @ map of_char '' x86 Microcomputer Operating System '' @ [10] @
     map of_char '' / /  / / /_/ /___/ / -------------------------------'' @ [10] @
     map of_char ''/_/  /_/'' @ [0x5C] @ map of_char ''____//____/  '' @ [10, 10, 0]"

text \<open>\<open>userspace\<close> with what \<open>exit\<close> comes back with.\<close>

definition userspace :: "FILE \<Rightarrow> 'a user \<Rightarrow> (u32 \<times> 'a user) option" where
  "userspace junk s = do {
     s \<leftarrow> printf logo [] s;
     s \<leftarrow> printf (10 # map of_char ''Type \"exit\" to quit, \"help\" for a list of commands'' @ [10, 0]) [] s;
     s \<leftarrow> run junk s;
     s \<leftarrow> printf (10 # cstr ''Exit command received; program halted'') [] s;
     exit 0 s
   }"

end
