(* ===== verification/Kernel.thy ===== *)
theory Kernel
  imports Userspace Descriptors Virtual_mmngr
begin

text \<open>
  The kernel's entry, \<^verbatim>\<open>kernel.c\<close>. The state is that of the descriptor tables beside that of all other
  components. The addresses that the linker gives to tables and handlers, and the value of ESP, are
  arguments. Paging is off until \<open>vmmngr_init\<close> turns it on, so the memory accesses here are physical.
\<close>

unbundle bit_operations_syntax

section \<open>The memory map of the boot loader\<close>

abbreviation SMAP_ENTRY_COUNT_ADDRESS :: u32 where "SMAP_ENTRY_COUNT_ADDRESS \<equiv> 0x1000"
abbreviation SMAP_ENTRY_ADDRESS :: u32 where "SMAP_ENTRY_ADDRESS \<equiv> 0x1004"
abbreviation MEMMAP_ADDRESS :: u32 where "MEMMAP_ADDRESS \<equiv> 0x30000"
abbreviation KERNEL_ADDRESS :: u32 where "KERNEL_ADDRESS \<equiv> 0x100000"
abbreviation KERNEL_SIZE_ADDRESS :: u32 where "KERNEL_SIZE_ADDRESS \<equiv> 0x8000"
abbreviation sizeof_SMAP_entry :: u32 where "sizeof_SMAP_entry \<equiv> 24"

record SMAP_entry =
  smap_base :: u64
  smap_size :: u64
  smap_type :: u32
  smap_acpi :: u32

definition load64 :: "memory \<Rightarrow> u32 \<Rightarrow> u64" where
  "load64 m a = ucast (load32 m a) OR push_bit 32 (ucast (load32 m (a + 4)))"

definition read_SMAP_entry :: "memory \<Rightarrow> u32 \<Rightarrow> SMAP_entry" where
  "read_SMAP_entry m p =
     \<lparr>smap_base = load64 m p, smap_size = load64 m (p + 8), smap_type = load32 m (p + 16),
      smap_acpi = load32 m (p + 20)\<rparr>"

text \<open>The loop over the entries, which hands each available region to the physical memory manager.\<close>

definition init_regions :: "u32 \<Rightarrow> 'a pmm \<Rightarrow> 'a pmm" where
  "init_regions entry_count s =
     snd (for_u32 0 entry_count (\<lambda>i (entry, s).
       let e = read_SMAP_entry (ram s) entry;
           s = (if smap_type e = 1 then pmmngr_init_region (ucast (smap_base e)) (ucast (smap_size e)) s else s)
       in (entry + sizeof_SMAP_entry, s)) (SMAP_ENTRY_ADDRESS, s))"

section \<open>Hardware\<close>

text \<open>What the linker decides.\<close>

record kernel_image =
  gdt_addr :: u32
  idt_addr :: u32
  tss_addr :: u32
  excp_addr :: u32 \<comment> \<open>\<^verbatim>\<open>default_excp_handler\<close>\<close>
  excp_err_addr :: u32 \<comment> \<open>\<^verbatim>\<open>default_excp_handler_err_code\<close>\<close>
  int_addr :: u32 \<comment> \<open>\<^verbatim>\<open>default_int_handler\<close>\<close>
  page_fault_addr :: u32
  syscall_addr :: u32
  timer_addr :: u32
  keyboard_addr :: u32
  floppy_addr :: u32

definition hal_init :: "kernel_image \<Rightarrow> 'h hal \<Rightarrow> 'a machine_scheme \<Rightarrow> ('h hal \<times> 'a machine_scheme) option" where
  "hal_init img h s = do {
     h \<leftarrow> gdt_init (gdt_addr img) h;
     h \<leftarrow> idt_init (idt_addr img) (excp_addr img) (excp_err_addr img) (int_addr img) h;
     let s = disable_pic s;
     let s = pic_init s;
     h \<leftarrow> tss_init (tss_addr img) 5 0x10 0 h;
     Some (h, s)
   }"

abbreviation PIT_OCW_MODE_RATEGEN :: u8 where "PIT_OCW_MODE_RATEGEN \<equiv> 0x4"

definition setup_interrupt_handlers :: "kernel_image \<Rightarrow> 'h hal \<Rightarrow> 'a pit \<Rightarrow> ('h hal \<times> 'a pit) option" where
  "setup_interrupt_handlers img h s = do {
     h \<leftarrow> idt_set_descriptor 14 (page_fault_addr img) TRAP_GATE_FLAGS h;
     h \<leftarrow> idt_set_descriptor 0x80 (syscall_addr img) INT_GATE_USER_FLAGS h;
     h \<leftarrow> idt_set_descriptor 0x20 (timer_addr img) INT_GATE_FLAGS h;
     h \<leftarrow> idt_set_descriptor 0x21 (keyboard_addr img) INT_GATE_FLAGS h;
     h \<leftarrow> idt_set_descriptor 0x26 (floppy_addr img) INT_GATE_FLAGS h;
     let s = clear_irq_mask 0 s;
     let s = clear_irq_mask 1 s;
     let s = clear_irq_mask 2 s;
     let s = clear_irq_mask 6 s;
     s \<leftarrow> pit_set_channel_mode_frequency 0 1000 PIT_OCW_MODE_RATEGEN s;
     Some (h, s\<lparr>int_flag := True\<rparr>)
   }"

section \<open>Entry\<close>

text \<open>The first part of \<open>kmain\<close>: the physical memory manager takes over the regions of the map.\<close>

definition init_memory :: "'a pmm \<Rightarrow> 'a pmm" where
  "init_memory s =
     (let entry_count = load32 (ram s) SMAP_ENTRY_COUNT_ADDRESS;
          last_entry = read_SMAP_entry (ram s) (SMAP_ENTRY_ADDRESS + entry_count * sizeof_SMAP_entry - sizeof_SMAP_entry);
          total_memory = ucast (smap_base last_entry + smap_size last_entry - 1);
          s = pmmngr_init MEMMAP_ADDRESS total_memory s
      in init_regions entry_count s)"

text \<open>The calls that take the memory in use out again.\<close>

definition reserve_memory :: "u32 \<Rightarrow> 'a pmm \<Rightarrow> 'a pmm" where
  "reserve_memory kernel_size s =
     (let s = pmmngr_deinit_region 0x1000 0x15000 s;
          s = pmmngr_deinit_region MEMMAP_ADDRESS (pmmngr_get_block_count s div 8) s
      in pmmngr_deinit_region KERNEL_ADDRESS (kernel_size * 512) s)"

text \<open>The routine of \<^verbatim>\<open>hal/user.asm\<close>, which loads user segments and enables interrupts.\<close>

definition jmp_userspace :: "'a machine_scheme \<Rightarrow> 'a machine_scheme" where
  "jmp_userspace s = s\<lparr>int_flag := True\<rparr>"

definition kmain :: "kernel_image \<Rightarrow> u32 \<Rightarrow> 'h hal \<Rightarrow> 'a fat \<Rightarrow> ('h hal \<times> 'a fat) option" where
  "kmain img stack h s = do {
     let s = clear_screen s;
     let kernel_size = load32 (ram s) KERNEL_SIZE_ADDRESS;
     let s = init_memory s;
     (h, s) \<leftarrow> hal_init img h s;
     (h, s) \<leftarrow> setup_interrupt_handlers img h s;
     s \<leftarrow> fd_init 0 s;
     s \<leftarrow> fat_init s;
     let s = reserve_memory kernel_size s;
     let s = vmmngr_init s;
     let h = tss_set_stack 0x10 (ucast stack) h;
     Some (h, jmp_userspace s)
   }"

end
