(* ===== verification/Kernel_props.thy ===== *)
theory Kernel_props
  imports Kernel Descriptor_props Physical_owner Timer_props
begin

text \<open>
  The boot sequence: which memory the allocator can hand out once the kernel has reserved its own, and
  where interrupts lead once the tables are set up.
\<close>

unbundle bit_operations_syntax

section \<open>Memory\<close>

definition total_memory :: "memory \<Rightarrow> u32" where
  "total_memory m =
     (let e = read_SMAP_entry m (SMAP_ENTRY_ADDRESS + load32 m SMAP_ENTRY_COUNT_ADDRESS * sizeof_SMAP_entry - sizeof_SMAP_entry)
      in ucast (smap_base e + smap_size e - 1))"

text \<open>The blocks that \<open>reserve_memory\<close> takes.\<close>

definition reserved :: "u32 \<Rightarrow> u32 \<Rightarrow> u32 \<Rightarrow> bool" where
  "reserved blocks kernel_size c \<longleftrightarrow> c - 1 < 0x15 \<or> c - 0x30 < blocks div 8 div BLOCK_SIZE \<or>
     c - 0x100 < kernel_size * 512 div BLOCK_SIZE"

lemma init_regions_wf:
  assumes "pmm_wf s"
  shows "pmm_wf (init_regions n s)" "max_blocks (init_regions n s) = max_blocks s"
proof -
  let ?body = "\<lambda>i (entry, t). let e = read_SMAP_entry (ram t) entry;
     t = (if smap_type e = 1 then pmmngr_init_region (ucast (smap_base e)) (ucast (smap_size e)) t else t)
     in (entry + sizeof_SMAP_entry, t)"
  have "pmm_wf (snd (for_u32 0 n ?body (SMAP_ENTRY_ADDRESS, s))) \<and>
    max_blocks (snd (for_u32 0 n ?body (SMAP_ENTRY_ADDRESS, s))) = max_blocks s"
    by (rule for_u32_invariant [where P = "\<lambda>(_, t). pmm_wf t \<and> max_blocks t = max_blocks s"
          and s = "(SMAP_ENTRY_ADDRESS, s)", THEN iffD1 [OF case_prod_beta]])
      (use assms in \<open>auto simp: pmm_wf_def init_region_effect Let_def\<close>)
  then show "pmm_wf (init_regions n s)" "max_blocks (init_regions n s) = max_blocks s"
    unfolding init_regions_def by blast+
qed

lemma reserve_memory_effect:
  "block_used (reserve_memory k s) c \<longleftrightarrow> reserved (max_blocks s) k c \<or> block_used s c"
  "max_blocks (reserve_memory k s) = max_blocks s"
  by (auto simp: reserve_memory_def Let_def deinit_region_effect pmmngr_get_block_count_def reserved_def)

lemma pmmngr_init_wf:
  assumes "0x8000 \<le> sz"
  shows "pmm_wf (pmmngr_init start sz s)" "max_blocks (pmmngr_init start sz s) = sz div BLOCK_SIZE"
proof -
  have "0 < sz div 4096 div 8"
    using assms by (simp add: word_less_nat_alt word_le_nat_alt unat_div)
  then have "block_used (pmmngr_init start sz s) 0" by (simp add: block_used_init)
  moreover show m: "max_blocks (pmmngr_init start sz s) = sz div BLOCK_SIZE"
    by (simp add: pmmngr_init_def Let_def pmmngr_get_memory_size_def)
  ultimately show "pmm_wf (pmmngr_init start sz s)"
    using unat_u32_bound [of sz] by (simp add: pmm_wf_def m word_less_nat_alt unat_div)
qed

text \<open>
  C13. With at least 32 KiB of memory, whatever the regions of the boot loader's map are, the allocator
  is well-formed once the kernel has reserved its memory, and no block that it then hands out belongs
  to the low memory of BIOS and boot loader, to the whole blocks of the kernel image, or to the
  whole blocks of the bitmap; with less than 128 MiB the bitmap has no whole block, and its first
  block is reserved only if it was in use before.
\<close>

theorem boot_reserves_kernel:
  fixes s :: "'a pmm" and kernel_size :: u32
  assumes "0x8000 \<le> total_memory (ram s)"
  defines "t \<equiv> reserve_memory kernel_size (init_memory s)"
  shows "pmm_wf t \<and> max_blocks t = total_memory (ram s) div BLOCK_SIZE \<and>
    (\<forall>n a t' c. pmmngr_alloc_blocks n t = (a, t') \<and> a \<noteq> 0 \<and> in_map t (a div BLOCK_SIZE) n \<and> c - a div BLOCK_SIZE < n \<longrightarrow>
       \<not> reserved (max_blocks t) kernel_size c) \<and>
    (total_memory (ram s) < 0x8000000 \<longrightarrow> block_used t 0x30 = block_used (init_memory s) 0x30)"
proof -
  have "init_memory s = init_regions (load32 (ram s) SMAP_ENTRY_COUNT_ADDRESS) (pmmngr_init MEMMAP_ADDRESS (total_memory (ram s)) s)"
    by (simp add: init_memory_def total_memory_def Let_def)
  then have im: "pmm_wf (init_memory s)" "max_blocks (init_memory s) = total_memory (ram s) div BLOCK_SIZE"
    using init_regions_wf [OF pmmngr_init_wf(1) [OF assms(1), of MEMMAP_ADDRESS s]] pmmngr_init_wf(2) [OF assms(1), of MEMMAP_ADDRESS s]
    by simp_all
  then have wf: "pmm_wf t" "max_blocks t = total_memory (ram s) div BLOCK_SIZE"
    by (simp_all add: t_def pmm_wf_def reserve_memory_effect)
  have "\<not> reserved (max_blocks t) kernel_size c"
    if "pmmngr_alloc_blocks n t = (a, t')" "a \<noteq> 0" "in_map t (a div BLOCK_SIZE) n" "c - a div BLOCK_SIZE < n" for n a t' c
  proof -
    note eff = alloc_blocks_effect [OF wf(1) that(1,2)]
    have "\<not> block_used t c" using that(4) eff(2) candidate_iff_run [OF that(3) [unfolded in_map_def] eff(3)] by blast
    then show ?thesis by (simp add: t_def reserve_memory_effect)
  qed
  moreover have "\<not> reserved (max_blocks (init_memory s)) kernel_size 0x30" if small: "total_memory (ram s) < 0x8000000"
  proof -
    have "unat (total_memory (ram s)) div 4096 div 8 div 4096 = 0" using small by (simp add: word_less_nat_alt div_mult2_eq [symmetric])
    then have "total_memory (ram s) div 4096 div 8 div 4096 = 0" by (simp add: word_unat_eq_iff unat_div)
    moreover have "unat (kernel_size * 512 div 4096) < 0x100000" using unat_u32_bound [of "kernel_size * 512"] by (simp add: unat_div)
    ultimately show ?thesis by (simp add: reserved_def im word_less_nat_alt)
  qed
  ultimately show ?thesis using wf by (auto simp: t_def reserve_memory_effect)
qed

definition demo_boot :: pmm_state where
  "demo_boot = demo_pmm\<lparr>ram := store32 (store32 (store32 (\<lambda>_. 0) 0x1000 1) 0x100C 0x2000000) 0x1014 1\<rparr>"

lemma demo_boot_memory: "total_memory (ram demo_boot) = 0x1FFFFFF"
proof -
  have "read_SMAP_entry (ram demo_boot) 0x1004 = \<lparr>smap_base = 0, smap_size = 0x2000000, smap_type = 1, smap_acpi = 0\<rparr>"
    "load32 (ram demo_boot) 0x1000 = 1"
    unfolding demo_boot_def by (simp_all, code_simp+)
  then show ?thesis by (simp add: total_memory_def Let_def)
qed

theorem boot_reserves_kernel_witness:
  "pmm_wf (reserve_memory 90 (init_memory demo_boot)) \<and> max_blocks (reserve_memory 90 (init_memory demo_boot)) = 8191"
  using boot_reserves_kernel [of demo_boot 90] by (simp add: demo_boot_memory)

section \<open>Interrupts\<close>

text \<open>Where a vector leads once the kernel has set up its handlers.\<close>

definition kernel_gate :: "kernel_image \<Rightarrow> nat \<Rightarrow> idt_descriptor" where
  "kernel_gate img v =
     (if v = 14 then make_gate (page_fault_addr img) TRAP_GATE_FLAGS
      else if v = 0x80 then make_gate (syscall_addr img) INT_GATE_USER_FLAGS
      else if v = 0x20 then make_gate (timer_addr img) INT_GATE_FLAGS
      else if v = 0x21 then make_gate (keyboard_addr img) INT_GATE_FLAGS
      else if v = 0x26 then make_gate (floppy_addr img) INT_GATE_FLAGS
      else default_gate (excp_addr img) (excp_err_addr img) (int_addr img) v)"

definition linked :: "kernel_image \<Rightarrow> bool" where
  \<comment> \<open>no handler is at address 0\<close>
  "linked img \<longleftrightarrow> excp_addr img \<noteq> 0 \<and> excp_err_addr img \<noteq> 0 \<and> int_addr img \<noteq> 0 \<and> page_fault_addr img \<noteq> 0 \<and>
     syscall_addr img \<noteq> 0 \<and> timer_addr img \<noteq> 0 \<and> keyboard_addr img \<noteq> 0 \<and> floppy_addr img \<noteq> 0"

lemma hal_init_run:
  assumes "length (gdt h) = unat GDT_SIZE" "length (idt h) = unat IDT_SIZE" "linked img"
  obtains h' where "hal_init img h s = Some (h', pic_init (disable_pic s))"
    "idt h' = default_gates (excp_addr img) (excp_err_addr img) (int_addr img)"
    "cpu_idtr h' = \<lparr>tp_limit = 2047, tp_base = idt_addr img\<rparr>" "cpu_tr h' = 0x2B"
proof -
  have "\<exists>h1. gdt_init (gdt_addr img) h = Some h1 \<and> idt h1 = idt h \<and> length (gdt h1) = 6"
    using assms(1) by (auto simp: gdt_init_def gdt_set_descriptor_eq Let_def)
  then obtain h1 where h1: "gdt_init (gdt_addr img) h = Some h1" "idt h1 = idt h" "length (gdt h1) = 6" by blast
  have h2: "idt_init (idt_addr img) (excp_addr img) (excp_err_addr img) (int_addr img) h1 =
    Some (h1\<lparr>idt_ptr := \<lparr>tp_limit = 2047, tp_base = idt_addr img\<rparr>,
      idt := default_gates (excp_addr img) (excp_err_addr img) (int_addr img), cpu_idtr := \<lparr>tp_limit = 2047, tp_base = idt_addr img\<rparr>\<rparr>)"
    (is "_ = Some ?h2") by (rule idt_init_run) (use assms(2,3) h1(2) in \<open>simp_all add: linked_def\<close>)
  have "\<exists>h3. tss_init (tss_addr img) 5 0x10 0 ?h2 = Some h3 \<and> idt h3 = idt ?h2 \<and> cpu_idtr h3 = cpu_idtr ?h2 \<and> cpu_tr h3 = 0x2B"
    using h1(3) by (simp add: tss_init_def gdt_set_descriptor_eq flush_tss_def Let_def)
  then show ?thesis using that h1(1) h2 by (auto simp: hal_init_def)
qed

definition unmasked :: "'a machine_scheme \<Rightarrow> 'a machine_scheme" where
  \<comment> \<open>the interrupt controllers as the kernel sets them up\<close>
  "unmasked s = clear_irq_mask 6 (clear_irq_mask 2 (clear_irq_mask 1 (clear_irq_mask 0 (pic_init (disable_pic s)))))"

lemma kernel_setup:
  fixes s :: "'a pit"
  assumes "length (gdt h) = unat GDT_SIZE" "length (idt h) = unat IDT_SIZE" "linked img"
  obtains h1 h2 t where "hal_init img h s = Some (h1, pic_init (disable_pic s))"
    "pit_set_channel_mode_frequency 0 1000 PIT_OCW_MODE_RATEGEN (unmasked s) = Some t" "pit_ticks t = 0"
    "setup_interrupt_handlers img h1 (pic_init (disable_pic s)) = Some (h2, t\<lparr>int_flag := True\<rparr>)"
    "cpu_idtr h2 = \<lparr>tp_limit = 2047, tp_base = idt_addr img\<rparr>" "\<forall>v < 256. idt h2 ! v = kernel_gate img v"
proof -
  obtain h1 where h1: "hal_init img h s = Some (h1, pic_init (disable_pic s))"
    "idt h1 = default_gates (excp_addr img) (excp_err_addr img) (int_addr img)"
    "cpu_idtr h1 = \<lparr>tp_limit = 2047, tp_base = idt_addr img\<rparr>" by (rule hal_init_run [OF assms])
  let ?idt = "(idt h1)[14 := make_gate (page_fault_addr img) TRAP_GATE_FLAGS, 0x80 := make_gate (syscall_addr img) INT_GATE_USER_FLAGS,
     0x20 := make_gate (timer_addr img) INT_GATE_FLAGS, 0x21 := make_gate (keyboard_addr img) INT_GATE_FLAGS,
     0x26 := make_gate (floppy_addr img) INT_GATE_FLAGS]"
  have pit: "\<exists>t'. pit_set_channel_mode_frequency 0 1000 PIT_OCW_MODE_RATEGEN t = Some t' \<and> pit_ticks t' = 0" for t :: "'a pit"
    by (simp add: pit_set_channel_mode_frequency_def Let_def)
  obtain t where t: "pit_set_channel_mode_frequency 0 1000 PIT_OCW_MODE_RATEGEN (unmasked s) = Some t" "pit_ticks t = 0" using pit by blast
  have "setup_interrupt_handlers img h1 (pic_init (disable_pic s)) = Some (h1\<lparr>idt := ?idt\<rparr>, t\<lparr>int_flag := True\<rparr>)"
    using assms(3) h1(2) t(1) by (simp add: setup_interrupt_handlers_def Let_def idt_set_descriptor_eq linked_def unmasked_def)
  moreover have "\<forall>v < 256. ?idt ! v = kernel_gate img v" using h1(2) by (simp add: kernel_gate_def nth_list_update)
  ultimately show ?thesis using h1(1,3) t by (intro that [of h1 t "h1\<lparr>idt := ?idt\<rparr>"]) simp_all
qed

text \<open>
  C51. After \<open>hal_init\<close> and \<open>setup_interrupt_handlers\<close> interrupts are on, the processor uses the kernel's
  table, and the 256 vectors lead to the handlers of the kernel: the page fault handler through a
  trap gate, the three device handlers through interrupt gates, the system calls through an
  interrupt gate that user code may call, and all others to the default handlers.
\<close>

theorem kernel_interrupt_gates:
  fixes s :: "'a pit"
  assumes "length (gdt h) = unat GDT_SIZE" and "length (idt h) = unat IDT_SIZE" and "linked img"
  shows "\<exists>h1 s1 h2 s2. hal_init img h s = Some (h1, s1) \<and> setup_interrupt_handlers img h1 s1 = Some (h2, s2) \<and>
    int_flag s2 \<and> pit_ticks s2 = 0 \<and> cpu_idtr h2 = \<lparr>tp_limit = 2047, tp_base = idt_addr img\<rparr> \<and>
    (\<forall>v < 256. idt h2 ! v = kernel_gate img v)"
  by (rule kernel_setup [OF assms, of s]) auto

definition demo_image :: kernel_image where
  "demo_image = \<lparr>gdt_addr = 0x10A000, idt_addr = 0x10B000, tss_addr = 0x10C000, excp_addr = 0x100100, excp_err_addr = 0x100200,
     int_addr = 0x100300, page_fault_addr = 0x100400, syscall_addr = 0x100500, timer_addr = 0x100600, keyboard_addr = 0x100700,
     floppy_addr = 0x100800\<rparr>"

theorem kernel_interrupt_gates_witness:
  "\<exists>h1 s1 h2 s2. hal_init demo_image demo_hal demo_pit = Some (h1, s1) \<and>
     setup_interrupt_handlers demo_image h1 s1 = Some (h2, s2) \<and> gate_target (idt h2 ! 0x80) = 0x100500"
proof -
  have "length (gdt demo_hal) = unat GDT_SIZE" "length (idt demo_hal) = unat IDT_SIZE" "linked demo_image"
    by (simp_all add: demo_hal_def linked_def demo_image_def)
  from kernel_interrupt_gates [OF this, of demo_pit] show ?thesis
    by (fastforce simp: kernel_gate_def make_gate_target demo_image_def)
qed

text \<open>
  \<open>kmain\<close> passes the 32-bit stack pointer through a 16-bit parameter: the stack for interrupts in user
  mode is the kernel stack only when that lies below 64 KiB.
\<close>

theorem kernel_stack_truncated: "esp0 (TSS (tss_set_stack 0x10 (ucast stack) h)) = stack \<longleftrightarrow> stack < 0x10000"
proof -
  have "unat (ucast (ucast stack :: u16) :: u32) = unat stack mod 65536"
    by (simp add: unsigned_ucast_eq take_bit_eq_mod unat_mod)
  then show ?thesis by (auto simp: tss_set_stack_def word_unat_eq_iff word_less_nat_alt)
qed

end
