(* ===== verification/Stdio_props.thy ===== *)
theory Stdio_props
  imports Stdio Syscall_props
begin

text \<open>
  \<open>printf\<close> against a specification of the text it should print. The text is collected in a heap block
  and then shown, so the proof composes the heap, the system calls and the display: the block
  holds what was written so far, printing changes only the screen and what the screen shows
  depends on nothing else.
\<close>

unbundle bit_operations_syntax

section \<open>The text of a format\<close>

definition hex_text :: "nat \<Rightarrow> u8 list" where
  "hex_text n = [0x30, 0x78] @ (if n < 16 then [0x30] else []) @ numeral_text 16 n"

definition dec_text :: "int \<Rightarrow> u8 list" where
  "dec_text k = (if k < 0 then [0x2D] else []) @ numeral_text 10 (nat \<bar>k\<bar>)"

definition conversion :: "u8 \<Rightarrow> printf_arg list \<Rightarrow> (u8 list \<times> printf_arg list) option" where
  "conversion d args =
     (if d = of_char CHR ''d'' then
        (case args of Word_arg w # r \<Rightarrow> if sint w = - (2 ^ 31) then None else Some (dec_text (sint w), r) | _ \<Rightarrow> None)
      else if d = of_char CHR ''x'' then (case args of Word_arg w # r \<Rightarrow> Some (hex_text (unat w), r) | _ \<Rightarrow> None)
      else if d = of_char CHR ''s'' then
        (case args of
           String_arg str # r \<Rightarrow>
             if 0 \<in> set str
             then Some (if takeWhile (\<lambda>c. c \<noteq> 0) str = [] then map of_char ''(null)'' else takeWhile (\<lambda>c. c \<noteq> 0) str, r)
             else None
         | _ \<Rightarrow> None)
      else if d = of_char CHR ''c'' then (case args of Word_arg w # r \<Rightarrow> Some ([ucast w], r) | _ \<Rightarrow> None)
      else if d = of_char CHR ''%'' then Some ([d], args)
      else Some ([of_char CHR ''%'', d], args))"

fun formatted :: "u8 list \<Rightarrow> printf_arg list \<Rightarrow> u8 list option" where
  "formatted [] args = Some []"
| "formatted [c] args = Some (if c = of_char CHR ''%'' then [] else [c])"
| "formatted (c # d # fmt) args =
     (if c \<noteq> of_char CHR ''%'' then map_option (Cons c) (formatted (d # fmt) args)
      else do {
        (w, r) \<leftarrow> conversion d args;
        rest \<leftarrow> formatted fmt r;
        Some (w @ rest)
      })"

section \<open>The buffer\<close>

definition written :: "memory \<Rightarrow> nat \<Rightarrow> u8 list \<Rightarrow> memory" where
  "written M p w = (\<lambda>x. if p \<le> unat x \<and> unat x < p + length w then w ! (unat x - p) else M x)"

lemma written_snoc:
  assumes "p + length w < 2 ^ 32"
  shows "(written M p w)(of_nat (p + length w) := c) = written M p (w @ [c])"
proof
  fix x :: u32
  have "x = of_nat (p + length w) \<longleftrightarrow> unat x = p + length w"
    using assms unat_of_nat_small [of "p + length w", where 'a = 32] by (simp add: word_unat_eq_iff del: of_nat_add)
  then show "((written M p w)(of_nat (p + length w) := c)) x = written M p (w @ [c]) x"
    by (auto simp: written_def nth_append)
qed

definition buffer :: "u32 \<Rightarrow> memory \<Rightarrow> nat \<Rightarrow> 'a stdio \<Rightarrow> u8 list \<Rightarrow> 'a stdio \<Rightarrow> bool" where
  "buffer E M p t w s \<longleftrightarrow> heap_view E s (written M p w) \<and>
     heap_kept E (t\<lparr>write_buffer := of_nat p, write_len := of_nat (length w)\<rparr>) s"

lemma translate_write [simp]:
  "translate (s\<lparr>write_buffer := a\<rparr>) va = translate s va" "translate (s\<lparr>write_len := b\<rparr>) va = translate s va"
  "translate (s\<lparr>write_buffer := a, ram := m\<rparr>) va = translate (s\<lparr>ram := m\<rparr>) va"
  "translate (s\<lparr>write_len := b, ram := m\<rparr>) va = translate (s\<lparr>ram := m\<rparr>) va"
  "translate (s\<lparr>write_buffer := a, write_len := b, ram := m\<rparr>) va = translate (s\<lparr>ram := m\<rparr>) va"
  by (simp_all add: translate_def)

lemma heap_view_write [simp]:
  "heap_view E (s\<lparr>write_buffer := a\<rparr>) = heap_view E s" "heap_view E (s\<lparr>write_len := b\<rparr>) = heap_view E s"
  by (simp_all add: fun_eq_iff heap_view_def heap_mapped_def heap_bytes_def vload8_def)

lemma heap_bytes_write [simp]:
  "heap_bytes E (s\<lparr>write_buffer := a\<rparr>) = heap_bytes E s" "heap_bytes E (s\<lparr>write_len := b\<rparr>) = heap_bytes E s"
  by (simp_all add: heap_bytes_def)

lemma ram_write: "s\<lparr>ram := m, write_len := n\<rparr> = s\<lparr>write_len := n, ram := m\<rparr>"
  by simp

lemma buffer_fields: "buffer E M p t w s \<Longrightarrow> write_buffer s = of_nat p \<and> write_len s = of_nat (length w)"
  by (auto simp: buffer_def heap_kept_def)

lemma write_char_buffer:
  assumes b: "buffer E M p t w s" and room: "p + length w < unat E"
  shows "\<exists>s'. write_char c s = Some s' \<and> buffer E M p t (w @ [c]) s'"
proof -
  have lt: "p + length w < 2 ^ 32" using room unat_u32_bound [of E] by simp
  then have at: "write_buffer s + write_len s = of_nat (p + length w)" "of_nat (p + length w) < E"
    using buffer_fields [OF b] room by (simp_all add: word_less_nat_alt unat_of_nat_small del: of_nat_add) simp
  have view: "heap_view E s (written M p w)" using b by (simp add: buffer_def)
  obtain u where u: "vstore8 (of_nat (p + length w)) c s = Some u" "heap_view E u (written M p (w @ [c]))" "heap_kept E s u"
    using vstore8_view [OF view at(2), of c] written_snoc [OF lt] by metis
  have "write_len s + 1 = of_nat (length (w @ [c]))" using buffer_fields [OF b] by simp
  moreover have "heap_kept E (t\<lparr>write_buffer := of_nat p, write_len := of_nat (length w)\<rparr>) u"
    using b u(3) heap_kept_trans unfolding buffer_def by blast
  then have "heap_kept E (t\<lparr>write_buffer := of_nat p, write_len := n\<rparr>) (u\<lparr>write_len := n\<rparr>)" for n
    unfolding heap_kept_def
    by (elim conjE exE) (intro conjI exI, erule ssubst, simp_all add: ram_write)
  ultimately have "write_char c s = Some (u\<lparr>write_len := of_nat (length (w @ [c]))\<rparr>)"
    "buffer E M p t (w @ [c]) (u\<lparr>write_len := of_nat (length (w @ [c]))\<rparr>)"
    using u(1,2) at(1) by (simp_all add: write_char_def buffer_def del: of_nat_add)
  then show ?thesis by blast
qed

lemma write_chars_buffer:
  assumes "buffer E M p t w s" "p + length w + length v \<le> unat E"
  shows "\<exists>s'. write_chars v s = Some s' \<and> buffer E M p t (w @ v) s'"
  using assms
proof (induction v arbitrary: w s)
  case (Cons c v)
  obtain u where "write_char c s = Some u" "buffer E M p t (w @ [c]) u"
    using write_char_buffer [OF Cons.prems(1)] Cons.prems(2) by auto
  then show ?case using Cons.IH [of "w @ [c]" u] Cons.prems(2) by simp
qed simp

lemma write_back_buffer:
  assumes "buffer E M p t w s" "p + length w + i \<le> unat E" "i \<le> length buf"
  shows "\<exists>s'. write_back i buf s = Some s' \<and> buffer E M p t (w @ rev (take i buf)) s'"
  using assms
proof (induction i arbitrary: w s)
  case (Suc i)
  obtain u where "write_char (buf ! i) s = Some u" "buffer E M p t (w @ [buf ! i]) u"
    using write_char_buffer [OF Suc.prems(1)] Suc.prems(2) by auto
  then show ?case using Suc.IH [of "w @ [buf ! i]" u] Suc.prems(2,3) by (simp add: take_Suc_conv_app_nth)
qed simp

section \<open>Conversions\<close>

text \<open>The digits that the conversion loops store, least significant first.\<close>

definition digits :: "nat \<Rightarrow> nat \<Rightarrow> nat list" where
  "digits b n = (if n = 0 then [0] else lsb_digits b n)"

lemma digits_step: "2 \<le> b \<Longrightarrow> digits b n = n mod b # (if n div b = 0 then [] else digits b (n div b))"
  by (cases "n = 0") (simp_all add: digits_def lsb_digits.simps [of b])

lemma digits_text: "numeral_text b n = rev (map ((!) ascii_numbers) (digits b n))"
  by (simp add: digits_def numeral_text_def ascii_numbers_def)

lemma digits_length: "2 \<le> b \<Longrightarrow> n < b ^ m \<Longrightarrow> 0 < m \<Longrightarrow> length (digits b n) \<le> m"
  using lsb_digits_bounds(2) by (auto simp: digits_def)

lemma put_digit_append: "length xs = i \<Longrightarrow> put_digit i c (xs @ y # rest) = Some (xs @ c # rest)"
  by (simp add: put_digit_def list_update_append)

lemma hex_digits_text:
  assumes "length xs = i" "length (digits 16 (unat n)) \<le> length rest"
  shows "hex_digits n i (xs @ rest) = Some (i + length (digits 16 (unat n)),
    xs @ map ((!) ascii_numbers) (digits 16 (unat n)) @ drop (length (digits 16 (unat n))) rest)"
  using assms
proof (induction n i "xs @ rest" arbitrary: xs rest rule: hex_digits.induct)
  case (1 n i)
  have d: "digits 16 (unat n) = unat n mod 16 # (if n div 16 = 0 then [] else digits 16 (unat (n div 16)))"
    by (subst digits_step) (simp_all add: unat_div word_unat_eq_iff)
  then obtain y r where rest: "rest = y # r" using 1(3) by (cases rest) auto
  let ?c = "ascii_numbers ! unat (n mod 16)"
  have put: "put_digit i ?c (xs @ rest) = Some ((xs @ [?c]) @ r)" using 1(2) by (simp add: rest put_digit_append)
  have c: "?c = ascii_numbers ! (unat n mod 16)" by (simp add: unat_mod)
  show ?case
  proof (cases "0 < n div 16")
    case True
    then have nz: "n div 16 \<noteq> 0" by auto
    then have "hex_digits (n div 16) (i + 1) ((xs @ [?c]) @ r) =
      Some (i + 1 + length (digits 16 (unat (n div 16))), (xs @ [?c]) @ map ((!) ascii_numbers) (digits 16 (unat (n div 16))) @
        drop (length (digits 16 (unat (n div 16)))) r)"
      by (intro 1(1) [OF put True]) (use 1(2,3) d rest in auto)
    then show ?thesis using True nz put d c by (simp add: hex_digits.simps [of n] rest)
  next
    case False
    then have "n div 16 = 0" by (simp add: word_gt_0)
    then show ?thesis using False put d c by (simp add: hex_digits.simps [of n] rest)
  qed
qed

lemma int_digits_text:
  assumes "0 \<le> n" "length xs = i" "length (digits 10 (nat n)) \<le> length rest"
  shows "int_digits n i (xs @ rest) = Some (i + length (digits 10 (nat n)),
    xs @ map ((!) ascii_numbers) (digits 10 (nat n)) @ drop (length (digits 10 (nat n))) rest)"
  using assms
proof (induction n i "xs @ rest" arbitrary: xs rest rule: int_digits.induct)
  case (1 n i)
  have s: "n smod 10 = n mod 10" "n sdiv 10 = n div 10"
    using 1(2) by (cases "n = 0"; simp add: signed_modulo_int_def signed_divide_int_def minus_div_mult_eq_mod)+
  have d: "digits 10 (nat n) = nat n mod 10 # (if n div 10 = 0 then [] else digits 10 (nat (n div 10)))"
    using 1(2) by (subst digits_step) (auto simp: nat_div_distrib zdiv_int nat_eq_iff)
  then obtain y r where rest: "rest = y # r" using 1(4) by (cases rest) auto
  let ?c = "ascii_numbers ! nat (n mod 10)"
  have put: "put_digit i ?c (xs @ rest) = Some ((xs @ [?c]) @ r)" using 1(3) by (simp add: rest put_digit_append)
  have c: "nat (n mod 10) = nat n mod 10" using 1(2) by (simp add: nat_mod_distrib)
  show ?case
  proof (cases "0 < n div 10")
    case True
    then have "int_digits (n div 10) (i + 1) ((xs @ [?c]) @ r) =
      Some (i + 1 + length (digits 10 (nat (n div 10))), (xs @ [?c]) @ map ((!) ascii_numbers) (digits 10 (nat (n div 10))) @
        drop (length (digits 10 (nat (n div 10)))) r)"
      by (intro 1(1) [unfolded s, OF _ put True]) (use 1(3,4) d rest True in auto)
    then show ?thesis using True put d c 1(2) by (subst int_digits.simps) (simp add: rest s)
  next
    case False
    moreover have "n div 10 = 0" using False 1(2) by simp
    ultimately show ?thesis using put d c by (simp add: int_digits.simps [of n] rest s)
  qed
qed

lemma printf_hex_buffer:
  assumes b: "buffer E M p t w s"
    and room: "p + length w + length ((if unat n < 16 then [0x30] else []) @ numeral_text 16 (unat n)) \<le> unat E"
  shows "\<exists>s'. printf_hex n s = Some s' \<and> buffer E M p t (w @ (if unat n < 16 then [0x30] else []) @ numeral_text 16 (unat n)) s'"
proof -
  let ?d = "digits 16 (unat n)" and ?pad = "if unat n < 16 then [0x30] else [] :: u8 list"
  have len: "length ?d \<le> 8" using unat_u32_bound [of n] by (intro digits_length) simp_all
  have h: "hex_digits n 0 (replicate 16 0) = Some (length ?d, map ((!) ascii_numbers) ?d @ replicate (16 - length ?d) 0)"
    using hex_digits_text [of "[]" 0 n "replicate 16 0"] len by simp
  obtain u where u: "(if n < 0x10 then write_char 0x30 s else Some s) = Some u" "buffer E M p t (w @ ?pad) u"
    using write_char_buffer [OF b, of "0x30"] room b by (cases "n < 0x10") (auto simp: word_less_nat_alt)
  obtain v where "write_back (length ?d) (map ((!) ascii_numbers) ?d @ replicate (16 - length ?d) 0) u = Some v"
    "buffer E M p t ((w @ ?pad) @ rev (map ((!) ascii_numbers) ?d)) v"
    using write_back_buffer [OF u(2), of "length ?d" "map ((!) ascii_numbers) ?d @ replicate (16 - length ?d) 0"] room u(2)
    by (auto simp: digits_text)
  then show ?thesis by (simp add: printf_hex_def h u(1) digits_text)
qed

lemma printf_int_buffer:
  assumes b: "buffer E M p t w s" and k: "- (2 ^ 31) < k" "k < 2 ^ 31" and room: "p + length w + length (dec_text k) \<le> unat E"
  shows "\<exists>s'. printf_int k s = Some s' \<and> buffer E M p t (w @ dec_text k) s'"
proof -
  let ?d = "digits 10 (nat \<bar>k\<bar>)"
  let ?a = "map ((!) ascii_numbers) ?d"
  have len: "length ?d \<le> 10" using k by (intro digits_length) simp_all
  have h: "int_digits \<bar>k\<bar> 0 (replicate 16 0) = Some (length ?d, ?a @ replicate (16 - length ?d) 0)"
    using int_digits_text [of "\<bar>k\<bar>" "[]" 0 "replicate 16 0"] len by simp
  obtain m where m: "16 - length ?d = Suc m" using len by (cases "16 - length ?d") auto
  show ?thesis
  proof (cases "k < 0")
    case True
    have w: "wrap32 (- k) = \<bar>k\<bar>" using k True by (simp add: wrap32_def signed_take_bit_int_eq_self)
    have "put_digit (length ?d) 0x2D (?a @ replicate (16 - length ?d) 0) = Some (?a @ 0x2D # replicate m 0)"
      by (simp add: m put_digit_append)
    moreover obtain v where "write_back (length ?d + 1) (?a @ 0x2D # replicate m 0) s = Some v"
      "buffer E M p t (w @ rev (take (length ?d + 1) (?a @ 0x2D # replicate m 0))) v"
      using write_back_buffer [OF b, of "length ?d + 1" "?a @ 0x2D # replicate m 0"] room True
      by (auto simp: dec_text_def digits_text)
    ultimately show ?thesis using True h w by (simp add: printf_int_def dec_text_def digits_text)
  next
    case False
    obtain v where "write_back (length ?d) (?a @ replicate (16 - length ?d) 0) s = Some v" "buffer E M p t (w @ rev ?a) v"
      using write_back_buffer [OF b, of "length ?d" "?a @ replicate (16 - length ?d) 0"] room False
      by (auto simp: dec_text_def digits_text)
    then show ?thesis using False h by (simp add: printf_int_def dec_text_def digits_text)
  qed
qed

lemma until_nul_takeWhile: "0 \<in> set str \<Longrightarrow> until_nul str = Some (takeWhile (\<lambda>c. c \<noteq> 0) str)"
  by (induction str) auto

lemma convert_buffer:
  assumes b: "buffer E M p t w s" and c: "conversion d args = Some (v, r)" and room: "p + length w + length v \<le> unat E"
  shows "\<exists>s'. convert d args s = Some (r, s') \<and> buffer E M p t (w @ v) s'"
proof -
  have num: "- (2 ^ 31) \<le> sint a" "sint a < 2 ^ 31" for a :: u32
    using sint_greater_eq [of a] sint_less [of a] by simp_all
  note wc = write_chars_buffer [OF b, of v]
  consider (d) "d = of_char CHR ''d''" | (x) "d = of_char CHR ''x''" | (s) "d = of_char CHR ''s''"
    | (c) "d = of_char CHR ''c''" | (p) "d = of_char CHR ''%''"
    | (other) "d \<noteq> of_char CHR ''d''" "d \<noteq> of_char CHR ''x''" "d \<noteq> of_char CHR ''s''" "d \<noteq> of_char CHR ''c''"
        "d \<noteq> of_char CHR ''%''"
    by blast
  then show ?thesis
  proof cases
    case d
    with c obtain a where "args = Word_arg a # r" "sint a \<noteq> - (2 ^ 31)" "v = dec_text (sint a)"
      by (auto simp: conversion_def split: if_splits list.splits printf_arg.splits)
    with d show ?thesis using printf_int_buffer [OF b, of "sint a"] num [of a] room by (auto simp: convert_def)
  next
    case x
    with c obtain a where a: "args = Word_arg a # r" "v = hex_text (unat a)"
      by (auto simp: conversion_def split: list.splits printf_arg.splits)
    let ?h = "(if unat a < 16 then [0x30] else []) @ numeral_text 16 (unat a) :: u8 list"
    have v: "v = [0x30, 0x78] @ ?h" using a by (simp add: hex_text_def)
    obtain s1 where s1: "write_char 0x30 s = Some s1" "buffer E M p t (w @ [0x30]) s1"
      using write_char_buffer [OF b] room v by auto
    obtain s2 where s2: "write_char 0x78 s1 = Some s2" "buffer E M p t ((w @ [0x30]) @ [0x78]) s2"
      using write_char_buffer [OF s1(2)] room v by auto
    obtain s3 where "printf_hex a s2 = Some s3" "buffer E M p t (((w @ [0x30]) @ [0x78]) @ ?h) s3"
      using printf_hex_buffer [OF s2(2), of a] room v by auto
    then show ?thesis using x a(1) s1(1) s2(1) v by (simp add: convert_def)
  next
    case s
    with c obtain str where "args = String_arg str # r" "0 \<in> set str"
      "v = (if takeWhile (\<lambda>c. c \<noteq> 0) str = [] then map of_char ''(null)'' else takeWhile (\<lambda>c. c \<noteq> 0) str)"
      by (auto simp: conversion_def split: if_splits list.splits printf_arg.splits)
    with s show ?thesis using wc room until_nul_takeWhile [of str] by (auto simp: convert_def Let_def)
  next
    case c
    with assms(2) obtain a where "args = Word_arg a # r" "v = [ucast a]"
      by (auto simp: conversion_def split: list.splits printf_arg.splits)
    with c show ?thesis using write_char_buffer [OF b, of "ucast a"] room by (auto simp: convert_def)
  next
    case p
    with c have "r = args" "v = [d]" by (simp_all add: conversion_def)
    with p show ?thesis using write_char_buffer [OF b, of d] room by (auto simp: convert_def)
  next
    case other
    with c have "r = args" "v = [of_char CHR ''%'', d]" by (simp_all add: conversion_def)
    with other show ?thesis using wc room by (auto simp: convert_def bind_eq_Some_conv)
  qed
qed

section \<open>The loop\<close>

lemma grow_buffer_idle: "\<not> max_len < write_len s \<Longrightarrow> grow_buffer max_len s = Some (max_len, s)"
  by (simp add: grow_buffer.simps)

lemma printf_loop_buffer:
  assumes "formatted fmt args = Some v" "0 \<notin> set fmt" "buffer E M p t w s" "length w + length v \<le> 256" "p + 256 \<le> unat E"
  shows "\<exists>s'. printf_loop (fmt @ [0]) False 256 args s = Some s' \<and> buffer E M p t (w @ v) s'"
  using assms(1-4)
proof (induction fmt args arbitrary: v w s rule: formatted.induct)
  case (2 c args)
  have g: "grow_buffer 256 s = Some (256, s)"
    using buffer_fields [OF 2(3)] 2(4) by (intro grow_buffer_idle) (simp add: word_less_nat_alt unat_of_nat_small)
  obtain s' where "write_char c s = Some s'" "buffer E M p t (w @ [c]) s'" if "c \<noteq> of_char CHR ''%''"
    using write_char_buffer [OF 2(3), of c] 2(1,4) assms(5) by (cases "c = of_char CHR ''%''") auto
  then show ?case using 2(1-3) g by (cases "c = of_char CHR ''%''") auto
next
  case (3 c d fmt args)
  have g: "grow_buffer 256 s = Some (256, s)"
    using buffer_fields [OF 3(5)] 3(6) by (intro grow_buffer_idle) (simp add: word_less_nat_alt unat_of_nat_small)
  show ?case
  proof (cases "c = of_char CHR ''%''")
    case False
    with 3(3) obtain v' where v: "formatted (d # fmt) args = Some v'" "v = c # v'" by auto
    obtain s1 where s1: "write_char c s = Some s1" "buffer E M p t (w @ [c]) s1"
      using write_char_buffer [OF 3(5), of c] 3(6) v(2) assms(5) by auto
    obtain s2 where s2: "printf_loop ((d # fmt) @ [0]) False 256 args s1 = Some s2" "buffer E M p t ((w @ [c]) @ v') s2"
      using 3(1) [OF False v(1) _ s1(2)] 3(4,6) v(2) by auto
    show ?thesis using 3(4) False g s1(1) s2 v(2) by simp
  next
    case True
    with 3(3) obtain a r v' where v: "conversion d args = Some (a, r)" "formatted fmt r = Some v'" "v = a @ v'"
      by (auto simp: bind_eq_Some_conv)
    obtain s1 where s1: "convert d args s = Some (r, s1)" "buffer E M p t (w @ a) s1"
      using convert_buffer [OF 3(5) v(1)] 3(6) v(3) assms(5) by auto
    obtain s2 where s2: "printf_loop (fmt @ [0]) False 256 r s1 = Some s2" "buffer E M p t ((w @ a) @ v') s2"
      using 3(2) [OF _ v(1) refl v(2) _ s1(2)] 3(4,6) v(3) True by auto
    show ?thesis using 3(4) True g s1(1) s2 v(3) by simp
  qed
qed (auto simp: buffer_fields)

section \<open>The screen\<close>

text \<open>
  The heap and the page tables lie outside a region \<open>R\<close>, so writes to it change neither. The frame buffer is such a region.
\<close>

definition region_apart :: "(u32 \<Rightarrow> bool) \<Rightarrow> u32 \<Rightarrow> 'a machine_scheme \<Rightarrow> bool" where
  "region_apart R E s \<longleftrightarrow> (\<forall>x \<in> heap_bytes E s. \<not> R x) \<and>
     (\<forall>m. (\<forall>x. x \<notin> heap_bytes E s \<and> \<not> R x \<longrightarrow> m x = ram s x) \<longrightarrow> (\<forall>va. translate (s\<lparr>ram := m\<rparr>) va = translate s va))"

abbreviation screen_apart :: "u32 \<Rightarrow> 'a machine_scheme \<Rightarrow> bool" where
  "screen_apart \<equiv> region_apart on_screen"

lemma region_apart_mono: "region_apart R E s \<Longrightarrow> (\<And>x. Q x \<Longrightarrow> R x) \<Longrightarrow> region_apart Q E s"
  unfolding region_apart_def by blast

lemma region_apart_change:
  assumes a: "region_apart R E s" and c: "cr0 t = cr0 s" "cr3 t = cr3 s"
    and same: "\<And>x. x \<notin> heap_bytes E s \<Longrightarrow> \<not> R x \<Longrightarrow> ram t x = ram s x"
  shows "translate t va = translate s va" "heap_bytes E t = heap_bytes E s" "region_apart R E t"
proof -
  have eq: "translate (t\<lparr>ram := m\<rparr>) va = translate (s\<lparr>ram := m\<rparr>) va" for m va using c by (simp add: translate_def)
  have tt: "translate t va = translate s va" for va
    using a same eq [of "ram t" va] by (auto simp: region_apart_def)
  then show "translate t va = translate s va" by blast
  show hb: "heap_bytes E t = heap_bytes E s" by (simp add: heap_bytes_def tt)
  show "region_apart R E t"
    using a same unfolding region_apart_def hb tt eq by simp
qed

text \<open>Writes to heap and region leave the heap mapped, and writes to the region leave what the heap holds.\<close>

lemma region_mapped:
  assumes a: "region_apart R E s" and c: "cr0 t = cr0 s" "cr3 t = cr3 s"
    and same: "\<And>x. x \<notin> heap_bytes E s \<Longrightarrow> \<not> R x \<Longrightarrow> ram t x = ram s x" and v: "heap_mapped E s"
  shows "heap_mapped E t"
proof -
  have ch: "translate t va = translate s va" "heap_bytes E t = heap_bytes E s" for va
    by (rule region_apart_change [OF a c]; rule same; assumption)+
  have eq: "translate (t\<lparr>ram := m\<rparr>) va = translate (s\<lparr>ram := m\<rparr>) va" for m va using c by (simp add: translate_def)
  show ?thesis using a v same unfolding heap_mapped_def region_apart_def ch(1,2) eq by simp
qed

lemma region_view:
  assumes a: "region_apart R E s" and c: "cr0 t = cr0 s" "cr3 t = cr3 s" "\<And>x. \<not> R x \<Longrightarrow> ram t x = ram s x"
    and v: "heap_view E s M"
  shows "heap_view E t M"
proof -
  have ch: "translate t va = translate s va" for va by (rule region_apart_change [OF a c(1,2)]) (rule c(3))
  have "heap_mapped E t" by (rule region_mapped [OF a c(1,2)]) (use c(3) v in \<open>simp_all add: heap_view_def\<close>)
  moreover have "vload8 va t = Some (M va)" if "va < E" for va
  proof -
    have v: "vload8 va s = Some (M va)" using v that by (simp add: heap_view_def)
    then obtain q where q: "translate s va = Some q" by (auto simp: vload8_def)
    then have "\<not> R q" using a that by (auto simp: region_apart_def heap_bytes_def)
    then show ?thesis using v q c(3) by (simp add: vload8_def ch)
  qed
  ultimately show ?thesis by (simp add: heap_view_def)
qed

lemma shown_view:
  assumes "screen_apart E s" "shown s t" "heap_view E s M"
  shows "screen_apart E t" "heap_view E t M" "heap_bytes E t = heap_bytes E s"
proof -
  have c: "cr0 t = cr0 s" "cr3 t = cr3 s" "\<And>x. \<not> on_screen x \<Longrightarrow> ram t x = ram s x"
    using assms(2) by (auto simp: shown_def screen_change_def)
  show "heap_view E t M" by (rule region_view [OF assms(1) c assms(3)])
  show "screen_apart E t" "heap_bytes E t = heap_bytes E s" by (rule region_apart_change [OF assms(1) c(1,2)], rule c(3), assumption)+
qed

lemma vprint_string_view:
  assumes "heap_view E s M" "screen_apart E s" "disp_wf s" "0 \<notin> set w" "p + length w < unat E"
    and "\<forall>k < length w. M (of_nat (p + k)) = w ! k" "M (of_nat (p + length w)) = 0"
  shows "vprint_string (of_nat p) s = Some (fold print_char w s)"
  using assms
proof (induction w arbitrary: p s)
  case Nil
  have "of_nat p < E" using Nil.prems(5) unat_u32_bound [of E] by (simp add: word_less_nat_alt unat_of_nat_small)
  then have "vload8 (of_nat p) s = Some 0" using Nil.prems(1,7) by (simp add: heap_view_def)
  then show ?case by (simp add: vprint_string.simps)
next
  case (Cons c w)
  have "of_nat p < E" using Cons.prems(5) unat_u32_bound [of E] by (simp add: word_less_nat_alt unat_of_nat_small)
  then have ld: "vload8 (of_nat p) s = Some c" using Cons.prems(1,6) by (auto simp: heap_view_def)
  have sh: "shown s (print_char c s)"
    using Cons.prems(3) by (simp add: shown_def print_char_effect screen_change_char)
  note v = shown_view [OF Cons.prems(2) sh Cons.prems(1)]
  have "vprint_string (of_nat (p + 1)) (print_char c s) = Some (fold print_char w (print_char c s))"
  proof (rule Cons.IH [OF v(2,1)])
    show "disp_wf (print_char c s)" using sh by (simp add: shown_def)
    have "M (of_nat (p + Suc k)) = w ! k" if "k < length w" for k
      using Cons.prems(6) [rule_format, of "Suc k"] that by (simp del: of_nat_add)
    then show "\<forall>k < length w. M (of_nat (p + 1 + k)) = w ! k" by (simp del: of_nat_add of_nat_Suc)
  qed (use Cons.prems(4,5,7) in \<open>auto simp: add.commute\<close>)
  then show ?case using ld Cons.prems(4) by (subst vprint_string.simps) (auto simp: add.commute)
qed

text \<open>The same picture and the same ports written.\<close>

definition same_screen :: "'a display \<Rightarrow> 'a display \<Rightarrow> bool" where
  "same_screen s t \<longleftrightarrow> same_picture s t \<and> io_log t = io_log s"

lemma same_screen_char: "same_screen s t \<Longrightarrow> same_screen (print_char c s) (print_char c t)"
  using same_picture_char [of s t c] unfolding same_screen_def print_char_log
  by (simp add: same_picture_def get_cursor_location_def)

lemma same_screen_chars: "same_screen s t \<Longrightarrow> same_screen (fold print_char w s) (fold print_char w t)"
  by (induction w arbitrary: s t) (simp_all add: same_screen_char)

section \<open>A call\<close>

lemma written_Nil [simp]: "written M p [] = M"
  by (rule ext) (auto simp: written_def)

lemma vmemset_view:
  assumes "heap_view E s M" "p + unat n \<le> unat E"
  shows "\<exists>s'. vmemset (of_nat p) b n s = Some s' \<and> heap_view E s' (written M p (replicate (unat n) b)) \<and> heap_kept E s s'"
proof -
  have "\<exists>s'. fold (\<lambda>k r. r \<bind> vstore8 (of_nat p + of_nat k) b) [0..<j] (Some s) = Some s' \<and>
    heap_view E s' (written M p (replicate j b)) \<and> heap_kept E s s'" if "j \<le> unat n" for j
    using that
  proof (induction j)
    case 0
    show ?case using assms(1) heap_mem.kept_refl by simp
  next
    case (Suc j)
    then obtain t where t: "fold (\<lambda>k r. r \<bind> vstore8 (of_nat p + of_nat k) b) [0..<j] (Some s) = Some t"
      "heap_view E t (written M p (replicate j b))" "heap_kept E s t" by auto
    have lt: "p + j < unat E" "p + j < 2 ^ 32" using Suc.prems assms(2) unat_u32_bound [of E] by simp_all
    then have "of_nat (p + j) < E" by (simp add: word_less_nat_alt unat_of_nat_small del: of_nat_add)
    then obtain u where u: "vstore8 (of_nat (p + j)) b t = Some u" "heap_kept E t u"
      "heap_view E u ((written M p (replicate j b))(of_nat (p + j) := b))" using vstore8_view [OF t(2)] by metis
    have "(written M p (replicate j b))(of_nat (p + j) := b) = written M p (replicate (Suc j) b)"
      using written_snoc [of p "replicate j b" M b] lt(2) by (simp add: replicate_append_same del: of_nat_add)
    then show ?case using t(1) u heap_kept_trans [OF t(3) u(2)] by simp
  qed
  from this [of "unat n"] show ?thesis by (simp add: vmemset_def for_u32_fold)
qed

text \<open>Writing into the bytes of a block keeps the block list.\<close>

lemma chain_data:
  assumes c: "chain M 0 bs 0" and i: "i < length bs" and E: "extent bs < 2 ^ 32"
    and same: "\<And>x. \<not> (block_at bs i + 12 \<le> unat x \<and> unat x < block_at bs i + 12 + fst (bs ! i)) \<Longrightarrow> M' x = M x"
  shows "chain M' 0 bs 0"
proof -
  note hb = heap_block [OF c i]
  have "header M' (block_at bs i) (bs ! i) nx = header M (block_at bs i) (bs ! i) nx" for nx
    by (rule header_cong) (use same hb(3) E in auto)
  then have "chain M' (block_at bs i) [bs ! i] (if drop (Suc i) bs = [] then 0 else of_nat (block_at bs i + 12 + fst (bs ! i)))"
    using hb(2) by simp
  then have "chain M' 0 (take i bs @ [bs ! i] @ drop (Suc i) bs) 0"
    by (intro chain_replace [of M 0 "take i bs" "bs ! i" "drop (Suc i) bs" 0 "block_at bs i"])
      (use c hb(1) same E in \<open>auto simp: block_at_def\<close>)
  then show ?thesis using hb(1) by simp
qed

lemma written_outside:
  "length w \<le> n \<Longrightarrow> \<not> (p \<le> unat x \<and> unat x < p + n) \<Longrightarrow> written M p w x = M x"
  by (auto simp: written_def)

text \<open>A step that changes only the memory of the heap and the variables of \<open>printf\<close>.\<close>

definition idle_fields :: "'a stdio \<Rightarrow> 'a stdio \<Rightarrow> bool" where
  \<comment> \<open>what neither the heap nor the screen changes\<close>
  "idle_fields s t \<longleftrightarrow> cr0 t = cr0 s \<and> cr3 t = cr3 s \<and> halted t = halted s \<and> int_flag t = int_flag s \<and>
     dev_b t = dev_b s \<and> dev_timer t = dev_timer s \<and> scancode t = scancode s \<and> pit_ticks t = pit_ticks s \<and>
     malloc_list_head t = malloc_list_head s \<and> malloc_iniited t = malloc_iniited s \<and>
     disk_same s t \<and> stdio_state.more t = stdio_state.more s"

definition heap_only :: "u32 \<Rightarrow> 'a stdio \<Rightarrow> 'a stdio \<Rightarrow> bool" where
  "heap_only E s t \<longleftrightarrow> idle_fields s t \<and> cursor_x t = cursor_x s \<and> cursor_y t = cursor_y s \<and> io_log t = io_log s \<and>
     heap_bytes E t = heap_bytes E s \<and> (\<forall>x. x \<notin> heap_bytes E s \<longrightarrow> ram t x = ram s x)"

lemma idle_fields_trans: "idle_fields s t \<Longrightarrow> idle_fields t u \<Longrightarrow> idle_fields s u"
  using disk_same_trans [of s t u] by (simp add: idle_fields_def)

lemma more_idle:
  "display_state.more t = display_state.more s \<Longrightarrow> dev_timer t = dev_timer s \<and> scancode t = scancode s \<and>
     pit_ticks t = pit_ticks s \<and> malloc_list_head t = malloc_list_head s \<and> malloc_iniited t = malloc_iniited s \<and>
     write_buffer t = write_buffer s \<and> disk_same s t \<and> stdio_state.more t = stdio_state.more s"
  by (cases s rule: stdio_state.cases_scheme; cases t rule: stdio_state.cases_scheme) (simp add: disk_same_def)

lemma shown_idle: "shown s t \<Longrightarrow> idle_fields s t"
  using more_idle [of t s] by (simp add: shown_def screen_change_def idle_fields_def)

lemma heap_only_trans: "heap_only E s t \<Longrightarrow> heap_only E t u \<Longrightarrow> heap_only E s u"
  using idle_fields_trans [of s t u] by (simp add: heap_only_def)

lemma heap_only_kept: "heap_kept E s t \<Longrightarrow> heap_only E s t"
  using heap_kept_bytes [of E s t] by (auto simp: heap_kept_def heap_only_def idle_fields_def disk_same_def)

lemma heap_only_write: "heap_only E s (s\<lparr>write_buffer := a\<rparr>)" "heap_only E s (s\<lparr>write_len := b\<rparr>)"
  by (simp_all add: heap_only_def idle_fields_def disk_same_def)

lemma heap_only_buffer:
  assumes "buffer E M p t w s"
  shows "heap_only E t s"
proof -
  let ?t = "t\<lparr>write_buffer := of_nat p, write_len := of_nat (length w)\<rparr>"
  have "heap_only E t ?t" by (simp add: heap_only_def idle_fields_def disk_same_def)
  moreover have "heap_only E ?t s" using assms by (simp add: buffer_def heap_only_kept)
  ultimately show ?thesis by (rule heap_only_trans)
qed

lemma heap_only_screen:
  assumes "heap_only E s t" "screen_apart E s"
  shows "screen_apart E t" "same_screen s t"
proof -
  show "screen_apart E t"
    by (rule region_apart_change [OF assms(2)]) (use assms(1) in \<open>auto simp: heap_only_def idle_fields_def\<close>)
  show "same_screen s t" using assms by (auto simp: heap_only_def region_apart_def same_screen_def same_picture_def)
qed

lemma alloc_blocks_size:
  assumes "bs \<noteq> []"
  shows "fst (alloc_blocks sz bs ! stops_at sz bs) = sz"
  using stops_at_less [OF assms, of sz] by (auto simp: alloc_at_def Let_def nth_append)

text \<open>Allocation, initialisation and formatting.\<close>

lemma printf_fill:
  fixes s :: "'a stdio"
  assumes inv: "heap_inv E bs s" and s: "malloc_iniited s" "\<not> halted s" and last: "snd (last bs)"
    and fits: "fst (bs ! stops_at 256 bs) = 256 \<and> Suc (stops_at 256 bs) < length bs \<or> 256 + 12 \<le> fst (bs ! stops_at 256 bs)"
    and f: "formatted fmt args = Some v" "0 \<notin> set fmt" "length v < 256"
  defines "p \<equiv> block_at bs (stops_at 256 bs) + 12"
  obtains s1 s2 s3 s4 M where "malloc 256 (s\<lparr>write_len := 0\<rparr>) = Some (of_nat p, s1)"
    "vmemset (of_nat p) 0 256 (s1\<lparr>write_buffer := of_nat p\<rparr>) = Some s2" "printf_loop (fmt @ [0]) False 256 args s2 = Some s3"
    "write_buffer s3 = of_nat p" "vstore8 (of_nat p + write_len s3) 0 s3 = Some s4" "heap_only E s s4"
    "heap_view E s4 (written M p (v @ [0]))" "chain (written M p (v @ [0])) 0 (alloc_blocks 256 bs) 0"
    "write_buffer s4 = of_nat p" "write_buffer s2 = of_nat p" "heap_inv E (alloc_blocks 256 bs) s1"
proof -
  let ?s = "s\<lparr>write_len := 0\<rparr>" and ?bs = "alloc_blocks 256 bs" and ?i = "stops_at 256 bs"
  have ne: "bs \<noteq> []" using inv by (simp add: heap_inv_def)
  have fits': "fst (bs ! ?i) = 256 \<or> 256 + 12 \<le> fst (bs ! ?i)" using fits by auto
  have "heap_inv E bs ?s" using inv by (simp add: heap_inv_def)
  then obtain s1 where s1: "malloc 256 ?s = Some (of_nat p, s1)" "heap_inv E ?bs s1" "heap_kept E ?s s1"
    using malloc_call [of E bs ?s 256] fits' s by (auto simp: p_def)
  obtain M where M: "heap_view E s1 M" "chain M 0 ?bs 0" "extent ?bs \<le> unat E" "extent ?bs < 2 ^ 32"
    by (rule heap_invE [OF s1(2)])
  have at: "?i < length ?bs" "block_at ?bs ?i + 12 = p" "fst (?bs ! ?i) = 256"
    using free_alloc_blocks [OF ne last _ fits'] fits alloc_blocks_size [OF ne, of 256] by (auto simp: p_def)
  have room: "p + 256 \<le> unat E" using heap_block(3) [OF M(2) at(1)] at M(3) by simp
  let ?s1 = "s1\<lparr>write_buffer := of_nat p\<rparr>" and ?M = "written M p (replicate 256 0)"
  obtain s2 where s2: "vmemset (of_nat p) 0 256 ?s1 = Some s2" "heap_view E s2 ?M" "heap_kept E ?s1 s2"
    using vmemset_view [of E ?s1 M p 256 0] M(1) room by auto
  obtain m where m: "s2 = ?s1\<lparr>ram := m\<rparr>" using s2(3) by (auto simp: heap_kept_def)
  have wl: "write_len s1 = 0" using s1(3) by (auto simp: heap_kept_def)
  have f2: "write_buffer s2 = of_nat p" "write_len s2 = 0" using m wl by simp_all
  have eq: "s2\<lparr>write_buffer := of_nat p, write_len := of_nat (length [])\<rparr> = s2"
    using f2 by (cases s2 rule: stdio_state.cases_scheme) simp
  have b0: "buffer E ?M p s2 [] s2"
    unfolding buffer_def eq using s2(2) heap_mem.kept_refl [of E s2] by simp
  obtain s3 where s3: "printf_loop (fmt @ [0]) False 256 args s2 = Some s3" "buffer E ?M p s2 v s3"
    using printf_loop_buffer [OF f(1,2) b0 _ room] f(3) by auto
  have f3: "write_buffer s3 = of_nat p" "write_len s3 = of_nat (length v)" using buffer_fields [OF s3(2)] by auto
  have lt: "p + length v < unat E" "p + length v < 2 ^ 32" using room f(3) unat_u32_bound [of E] by simp_all
  then have "of_nat (p + length v) < E" by (simp add: word_less_nat_alt unat_of_nat_small del: of_nat_add)
  then obtain s4 where s4: "vstore8 (of_nat (p + length v)) 0 s3 = Some s4" "heap_kept E s3 s4"
    "heap_view E s4 ((written ?M p v)(of_nat (p + length v) := 0))"
    using vstore8_view s3(2) unfolding buffer_def by metis
  have "heap_only E s s4"
    using heap_only_trans [OF heap_only_write(2) [of E s 0] heap_only_trans [OF heap_only_kept [OF s1(3)]
        heap_only_trans [OF heap_only_write(1) heap_only_trans [OF heap_only_kept [OF s2(3)]
          heap_only_trans [OF heap_only_buffer [OF s3(2)] heap_only_kept [OF s4(2)]]]]]] .
  moreover have "chain (written ?M p (v @ [0])) 0 ?bs 0"
    by (rule chain_data [OF M(2) at(1) M(4)]) (use at f(3) in \<open>simp add: written_outside [of _ 256]\<close>)
  moreover have "write_buffer s4 = of_nat p" using s4(2) f3(1) by (auto simp: heap_kept_def)
  ultimately show thesis
    using that s1(1,2) s2(1) s3(1) f2 f3 s4(1,3) written_snoc [OF lt(2)] by simp
qed

text \<open>Showing the text and releasing the block.\<close>

lemma printf_show:
  fixes s :: "'a stdio"
  assumes view: "heap_view E s (written M p (v @ [0]))" "chain (written M p (v @ [0])) 0 bs 0"
    and bs: "bs \<noteq> []" "0 < fst (hd bs)" "extent bs \<le> unat E" "malloc_list_head s = 0"
    and i: "i < length bs" "block_at bs i + 12 = p" "fst (bs ! i) = 256"
    and s: "screen_apart E s" "disp_wf s" "\<not> halted s" "write_buffer s = of_nat p" and v: "0 \<notin> set v" "length v < 256"
  defines "t \<equiv> fold print_char v s"
  obtains s' where "vprint_string (of_nat p) s = Some t" "write_buffer t = of_nat p" "free (of_nat p) t = Some s'"
    "heap_inv E (free_blocks i bs) s'" "same_screen t s'" "idle_fields s s'"
    "\<forall>x. x \<notin> heap_bytes E s \<and> \<not> on_screen x \<longrightarrow> ram s' x = ram s x"
proof -
  have room: "p + 256 \<le> unat E" using heap_block(3) [OF view(2) i(1)] i bs(3) by simp
  then have u: "unat (of_nat (p + k) :: u32) = p + k" if "k < 256" for k
    using that unat_u32_bound [of E] by (intro unat_of_nat_small) simp
  have print: "vprint_string (of_nat p) s = Some t"
    unfolding t_def by (rule vprint_string_view [OF view(1) s(1,2) v(1)])
      (use room v(2) u in \<open>auto simp: written_def nth_append simp del: of_nat_add\<close>)
  have sh: "shown s t" unfolding t_def by (rule shown_chars) (use s(2) in \<open>simp add: shown_def screen_change_def\<close>)
  note vw = shown_view [OF s(1) sh view(1)]
  have f: "malloc_list_head t = 0" "write_buffer t = of_nat p" "\<not> halted t"
    using more_idle [of t s] sh bs(4) s(3,4) by (auto simp: shown_def screen_change_def)
  then have "heap_inv E bs t" using bs(1-3) vw(2) view(2) by (auto simp: heap_inv_def)
  then obtain s' where s': "free (of_nat p) t = Some s'" "heap_inv E (free_blocks i bs) s'" "heap_kept E t s'"
    using free_call [of E bs t i] i(1,2) f(3) by auto
  have "same_screen t s'" using heap_only_screen(2) [OF heap_only_kept [OF s'(3)] vw(1)] .
  moreover have "ram s' x = ram s x" if "x \<notin> heap_bytes E s" "\<not> on_screen x" for x
    using that sh s'(3) vw(3) by (auto simp: shown_def heap_kept_def)
  moreover have "idle_fields s s'"
    using idle_fields_trans [OF shown_idle [OF sh]] heap_only_kept [OF s'(3)] by (simp add: heap_only_def)
  ultimately show thesis using that print f(2) s'(1,2) by blast
qed

lemma printf_run:
  fixes s :: "'a stdio"
  assumes "heap_inv E bs s" and "malloc_iniited s" and "\<not> halted s" and "snd (last bs)"
    and "fst (bs ! stops_at 256 bs) = 256 \<and> Suc (stops_at 256 bs) < length bs \<or> 256 + 12 \<le> fst (bs ! stops_at 256 bs)"
    and "screen_apart E s" and "disp_wf s"
    and "formatted fmt args = Some v" and "0 \<notin> set fmt" and "length v < 256" and "0 \<notin> set v"
  shows "\<exists>s'. printf (fmt @ [0]) args s = Some s' \<and> same_screen (fold print_char v s) s' \<and>
    heap_inv E (free_blocks (stops_at 256 bs) (alloc_blocks 256 bs)) s' \<and> idle_fields s s' \<and>
    (\<forall>x. x \<notin> heap_bytes E s \<and> \<not> on_screen x \<longrightarrow> ram s' x = ram s x)"
proof -
  let ?i = "stops_at 256 bs" and ?bs = "alloc_blocks 256 bs"
  let ?p = "block_at bs ?i + 12"
  obtain s1 s2 s3 s4 M where run: "malloc 256 (s\<lparr>write_len := 0\<rparr>) = Some (of_nat ?p, s1)"
    "vmemset (of_nat ?p) 0 256 (s1\<lparr>write_buffer := of_nat ?p\<rparr>) = Some s2" "printf_loop (fmt @ [0]) False 256 args s2 = Some s3"
    "write_buffer s3 = of_nat ?p" "vstore8 (of_nat ?p + write_len s3) 0 s3 = Some s4" "heap_only E s s4"
    and view: "heap_view E s4 (written M ?p (v @ [0]))" "chain (written M ?p (v @ [0])) 0 ?bs 0"
    and f: "write_buffer s4 = of_nat ?p" "write_buffer s2 = of_nat ?p" "heap_inv E ?bs s1"
    by (rule printf_fill [OF assms(1-5,8-10)])
  note sc = heap_only_screen [OF run(6) assms(6)]
  have ne: "bs \<noteq> []" and head: "malloc_list_head s4 = 0" using assms(1) run(6) by (simp_all add: heap_inv_def heap_only_def idle_fields_def)
  have fits: "fst (bs ! ?i) = 256 \<or> 256 + 12 \<le> fst (bs ! ?i)" using assms(5) by auto
  have fb: "?i < length ?bs" "block_at ?bs ?i + 12 = ?p"
    using free_alloc_blocks [OF ne assms(4) _ fits] assms(5) by auto
  have bs: "?bs \<noteq> []" "0 < fst (hd ?bs)" "extent ?bs \<le> unat E" using f(3) by (simp_all add: heap_inv_def)
  have s4: "disp_wf s4" "\<not> halted s4"
    using sc(2) run(6) assms(3,7) by (simp_all add: same_screen_def same_picture_def disp_wf_def heap_only_def idle_fields_def)
  obtain s5 where s5: "vprint_string (of_nat ?p) s4 = Some (fold print_char v s4)" "write_buffer (fold print_char v s4) = of_nat ?p"
    "free (of_nat ?p) (fold print_char v s4) = Some s5" "heap_inv E (free_blocks ?i ?bs) s5"
    "same_screen (fold print_char v s4) s5" "idle_fields s4 s5" "\<forall>x. x \<notin> heap_bytes E s4 \<and> \<not> on_screen x \<longrightarrow> ram s5 x = ram s4 x"
    by (rule printf_show [OF view bs head fb alloc_blocks_size [OF ne] sc(1) s4 f(1) assms(11,10)])
  have "printf (fmt @ [0]) args s = Some s5"
    using run(1-5) f(1,2) s5(1-3) by (simp add: printf_def Let_def del: of_nat_add)
  moreover have "same_screen (fold print_char v s) s5"
    using same_screen_chars [OF sc(2), of v] s5(5) by (simp add: same_screen_def same_picture_def)
  moreover have "ram s5 x = ram s x" if "x \<notin> heap_bytes E s" "\<not> on_screen x" for x
    using that run(6) s5(7) by (auto simp: heap_only_def)
  moreover have "idle_fields s s5" using idle_fields_trans [OF _ s5(6)] run(6) by (simp add: heap_only_def)
  ultimately show ?thesis using s5(4) by blast
qed

section \<open>Properties\<close>

text \<open>
  C9. On an initialised heap whose last block is free and where the search for 256 bytes stops at a block of that size (not the
  last one) or at least 12 bytes larger, and with heap and page tables outside
  the frame buffer, \<open>printf\<close> returns, the screen shows what printing the specified text on the
  original screen shows, the heap holds what it held before, and no other memory changes. The
  text must be shorter than 256 bytes, the size of the buffer, and contain no NUL, and the smallest integer
  must not be among the arguments of \<^verbatim>\<open>%d\<close>, for which \<open>formatted\<close> specifies no text.
\<close>

theorem printf_prints_formatted:
  fixes s :: "'a stdio"
  assumes "heap_inv E bs s" and "malloc_iniited s" and "\<not> halted s" and "snd (last bs)"
    and "fst (bs ! stops_at 256 bs) = 256 \<and> Suc (stops_at 256 bs) < length bs \<or> 256 + 12 \<le> fst (bs ! stops_at 256 bs)"
    and "screen_apart E s" and "disp_wf s"
    and "formatted fmt args = Some v" and "0 \<notin> set fmt" and "length v < 256" and "0 \<notin> set v"
  shows "\<exists>s' bs'. printf (fmt @ [0]) args s = Some s' \<and> same_screen (fold print_char v s) s' \<and>
    heap_inv E bs' s' \<and> held_at 0 bs' = held_at 0 bs \<and>
    (\<forall>x. x \<notin> heap_bytes E s \<and> \<not> on_screen x \<longrightarrow> ram s' x = ram s x)"
proof -
  have fits: "fst (bs ! stops_at 256 bs) = 256 \<or> 256 + 12 \<le> fst (bs ! stops_at 256 bs)" using assms(5) by auto
  have "bs \<noteq> []" using assms(1) by (simp add: heap_inv_def)
  then have "held_at 0 (free_blocks (stops_at 256 bs) (alloc_blocks 256 bs)) = held_at 0 bs"
    using free_alloc_blocks(1) [OF _ assms(4) _ fits] assms(5) by auto
  then show ?thesis using printf_run [OF assms] by blast
qed

definition demo_stdio :: stdio_state where
  "demo_stdio = heap_state.extend demo_heap (stdio_state.fields 0 0)"

lemma demo_stdio_ok:
  "heap_inv 4096 [(1000, True)] demo_stdio" "malloc_iniited demo_stdio" "\<not> halted demo_stdio" "disp_wf demo_stdio"
  "screen_apart 4096 demo_stdio"
proof -
  have f: "cr0 demo_stdio = 0" "malloc_list_head demo_stdio = 0" "ram demo_stdio = put_header (\<lambda>_. 0) 0 (1000, True) 0"
    "malloc_iniited demo_stdio" "\<not> halted demo_stdio" "cursor_x demo_stdio = 0" "cursor_y demo_stdio = 0"
    by (simp_all add: demo_stdio_def demo_heap_def demo_fat_def demo_fd_def fd_state.defs fat_state.defs heap_state.defs stdio_state.defs)
  show "heap_inv 4096 [(1000, True)] demo_stdio"
    by (rule heap_inv_flat) (use header_put_header [of 0 "\<lambda>_. 0" "(1000, True)" 0] in \<open>simp_all add: f\<close>)
  show "malloc_iniited demo_stdio" "\<not> halted demo_stdio" "disp_wf demo_stdio" using f by (simp_all add: disp_wf_def)
  have t: "translate demo_stdio va = Some va" "translate (demo_stdio\<lparr>ram := m\<rparr>) va = Some va" for va m
    using f(1) by (simp_all add: translate_def)
  have "\<not> on_screen x" if "x < 4096" for x
    using that unat_sub_if' [of x framebuffer] by (simp add: on_screen_def in_region_def word_less_nat_alt split: if_splits)
  then show "screen_apart 4096 demo_stdio" by (simp add: region_apart_def heap_bytes_def t)
qed

theorem printf_prints_formatted_witness:
  "\<exists>s'. printf (map of_char ''%d%%'' @ [0]) [Word_arg (- 42)] demo_stdio = Some s' \<and>
     same_screen (fold print_char (map of_char ''-42%'') demo_stdio) s'"
proof -
  have "formatted (map of_char ''%d%%'') [Word_arg (- 42)] = Some (map of_char ''-42%'')" by code_simp
  from printf_prints_formatted [OF demo_stdio_ok(1-3) _ _ demo_stdio_ok(5,4) this] show ?thesis by auto
qed

end
