(* ===== verification/Keyboard_props.thy ===== *)
theory Keyboard_props
  imports Keyboard Display_props
begin

text \<open>
  Correctness of the keyboard: what one keyboard interrupt does for every scan code, and where the
  scan code table departs from the scan codes it documents.
\<close>

unbundle bit_operations_syntax

lemma length_keys: "length keys = 83"
  by (simp add: keys_def)

lemma keys_at_None: "keys_at c = None \<longleftrightarrow> 83 \<le> c"
  by (simp add: keys_at_def length_keys word_le_nat_alt not_less)

lemma make_code: "(0 \<le>s (c::u8)) = (c < 0x80)"
proof -
  have "(0 \<le>s c) = (\<not> bit c 7)"
    using signed_take_bit_nonnegative_iff [of 7 "uint c"]
    by (simp add: word_sle_eq sint_uint bit_uint_iff)
  also have "\<dots> = (c < 0x80)"
  proof -
    have "bit c 7 = bit (unat c) 7" by (simp add: bit_unsigned_iff)
    also have "\<dots> = odd (unat c div 128)" by (simp add: bit_iff_odd)
    also have "\<dots> = (128 \<le> unat c)"
    proof -
      have "unat c < 256" using unsigned_less [of c, where ?'a = nat] by simp
      then have "unat c div 128 = (if 128 \<le> unat c then 1 else 0)"
        by (auto intro: div_nat_eqI)
      then show ?thesis by simp
    qed
    finally show ?thesis by (simp add: word_less_nat_alt not_le)
  qed
  finally show ?thesis .
qed

text \<open>The handler as a function of the status and the code that the controller delivers.\<close>

definition kbd_ports :: "'a kbd \<Rightarrow> u8 \<times> u8" where
  "kbd_ports s = (let st = dev_b s (io_log s) KEYBOARD_STATUS
     in (st, dev_b s (io_log s @ [In_b KEYBOARD_STATUS st]) KEYBOARD_DATA))"

lemma handler_no_key:
  assumes "kbd_ports s = (st, code)" "st AND 1 = 0 \<or> 0x80 \<le> code"
  obtains s' where "keyboard_irq1_handler s = Some s'" "scancode s' = scancode s" "ram s' = ram s"
    "cursor_x s' = cursor_x s" "cursor_y s' = cursor_y s" "last (io_log s') = Out_b PIC_1_CMD PIC_EOI"
proof -
  have st: "st = dev_b s (io_log s) KEYBOARD_STATUS"
    and code: "code = dev_b s (io_log s @ [In_b KEYBOARD_STATUS st]) KEYBOARD_DATA"
    using assms(1) by (auto simp: kbd_ports_def Let_def)
  let ?t = "s\<lparr>io_log := io_log s @ (if st AND 1 = 0 then [In_b KEYBOARD_STATUS st]
     else [In_b KEYBOARD_STATUS st, In_b KEYBOARD_DATA code])\<rparr>"
  have "keyboard_irq1_handler s = Some (send_pic_eoi 1 ?t)"
  proof (cases "st AND 1 = 0")
    case True
    then show ?thesis by (simp add: keyboard_irq1_handler_def inb_def Let_def st [symmetric])
  next
    case False
    with assms(2) have "\<not> 0 \<le>s code" by (auto simp: make_code)
    with False show ?thesis
      by (simp add: keyboard_irq1_handler_def inb_def Let_def st [symmetric] code [symmetric])
  qed
  then show ?thesis using that by (simp add: send_pic_eoi_def outb_def)
qed

lemma handler_key:
  assumes "kbd_ports s = (st, code)" "st AND 1 \<noteq> 0" "code < 0x80"
  shows "keyboard_irq1_handler s =
    (case keys_at code of None \<Rightarrow> None
     | Some key \<Rightarrow> Some (send_pic_eoi 1 (print_char (ucast key)
         (s\<lparr>io_log := io_log s @ [In_b KEYBOARD_STATUS st, In_b KEYBOARD_DATA code], scancode := code\<rparr>))))"
  using assms make_code [of code]
  by (auto simp: keyboard_irq1_handler_def kbd_ports_def inb_def Let_def keyboard_key_to_ascii_def
      split: option.split)

lemma scancode_more: "display_state.more s' = display_state.more s \<Longrightarrow> scancode s' = scancode (s :: 'a kbd)"
  by (cases s; cases s') simp

section \<open>Properties\<close>

definition demo_kbd :: "u8 \<Rightarrow> kbd_state" where
  "demo_kbd code = \<lparr>ram = (\<lambda>_. 0), io_log = [], dev_b = (\<lambda>_ p. if p = 0x64 then 1 else code),
     dev_w = (\<lambda>_ _. 0), cr0 = 0, cr2 = 0, cr3 = 0, int_flag = False, halted = False,
     invlpg_log = [], cursor_x = 0, cursor_y = 0, memory_size = 0, used_blocks = 0, max_blocks = 0,
     memory_map = 0, curdir = 0, pit_ticks = 0, scancode = 0\<rparr>"

text \<open>
  C27. A keyboard interrupt: without data or with a release code memory and the last key stay, and the interrupt is
  acknowledged; a press code inside the table becomes the last key and its character is printed: screen and cursor are those
  that \<open>print_char\<close> leaves, so that a printable character stands where the cursor was (before the last cell), the cursor
  stays on the screen, no memory outside the frame buffer changes and the interrupt is acknowledged; a press code from
  83 on reads behind the table.
\<close>

theorem keyboard_interrupt:
  assumes "disp_wf s" and "kbd_ports s = (st, code)"
  shows "(st AND 1 = 0 \<or> 0x80 \<le> code \<longrightarrow>
      (\<exists>s'. keyboard_irq1_handler s = Some s' \<and> scancode s' = scancode s \<and> ram s' = ram s \<and>
        last (io_log s') = Out_b PIC_1_CMD PIC_EOI)) \<and>
    (st AND 1 \<noteq> 0 \<and> code < 83 \<longrightarrow>
      (\<exists>s'. keyboard_irq1_handler s = Some s' \<and> scancode s' = code \<and> disp_wf s' \<and>
        (code \<noteq> 0 \<longrightarrow> keyboard_get_last_key s' = Some (keys ! unat code)) \<and>
        same_picture (print_char (ucast (keys ! unat code)) s) s' \<and>
        (CT_WHT \<le> ucast (keys ! unat code) \<and> cursor_cell s < 1999 \<longrightarrow>
          framebuffer_read (of_nat (cursor_cell s)) s' = attributed (ucast (keys ! unat code)) \<and> cursor_cell s' = cursor_cell s + 1) \<and>
        same_outside framebuffer 4000 (ram s) (ram s') \<and> last (io_log s') = Out_b PIC_1_CMD PIC_EOI)) \<and>
    (st AND 1 \<noteq> 0 \<and> 83 \<le> code \<and> code < 0x80 \<longrightarrow> keyboard_irq1_handler s = None)"
proof (intro conjI impI)
  assume "st AND 1 = 0 \<or> 0x80 \<le> code"
  then show "\<exists>s'. keyboard_irq1_handler s = Some s' \<and> scancode s' = scancode s \<and> ram s' = ram s \<and>
        last (io_log s') = Out_b PIC_1_CMD PIC_EOI"
    using handler_no_key [OF assms(2)] by metis
next
  assume c: "st AND 1 \<noteq> 0 \<and> code < 83"
  then have "code < 0x80" and key: "keys_at code = Some (keys ! unat code)"
    by (auto simp: keys_at_def length_keys word_less_nat_alt intro: less_trans)
  let ?t = "s\<lparr>io_log := io_log s @ [In_b KEYBOARD_STATUS st, In_b KEYBOARD_DATA code], scancode := code\<rparr>"
  let ?u = "print_char (ucast (keys ! unat code)) ?t"
  have eq: "keyboard_irq1_handler s = Some (send_pic_eoi 1 ?u)"
    using handler_key [OF assms(2) _ \<open>code < 0x80\<close>] c key by simp
  have wf: "disp_wf ?t" using assms(1) by (simp add: disp_wf_def)
  note P = print_char_effect [OF wf, where c = "ucast (keys ! unat code)"]
  have "scancode ?u = scancode ?t"
    using scancode_more [OF print_char_more] .
  then have sc: "scancode ?u = code" by simp
  let ?c = "ucast (keys ! unat code) :: u8" and ?s' = "send_pic_eoi 1 ?u"
  have "same_picture s ?t" by (simp add: same_picture_def)
  then have pic: "same_picture (print_char ?c s) ?s'"
    using same_picture_char [of s ?t ?c] by (simp add: same_picture_def send_pic_eoi_def outb_def Let_def)
  have "framebuffer_read (of_nat (cursor_cell s)) ?s' = attributed ?c \<and> cursor_cell ?s' = cursor_cell s + 1"
    if "CT_WHT \<le> ?c" "cursor_cell s < 1999"
  proof -
    have "unat (of_nat (cursor_cell s) :: u32) = cursor_cell s" using that(2) by (simp add: unat_of_nat_small)
    then show ?thesis
      using print_char_cells [OF assms(1) that(1), of "of_nat (cursor_cell s)"] that(2) same_picture_read [OF pic] pic
      by (simp add: same_picture_def cursor_cell_def)
  qed
  moreover have "disp_wf ?s'" "scancode ?s' = code" "same_outside framebuffer 4000 (ram s) (ram ?s')"
    "last (io_log ?s') = Out_b PIC_1_CMD PIC_EOI" "code \<noteq> 0 \<longrightarrow> keyboard_get_last_key ?s' = Some (keys ! unat code)"
    using P key sc by (simp_all add: send_pic_eoi_def outb_def disp_wf_def same_outside_def on_screen_def keyboard_get_last_key_def Let_def)
  ultimately show "\<exists>s'. keyboard_irq1_handler s = Some s' \<and> scancode s' = code \<and> disp_wf s' \<and>
        (code \<noteq> 0 \<longrightarrow> keyboard_get_last_key s' = Some (keys ! unat code)) \<and> same_picture (print_char ?c s) s' \<and>
        (CT_WHT \<le> ?c \<and> cursor_cell s < 1999 \<longrightarrow>
          framebuffer_read (of_nat (cursor_cell s)) s' = attributed ?c \<and> cursor_cell s' = cursor_cell s + 1) \<and>
        same_outside framebuffer 4000 (ram s) (ram s') \<and> last (io_log s') = Out_b PIC_1_CMD PIC_EOI"
    using eq pic by blast
next
  assume c: "st AND 1 \<noteq> 0 \<and> 83 \<le> code \<and> code < 0x80"
  then have "keys_at code = None" by (simp add: keys_at_None)
  with c show "keyboard_irq1_handler s = None" using handler_key [OF assms(2)] by simp
qed

theorem keyboard_interrupt_witness:
  "\<exists>s'. keyboard_irq1_handler (demo_kbd 0x10) = Some s' \<and> keyboard_get_last_key s' = Some KEY_Q \<and>
     framebuffer_read 0 s' = attributed 0x71"
proof -
  have wf: "disp_wf (demo_kbd 0x10)" by (simp add: disp_wf_def demo_kbd_def)
  have ports: "kbd_ports (demo_kbd 0x10) = (1, 0x10)" by (simp add: kbd_ports_def demo_kbd_def)
  have "keys ! 16 = KEY_Q" by (simp add: keys_def)
  moreover have "cursor_cell (demo_kbd 0x10) = 0" by (simp add: cursor_cell_def demo_kbd_def)
  ultimately show ?thesis using keyboard_interrupt [OF wf ports] by auto
qed

text \<open>
  The scan code table: up to scan code 0x49 an entry sits at the scan code it is for, but the
  entries for the keypad and F11, F12 sit six places too low, so that 0x50 (keypad down) gives no
  key and 0x57 (F11) lies behind the table; and the function keys F8, F9 and F10, whose codes end
  in 08, 09 and 0A, print as backspace, tab and newline.
\<close>

theorem keyboard_table:
  "keys_at 0x1C = Some KEY_RETURN \<and> keys_at 0x39 = Some KEY_SPACE \<and> keys_at 0x49 = Some KEY_PAGEUP \<and>
   keys_at (0x50 - 6) = Some KEY_KP_2 \<and> keys_at 0x50 = Some KEY_UNKNOWN \<and>
   keys_at (0x57 - 6) = Some KEY_F11 \<and> keys_at 0x57 = None \<and>
   keyboard_key_to_ascii KEY_F8 = CT_BSP \<and> keyboard_key_to_ascii KEY_F9 = CT_TAB \<and>
   keyboard_key_to_ascii KEY_F10 = 0x0A"
  by code_simp

end
