(* ===== verification/Userspace_props.thy ===== *)
theory Userspace_props
  imports Userspace Stdio_props Keyboard_props
begin

text \<open>
  The command interpreter on a console where keys are typed: the keyboard delivers the scan codes of
  a list one after the other, each before the next poll, and the timer runs. The line editor then
  leaves the edited line in its buffer, and a line selects its command.
\<close>

unbundle bit_operations_syntax

section \<open>A console\<close>

text \<open>The devices from now on: the codes are read in order, and in each wait the timer
  fires at least 10 times, at most once between two looks at the counter.\<close>

definition typing :: "u8 list \<Rightarrow> 'a user \<Rightarrow> bool" where
  "typing codes s \<longleftrightarrow> scancode s = INVALID_SCANCODE \<and> int_flag s \<and>
     (\<forall>l. key_reads l < length codes \<longrightarrow> dev_b s (io_log s @ l) KEYBOARD_DATA = codes ! key_reads l) \<and>
     (\<forall>l. dev_b s (io_log s @ l) KEYBOARD_STATUS AND 1 \<noteq> 0 \<and> dev_input s (io_log s @ l) = [[Keyboard_irq]] \<and>
       10 \<le> sum_list (dev_timer s (io_log s @ l)) \<and> (\<forall>n \<in> set (dev_timer s (io_log s @ l)). n \<le> 1))"

lemma typing_data: "typing codes s \<Longrightarrow> key_reads l < length codes \<Longrightarrow> dev_b s (io_log s @ l) KEYBOARD_DATA = codes ! key_reads l"
  by (simp add: typing_def)

lemma typing_now:
  assumes "typing codes s"
  shows "dev_b s (io_log s) KEYBOARD_STATUS AND 1 \<noteq> 0" "dev_input s (io_log s) = [[Keyboard_irq]]"
    "10 \<le> sum_list (dev_timer s (io_log s))" "\<forall>n \<in> set (dev_timer s (io_log s)). n \<le> 1"
proof -
  have "\<forall>l. dev_b s (io_log s @ l) KEYBOARD_STATUS AND 1 \<noteq> 0 \<and> dev_input s (io_log s @ l) = [[Keyboard_irq]] \<and>
    10 \<le> sum_list (dev_timer s (io_log s @ l)) \<and> (\<forall>n \<in> set (dev_timer s (io_log s @ l)). n \<le> 1)"
    using assms unfolding typing_def by blast
  from spec [OF this, of "[]"] show "dev_b s (io_log s) KEYBOARD_STATUS AND 1 \<noteq> 0"
    "dev_input s (io_log s) = [[Keyboard_irq]]" "10 \<le> sum_list (dev_timer s (io_log s))"
    "\<forall>n \<in> set (dev_timer s (io_log s)). n \<le> 1" by simp_all
qed

text \<open>Time passes: the log grows.\<close>

lemma typing_later:
  assumes ty: "typing codes s" and t: "dev_b t = dev_b s" "dev_input t = dev_input s" "dev_timer t = dev_timer s"
    "int_flag t = int_flag s" "scancode t = INVALID_SCANCODE" "io_log t = io_log s @ l"
    and n: "n = key_reads l" "n \<le> length codes"
  shows "typing (drop n codes) t"
  using ty n unfolding typing_def t append_assoc by auto

definition console :: "u32 \<Rightarrow> 'a user \<Rightarrow> bool" where
  "console E s \<longleftrightarrow> screen_apart E s \<and> disp_wf s"

text \<open>What a step of the interpreter leaves alone.\<close>

definition console_step :: "u32 \<Rightarrow> 'a user \<Rightarrow> 'a user \<Rightarrow> bool" where
  "console_step E s t \<longleftrightarrow> dev_b t = dev_b s \<and> dev_input t = dev_input s \<and> dev_timer t = dev_timer s \<and>
     int_flag t = int_flag s \<and> cr0 t = cr0 s \<and> cr3 t = cr3 s \<and> halted t = halted s \<and>
     malloc_list_head t = malloc_list_head s \<and> malloc_iniited t = malloc_iniited s \<and> disk_same s t \<and>
     (\<forall>x. x \<notin> heap_bytes E s \<and> \<not> on_screen x \<longrightarrow> ram t x = ram s x)"

lemma console_step_trans:
  "screen_apart E s \<Longrightarrow> console_step E s t \<Longrightarrow> console_step E t u \<Longrightarrow> console_step E s u"
  using region_apart_change(2) [of on_screen E s t] disk_same_trans [of s t u] by (auto simp: console_step_def)

definition types :: "u8 \<Rightarrow> KEYCODE \<Rightarrow> bool" where
  "types c key \<longleftrightarrow> c \<noteq> INVALID_SCANCODE \<and> c < 0x80 \<and> keys_at c = Some key \<and> key \<noteq> KEY_UNKNOWN"

lemma heap_view_cong:
  assumes "ram t = ram s" "cr0 t = cr0 s" "cr3 t = cr3 s"
  shows "heap_view E t = heap_view E s" "screen_apart E t = screen_apart E s" "heap_bytes E t = heap_bytes E s"
proof -
  have t: "translate t va = translate s va" "translate (t\<lparr>ram := m\<rparr>) va = translate (s\<lparr>ram := m\<rparr>) va" for va m
    using assms by (simp_all add: translate_def)
  show hb: "heap_bytes E t = heap_bytes E s" by (simp add: heap_bytes_def t)
  show "heap_view E t = heap_view E s" "screen_apart E t = screen_apart E s"
    by (simp_all add: fun_eq_iff heap_view_def heap_mapped_def region_apart_def vload8_def t hb assms)
qed

lemma more_user:
  "display_state.more t = display_state.more s \<Longrightarrow>
     scancode t = scancode s \<and> dev_timer t = dev_timer s \<and> dev_input t = dev_input s \<and> pit_ticks t = pit_ticks s \<and>
     malloc_list_head t = malloc_list_head s \<and> malloc_iniited t = malloc_iniited s \<and> disk_same s t"
  by (cases s rule: user_state.cases_scheme; cases t rule: user_state.cases_scheme) (simp add: disk_same_def)

lemma get_key_typed:
  fixes s :: "'a user"
  assumes ty: "typing (c # codes) s" and con: "console E s" and view: "heap_view E s M" and key: "types c key"
  shows "\<exists>s'. get_key s = Some (key, s') \<and> typing codes s' \<and> console E s' \<and> heap_view E s' M \<and> console_step E s s'"
proof -
  define st where "st = dev_b s (io_log s) KEYBOARD_STATUS"
  define l where "l = [In_b KEYBOARD_STATUS st, In_b KEYBOARD_DATA c]"
  define s1 where "s1 = s\<lparr>io_log := io_log s @ l, scancode := c\<rparr>"
  define s2 where "s2 = print_char (ucast key) s1"
  define s3 where "s3 = send_pic_eoi 1 s2"
  note now = typing_now [OF ty]
  have "dev_b s (io_log s @ [In_b KEYBOARD_STATUS st]) KEYBOARD_DATA = c"
    using typing_data [OF ty, of "[In_b KEYBOARD_STATUS st]"] by simp
  then have "kbd_ports s = (st, c)" by (simp add: kbd_ports_def st_def Let_def)
  then have h: "keyboard_irq1_handler s = Some s3"
    using handler_key [of s st c] now(1) key by (simp add: types_def s1_def s2_def s3_def l_def st_def)
  have wf1: "disp_wf s1" using con by (simp add: console_def disp_wf_def s1_def)
  have sh: "shown s1 s2" unfolding s2_def using wf1 by (simp add: shown_def print_char_effect screen_change_char)
  have m: "display_state.more s2 = display_state.more s1" using sh by (simp add: shown_def screen_change_def)
  define s' where "s' = keyboard_discard_last_key s3"
  have f: "dev_b s' = dev_b s" "cr0 s' = cr0 s" "cr3 s' = cr3 s" "int_flag s' = int_flag s" "ram s' = ram s2"
    "dev_input s' = dev_input s" "dev_timer s' = dev_timer s" "pit_ticks s' = pit_ticks s" "scancode s' = 0"
    "halted s' = halted s" "malloc_list_head s' = malloc_list_head s" "malloc_iniited s' = malloc_iniited s"
    "disk_same s s'"
    using sh more_user [OF m]
    by (simp_all add: disk_same_def s'_def keyboard_discard_last_key_def s3_def send_pic_eoi_def outb_def s1_def shown_def screen_change_def)
  have log: "io_log s' = io_log s @ (l @ cursor_events (get_cursor_location s2) @ [Out_b PIC_1_CMD PIC_EOI])"
    using print_char_effect(3) [OF wf1, of "ucast key"]
    by (simp add: s'_def keyboard_discard_last_key_def s3_def send_pic_eoi_def outb_def s2_def s1_def Let_def word_le_nat_alt)
  have reads: "1 = key_reads (l @ cursor_events (get_cursor_location s2) @ [Out_b PIC_1_CMD PIC_EOI])"
    by (simp add: l_def cursor_events_def)
  have "typing codes s'" using typing_later [OF ty f(1,6,7,4,9) log reads] by simp
  moreover have "heap_view E s1 M" "screen_apart E s1"
    using view con heap_view_cong [of s1 s E] by (simp_all add: s1_def console_def)
  then have v2: "heap_view E s2 M" "screen_apart E s2" using shown_view [OF _ sh] by blast+
  have wf: "disp_wf s'"
    using sh by (simp add: s'_def keyboard_discard_last_key_def s3_def send_pic_eoi_def outb_def shown_def disp_wf_def)
  have "cr0 s' = cr0 s2" "cr3 s' = cr3 s2" using f sh by (simp_all add: shown_def screen_change_def s1_def)
  then have "heap_view E s' M" "console E s'"
    using heap_view_cong [of s' s2 E] f(5) v2 wf by (simp_all add: console_def)
  moreover have "console_step E s s'" using f sh by (auto simp: console_step_def shown_def s1_def)
  moreover have "get_key s = Some (key, s')"
  proof -
    have "scancode s3 = c" using more_user [OF m] by (simp add: s3_def send_pic_eoi_def outb_def s1_def)
    then have "keyboard_get_last_key s3 = Some key" using key by (simp add: keyboard_get_last_key_def types_def)
    then show ?thesis using h now(2) key by (simp add: get_key_def s'_def types_def)
  qed
  ultimately show ?thesis by blast
qed

text \<open>Waiting.\<close>

definition waited :: "'a pit \<Rightarrow> 'a pit \<Rightarrow> bool" where
  "waited s t \<longleftrightarrow> (\<exists>l n. t = s\<lparr>io_log := io_log s @ l, pit_ticks := n\<rparr> \<and> key_reads l = 0)"

lemma waited_handler: "waited s ((timer_irq0_handler ^^ n) s)"
proof (induction n)
  case 0
  show ?case unfolding waited_def by (intro exI [of _ "[]"] exI [of _ "pit_ticks s"]) simp
next
  case (Suc n)
  then obtain l k where "(timer_irq0_handler ^^ n) s = s\<lparr>io_log := io_log s @ l, pit_ticks := k\<rparr>" "key_reads l = 0"
    by (auto simp: waited_def)
  then show ?case
    unfolding waited_def
    by (intro exI [of _ "l @ [Out_b PIC_1_CMD PIC_EOI]"] exI [of _ "k + 1"]) (simp add: timer_irq0_handler_def send_pic_eoi_def outb_def)
qed

lemma sleep_typed:
  fixes s :: "'a user"
  assumes ty: "typing codes s" and con: "console E s" and view: "heap_view E s M"
  shows "\<exists>s'. sleep_now 10 s = Some s' \<and> typing codes s' \<and> console E s' \<and> heap_view E s' M \<and> console_step E s s'"
proof -
  note now = typing_now [OF ty]
  let ?arr = "dev_timer s (io_log s)"
  have "unat (10 + pit_ticks s) \<le> unat (pit_ticks s) + 10" by (simp add: unat_word_ariths)
  then have "unat (10 + pit_ticks s) \<le> unat (pit_ticks s) + sum_list ?arr" using now(3) by linarith
  then obtain s' where s': "sleep_until (10 + pit_ticks s) ?arr s = Some s'" "waited s s'"
    using sleep_until_fast [OF now(4)] waited_handler by metis
  obtain l n where l: "s' = s\<lparr>io_log := io_log s @ l, pit_ticks := n\<rparr>" "key_reads l = 0"
    using s'(2) by (auto simp: waited_def)
  have sc: "scancode s = 0" "int_flag s" using ty by (simp_all add: typing_def)
  have "sleep_now 10 s = Some s'" using s'(1) sc(2) by (simp add: sleep_now_def sleep_def get_tick_count_def)
  moreover have "typing codes s'"
    using typing_later [OF ty, of s' l 0] l sc(1) by simp
  moreover have "console E s'" "heap_view E s' M"
    using con view heap_view_cong [of s' s E] l(1) by (simp_all add: console_def disp_wf_def)
  moreover have "console_step E s s'" using l(1) by (simp add: console_step_def disk_same_def)
  ultimately show ?thesis by blast
qed

text \<open>Storing into the heap.\<close>

lemma store_typed:
  fixes s :: "'a user"
  assumes ty: "typing codes s" and con: "console E s" and view: "heap_view E s M" and a: "a < E"
  shows "\<exists>s'. vstore8 a b s = Some s' \<and> typing codes s' \<and> console E s' \<and> heap_view E s' (M(a := b)) \<and> console_step E s s'"
proof -
  obtain s' where s': "vstore8 a b s = Some s'" "heap_view E s' (M(a := b))" "heap_kept E s s'"
    using vstore8_view [OF view a] by blast
  obtain m where m: "s' = s\<lparr>ram := m\<rparr>" using s'(3) by (auto simp: heap_kept_def)
  have "typing codes s'" using ty by (simp add: typing_def m)
  moreover have "screen_apart E s'"
    by (rule region_apart_change [of on_screen E s]) (use con s'(3) in \<open>auto simp: console_def heap_kept_def\<close>)
  moreover have "console_step E s s'" using s'(3) by (auto simp: console_step_def heap_kept_def disk_same_def)
  ultimately show ?thesis using s'(1,2) con m by (auto simp: console_def disp_wf_def)
qed

section \<open>The line editor\<close>

text \<open>
  The line that keys leave, from the line \<open>w\<close> on: a backspace takes the last character away, keys
  without a character do nothing. \<open>None\<close> where a backspace finds no character or the line fills
  the buffer of \<open>n\<close> bytes.
\<close>

primrec edit :: "nat \<Rightarrow> u8 list \<Rightarrow> KEYCODE list \<Rightarrow> u8 list option" where
  "edit n w [] = Some w"
| "edit n w (k # ks) =
     (if k = KEY_RETURN then None
      else if k = KEY_BACKSPACE then (if w = [] then None else edit n (butlast w) ks)
      else if keyboard_key_to_ascii k = 0 then edit n w ks
      else if Suc (length w) < n then edit n (w @ [keyboard_key_to_ascii k]) ks else None)"

definition holds :: "memory \<Rightarrow> nat \<Rightarrow> u8 list \<Rightarrow> bool" where
  "holds M p w \<longleftrightarrow> (\<forall>j < length w. M (of_nat (p + j)) = w ! j)"

definition same_outside_buffer :: "nat \<Rightarrow> nat \<Rightarrow> memory \<Rightarrow> memory \<Rightarrow> bool" where
  "same_outside_buffer p n M M' \<longleftrightarrow> (\<forall>x. \<not> (p \<le> unat x \<and> unat x < p + n) \<longrightarrow> M' x = M x)"

lemma holds_put:
  assumes "holds M p w" "p + length w < 2 ^ 32"
  shows "holds (M(of_nat (p + length w) := c)) p (w @ [c])"
proof -
  have ne: "of_nat (p + j) \<noteq> (of_nat (p + length w) :: u32)" if "j < length w" for j
  proof -
    have "unat (of_nat (p + j) :: u32) = p + j" "unat (of_nat (p + length w) :: u32) = p + length w"
      using that assms(2) by (simp_all add: unat_of_nat_small del: of_nat_add)
    then show ?thesis using that by (metis add_left_cancel nat_neq_iff)
  qed
  show ?thesis using assms(1) ne by (auto simp: holds_def nth_append less_Suc_eq simp del: of_nat_add)
qed

lemma holds_take: "holds M p w \<Longrightarrow> holds M p (take k w)"
  by (simp add: holds_def)

lemma index_word:
  assumes "p + k < unat E"
  shows "of_nat p + of_int (int k) = (of_nat (p + k) :: u32)" "(of_nat (p + k) :: u32) < E" "p + k < 2 ^ 32"
proof -
  have lt: "p + k < 2 ^ 32" using assms unat_u32_bound [of E] by simp
  then have "unat (of_nat (p + k) :: u32) = p + k" by (simp add: unat_of_nat_small del: of_nat_add)
  then show "(of_nat (p + k) :: u32) < E" using assms by (simp only: word_less_nat_alt)
qed (use assms unat_u32_bound [of E] in simp_all)

lemma wrap32_small: "- 2147483648 \<le> i \<Longrightarrow> i < 2147483648 \<Longrightarrow> wrap32 i = i"
  by (simp add: wrap32_def signed_take_bit_int_eq_self)

text \<open>One key that does not end the line.\<close>

definition key_effect :: "u32 \<Rightarrow> int \<Rightarrow> KEYCODE \<Rightarrow> 'a user \<Rightarrow> (int \<times> 'a user) option" where
  "key_effect buf i key s =
     (if key = KEY_BACKSPACE then Option.bind (vstore8 (buf + of_int i) 0 s) (\<lambda>s. Some (wrap32 (i - 1), s))
      else let c = keyboard_key_to_ascii key
           in if c \<noteq> 0 then Option.bind (vstore8 (buf + of_int i) c s) (\<lambda>s. Some (wrap32 (i + 1), s))
              else Some (i, s))"

lemma input_loop_step:
  assumes "i < len" "get_key s = Some (key, s1)" "key \<noteq> KEY_RETURN" "key_effect buf i key s1 = Some (i', s2)"
    "sleep_now 10 s2 = Some s3"
  shows "input_loop buf len i s = input_loop buf len i' s3"
  using assms by (subst input_loop.simps) (simp add: key_effect_def)

lemma input_loop_return:
  assumes "i < len" "get_key s = Some (KEY_RETURN, s')"
  shows "input_loop buf len i s = Some (i, s')"
  using assms by (subst input_loop.simps) simp

lemma key_effect_edit:
  fixes s :: "'a user"
  assumes ty: "typing codes s" and con: "console E s" and view: "heap_view E s M"
    and h: "holds M p w" and n: "length w < n" "n < 2 ^ 31" "p + n \<le> unat E" and e: "edit n w (key # ks) = Some v"
  shows "\<exists>w' s' M'. key_effect (of_nat p) (int (length w)) key s = Some (int (length w'), s') \<and> edit n w' ks = Some v \<and>
    length w' < n \<and> holds M' p w' \<and> same_outside_buffer p n M M' \<and> typing codes s' \<and> console E s' \<and> heap_view E s' M' \<and>
    console_step E s s'"
proof -
  have at: "p + length w < unat E" using n by simp
  note ix = index_word [OF at]
  have so: "same_outside_buffer p n M (M(of_nat (p + length w) := b))" for b
    using ix(3) n(1) by (auto simp: same_outside_buffer_def unat_of_nat_small simp del: of_nat_add)
  have st: "\<exists>s'. vstore8 (of_nat (p + length w)) b s = Some s' \<and> typing codes s' \<and> console E s' \<and>
    heap_view E s' (M(of_nat (p + length w) := b)) \<and> console_step E s s'" for b
    by (rule store_typed [OF ty con view ix(2)])
  consider (bs) "key = KEY_BACKSPACE" "w \<noteq> []" "edit n (butlast w) ks = Some v"
    | (none) "key \<noteq> KEY_BACKSPACE" "keyboard_key_to_ascii key = 0" "edit n w ks = Some v"
    | (char) "key \<noteq> KEY_BACKSPACE" "keyboard_key_to_ascii key \<noteq> 0" "Suc (length w) < n"
        "edit n (w @ [keyboard_key_to_ascii key]) ks = Some v"
    using e by (auto split: if_splits)
  then show ?thesis
  proof cases
    case bs
    have ho: "holds (M(of_nat (p + length w) := 0)) p (butlast w)"
      using holds_take [OF holds_put [OF h ix(3), of 0], of "length w - 1"] bs(2) by (simp add: butlast_conv_take)
    have wr: "wrap32 (int (length w) - 1) = int (length (butlast w))"
      using bs(2) n by (subst wrap32_small) (auto simp: neq_Nil_conv)
    obtain s' where s': "vstore8 (of_nat (p + length w)) 0 s = Some s'" "typing codes s'" "console E s'"
      "heap_view E s' (M(of_nat (p + length w) := 0))" "console_step E s s'"
      using st by blast
    have "key_effect (of_nat p) (int (length w)) key s = Some (int (length (butlast w)), s')"
      unfolding key_effect_def ix(1) using bs(1) s'(1) wr by (simp del: of_nat_add)
    moreover have "length (butlast w) < n" using n(1) by simp
    ultimately show ?thesis using ho so s'(2-) bs(3) by blast
  next
    case none
    have "console_step E s s" by (simp add: console_step_def)
    then show ?thesis
      using none h n(1) ty con view by (auto simp: key_effect_def Let_def same_outside_buffer_def)
  next
    case char
    let ?c = "keyboard_key_to_ascii key"
    have wr: "wrap32 (int (length w) + 1) = int (length (w @ [?c]))"
      using n by (subst wrap32_small) auto
    obtain s' where s': "vstore8 (of_nat (p + length w)) ?c s = Some s'" "typing codes s'" "console E s'"
      "heap_view E s' (M(of_nat (p + length w) := ?c))" "console_step E s s'"
      using st by blast
    have "key_effect (of_nat p) (int (length w)) key s = Some (int (length (w @ [?c])), s')"
      unfolding key_effect_def ix(1) using char(1,2) s'(1) wr by (simp del: of_nat_add)
    moreover have "length (w @ [?c]) < n" using char(3) by simp
    ultimately show ?thesis using holds_put [OF h ix(3), of ?c] so s'(2-) char(4) by blast
  qed
qed

lemma same_outside_buffer_trans:
  "same_outside_buffer p n M M' \<Longrightarrow> same_outside_buffer p n M' M'' \<Longrightarrow> same_outside_buffer p n M M''"
  by (simp add: same_outside_buffer_def)

lemma input_loop_edit:
  fixes s :: "'a user"
  assumes "list_all2 types codes ks" "typing (codes @ r # rest) s" "types r KEY_RETURN" "console E s" "heap_view E s M" "holds M p w"
    and "length w < n" "n < 2 ^ 31" "p + n \<le> unat E" "edit n w ks = Some v"
  shows "\<exists>s' M'. input_loop (of_nat p) (int n) (int (length w)) s = Some (int (length v), s') \<and> length v < n \<and> holds M' p v \<and>
    same_outside_buffer p n M M' \<and> typing rest s' \<and> console E s' \<and> heap_view E s' M' \<and> console_step E s s'"
  using assms
proof (induction codes ks arbitrary: w s M rule: list_all2_induct)
  case Nil
  have ty: "typing (r # rest) s" using Nil by simp
  obtain s' where s': "get_key s = Some (KEY_RETURN, s')" "typing rest s'" "console E s'" "heap_view E s' M" "console_step E s s'"
    using get_key_typed [OF ty Nil(3,4,2)] by blast
  have "input_loop (of_nat p) (int n) (int (length w)) s = Some (int (length w), s')"
    by (rule input_loop_return) (use Nil(6) s'(1) in auto)
  then show ?case using Nil s' by (auto simp: same_outside_buffer_def)
next
  case (Cons c codes key ks)
  have ty: "typing (c # codes @ r # rest) s" using Cons.prems(1) by simp
  obtain s1 where s1: "get_key s = Some (key, s1)" "typing (codes @ r # rest) s1" "console E s1" "heap_view E s1 M"
    "console_step E s s1" using get_key_typed [OF ty Cons.prems(3,4) Cons.hyps(1)] by blast
  obtain w' s2 M2 where s2: "key_effect (of_nat p) (int (length w)) key s1 = Some (int (length w'), s2)" "edit n w' ks = Some v"
    "length w' < n" "holds M2 p w'" "same_outside_buffer p n M M2" "typing (codes @ r # rest) s2" "console E s2" "heap_view E s2 M2"
    "console_step E s1 s2"
    using key_effect_edit [OF s1(2-4) Cons.prems(5-9)] by blast
  obtain s3 where s3: "sleep_now 10 s2 = Some s3" "typing (codes @ r # rest) s3" "console E s3" "heap_view E s3 M2"
    "console_step E s2 s3" using sleep_typed [OF s2(6-8)] by blast
  have "key \<noteq> KEY_RETURN" using Cons.prems(9) by auto
  then have step: "input_loop (of_nat p) (int n) (int (length w)) s = input_loop (of_nat p) (int n) (int (length w')) s3"
    using Cons.prems(6) by (intro input_loop_step [OF _ s1(1) _ s2(1) s3(1)]) auto
  obtain s' M' where s': "input_loop (of_nat p) (int n) (int (length w')) s3 = Some (int (length v), s')" "length v < n"
    "holds M' p v" "same_outside_buffer p n M2 M'" "typing rest s'" "console E s'" "heap_view E s' M'" "console_step E s3 s'"
    using Cons.IH [OF s3(2) Cons.prems(2) s3(3,4) s2(4,3) Cons.prems(7,8) s2(2)] by blast
  have ap: "screen_apart E s" using Cons.prems(3) by (simp add: console_def)
  note steps = console_step_trans [OF ap console_step_trans [OF ap console_step_trans [OF ap s1(5) s2(9)] s3(5)] s'(8)]
  show ?case using step s' steps same_outside_buffer_trans [OF s2(5) s'(4)] by (intro exI conjI) simp_all
qed

lemma input_cmd_run:
  fixes s :: "'a user"
  assumes "list_all2 types codes ks" and "types r KEY_RETURN" and "typing (codes @ r # rest) s" and "console E s"
    and "heap_view E s M" and "0 < n" and "n < 2 ^ 31" and "p + n \<le> unat E"
    and "edit n [] ks = Some v"
  shows "\<exists>s' M'. input_cmd (of_nat p) (int n) s = Some s' \<and> heap_view E s' M' \<and> holds M' p (v @ [0]) \<and>
    same_outside_buffer p n M M' \<and> typing rest s' \<and> console E s' \<and> console_step E s s'"
proof -
  have "holds M p []" by (simp add: holds_def)
  then obtain s1 M1 where s1: "input_loop (of_nat p) (int n) 0 s = Some (int (length v), s1)" "length v < n" "holds M1 p v"
    "same_outside_buffer p n M M1" "typing rest s1" "console E s1" "heap_view E s1 M1" "console_step E s s1"
    using input_loop_edit [OF assms(1,3,2,4,5) _ _ assms(7,8,9)] assms(6) by auto
  have at: "p + length v < unat E" using s1(2) assms(8) by simp
  note ix = index_word [OF at]
  obtain s2 where s2: "vstore8 (of_nat (p + length v)) 0 s1 = Some s2" "heap_view E s2 (M1(of_nat (p + length v) := 0))"
    "console_step E s1 s2" "typing rest s2" "console E s2" using store_typed [OF s1(5-7) ix(2), of 0] by blast
  have "input_cmd (of_nat p) (int n) s = Some s2" unfolding input_cmd_def using s1(1) s2(1) ix(1) by simp
  moreover have "same_outside_buffer p n M (M1(of_nat (p + length v) := 0))"
    using s1(2,4) ix(3) by (auto simp: same_outside_buffer_def unat_of_nat_small simp del: of_nat_add)
  moreover have "console_step E s s2"
    using console_step_trans [OF _ s1(8) s2(3)] assms(4) by (simp add: console_def)
  ultimately show ?thesis using s2 holds_put [OF s1(3) ix(3), of 0] by blast
qed

section \<open>Properties\<close>

text \<open>
  C17. When the keys of a line and then Return are typed on the console, \<open>input_cmd\<close> returns with the
  edited line and its terminator in the buffer, and changes no other byte of the heap and no memory
  outside heap and screen; the screen with its cursor, the last key, the ticks and the port history do change. The line
  stays shorter than the buffer and no backspace meets an empty line.
\<close>

theorem input_cmd_reads_line:
  fixes s :: "'a user"
  assumes "list_all2 types codes ks" and "types r KEY_RETURN" and "typing (codes @ [r]) s" and "console E s"
    and "heap_view E s M" and "0 < n" and "n < 2 ^ 31" and "p + n \<le> unat E"
    and "edit n [] ks = Some v"
  shows "\<exists>s' M'. input_cmd (of_nat p) (int n) s = Some s' \<and> heap_view E s' M' \<and> holds M' p (v @ [0]) \<and>
    same_outside_buffer p n M M' \<and> (\<forall>x. x \<notin> heap_bytes E s \<and> \<not> on_screen x \<longrightarrow> ram s' x = ram s x)"
  using input_cmd_run [OF assms] unfolding console_step_def by blast

definition demo_user :: "u8 list \<Rightarrow> user_state" where
  "demo_user codes = (stdio_state.extend demo_stdio (user_state.fields (\<lambda>_. [[Keyboard_irq]])))
     \<lparr>dev_b := \<lambda>l p. if p = KEYBOARD_STATUS then 1 else if p = KEYBOARD_DATA then codes ! key_reads l else demo_dev l p,
      int_flag := True\<rparr>"

lemma demo_user_ok:
  "typing codes (demo_user codes)" "console 4096 (demo_user codes)" "heap_view 4096 (demo_user codes) (ram (demo_user codes))"
proof -
  note defs = demo_user_def demo_stdio_def demo_heap_def demo_fat_def demo_fd_def fd_state.defs fat_state.defs heap_state.defs
    stdio_state.defs user_state.defs
  have f: "scancode (demo_user codes) = 0" "int_flag (demo_user codes)" "io_log (demo_user codes) = []"
    "dev_b (demo_user codes) = (\<lambda>l p. if p = KEYBOARD_STATUS then 1 else if p = KEYBOARD_DATA then codes ! key_reads l else demo_dev l p)"
    "dev_timer (demo_user codes) = (\<lambda>_. replicate 20 1)" "dev_input (demo_user codes) = (\<lambda>_. [[Keyboard_irq]])" "cr0 (demo_user codes) = 0"
    "cursor_x (demo_user codes) = 0" "cursor_y (demo_user codes) = 0" "cr3 (demo_user codes) = cr3 demo_stdio" "cr0 demo_stdio = 0"
    by (simp_all add: defs)
  show "typing codes (demo_user codes)" by (simp add: typing_def f sum_list_replicate)
  have t: "translate (demo_user codes) va = Some va" "translate ((demo_user codes)\<lparr>ram := m\<rparr>) va = Some va"
    "translate demo_stdio va = Some va" for va m
    using f by (simp_all add: translate_def)
  have "\<forall>x \<in> heap_bytes 4096 (demo_user codes). \<not> on_screen x"
    using demo_stdio_ok(5) by (simp add: region_apart_def heap_bytes_def t)
  then show "console 4096 (demo_user codes)" by (simp add: console_def region_apart_def t disp_wf_def f)
  show "heap_view 4096 (demo_user codes) (ram (demo_user codes))" by (simp add: heap_view_def heap_mapped_def t vload8_def)
qed

lemma demo_user_drive: "drive_ok demo_img (demo_user codes)" "drive_idle (demo_user codes)"
proof -
  let ?s = "demo_user codes"
  have f: "dev_b ?s = (\<lambda>l p. if p = KEYBOARD_STATUS then 1 else if p = KEYBOARD_DATA then codes ! key_reads l else demo_dev l p)"
    "dev_irq6 ?s = (\<lambda>_. True)" "dev_dma ?s = demo_dma demo_img" "dev_timer ?s = (\<lambda>_. replicate 20 1)" "current_drive ?s = 0" "fd_irq6_stat ?s = 0"
    by (simp_all add: demo_user_def demo_stdio_def demo_heap_def demo_fat_def demo_fd_def fd_state.defs fat_state.defs
        heap_state.defs stdio_state.defs user_state.defs)
  have g: "dev_b (demo_fd demo_img) = demo_dev" "dev_irq6 (demo_fd demo_img) = (\<lambda>_. True)" "dev_dma (demo_fd demo_img) = demo_dma demo_img"
    "dev_timer (demo_fd demo_img) = (\<lambda>_. replicate 20 1)" "current_drive (demo_fd demo_img) = 0" "fd_irq6_stat (demo_fd demo_img) = 0"
    by (simp_all add: demo_fd_def)
  note ok = demo_fd_ok [of demo_img]
  have "drive_ready ?s" using ok unfolding drive_ok_def drive_ready_def f g by simp
  moreover have "drive_seeks ?s" using ok unfolding drive_ok_def drive_seeks_def f g by auto
  moreover have "drive_reads demo_img ?s" using ok unfolding drive_ok_def drive_reads_def f g by simp
  ultimately show "drive_ok demo_img ?s" by (simp add: drive_ok_def)
  show "drive_idle ?s" using demo_fd_idle [of demo_img] by (simp add: drive_idle_def f g)
qed

theorem input_cmd_reads_line_witness:
  \<comment> \<open>a, b, backspace, Return\<close>
  "\<exists>s' M'. input_cmd (of_nat 112) (int 99) (demo_user [0x1E, 0x30, 0x0E, 0x1C]) = Some s' \<and> heap_view 4096 s' M' \<and>
     holds M' 112 [0x61, 0]"
proof -
  let ?s = "demo_user [0x1E, 0x30, 0x0E, 0x1C]"
  have k: "list_all2 types [0x1E, 0x30, 0x0E] [KEY_A, KEY_B, KEY_BACKSPACE]" "types 0x1C KEY_RETURN" by code_simp+
  have e: "edit 99 [] [KEY_A, KEY_B, KEY_BACKSPACE] = Some [0x61]" by code_simp
  have t: "typing ([0x1E, 0x30, 0x0E] @ [0x1C]) ?s" using demo_user_ok(1) by simp
  from input_cmd_reads_line [OF k t demo_user_ok(2,3) _ _ _ e, of 112] show ?thesis
    by auto
qed

text \<open>
  C39. A backspace on the empty line moves the index below the buffer: Return then stores the terminator
  in the byte before it, which belongs to the header of its heap block.
\<close>

theorem input_cmd_backspace_underflow:
  fixes s :: "'a user"
  assumes "types c KEY_BACKSPACE" and "types r KEY_RETURN" and "typing [c, r] s" and "console E s" and "heap_view E s M"
    and "0 < p" and "p < unat E" and "0 < n"
  shows "\<exists>s'. input_cmd (of_nat p) n s = Some s' \<and> heap_view E s' (M(of_nat p := 0, of_nat (p - 1) := 0))"
proof -
  have p: "of_nat p + of_int (- 1) = (of_nat (p - 1) :: u32)" using assms(6) by (simp add: of_nat_diff)
  have in1: "(of_nat p :: u32) < E" "(of_nat (p - 1) :: u32) < E"
    using index_word(2) [of p 0 E] index_word(2) [of "p - 1" 0 E] assms(6,7) by simp_all
  obtain s1 where s1: "get_key s = Some (KEY_BACKSPACE, s1)" "typing [r] s1" "console E s1" "heap_view E s1 M"
    using get_key_typed [OF assms(3-5,1)] by blast
  obtain s2 where s2: "vstore8 (of_nat p) 0 s1 = Some s2" "typing [r] s2" "console E s2" "heap_view E s2 (M(of_nat p := 0))" using store_typed [OF s1(2-4) in1(1), of 0] by blast
  obtain s3 where s3: "sleep_now 10 s2 = Some s3" "typing [r] s3" "console E s3" "heap_view E s3 (M(of_nat p := 0))"
    using sleep_typed [OF s2(2-4)] by blast
  obtain s4 where s4: "get_key s3 = Some (KEY_RETURN, s4)" "typing [] s4" "console E s4" "heap_view E s4 (M(of_nat p := 0))"
    using get_key_typed [OF s3(2-4) assms(2)] by blast
  obtain s5 where s5: "vstore8 (of_nat (p - 1)) 0 s4 = Some s5" "heap_view E s5 (M(of_nat p := 0, of_nat (p - 1) := 0))"
    using store_typed [OF s4(2-4) in1(2), of 0] by blast
  have "key_effect (of_nat p) 0 KEY_BACKSPACE s1 = Some (- 1, s2)" using s2(1) by (simp add: key_effect_def wrap32_small)
  then have "input_loop (of_nat p) n 0 s = input_loop (of_nat p) n (- 1) s3"
    using assms(8) by (intro input_loop_step [OF _ s1(1) _ _ s3(1)]) auto
  also have "\<dots> = Some (- 1, s4)" by (rule input_loop_return [OF _ s4(1)]) (use assms(8) in simp)
  finally have "input_cmd (of_nat p) n s = Some s5" unfolding input_cmd_def using s5(1) p by simp
  then show ?thesis using s5(2) by blast
qed

theorem input_cmd_backspace_underflow_witness:
  "\<exists>s'. input_cmd 112 99 (demo_user [0x0E, 0x1C]) = Some s' \<and> vload8 111 s' = Some 0"
proof -
  have k: "types 0x0E KEY_BACKSPACE" "types 0x1C KEY_RETURN" by code_simp+
  from input_cmd_backspace_underflow [OF k demo_user_ok(1-3), of 112 99] show ?thesis
    by (auto simp: heap_view_def)
qed

section \<open>Commands\<close>

lemma vstrcmp_view:
  assumes "heap_view E s M" "holds M p (w @ [0])" "p + length w < unat E" "0 \<notin> set w" "0 \<notin> set b"
  shows "\<exists>r. vstrcmp (of_nat p) (b @ [0]) s = Some r \<and> (r = 0 \<longleftrightarrow> w = b)"
  using assms(2-)
proof (induction b arbitrary: p w)
  case Nil
  have ld: "vload8 (of_nat p) s = Some ((w @ [0]) ! 0)"
    using assms(1) Nil.prems(1) index_word(2) [of p 0 E] Nil.prems(2) by (auto simp: heap_view_def holds_def)
  show ?case using ld Nil.prems(3) by (cases w) (auto dest: uint_pos)
next
  case (Cons b bs)
  have ld: "vload8 (of_nat p) s = Some ((w @ [0]) ! 0)"
    using assms(1) Cons.prems(1) index_word(2) [of p 0 E] Cons.prems(2) by (auto simp: heap_view_def holds_def)
  show ?case
  proof (cases w)
    case Nil
    then show ?thesis using ld Cons.prems(4) uint_eq [of 0 b] by auto
  next
    case w: (Cons a w')
    have "holds M (p + 1) (w' @ [0])"
      unfolding holds_def
    proof (intro allI impI)
      fix j assume "j < length (w' @ [0])"
      then show "M (of_nat (p + 1 + j)) = (w' @ [0]) ! j"
        using Cons.prems(1) [unfolded holds_def, rule_format, of "Suc j"] w by (simp add: ac_simps)
    qed
    then obtain r where "vstrcmp (of_nat (p + 1)) (bs @ [0]) s = Some r" "r = 0 \<longleftrightarrow> w' = bs"
      using Cons.IH [of "p + 1" w'] Cons.prems w by auto
    then show ?thesis using ld w Cons.prems(3) uint_eq [of a b] by (auto simp: add.commute)
  qed
qed

lemma run_cmd_line:
  assumes "heap_view E s M" and "holds M p (w @ [0])" and "p + length w < unat E" and "0 \<notin> set w"
  shows "run_cmd junk (of_nat p) s =
    (if w = map of_char ''exit'' then Some (True, s)
     else if w = map of_char ''clear'' then Some (False, clear_screen s)
     else if w = map of_char ''read'' then map_option (Pair False) (cmd_read junk s)
     else if w = map of_char ''help'' then do {
       s \<leftarrow> printf (10 # map of_char ''Supported commands:'' @ [10, 0]) [] s;
       s \<leftarrow> printf (map of_char '' - exit: quits and halts the system'' @ [10, 0]) [] s;
       s \<leftarrow> printf (map of_char '' - clear: clears the screen'' @ [10, 0]) [] s;
       s \<leftarrow> printf (map of_char '' - help: displays this message'' @ [10, 0]) [] s;
       s \<leftarrow> printf (map of_char '' - read: reads a file'' @ [10, 0]) [] s;
       Some (False, s)
     }
     else map_option (Pair False) (printf (10 # cstr ''Unknown command'') [] s))"
proof -
  have lit: "\<exists>r. vstrcmp (of_nat p) (cstr m) s = Some r \<and> (r = 0 \<longleftrightarrow> w = map of_char m)"
    if "0 \<notin> set (map of_char m :: u8 list)" for m
    unfolding cstr_def by (rule vstrcmp_view [OF assms that])
  have z: "0 \<notin> set (map of_char ''help'' :: u8 list)" "0 \<notin> set (map of_char ''exit'' :: u8 list)"
    "0 \<notin> set (map of_char ''clear'' :: u8 list)" "0 \<notin> set (map of_char ''read'' :: u8 list)" by simp_all
  obtain h e c r where cmp: "vstrcmp (of_nat p) (cstr ''help'') s = Some h" "h = 0 \<longleftrightarrow> w = map of_char ''help''"
    "vstrcmp (of_nat p) (cstr ''exit'') s = Some e" "e = 0 \<longleftrightarrow> w = map of_char ''exit''"
    "vstrcmp (of_nat p) (cstr ''clear'') s = Some c" "c = 0 \<longleftrightarrow> w = map of_char ''clear''"
    "vstrcmp (of_nat p) (cstr ''read'') s = Some r" "r = 0 \<longleftrightarrow> w = map of_char ''read''"
    using lit [OF z(1)] lit [OF z(2)] lit [OF z(3)] lit [OF z(4)] by blast
  have ne: "map of_char ''help'' \<noteq> (map of_char ''exit'' :: u8 list)" "map of_char ''help'' \<noteq> (map of_char ''clear'' :: u8 list)"
    "map of_char ''help'' \<noteq> (map of_char ''read'' :: u8 list)" by simp_all
  show ?thesis
    unfolding run_cmd_def cmp(1,3,5,7) bind.bind_lunit cmp(2,4,6,8)
    using ne by (cases "w = map of_char ''help''") (simp_all only: if_True if_False simp_thms)
qed

text \<open>
  C26. A line in the buffer selects its command: \<^verbatim>\<open>exit\<close> ends the interpreter and touches nothing,
  \<^verbatim>\<open>clear\<close> clears the screen, \<^verbatim>\<open>help\<close> prints the five lines of help, \<^verbatim>\<open>read\<close> runs \<open>cmd_read\<close>, and any other
  line, the empty one and longer ones with such a prefix included, is reported as unknown.
\<close>

theorem run_cmd_dispatch:
  assumes "heap_view E s M" and "holds M p (w @ [0])" and "p + length w < unat E" and "0 \<notin> set w"
  shows "run_cmd junk (of_nat p) s =
    (if w = map of_char ''exit'' then Some (True, s)
     else if w = map of_char ''clear'' then Some (False, clear_screen s)
     else if w = map of_char ''read'' then map_option (Pair False) (cmd_read junk s)
     else if w = map of_char ''help'' then do {
       s \<leftarrow> printf (10 # map of_char ''Supported commands:'' @ [10, 0]) [] s;
       s \<leftarrow> printf (map of_char '' - exit: quits and halts the system'' @ [10, 0]) [] s;
       s \<leftarrow> printf (map of_char '' - clear: clears the screen'' @ [10, 0]) [] s;
       s \<leftarrow> printf (map of_char '' - help: displays this message'' @ [10, 0]) [] s;
       s \<leftarrow> printf (map of_char '' - read: reads a file'' @ [10, 0]) [] s;
       Some (False, s)
     }
     else map_option (Pair False) (printf (10 # cstr ''Unknown command'') [] s))"
  by (rule run_cmd_line [OF assms])

theorem run_cmd_dispatch_witness:
  "\<exists>s :: user_state. run_cmd demo_file 112 s = Some (True, s)"
proof -
  let ?M = "(\<lambda>_. 0)(112 := 0x65, 113 := 0x78, 114 := 0x69, 115 := 0x74) :: memory"
  let ?s = "(demo_user [])\<lparr>ram := ?M\<rparr>"
  have "cr0 ?s = 0" by (simp add: demo_user_def demo_stdio_def demo_heap_def demo_fat_def demo_fd_def fd_state.defs fat_state.defs
      heap_state.defs stdio_state.defs)
  then have "translate ?s va = Some va" "translate (?s\<lparr>ram := m\<rparr>) va = Some va" for va m by (simp_all add: translate_def)
  then have v: "heap_view 4096 ?s ?M" by (simp add: heap_view_def heap_mapped_def vload8_def)
  have h: "holds ?M 112 (map of_char ''exit'' @ [0])" by (auto simp: holds_def less_Suc_eq)
  from run_cmd_dispatch [OF v h, of demo_file] show ?thesis by auto
qed

end
