(* ===== verification/Session_props.thy ===== *)
theory Session_props
  imports Userspace_props
begin

text \<open>
  A whole session of the command interpreter: on a fresh heap and a console where lines are typed that
  end with the command \<^verbatim>\<open>exit\<close>. The proof composes the allocator, the system calls, \<open>printf\<close>, the
  display, the timer, the keyboard and the line editor: each step keeps \<open>session\<close>, which says what
  the heap holds and what is still to be typed.
\<close>

unbundle bit_operations_syntax

section \<open>A session\<close>

text \<open>What stays of the state \<open>s0\<close> that a session starts in: the disk, the address space, and memory outside heap and screen.\<close>

definition since :: "u32 \<Rightarrow> 'a user \<Rightarrow> 'a user \<Rightarrow> bool" where
  "since E s0 s \<longleftrightarrow> disk_same s0 s \<and> dev_b s = dev_b s0 \<and> dev_timer s = dev_timer s0 \<and> cr0 s = cr0 s0 \<and> cr3 s = cr3 s0 \<and>
     (\<forall>va. translate s va = translate s0 va) \<and> (\<forall>x. x \<notin> heap_bytes E s0 \<and> \<not> on_screen x \<longrightarrow> ram s x = ram s0 x)"

lemma since_refl [simp]: "since E s s"
  by (simp add: since_def)

lemma since_step:
  assumes "since E s0 s" "screen_apart E s" "disk_same s t" "dev_b t = dev_b s" "dev_timer t = dev_timer s" "cr0 t = cr0 s"
    "cr3 t = cr3 s" "\<forall>x. x \<notin> heap_bytes E s \<and> \<not> on_screen x \<longrightarrow> ram t x = ram s x"
  shows "since E s0 t"
proof -
  have "heap_bytes E s = heap_bytes E s0" using assms(1) by (simp add: since_def heap_bytes_def)
  moreover have "translate t va = translate s va" for va by (rule region_apart_change [OF assms(2,6,7)]) (use assms(8) in blast)
  ultimately show ?thesis using assms disk_same_trans [of s0 s t] by (simp add: since_def)
qed

definition session :: "'a user \<Rightarrow> u32 \<Rightarrow> block list \<Rightarrow> u8 list \<Rightarrow> 'a user \<Rightarrow> bool" where
  "session s0 E bs codes s \<longleftrightarrow> heap_inv E bs s \<and> malloc_iniited s \<and> \<not> halted s \<and> console E s \<and> typing codes s \<and> since E s0 s"

lemma sessionD:
  assumes "session s0 E bs codes s"
  shows "heap_inv E bs s" "malloc_iniited s" "\<not> halted s" "screen_apart E s" "disp_wf s" "since E s0 s"
  using assms by (simp_all add: session_def console_def)

text \<open>A step that polls no device and takes no key.\<close>

definition quiet :: "'a user \<Rightarrow> 'a user \<Rightarrow> bool" where
  "quiet s t \<longleftrightarrow> idle_fields s t \<and> disp_wf t \<and> (\<exists>l. io_log t = io_log s @ l \<and> key_reads l = 0)"

lemma more_input: "stdio_state.more t = stdio_state.more s \<Longrightarrow> dev_input t = dev_input s"
  by (cases s rule: user_state.cases_scheme; cases t rule: user_state.cases_scheme) simp

lemma session_quiet:
  assumes s: "session s0 E bs codes s" and q: "quiet s t" and inv: "heap_inv E bs' t"
    and ram: "\<forall>x. x \<notin> heap_bytes E s \<and> \<not> on_screen x \<longrightarrow> ram t x = ram s x"
  shows "session s0 E bs' codes t"
proof -
  obtain l where l: "io_log t = io_log s @ l" "key_reads l = 0" using q by (auto simp: quiet_def)
  have i: "dev_b t = dev_b s" "dev_input t = dev_input s" "dev_timer t = dev_timer s" "int_flag t = int_flag s"
    "scancode t = scancode s" "cr0 t = cr0 s" "cr3 t = cr3 s" "halted t = halted s"
    "malloc_iniited t = malloc_iniited s"
    using q more_input [of t s] by (simp_all add: quiet_def idle_fields_def)
  have ty: "typing codes s" "scancode s = 0" using s by (simp_all add: session_def typing_def)
  have "typing (drop 0 codes) t" by (rule typing_later [OF ty(1) i(1-4) _ l(1)]) (use ty(2) i(5) l(2) in simp_all)
  moreover have "screen_apart E t" by (rule region_apart_change [OF sessionD(4) [OF s] i(6,7)]) (use ram in blast)
  moreover have "since E s0 t"
    by (rule since_step [OF sessionD(6,4) [OF s]]) (use q i ram in \<open>simp_all add: quiet_def idle_fields_def\<close>)
  ultimately show ?thesis using s q i(8,9) inv by (simp add: session_def console_def quiet_def)
qed

lemma quiet_kept:
  assumes "heap_kept E s t" "disp_wf s"
  shows "quiet s t"
  using heap_only_kept [OF assms(1)] assms(2) by (simp add: quiet_def heap_only_def disp_wf_def)

lemma chars_log: "disp_wf s \<Longrightarrow> \<exists>l. io_log (fold print_char v s) = io_log s @ l \<and> key_reads l = 0"
proof (induction v arbitrary: s)
  case (Cons c v)
  obtain l where l: "io_log (fold print_char v (print_char c s)) = io_log (print_char c s) @ l" "key_reads l = 0"
    using Cons print_char_effect(1) by blast
  then show ?case using print_char_effect(3) [OF Cons.prems, of c]
    by (intro exI [of _ "cursor_events (get_cursor_location (print_char c s)) @ l"]) (simp add: cursor_events_def)
qed simp

section \<open>Its steps\<close>

lemma formatted_plain: "of_char CHR ''%'' \<notin> set fmt \<Longrightarrow> formatted fmt args = Some fmt"
  by (induction fmt args rule: formatted.induct) auto

definition plain :: "u8 list \<Rightarrow> bool" where
  "plain fmt \<longleftrightarrow> 0 \<notin> set fmt \<and> of_char CHR ''%'' \<notin> set fmt \<and> length fmt < 256"

lemma session_format:
  fixes s :: "'a user"
  assumes s: "session s0 E bs codes s" and bs: "snd (last bs)"
    "fst (bs ! stops_at 256 bs) = 256 \<and> Suc (stops_at 256 bs) < length bs \<or> 256 + 12 \<le> fst (bs ! stops_at 256 bs)"
    and f: "formatted fmt args = Some v" "0 \<notin> set fmt" "length v < 256" "0 \<notin> set v"
  shows "\<exists>s'. printf (fmt @ [0]) args s = Some s' \<and> session s0 E (free_blocks (stops_at 256 bs) (alloc_blocks 256 bs)) codes s'"
proof -
  note d = sessionD [OF s]
  obtain s' where s': "printf (fmt @ [0]) args s = Some s'" "same_screen (fold print_char v s) s'"
    "heap_inv E (free_blocks (stops_at 256 bs) (alloc_blocks 256 bs)) s'" "idle_fields s s'"
    "\<forall>x. x \<notin> heap_bytes E s \<and> \<not> on_screen x \<longrightarrow> ram s' x = ram s x"
    using printf_run [OF d(1-3) bs d(4,5) f] by blast
  have "shown s s" using d(5) by (simp add: shown_def screen_change_def)
  then have "disp_wf (fold print_char v s)" using shown_chars [of s s v] by (simp add: shown_def)
  then have "quiet s s'" using s'(2,4) chars_log [OF d(5), of v] by (simp add: quiet_def same_screen_def same_picture_def disp_wf_def)
  then show ?thesis using session_quiet [OF s _ s'(3,5)] s'(1) by blast
qed

lemma session_printf:
  fixes s :: "'a user"
  assumes s: "session s0 E bs codes s" and bs: "snd (last bs)"
    "fst (bs ! stops_at 256 bs) = 256 \<and> Suc (stops_at 256 bs) < length bs \<or> 256 + 12 \<le> fst (bs ! stops_at 256 bs)"
    and fmt: "plain fmt"
  shows "\<exists>s'. printf (fmt @ [0]) [] s = Some s' \<and> session s0 E (free_blocks (stops_at 256 bs) (alloc_blocks 256 bs)) codes s'"
  by (rule session_format [OF s bs]) (use fmt formatted_plain in \<open>auto simp: plain_def\<close>)

lemma session_kept:
  assumes "session s0 E bs codes s" "heap_kept E s t" "heap_inv E bs' t"
  shows "session s0 E bs' codes t"
  by (rule session_quiet [OF assms(1) quiet_kept [OF assms(2) sessionD(5) [OF assms(1)]] assms(3)])
    (use assms(2) in \<open>simp add: heap_kept_def\<close>)

lemma session_malloc:
  assumes s: "session s0 E bs codes s" and sz: "0 < sz" "sz < 2 ^ 32"
    and fits: "fst (bs ! stops_at sz bs) = sz \<or> sz + 12 \<le> fst (bs ! stops_at sz bs)"
  shows "\<exists>s'. malloc (of_nat sz) s = Some (of_nat (block_at bs (stops_at sz bs) + 12), s') \<and> session s0 E (alloc_blocks sz bs) codes s'"
  using malloc_call [OF sessionD(1) [OF s] sz fits sessionD(2,3) [OF s]] session_kept [OF s] by blast

lemma session_free:
  assumes "session s0 E bs codes s" "i < length bs"
  shows "\<exists>s'. free (of_nat (block_at bs i + 12)) s = Some s' \<and> session s0 E (free_blocks i bs) codes s'"
  using free_call [OF sessionD(1) [OF assms(1)] assms(2) sessionD(3) [OF assms(1)]] session_kept [OF assms(1)] by blast

text \<open>A step that writes into a block the program holds.\<close>

lemma heap_inv_data:
  assumes inv: "heap_inv E bs s" and view: "heap_view E s M" "heap_view E t M'" "malloc_list_head t = malloc_list_head s"
    and i: "i < length bs" and same: "\<And>x. \<not> (block_at bs i + 12 \<le> unat x \<and> unat x < block_at bs i + 12 + fst (bs ! i)) \<Longrightarrow> M' x = M x"
  shows "heap_inv E bs t"
proof -
  obtain N where N: "heap_view E s N" "chain N 0 bs 0" "malloc_list_head s = 0" "bs \<noteq> []" "0 < fst (hd bs)"
    "extent bs \<le> unat E" "extent bs < 2 ^ 32" by (rule heap_invE [OF inv])
  have eq: "N x = M x" if "x < E" for x using N(1) view(1) that by (simp add: heap_view_def)
  have "chain (\<lambda>x. if x < E then M' x else N x) 0 bs 0"
    by (rule chain_data [OF N(2) i N(7)]) (use same eq in auto)
  moreover have "heap_view E t (\<lambda>x. if x < E then M' x else N x)" using view(2) by (simp add: heap_view_def)
  ultimately show ?thesis using N view(3) by (auto simp: heap_inv_def)
qed

lemma session_memset:
  fixes s :: "'a user"
  assumes s: "session s0 E bs codes s" and i: "i < length bs" "unat n \<le> fst (bs ! i)"
  shows "\<exists>s'. vmemset (of_nat (block_at bs i + 12)) b n s = Some s' \<and> session s0 E bs codes s'"
proof -
  obtain M where M: "heap_view E s M" "chain M 0 bs 0" "extent bs \<le> unat E" by (rule heap_invE [OF sessionD(1) [OF s]])
  let ?p = "block_at bs i + 12" and ?M = "written M (block_at bs i + 12) (replicate (unat n) b)"
  have "?p + unat n \<le> unat E" using heap_block(3) [OF M(2) i(1)] i(2) M(3) by simp
  then obtain s' where s': "vmemset (of_nat ?p) b n s = Some s'" "heap_view E s' ?M" "heap_kept E s s'"
    using vmemset_view [OF M(1)] by blast
  have "heap_inv E bs s'"
    by (rule heap_inv_data [OF sessionD(1) [OF s] M(1) s'(2) heap_kept_head [OF s'(3)] i(1)])
      (use i(2) in \<open>simp add: written_outside [of _ "fst (bs ! i)"]\<close>)
  then show ?thesis using s'(1) session_kept [OF s s'(3)] by blast
qed

section \<open>A line\<close>

text \<open>The scan codes that type a line and its Return.\<close>

definition types_line :: "u8 list \<Rightarrow> u8 list \<Rightarrow> bool" where
  "types_line codes w \<longleftrightarrow> (\<exists>cs ks r. codes = cs @ [r] \<and> list_all2 types cs ks \<and> types r KEY_RETURN \<and> edit 99 [] ks = Some w)"

lemma edit_no_zero: "edit n w ks = Some v \<Longrightarrow> 0 \<notin> set w \<Longrightarrow> 0 \<notin> set v \<and> (length w < n \<longrightarrow> length v < n)"
proof (induction ks arbitrary: w)
  case (Cons k ks)
  have b: "0 \<notin> set (butlast w)" using Cons.prems(2) in_set_butlastD by metis
  from Cons.prems show ?case
    using Cons.IH [of "butlast w"] Cons.IH [of w] Cons.IH [of "w @ [keyboard_key_to_ascii k]"] b
    by (auto simp: less_imp_diff_less split: if_splits)
qed simp

lemma session_input:
  fixes s :: "'a user"
  assumes s: "session s0 E bs (codes @ rest) s" and line: "types_line codes w" and i: "i < length bs" "99 \<le> fst (bs ! i)"
  defines "p \<equiv> block_at bs i + 12"
  shows "\<exists>s' M. input_cmd (of_nat p) 99 s = Some s' \<and> session s0 E bs rest s' \<and> heap_view E s' M \<and> holds M p (w @ [0]) \<and>
    0 \<notin> set w \<and> p + length w < unat E"
proof -
  obtain cs ks r where l: "codes = cs @ [r]" "list_all2 types cs ks" "types r KEY_RETURN" "edit 99 [] ks = Some w"
    using line by (auto simp: types_line_def)
  have w: "0 \<notin> set w" "length w < 99" using edit_no_zero [OF l(4)] by simp_all
  obtain M where M: "heap_view E s M" "chain M 0 bs 0" "extent bs \<le> unat E" by (rule heap_invE [OF sessionD(1) [OF s]])
  have room: "p + 99 \<le> unat E" using heap_block(3) [OF M(2) i(1)] i(2) M(3) by (simp add: p_def)
  have ty: "typing (cs @ r # rest) s" "console E s" using s by (simp_all add: session_def l(1))
  obtain s' M' where s': "input_cmd (of_nat p) (int 99) s = Some s'" "heap_view E s' M'" "holds M' p (w @ [0])"
    "same_outside_buffer p 99 M M'" "typing rest s'" "console E s'" "console_step E s s'"
    using input_cmd_run [OF l(2,3) ty(1,2) M(1) _ _ room l(4)] by auto
  have st: "malloc_list_head s' = malloc_list_head s" "malloc_iniited s' = malloc_iniited s" "halted s' = halted s"
    using s'(7) by (simp_all add: console_step_def)
  have "heap_inv E bs s'"
    by (rule heap_inv_data [OF sessionD(1) [OF s] M(1) s'(2) st(1) i(1)])
      (use i(2) s'(4) in \<open>auto simp: same_outside_buffer_def p_def\<close>)
  moreover have "since E s0 s'"
    by (rule since_step [OF sessionD(6,4) [OF s]]) (use s'(7) in \<open>simp_all add: console_step_def\<close>)
  ultimately have "session s0 E bs rest s'" using s'(5,6) st(2,3) sessionD(2,3) [OF s] by (simp add: session_def)
  then show ?thesis using s'(1-3) w room by auto
qed

section \<open>Commands\<close>

lemma session_clear:
  assumes s: "session s0 E bs codes s"
  shows "session s0 E bs codes (clear_screen s)"
proof -
  note sh = shown_clear [of s]
  obtain M where M: "heap_view E s M" "chain M 0 bs 0" "malloc_list_head s = 0" "bs \<noteq> []" "0 < fst (hd bs)"
    "extent bs \<le> unat E" by (rule heap_invE [OF sessionD(1) [OF s]])
  have i: "idle_fields s (clear_screen s)" by (rule shown_idle [OF sh])
  have "\<exists>l. io_log (clear_screen s) = io_log s @ l \<and> key_reads l = 0"
    using clear_screen_log [of s] by (auto simp: cursor_events_def)
  then have "quiet s (clear_screen s)" using i sh by (simp add: quiet_def shown_def)
  moreover have "heap_inv E bs (clear_screen s)"
    using shown_view(2) [OF sessionD(4) [OF s] sh M(1)] M i by (auto simp: heap_inv_def idle_fields_def)
  ultimately show ?thesis by (rule session_quiet [OF s]) (use sh in \<open>simp add: shown_def\<close>)
qed

text \<open>The blocks once the interpreter has its buffer, and \<open>printf\<close> has a block to use again and again.\<close>

definition shell_blocks :: "nat \<Rightarrow> bool \<Rightarrow> block list" where
  "shell_blocks n f = [(99, f), (145, True), (256, True), (n, True)]"

lemma shell_printf:
  assumes "session s0 E (shell_blocks n f) codes s" "plain fmt"
  shows "\<exists>s'. printf (fmt @ [0]) [] s = Some s' \<and> session s0 E (shell_blocks n f) codes s'"
proof -
  have "stops_at 256 (shell_blocks n f) = 2" by (simp add: shell_blocks_def)
  then show ?thesis using session_printf [OF assms(1) _ _ assms(2)]
    by (simp add: alloc_at_def free_blocks_def shell_blocks_def Let_def numeral_2_eq_2)
qed

lemma plain_help:
  "plain (10 # map of_char ''Supported commands:'' @ [10])" "plain (map of_char '' - exit: quits and halts the system'' @ [10])"
  "plain (map of_char '' - clear: clears the screen'' @ [10])" "plain (map of_char '' - help: displays this message'' @ [10])"
  "plain (map of_char '' - read: reads a file'' @ [10])" "plain (10 # map of_char ''Unknown command'')" "plain (10 # map of_char ''cmd />'')"
  by (simp_all add: plain_def)

lemma shell_command:
  fixes s :: "'a user"
  assumes s: "session s0 E (shell_blocks n False) codes s" and line: "heap_view E s M" "holds M p (w @ [0])" "p + length w < unat E" "0 \<notin> set w"
    and w: "w \<noteq> map of_char ''exit''" "w \<noteq> map of_char ''read''"
  shows "\<exists>s'. run_cmd junk (of_nat p) s = Some (False, s') \<and> session s0 E (shell_blocks n False) codes s'"
proof -
  note run = run_cmd_line [OF line, of junk]
  consider (clear) "w = map of_char ''clear''" | (usage) "w = map of_char ''help''" | (unknown) "w \<noteq> map of_char ''clear''" "w \<noteq> map of_char ''help''"
    by blast
  then show ?thesis
  proof cases
    case clear
    then show ?thesis using session_clear [OF s] run w by simp
  next
    case usage
    obtain s1 where s1: "printf (10 # map of_char ''Supported commands:'' @ [10, 0]) [] s = Some s1" "session s0 E (shell_blocks n False) codes s1"
      using shell_printf [OF s plain_help(1)] by auto
    obtain s2 where s2: "printf (map of_char '' - exit: quits and halts the system'' @ [10, 0]) [] s1 = Some s2"
      "session s0 E (shell_blocks n False) codes s2" using shell_printf [OF s1(2) plain_help(2)] by auto
    obtain s3 where s3: "printf (map of_char '' - clear: clears the screen'' @ [10, 0]) [] s2 = Some s3"
      "session s0 E (shell_blocks n False) codes s3" using shell_printf [OF s2(2) plain_help(3)] by auto
    obtain s4 where s4: "printf (map of_char '' - help: displays this message'' @ [10, 0]) [] s3 = Some s4"
      "session s0 E (shell_blocks n False) codes s4" using shell_printf [OF s3(2) plain_help(4)] by auto
    obtain s5 where s5: "printf (map of_char '' - read: reads a file'' @ [10, 0]) [] s4 = Some s5"
      "session s0 E (shell_blocks n False) codes s5" using shell_printf [OF s4(2) plain_help(5)] by auto
    have ne: "map of_char ''help'' \<noteq> (map of_char ''clear'' :: u8 list)" by simp
    show ?thesis
      unfolding run using s1(1) s2(1) s3(1) s4(1) s5 usage w ne
      by (simp only: if_False if_True bind.bind_lunit simp_thms) blast
  next
    case unknown
    obtain s1 where "printf (10 # cstr ''Unknown command'') [] s = Some s1" "session s0 E (shell_blocks n False) codes s1"
      using shell_printf [OF s plain_help(6)] by (auto simp: cstr_def)
    then show ?thesis unfolding run using unknown w by simp
  qed
qed

section \<open>The interpreter\<close>

text \<open>The first prompt splits the last block, the others find the block it left.\<close>

definition shell_ready :: "nat \<Rightarrow> block list \<Rightarrow> bool" where
  "shell_ready n bs \<longleftrightarrow> bs = shell_blocks n False \<or> bs = [(99, False), (145, True), (n + 268, True)]"

lemma shell_prompt:
  assumes "session s0 E bs codes s" "shell_ready n bs"
  shows "\<exists>s'. cmd s = Some s' \<and> session s0 E (shell_blocks n False) codes s'"
  using assms(2) unfolding shell_ready_def
proof
  assume "bs = shell_blocks n False"
  then show ?thesis using shell_printf [OF _ plain_help(7), of s0 E n False codes s] assms(1) by (simp add: cmd_def cstr_def)
next
  assume bs: "bs = [(99, False), (145, True), (n + 268, True)]"
  then show ?thesis using session_printf [OF assms(1) _ _ plain_help(7)]
    by (auto simp: cmd_def cstr_def alloc_at_def free_blocks_def shell_blocks_def)
qed

text \<open>The prompt, a line, and what is run.\<close>

lemma shell_line:
  fixes s :: "'a user"
  assumes s: "session s0 E bs (codes @ rest) s" "shell_ready n bs" and line: "types_line codes w"
  shows "\<exists>s' M. session s0 E (shell_blocks n False) rest s' \<and> heap_view E s' M \<and> holds M 12 (w @ [0]) \<and> 0 \<notin> set w \<and>
    12 + length w < unat E \<and>
    run_loop junk 12 s = run_cmd junk (of_nat 12) s' \<bind> (\<lambda>(quit, s). if quit then Some s else run_loop junk 12 s)"
proof -
  have i: "0 < length (shell_blocks n False)" "99 \<le> fst (shell_blocks n False ! 0)" "block_at (shell_blocks n False) 0 = 0"
    and b: "0 < length bs" "99 \<le> fst (bs ! 0)" "block_at bs 0 = 0"
    using s(2) by (auto simp: shell_ready_def shell_blocks_def block_at_def)
  obtain s1 where s1: "vmemset 12 0 99 s = Some s1" "session s0 E bs (codes @ rest) s1"
    using session_memset [OF s(1) b(1), of 99 0] b by auto
  obtain s2 where s2: "cmd s1 = Some s2" "session s0 E (shell_blocks n False) (codes @ rest) s2"
    using shell_prompt [OF s1(2) s(2)] by blast
  obtain s3 M where s3: "input_cmd 12 99 s2 = Some s3" "session s0 E (shell_blocks n False) rest s3" "heap_view E s3 M"
    "holds M 12 (w @ [0])" "0 \<notin> set w" "12 + length w < unat E"
    using session_input [OF s2(2) line i(1,2)] i(3) by auto
  have "run_loop junk 12 s = run_cmd junk (of_nat 12) s3 \<bind> (\<lambda>(quit, s). if quit then Some s else run_loop junk 12 s)"
    using s1(1) s2(1) s3(1) by (subst run_loop.simps) simp
  then show ?thesis using s3(2-) by blast
qed

text \<open>The commands before the last one.\<close>

lemma shell_lines:
  fixes s :: "'a user"
  assumes "list_all2 types_line lines ws" "session s0 E bs (concat lines @ rest) s" "shell_ready n bs"
    and "\<forall>w \<in> set ws. w \<noteq> map of_char ''exit'' \<and> w \<noteq> map of_char ''read''"
  shows "\<exists>s' bs'. run_loop junk 12 s = run_loop junk 12 s' \<and> session s0 E bs' rest s' \<and> shell_ready n bs'"
  using assms
proof (induction lines ws arbitrary: bs s rule: list_all2_induct)
  case (Cons codes lines w ws)
  have s: "session s0 E bs (codes @ concat lines @ rest) s" using Cons.prems(1) by simp
  obtain s1 M where s1: "session s0 E (shell_blocks n False) (concat lines @ rest) s1" "heap_view E s1 M" "holds M 12 (w @ [0])"
    "0 \<notin> set w" "12 + length w < unat E"
    "run_loop junk 12 s = run_cmd junk (of_nat 12) s1 \<bind> (\<lambda>(quit, s). if quit then Some s else run_loop junk 12 s)"
    using shell_line [OF s Cons.prems(2) Cons.hyps(1), of junk] by blast
  obtain s2 where s2: "run_cmd junk (of_nat 12) s1 = Some (False, s2)" "session s0 E (shell_blocks n False) (concat lines @ rest) s2"
    using shell_command [OF s1(1-3,5,4), of junk] Cons.prems(3) by auto
  have "\<forall>w \<in> set ws. w \<noteq> map of_char ''exit'' \<and> w \<noteq> map of_char ''read''" using Cons.prems(3) by simp
  then show ?case using Cons.IH [OF s2(2)] s1(6) s2(1) by (simp add: shell_ready_def)
qed auto

lemma plain_session:
  "plain (butlast logo)" "logo = butlast logo @ [0]"
  "plain (10 # map of_char ''Type \"exit\" to quit, \"help\" for a list of commands'' @ [10])"
  "plain (10 # map of_char ''Exit command received; program halted'')"
  by (simp_all add: plain_def logo_def)

text \<open>The start of a session: its first text splits the fresh heap, and the second reuses the block.\<close>

lemma shell_start:
  fixes s :: "'a user"
  assumes s: "session s0 E [(n, True)] codes s" and n: "536 \<le> n"
  shows "\<exists>s1 s2 s3. printf logo [] s = Some s1 \<and>
    printf (10 # map of_char ''Type \"exit\" to quit, \"help\" for a list of commands'' @ [10, 0]) [] s1 = Some s2 \<and>
    malloc 99 s2 = Some (12, s3) \<and> session s0 E [(99, False), (145, True), (n - 268, True)] codes s3"
proof -
  obtain s1 where s1: "printf logo [] s = Some s1" "session s0 E [(256, True), (n - 268, True)] codes s1"
    using session_printf [OF s _ _ plain_session(1)] n plain_session(2) by (auto simp: alloc_at_def free_blocks_def)
  obtain s2 where s2: "printf (10 # map of_char ''Type \"exit\" to quit, \"help\" for a list of commands'' @ [10, 0]) [] s1 = Some s2"
    "session s0 E [(256, True), (n - 268, True)] codes s2"
    using session_printf [OF s1(2) _ _ plain_session(3)] by (auto simp: alloc_at_def free_blocks_def)
  obtain s3 where s3: "malloc 99 s2 = Some (12, s3)" "session s0 E [(99, False), (145, True), (n - 268, True)] codes s3"
    using session_malloc [OF s2(2), of 99] by (auto simp: alloc_at_def block_at_def)
  show ?thesis using s1(1) s2(1) s3 by blast
qed

text \<open>A session up to its last line.\<close>

lemma session_last_line:
  fixes s :: "'a user"
  assumes s: "session s0 E [(n, True)] (concat lines) s" and n: "536 \<le> n"
    and lines: "list_all2 types_line lines (ws @ [w])" "\<forall>w \<in> set ws. w \<noteq> map of_char ''exit'' \<and> w \<noteq> map of_char ''read''"
  obtains s' M where "session s0 E (shell_blocks (n - 536) False) [] s'" "heap_view E s' M" "holds M 12 (w @ [0])" "0 \<notin> set w"
    "12 + length w < unat E"
    "userspace junk s = do {
       (quit, s) \<leftarrow> run_cmd junk (of_nat 12) s';
       s \<leftarrow> (if quit then Some s else run_loop junk 12 s);
       s \<leftarrow> free 12 s;
       s \<leftarrow> printf (10 # cstr ''Exit command received; program halted'') [] s;
       exit 0 s }"
proof -
  let ?m = "n - 536"
  obtain ls l where l: "lines = ls @ [l]" "list_all2 types_line ls ws" "types_line l w"
    using lines(1) by (auto simp: list_all2_append2 list_all2_Cons2)
  obtain s1 s2 s3 where start: "printf logo [] s = Some s1"
    "printf (10 # map of_char ''Type \"exit\" to quit, \"help\" for a list of commands'' @ [10, 0]) [] s1 = Some s2"
    "malloc 99 s2 = Some (12, s3)" "session s0 E [(99, False), (145, True), (n - 268, True)] (concat lines) s3"
    using shell_start [OF s n] by blast
  have "shell_ready ?m [(99, False), (145, True), (n - 268, True)]" using n by (simp add: shell_ready_def)
  moreover have "session s0 E [(99, False), (145, True), (n - 268, True)] (concat ls @ l) s3" using start(4) l(1) by simp
  ultimately obtain s4 bs where s4: "run_loop junk 12 s3 = run_loop junk 12 s4" "session s0 E bs (l @ []) s4" "shell_ready ?m bs"
    using shell_lines [OF l(2) _ _ lines(2), of s0 E _ l s3 ?m junk] unfolding append_Nil2 by blast
  obtain s5 M where s5: "session s0 E (shell_blocks ?m False) [] s5" "heap_view E s5 M" "holds M 12 (w @ [0])" "0 \<notin> set w"
    "12 + length w < unat E"
    "run_loop junk 12 s4 = run_cmd junk (of_nat 12) s5 \<bind> (\<lambda>(quit, s). if quit then Some s else run_loop junk 12 s)"
    using shell_line [OF s4(2,3) l(3), of junk] by blast
  have "userspace junk s = do {
      (quit, s) \<leftarrow> run_cmd junk (of_nat 12) s5;
      s \<leftarrow> (if quit then Some s else run_loop junk 12 s);
      s \<leftarrow> free 12 s;
      s \<leftarrow> printf (10 # cstr ''Exit command received; program halted'') [] s;
      exit 0 s }"
    using start(1-3) s4(1) s5(6) by (cases "run_cmd junk (of_nat 12) s5") (auto simp: userspace_def run_def)
  with that [OF s5(1-5)] show thesis by blast
qed

lemma session_run:
  fixes s :: "'a user"
  assumes s: "session s0 E [(n, True)] (concat lines) s" "536 \<le> n"
    and lines: "list_all2 types_line lines (ws @ [map of_char ''exit''])"
      "\<forall>w \<in> set ws. w \<noteq> map of_char ''exit'' \<and> w \<noteq> map of_char ''read''"
  shows "\<exists>s' bs. userspace junk s = Some (- 1, s') \<and> \<not> halted s' \<and> console E s' \<and> heap_inv E bs s' \<and> held_at 0 bs = {}"
proof -
  let ?m = "n - 536"
  obtain s4 M where s4: "session s0 E (shell_blocks ?m False) [] s4"
    and line: "heap_view E s4 M" "holds M 12 (map of_char ''exit'' @ [0])" "0 \<notin> set (map of_char ''exit'' :: u8 list)"
      "12 + length (map of_char ''exit'' :: u8 list) < unat E"
    and us: "userspace junk s = do {
       (quit, s) \<leftarrow> run_cmd junk (of_nat 12) s4;
       s \<leftarrow> (if quit then Some s else run_loop junk 12 s);
       s \<leftarrow> free 12 s;
       s \<leftarrow> printf (10 # cstr ''Exit command received; program halted'') [] s;
       exit 0 s }"
    by (rule session_last_line [OF s lines])
  have quit: "run_cmd junk (of_nat 12) s4 = Some (True, s4)" using run_cmd_line [OF line(1,2,4,3), of junk] by simp
  obtain s5 where s5: "free 12 s4 = Some s5" "session s0 E (shell_blocks ?m True) [] s5"
    using session_free [OF s4, of 0] by (auto simp: shell_blocks_def block_at_def free_blocks_def)
  obtain s6 where s6: "printf (10 # cstr ''Exit command received; program halted'') [] s5 = Some s6" "session s0 E (shell_blocks ?m True) [] s6"
    using shell_printf [OF s5(2) plain_session(4)] by (auto simp: cstr_def)
  have "exit 0 s6 = Some (- 1, s6)"
    using call_refused [OF sessionD(3) [OF s6(2)], of "call_regs SYSCALL_EXIT 0"] by (simp add: exit_def call_regs_def)
  then have "userspace junk s = Some (- 1, s6)" unfolding us quit using s5(1) s6(1) by simp
  moreover have "held_at 0 (shell_blocks ?m True) = {}" by (simp add: shell_blocks_def)
  ultimately show ?thesis using s6(2) by (auto simp: session_def)
qed

lemma demo_user_heap:
  "heap_inv 4096 [(1000, True)] (demo_user codes)" "malloc_iniited (demo_user codes)" "\<not> halted (demo_user codes)"
proof -
  note defs = demo_user_def demo_stdio_def demo_heap_def demo_fat_def demo_fd_def fd_state.defs fat_state.defs heap_state.defs
    stdio_state.defs user_state.defs
  have f: "cr0 (demo_user codes) = 0" "malloc_list_head (demo_user codes) = 0"
    "ram (demo_user codes) = put_header (\<lambda>_. 0) 0 (1000, True) 0"
    by (simp_all add: defs)
  show "malloc_iniited (demo_user codes)" "\<not> halted (demo_user codes)" by (simp_all add: defs)
  show "heap_inv 4096 [(1000, True)] (demo_user codes)"
    by (rule heap_inv_flat) (use header_put_header [of 0 "\<lambda>_. 0" "(1000, True)" 0] in \<open>simp_all add: f\<close>)
qed

text \<open>h, e, l, l, backspace, p, Return; x, Return; e, x, i, t, Return.\<close>

definition demo_lines :: "u8 list list" where
  "demo_lines = [[0x23, 0x12, 0x26, 0x26, 0x0E, 0x19, 0x1C], [0x2D, 0x1C], [0x12, 0x2D, 0x17, 0x14, 0x1C]]"

lemma demo_lines_typed: "list_all2 types_line demo_lines ([map of_char ''help'', map of_char ''x''] @ [map of_char ''exit''])"
proof -
  have "types_line (cs @ [0x1C]) w" if "list_all2 types cs ks" "edit 99 [] ks = Some w" for cs ks w
  proof -
    have "types 0x1C KEY_RETURN" by code_simp
    then show ?thesis using that unfolding types_line_def by blast
  qed
  note line = this
  have "types_line ([0x23, 0x12, 0x26, 0x26, 0x0E, 0x19] @ [0x1C]) (map of_char ''help'')"
    by (rule line [of _ "[KEY_H, KEY_E, KEY_L, KEY_L, KEY_BACKSPACE, KEY_P]"]; code_simp)
  moreover have "types_line ([0x2D] @ [0x1C]) (map of_char ''x'')" by (rule line [of _ "[KEY_X]"]; code_simp)
  moreover have "types_line ([0x12, 0x2D, 0x17, 0x14] @ [0x1C]) (map of_char ''exit'')"
    by (rule line [of _ "[KEY_E, KEY_X, KEY_I, KEY_T]"]; code_simp)
  ultimately show ?thesis by (simp add: demo_lines_def)
qed



end
