(* ===== verification/Boot_props.thy ===== *)
theory Boot_props
  imports Kernel_props Session_props Heap_grow
begin

text \<open>
  The whole of \<open>kmain\<close>: the memory managers, descriptor tables, interrupt controllers, timer, floppy
  driver and file system in the order in which the kernel starts them. What one of them leaves alone is what the
  others rely on.
\<close>

unbundle bit_operations_syntax

section \<open>Steps of the boot sequence\<close>

text \<open>Port accesses other than to the floppy controller's data port and the keyboard.\<close>

definition ports_only :: "'a machine_scheme \<Rightarrow> 'a machine_scheme \<Rightarrow> bool" where
  "ports_only s t \<longleftrightarrow> (\<exists>l. t = s\<lparr>io_log := io_log s @ l\<rparr> \<and> key_reads l = 0 \<and> fifo_out l = [])"

lemma ports_only_trans: "ports_only s t \<Longrightarrow> ports_only t u \<Longrightarrow> ports_only s u"
  unfolding ports_only_def by (elim exE conjE) (rule_tac x = "l @ la" in exI, simp)

lemma ports_only_out: "p \<noteq> 0x3F5 \<Longrightarrow> ports_only s (outb p v s)"
  unfolding ports_only_def by (rule exI [of _ "[Out_b p v]"]) (simp add: outb_def)

lemma ports_only_in: "p \<noteq> KEYBOARD_DATA \<Longrightarrow> ports_only s (snd (inb p s))"
  unfolding ports_only_def by (rule exI [of _ "[In_b p (fst (inb p s))]"]) (simp add: inb_def Let_def)

lemma ports_only_mask: "irq < 8 \<Longrightarrow> ports_only s (clear_irq_mask irq s)"
  unfolding clear_irq_mask_def pic_line_def
  by (auto simp: split_beta Let_def intro!: ports_only_trans [OF ports_only_in ports_only_out])

lemma ports_only_unmasked: "ports_only s (unmasked s)"
proof -
  have "ports_only s (disable_pic s)"
    unfolding disable_pic_def by (rule ports_only_trans [OF ports_only_out ports_only_out]) simp_all
  moreover have "ports_only t (pic_init t)" for t :: "'a machine_scheme"
    unfolding pic_init_def
    by (simp add: split_beta Let_def) (intro ports_only_trans [OF _ ports_only_out] ports_only_trans [OF _ ports_only_in] ports_only_in, simp_all)
  ultimately show ?thesis
    unfolding unmasked_def by (intro ports_only_trans [OF _ ports_only_mask]) (auto intro: ports_only_trans)
qed

text \<open>A step of the memory manager changes its bitmap and its variables.\<close>

definition pmm_only :: "'a pmm \<Rightarrow> 'a pmm \<Rightarrow> bool" where
  "pmm_only s t \<longleftrightarrow> io_log t = io_log s \<and> dev_b t = dev_b s \<and> cr0 t = cr0 s \<and> cr3 t = cr3 s \<and> int_flag t = int_flag s \<and>
     halted t = halted s \<and> cursor_x t = cursor_x s \<and> cursor_y t = cursor_y s \<and> pmm_state.more t = pmm_state.more s"

lemma pmm_only_refl: "pmm_only s s"
  by (simp add: pmm_only_def)

lemma pmm_only_trans: "pmm_only s t \<Longrightarrow> pmm_only t u \<Longrightarrow> pmm_only s u"
  by (simp add: pmm_only_def)

lemma pmm_only_used: "pmm_only s (t\<lparr>used_blocks := u\<rparr>) = pmm_only s t" "pmm_only s (t\<lparr>ram := m\<rparr>) = pmm_only s t"
  by (simp_all add: pmm_only_def)

lemma pmm_only_bits: "pmm_only s t \<Longrightarrow> pmm_only s (mmap_set b t)" "pmm_only s t \<Longrightarrow> pmm_only s (mmap_unset b t)"
  by (simp_all add: pmm_only_used mmap_set_def mmap_unset_def)

lemma pmm_only_alloc: "pmm_only s (snd (pmmngr_alloc_blocks n s))"
proof (cases n s rule: alloc_blocks_cases)
  case (ok b)
  have "pmm_only s (for_u32 0 n (\<lambda>i. mmap_set (b + i)) s)"
    by (rule for_u32_invariant [where P = "pmm_only s"]) (simp_all add: pmm_only_refl pmm_only_bits)
  then show ?thesis using ok by (simp add: pmm_only_used)
qed (simp add: pmm_only_refl)

lemma pmm_only_init_loop: "pmm_only s t \<Longrightarrow> pmm_only s (init_region_loop blocks align t)"
proof (induction blocks align t rule: init_region_loop.induct)
  case (1 blocks align t)
  then show ?case by (subst init_region_loop.simps) (simp add: Let_def pmm_only_used pmm_only_bits)
qed

lemma pmm_only_deinit_loop: "pmm_only s t \<Longrightarrow> pmm_only s (deinit_region_loop blocks align t)"
proof (induction blocks align t rule: deinit_region_loop.induct)
  case (1 blocks align t)
  then show ?case by (subst deinit_region_loop.simps) (simp add: Let_def pmm_only_used pmm_only_bits)
qed

lemma pmm_only_regions: "pmm_only s (pmmngr_init_region base sz s)" "pmm_only s (pmmngr_deinit_region base sz s)"
  by (simp_all add: pmmngr_init_region_def pmmngr_deinit_region_def pmm_only_bits pmm_only_init_loop pmm_only_deinit_loop pmm_only_refl)

lemma pmm_only_reserve: "pmm_only s (reserve_memory k s)"
  unfolding reserve_memory_def Let_def by (intro pmm_only_trans [OF _ pmm_only_regions(2)] pmm_only_refl)

lemma pmm_only_init: "pmm_only s (init_memory s)"
proof -
  have t: "pmm_only s (pmmngr_init MEMMAP_ADDRESS sz s)" for sz by (simp add: pmm_only_def pmmngr_init_def Let_def)
  have "pmm_only t (snd (for_u32 0 n (\<lambda>i (entry, s). let e = read_SMAP_entry (ram s) entry;
       s = (if smap_type e = 1 then pmmngr_init_region (ucast (smap_base e)) (ucast (smap_size e)) s else s)
     in (entry + sizeof_SMAP_entry, s)) (SMAP_ENTRY_ADDRESS, t)))" for n and t :: "'a pmm"
    by (rule for_u32_invariant [where P = "\<lambda>x. pmm_only t (snd x)"])
      (auto simp: Let_def pmm_only_refl split_beta intro: pmm_only_trans pmm_only_regions(1))
  then have "pmm_only t (init_regions n t)" for n and t :: "'a pmm" by (simp add: init_regions_def)
  then show ?thesis unfolding init_memory_def Let_def by (rule pmm_only_trans [OF t])
qed

section \<open>Turning paging on\<close>

text \<open>What the virtual memory manager leaves alone.\<close>

definition vmm_only :: "'a vmm \<Rightarrow> 'a vmm \<Rightarrow> bool" where
  "vmm_only s t \<longleftrightarrow> io_log t = io_log s \<and> dev_b t = dev_b s \<and> int_flag t = int_flag s \<and> halted t = halted s \<and>
     cursor_x t = cursor_x s \<and> cursor_y t = cursor_y s \<and> vmm_state.more t = vmm_state.more s"

lemma vmm_only_trans: "vmm_only s t \<Longrightarrow> vmm_only t u \<Longrightarrow> vmm_only s u"
  by (simp add: vmm_only_def)

lemma vmm_only_pmm:
  fixes s t :: "'a vmm"
  assumes "pmm_only s t"
  shows "vmm_only s t" "curdir t = curdir s"
  using assms by (cases s; cases t; simp add: pmm_only_def vmm_only_def)+

lemma init_tables_only:
  assumes wf: "memory_wf s" and it: "init_tables s = Some (a, b, t)"
  shows "pmm_only s t" "\<not> block_used s (a div 4096)" "\<not> block_used s (b div 4096)" "memory_map t = memory_map s"
proof -
  obtain s1 s2 where al: "pmmngr_alloc_blocks 1 s = (a, s1)" "pmmngr_alloc_blocks 1 s1 = (b, s2)" "a \<noteq> 0" "b \<noteq> 0"
    and t: "\<exists>m. t = s2\<lparr>ram := m\<rparr>"
    using it by (auto simp: init_tables_def pmmngr_alloc_block_def Let_def split: prod.splits if_splits)
  have "pmm_only s s1" "pmm_only s1 s2" using pmm_only_alloc [of s 1] pmm_only_alloc [of s1 1] al(1,2) by simp_all
  then show "pmm_only s t" using t by (auto simp: pmm_only_used intro: pmm_only_trans)
  have pwf: "pmm_wf s" using wf by (simp add: memory_wf_def)
  note A = alloc_blocks_effect [OF pwf al(1,3)]
  show "\<not> block_used s (a div 4096)" by (rule A(4))
  have "\<not> block_used s1 (b div 4096)" by (rule alloc_blocks_effect(4) [OF alloc_blocks_wf [OF pwf al(1)] al(2,4)])
  then show "\<not> block_used s (b div 4096)" using A(6) by blast
  have "memory_map s2 = memory_map s1" by (rule alloc_blocks_effect(9) [OF alloc_blocks_wf [OF pwf al(1)] al(2,4)])
  then show "memory_map t = memory_map s" using A(9) t by auto
qed

lemma init_dir_only: "vmm_only s (init_dir a b d s)"
  by (simp add: vmm_only_def init_dir_def Let_def init_pd_entry_def modify32_def)

lemma block_after: "unat b + 5 < 0x100000 \<Longrightarrow> d \<le> b + 2 \<Longrightarrow> \<not> b + 5 - d < (3 :: u32)"
  by (simp add: word_le_nat_alt word_less_nat_alt unat_sub_if' unat_word_ariths)

lemma vmmngr_init_frames:
  fixes s :: "'a vmm"
  assumes wf: "memory_wf s" and it: "init_tables s = Some (a, a', t)" "pmmngr_alloc_blocks 3 t = (d, u)" "d \<noteq> 0"
  defines "f \<equiv> vmmngr_init s"
  shows "vmm_only s f" "max_blocks f = max_blocks s" "used_blocks f = used_blocks s + 5" "entry_present (pde f 0)"
    "\<And>c. block_in_map s c \<Longrightarrow> block_used f c \<longleftrightarrow> c - d div 4096 < 3 \<or> c = a div 4096 \<or> c = a' div 4096 \<or> block_used s c"
    "\<And>p. table_frame f p \<Longrightarrow> p = d \<or> p = a \<or> p = a'" "\<not> block_used s (d div 4096)"
    "memory_map f = memory_map s"
proof -
  note ok = vmmngr_init_ok [OF wf it, folded f_def]
  have f: "f = init_dir a a' d u" using vmmngr_init_stages [OF it] by (simp add: f_def)
  note T = init_tables_effect [OF wf it(1)]
  have pt: "pmm_wf t" using T(1) by (simp add: memory_wf_def)
  note U = alloc_blocks_effect [OF pt it(2,3)] and R = alloc_blocks_reserved [OF T(1) it(2) _ it(3), simplified]
  show "vmm_only s f"
    using init_dir_only [of u a a' d] vmm_only_pmm(1) [OF init_tables_only(1) [OF wf it(1)]] vmm_only_pmm(1) [OF pmm_only_alloc [of t 3]] it(2)
    unfolding f by (metis snd_conv vmm_only_trans)
  have dir: "d mod 4096 = 0" using R(2) by (simp add: reserved_frame_def)
  have map: "memory_map f = memory_map u" "max_blocks f = max_blocks u" "used_blocks f = used_blocks u"
    using init_dir_ram(3,4) [OF dir] by (simp_all add: f init_dir_def Let_def init_pd_entry_def modify32_def)
  show "max_blocks f = max_blocks s" "used_blocks f = used_blocks s + 5" "memory_map f = memory_map s" 
    by (simp_all add: map U(7-9) T(7,8) init_tables_only(4) [OF wf it(1)])
  have af: "a mod 4096 = 0" "\<not> bit a 31" "a' mod 4096 = 0" "\<not> bit a' 31" using T(2,3) by (simp_all add: reserved_frame_def)
  note E = dir_entry_facts [OF af(1,2)] dir_entry_facts [OF af(3,4)]
  show "entry_present (pde f 0)" using ok(5) [of 0] E(1) by simp
  have bits: "block_used f c \<longleftrightarrow> block_used u c" if "block_in_map s c" for c
  proof (rule block_used_cong [OF map(1,2)])
    fix x assume x: "map_byte u x"
    have i: "(0 :: u32) < 1024" "(768 :: u32) < 1024" by simp_all
    have "x div 4096 \<noteq> d div 4096" using R(2) x by (auto simp: reserved_frame_def)
    then show "ram f x = ram u x"
      unfolding f init_dir_ram(1) [OF dir] frame_write_map [OF R(2) i(2) x] frame_write_map [OF R(2) i(1) x]
      using in_frame_iff [OF dir] by (simp add: memset_apply)
  qed (use that in \<open>simp add: block_in_map_def U(8) T(8)\<close>)
  show "block_used f c \<longleftrightarrow> c - d div 4096 < 3 \<or> c = a div 4096 \<or> c = a' div 4096 \<or> block_used s c" if "block_in_map s c" for c
    using bits [OF that] U(6) init_tables_used [OF wf it(1) that] by blast
  have cd: "curdir f = d" using init_dir_ram(2) [OF dir] by (simp add: f)
  have z: "\<not> entry_present 0" by (simp add: entry_present_def)
  show "p = d \<or> p = a \<or> p = a'" if tp: "table_frame f p" for p
  proof -
    consider "p = d" | i where "i < 1024" "entry_present (pde f i)" "p = entry_frame (pde f i)"
      using tp cd by (auto simp: table_frame_def)
    then show ?thesis by cases (use ok(5) E(2,5) z in \<open>auto split: if_splits\<close>)
  qed
  have "block_in_map s (d div 4096)" using R(2) by (simp add: reserved_frame_def block_in_map_def U(8) T(8))
  then show "\<not> block_used s (d div 4096)" using U(4) init_tables_used [OF wf it(1)] by blast
qed

lemma vmmngr_init_run:
  fixes s :: "'a vmm"
  assumes wf: "memory_wf s" and free: "6 < pmmngr_get_free_block_count s" and inm: "in_map s b 6"
    and run: "\<forall>c. c - b < 6 \<longrightarrow> \<not> block_used s c"
  defines "f \<equiv> vmmngr_init s"
  shows "vmm_wf f" "cr3 f = curdir f" "bit (cr0 f) 31" "mmu_walk (ram f) (cr3 f) = kernel_space" "entry_present (pde f 0)"
    "vmm_only s f" "\<not> block_used f (b + 5)" "in_map f (b + 5) 1" "1 < pmmngr_get_free_block_count f"
    "\<And>p. table_frame f p \<Longrightarrow> \<not> block_used s (p div 4096)" "\<And>c. block_in_map s c \<Longrightarrow> block_used s c \<Longrightarrow> block_used f c"
    "max_blocks f = max_blocks s" "memory_map f = memory_map s" "\<And>p. table_frame f p \<Longrightarrow> unat (p div 4096) < unat b + 5"
proof -
  have pwf: "pmm_wf s" using wf by (simp add: memory_wf_def)
  have b6: "unat b + 6 \<le> 32 * unat (max_blocks s div 32)" "unat b + 6 < 0x100000"
    using inm in_map_bound [OF pwf inm] by (simp_all add: in_map_def)
  have "5 < pmmngr_get_free_block_count s" "in_map s b 5" "\<forall>c. c - b < 5 \<longrightarrow> \<not> block_used s c"
    using free b6(1) run by (auto simp: in_map_def word_less_nat_alt)
  then obtain a a' t d u where it: "init_tables s = Some (a, a', t)" "pmmngr_alloc_blocks 3 t = (d, u)" "d \<noteq> 0"
    and le: "a div 4096 \<le> b" "a' div 4096 \<le> b + 1" "d div 4096 \<le> b + 2"
    by (rule vmmngr_init_places [OF wf])
  note ok = vmmngr_init_ok [OF wf it, folded f_def] and F = vmmngr_init_frames [OF wf it, folded f_def]
  show "vmm_wf f" "cr3 f = curdir f" "bit (cr0 f) 31" by (rule ok)+
  show "mmu_walk (ram f) (cr3 f) = kernel_space" by (rule ext) (simp add: ok(4) kernel_space_def)
  show "entry_present (pde f 0)" "vmm_only s f" "max_blocks f = max_blocks s" "memory_map f = memory_map s" by (rule F)+
  show "block_used f c" if "block_in_map s c" "block_used s c" for c using F(5) [OF that(1)] that(2) by simp
  have u5: "unat (b + 5) = unat b + 5" using b6(2) by (simp add: unat_word_ariths)
  have "block_in_map s (b + 5)" using u5 b6(1) by (simp add: block_in_map_def word_less_nat_alt unat_div)
  moreover have "\<not> block_used s (b + 5)" using run by simp
  moreover have "unat (b + 1) = unat b + 1" "unat (b + 2) = unat b + 2" using b6(2) by (simp_all add: unat_word_ariths)
  then have low: "unat (a div 4096) < unat (b + 5)" "unat (a' div 4096) < unat (b + 5)" "unat (d div 4096) < unat (b + 5)"
    using le unfolding u5 word_le_nat_alt by linarith+
  then have "b + 5 \<noteq> a div 4096" "b + 5 \<noteq> a' div 4096" by auto
  ultimately show "\<not> block_used f (b + 5)" using F(5) block_after [OF _ le(3)] b6(2) by simp
  show "unat (p div 4096) < unat b + 5" if "table_frame f p" for p using F(6) [OF that] low unfolding u5 by blast
  show "in_map f (b + 5) 1" using u5 b6(1) by (simp add: in_map_def F(2))
  show "1 < pmmngr_get_free_block_count f"
    using room_left [of 1 5] free by (simp add: pmmngr_get_free_block_count_def F(2,3) word_less_nat_alt add.assoc)
  show "\<not> block_used s (p div 4096)" if "table_frame f p" for p
    using F(6) [OF that] F(7) init_tables_only(2,3) [OF wf it(1)] by blast
qed

section \<open>The devices\<close>

text \<open>What the steps before the floppy driver and after the file system leave alone.\<close>

definition early :: "'a fat \<Rightarrow> 'a fat \<Rightarrow> bool" where
  "early s t \<longleftrightarrow> dev_b t = dev_b s \<and> halted t = halted s \<and> scancode t = scancode s \<and> kbd_state.more t = kbd_state.more s \<and>
     log_grows s t \<and> fifo_out (io_log t) = fifo_out (io_log s)"

lemma early_trans: "early s t \<Longrightarrow> early t u \<Longrightarrow> early s u"
  using log_grows_trans [of s t u] by (simp add: early_def)

lemma early_fields [simp]: "early s (t\<lparr>pit_ticks := n\<rparr>) = early s t" "early s (t\<lparr>int_flag := f\<rparr>) = early s t"
  by (simp_all add: early_def log_grows_def)

lemma early_vmm: "vmm_only s t \<Longrightarrow> early s t"
  by (cases s; cases t) (simp add: vmm_only_def early_def log_grows_def)

lemma early_pmm: "pmm_only s t \<Longrightarrow> early s t"
  using early_vmm vmm_only_pmm(1) by blast

lemma early_ports: "ports_only s t \<Longrightarrow> early s t"
  by (auto simp: ports_only_def early_def log_grows_def)

lemma early_clear: "early s (clear_screen s)"
proof -
  have "display_state.more (clear_screen s) = display_state.more s" "dev_b (clear_screen s) = dev_b s" "halted (clear_screen s) = halted s"
    using screen_change_clear [of s] by (simp_all add: screen_change_def)
  moreover from this(1) have "scancode (clear_screen s) = scancode s \<and> kbd_state.more (clear_screen s) = kbd_state.more s"
    by (cases s; cases "clear_screen s") simp
  moreover have "log_grows s (clear_screen s)" "fifo_out (io_log (clear_screen s)) = fifo_out (io_log s)"
    using clear_screen_log [of s] by (auto simp: log_grows_def cursor_events_def)
  ultimately show ?thesis by (simp add: early_def)
qed

lemma early_drive:
  assumes "early s t"
  shows "drive_ok img t = drive_ok img s" "drive_idle t = drive_idle s" "file_system t = file_system s" "fat_state.more t = fat_state.more s"
    "dev_timer t = dev_timer s" "mount_info t = mount_info s"
proof -
  have m: "kbd_state.more t = kbd_state.more s" using assms by (simp add: early_def)
  have f: "current_drive t = current_drive s" "fd_irq6_stat t = fd_irq6_stat s" "dev_irq6 t = dev_irq6 s" "dev_dma t = dev_dma s"
    "dev_timer t = dev_timer s" "file_system t = file_system s" "fat_state.more t = fat_state.more s" "mount_info t = mount_info s"
    using m by (cases s; cases t; simp)+
  show "file_system t = file_system s" "fat_state.more t = fat_state.more s" "dev_timer t = dev_timer s"
    "mount_info t = mount_info s" by (rule f)+
  have "dev_b t = dev_b s" using assms by (simp add: early_def)
  then show "drive_ok img t = drive_ok img s" "drive_idle t = drive_idle s"
    by (simp_all add: drive_ok_def drive_ready_def drive_seeks_def drive_reads_def drive_idle_def f)
qed

text \<open>The devices in order: descriptor tables and interrupt controllers, handlers and timer, floppy drive, volume.\<close>

definition devices_up :: "(nat \<Rightarrow> nat \<Rightarrow> u8) \<Rightarrow> 'a fat \<Rightarrow> 'a fat \<Rightarrow> bool" where
  "devices_up disk s t \<longleftrightarrow> drive_ok disk t \<and> boot_geometry disk (mount_info t) \<and> file_system t = (file_system s)[0 := Some Fat12] \<and>
     fat_state.more t = fat_state.more s \<and> log_grows s t \<and> dev_b t = dev_b s \<and> dev_timer t = dev_timer s \<and>
     scancode t = scancode s \<and> halted t = halted s"

lemma timer_ports:
  assumes "pit_set_channel_mode_frequency 0 1000 mode s = Some t"
  shows "\<exists>u. t = u\<lparr>pit_ticks := 0\<rparr> \<and> ports_only s u"
proof -
  have "\<exists>c v w. t = (outb PIT_CHANNEL_0 w (outb PIT_CHANNEL_0 v (outb PIT_CMD c s)))\<lparr>pit_ticks := 0\<rparr>"
    using assms unfolding pit_set_channel_mode_frequency_def Let_def by simp blast
  then obtain c v w where "t = (outb PIT_CHANNEL_0 w (outb PIT_CHANNEL_0 v (outb PIT_CMD c s)))\<lparr>pit_ticks := 0\<rparr>" by blast
  moreover have "ports_only s (outb PIT_CHANNEL_0 w (outb PIT_CHANNEL_0 v (outb PIT_CMD c s)))"
    by (rule ports_only_trans [OF ports_only_trans [OF ports_only_out ports_only_out] ports_only_out]) simp_all
  ultimately show ?thesis by blast
qed

lemma drive_ok_drive: "drive_ok disk s \<Longrightarrow> drive_ok disk (s\<lparr>current_drive := 0\<rparr>)"
  unfolding drive_ok_def drive_ready_def drive_seeks_def drive_reads_def by (elim conjE, intro conjI) simp_all

lemma boot_devices:
  fixes s :: "'a fat"
  assumes drive: "drive_ok disk s" "drive_idle s" "\<not> read_command (fifo_out (io_log s))"
    and tables: "length (gdt h) = unat GDT_SIZE" "length (idt h) = unat IDT_SIZE" "linked img"
    and volume: "disk_word disk 11 \<noteq> 0" "0 < length (file_system s)"
  obtains h1 s1 h2 s2 s3 s4 where "hal_init img h s = Some (h1, s1)" "setup_interrupt_handlers img h1 s1 = Some (h2, s2)"
    "fd_init 0 s2 = Some s3" "fat_init s3 = Some s4" "devices_up disk s s4" "ram s4 = put_sector (disk 0) (ram s)"
    "used_blocks s4 = used_blocks s" "max_blocks s4 = max_blocks s" "memory_map s4 = memory_map s"
    "cursor_x s4 = cursor_x s" "cursor_y s4 = cursor_y s"
    "cpu_idtr h2 = \<lparr>tp_limit = 2047, tp_base = idt_addr img\<rparr>" "\<forall>v < 256. idt h2 ! v = kernel_gate img v"
proof -
  obtain h1 h2 t where h: "hal_init img h s = Some (h1, pic_init (disable_pic s))"
    and t: "pit_set_channel_mode_frequency 0 1000 PIT_OCW_MODE_RATEGEN (unmasked s) = Some t"
    and h2: "setup_interrupt_handlers img h1 (pic_init (disable_pic s)) = Some (h2, t\<lparr>int_flag := True\<rparr>)"
    "cpu_idtr h2 = \<lparr>tp_limit = 2047, tp_base = idt_addr img\<rparr>" "\<forall>v < 256. idt h2 ! v = kernel_gate img v"
    by (rule kernel_setup [OF tables, of s])
  obtain u where u: "t = u\<lparr>pit_ticks := 0\<rparr>" "ports_only (unmasked s) u" using timer_ports [OF t] by blast
  have su: "ports_only s u" using ports_only_trans [OF ports_only_unmasked u(2)] .
  let ?s2 = "t\<lparr>int_flag := True\<rparr>"
  have e2: "early s ?s2" unfolding u(1) using early_ports [OF su] by simp
  note d2 = early_drive [OF e2]
  have ok2: "drive_ready ?s2" "drive_idle ?s2" "\<not> read_command (fifo_out (io_log ?s2))"
    using drive d2(1) [of disk] d2(2) e2 by (simp_all add: drive_ok_def early_def)
  obtain s3 bs where s3: "fd_init 0 ?s2 = Some s3" "fd_step bs (?s2\<lparr>current_drive := 0\<rparr>) s3"
    using init_step [OF ok2, of 0] by auto
  let ?f = "(file_system s)[0 := Some Fat12]"
  have f2: "fd_irq6_stat ?s2 = 0" "current_drive (?s2\<lparr>current_drive := 0\<rparr>) = 0" using ok2(1) by (simp_all add: drive_ready_def)
  have "drive_ok disk (?s2\<lparr>current_drive := 0\<rparr>)" by (rule drive_ok_drive) (use d2(1) [of disk] drive(1) in blast)
  moreover have st: "same_drive (?s2\<lparr>current_drive := 0\<rparr>) s3" using s3(2) by (simp add: fd_step_def)
  ultimately have ok3: "drive_ok disk (s3\<lparr>file_system := ?f\<rparr>)" using same_drive_ok(3) [OF st, of disk] by simp
  have fs3: "file_system s3 = file_system s" "fat_state.more s3 = fat_state.more s"
    using same_drive_fat_kept [OF st] d2(3,4) by (simp_all add: fat_kept_def fat_frame_def)
  obtain v mi where v: "fat_mount (s3\<lparr>file_system := ?f\<rparr>) = Some (v\<lparr>mount_info := mi\<rparr>)"
    "same_drive (s3\<lparr>file_system := ?f\<rparr>) v" "ram v = put_sector (disk 0) (ram s3)" "boot_geometry disk mi"
    by (rule mount_run [OF ok3]) (use volume(1) in simp)
  have "fat_init s3 = Some (v\<lparr>mount_info := mi\<rparr>)"
    using v(1) volume(2) fs3(1) by (simp add: fat_init_def vol_register_filesystem_def)
  note run = h h2(1) s3(1) this
  have g: "log_grows s ?s2" "log_grows ?s2 s3" "log_grows s3 v"
    using e2 st v(2) by (simp_all add: early_def same_drive_def log_grows_def)
  then have lg: "log_grows s (v\<lparr>mount_info := mi\<rparr>)" using log_grows_trans [OF log_grows_trans [OF g(1,2)] g(3)] by (simp add: log_grows_def)
  have "dev_b v = dev_b s \<and> dev_timer v = dev_timer s \<and> scancode v = scancode s \<and> halted v = halted s"
    using v(2) st e2 d2(5) by (simp add: same_drive_def early_def)
  with lg have up: "devices_up disk s (v\<lparr>mount_info := mi\<rparr>)"
    using same_drive_ok(3) [OF v(2), of disk] ok3 v(4) same_drive_fat_kept [OF v(2)] fs3
    by (simp add: devices_up_def fat_kept_def fat_frame_def)
  have "ram t = ram s \<and> used_blocks t = used_blocks s \<and> max_blocks t = max_blocks s \<and> memory_map t = memory_map s \<and>
      cursor_x t = cursor_x s \<and> cursor_y t = cursor_y s"
    using su u(1) by (auto simp: ports_only_def)
  then show thesis
    by (intro that [OF run up _ _ _ _ _ _ h2(2,3)]) (use v(2,3) s3(2) in \<open>simp_all add: fd_step_def same_drive_def\<close>)
qed

section \<open>The boot sequence\<close>

text \<open>
  The memory manager as the kernel leaves it. The devices are started between its two halves; the boot sector
  that the file system reads meanwhile lands outside the bitmap.
\<close>

definition boot_memory :: "'a fat \<Rightarrow> 'a fat" where
  "boot_memory s = reserve_memory (load32 (ram (clear_screen s)) KERNEL_SIZE_ADDRESS) (init_memory (clear_screen s))"

definition same_blocks :: "'a pmm \<Rightarrow> 'a pmm \<Rightarrow> bool" where
  "same_blocks s t \<longleftrightarrow> memory_map t = memory_map s \<and> max_blocks t = max_blocks s \<and> used_blocks t = used_blocks s \<and>
     (\<forall>c. block_in_map s c \<longrightarrow> block_used t c = block_used s c)"

lemma same_blocks_wf:
  assumes "same_blocks s t" "memory_wf s"
  shows "memory_wf t"
proof -
  have f: "memory_map t = memory_map s" "max_blocks t = max_blocks s" and u: "block_in_map s c \<Longrightarrow> block_used t c = block_used s c" for c
    using assms(1) by (simp_all add: same_blocks_def)
  have e: "map_byte t = map_byte s" "block_in_map t = block_in_map s" by (simp_all add: fun_eq_iff map_byte_def block_in_map_def f)
  have "map_byte s (memory_map s)" using map_offset [of 0 s 0] by simp
  then have "block_in_map s 0" using assms(2) by (auto simp: memory_wf_def map_reserved_def block_in_map_def word_gt_0)
  then show ?thesis using assms(2) u by (auto simp: memory_wf_def map_reserved_def pmm_wf_def e f(2))
qed

lemma init_memory_map: "memory_map (init_memory s) = MEMMAP_ADDRESS"
proof -
  have "memory_map (snd (for_u32 0 n (\<lambda>i (entry, s). let e = read_SMAP_entry (ram s) entry;
       s = (if smap_type e = 1 then pmmngr_init_region (ucast (smap_base e)) (ucast (smap_size e)) s else s)
     in (entry + sizeof_SMAP_entry, s)) (SMAP_ENTRY_ADDRESS, t))) = memory_map t" for n and t :: "'a pmm"
    by (rule for_u32_invariant [where P = "\<lambda>x. memory_map (snd x) = memory_map t"])
      (auto simp: Let_def split_beta init_region_effect)
  then show ?thesis by (simp add: init_memory_def init_regions_def Let_def pmmngr_init_def)
qed

lemma same_blocks_reserve:
  assumes "same_blocks s t"
  shows "same_blocks (reserve_memory k s) (reserve_memory k t)"
  using assms by (auto simp: same_blocks_def reserve_memory_def Let_def deinit_region_effect pmmngr_get_block_count_def block_in_map_def)


lemma boot_memory_sector:
  fixes s t :: "'a fat"
  assumes wf: "max_blocks s \<le> 0x80000" and map: "memory_map s = MEMMAP_ADDRESS"
    and t: "ram t = put_sector d (ram s)" "used_blocks t = used_blocks s" "max_blocks t = max_blocks s" "memory_map t = memory_map s"
  shows "same_blocks s t"
proof -
  have "ram t x = ram s x" if "map_byte s x" for x
  proof -
    have "unat (4 * (max_blocks s div 32) + 4) \<le> 0x10004"
      using wf by (simp add: word_le_nat_alt unat_word_ariths unat_div)
    then have "unat (x - 0x30000) < 0x10004" using that by (simp add: map_byte_def in_region_def map word_less_nat_alt)
    then have "\<not> x - 0x1000 < 0x200" by (auto simp: word_less_nat_alt unat_sub_if' word_le_nat_alt split: if_splits)
    then show ?thesis by (simp add: t(1) put_sector_def in_region_def)
  qed
  then show ?thesis using t block_used_cong [OF t(4,3)] by (auto simp: same_blocks_def)
qed


lemma devices_up_early:
  assumes "devices_up disk s t"
  shows "early t u \<Longrightarrow> devices_up disk s u" "early r s \<Longrightarrow> devices_up disk r t"
proof -
  show "devices_up disk s u" if e: "early t u"
    using assms early_drive [OF e] e log_grows_trans [of s t u] by (simp add: devices_up_def early_def)
  show "devices_up disk r t" if e: "early r s"
    using assms early_drive [OF e] e log_grows_trans [of r s t] by (simp add: devices_up_def early_def)
qed

definition room :: "'a pmm \<Rightarrow> u32 \<Rightarrow> bool" where
  \<comment> \<open>six adjacent blocks: two page tables, the directory's three and the heap's one\<close>
  "room s b \<longleftrightarrow> memory_wf s \<and> 6 < pmmngr_get_free_block_count s \<and> in_map s b 6 \<and> (\<forall>c. c - b < 6 \<longrightarrow> \<not> block_used s c)"

lemma same_blocks_room:
  assumes "same_blocks s t" "room s b"
  shows "room t b"
proof -
  have "block_in_map s c" if "c - b < 6" for c
  proof -
    have "unat b + 6 < 0x100000" using assms(2) in_map_bound [of s b 6] by (simp add: room_def memory_wf_def)
    moreover have "unat (c - b) < 6" using that by (simp add: word_less_nat_alt)
    ultimately have "unat c < unat b + 6" using unat_u32_bound [of c] by (simp add: unat_sub_if' split: if_splits)
    moreover have "unat b + 6 \<le> 32 * (unat (max_blocks s) div 32)" using assms(2) by (simp add: room_def in_map_def unat_div)
    ultimately have "unat c div 32 < unat (max_blocks s) div 32" by linarith
    then show ?thesis by (simp add: block_in_map_def word_less_nat_alt unat_div)
  qed
  then show ?thesis using assms same_blocks_wf [of s t]
    by (auto simp: room_def same_blocks_def pmmngr_get_free_block_count_def in_map_def)
qed

lemma int_flag_fields [simp]:
  "vmm_wf (s\<lparr>int_flag := f\<rparr>) = vmm_wf s" "pde (s\<lparr>int_flag := f\<rparr>) = pde s" "block_used (s\<lparr>int_flag := f\<rparr>) = block_used s"
  "in_map (s\<lparr>int_flag := f\<rparr>) b n = in_map s b n" "table_frame (s\<lparr>int_flag := f\<rparr>) p = table_frame s p"
  "pmmngr_get_free_block_count (s\<lparr>int_flag := f\<rparr>) = pmmngr_get_free_block_count s"
  by (simp_all add: memory_defs fun_eq_iff in_map_def table_frame_def pmmngr_get_free_block_count_def)

text \<open>The kernel's pages after the boot: the bitmap from 0x30000 on, and page tables in the blocks that were free.\<close>

lemma kernel_uses_int [simp]:
  "kernel_uses (s\<lparr>int_flag := f\<rparr>) = kernel_uses s" "self_mapped (s\<lparr>int_flag := f\<rparr>) = self_mapped s"
  by (simp_all add: kernel_uses_def self_mapped_def map_byte_def table_frame_def pde_def fun_eq_iff)

lemma boot_map_byte:
  assumes "memory_map s = MEMMAP_ADDRESS" "max_blocks s \<le> 0x80000" "map_byte s x"
  shows "0x30000 \<le> unat x \<and> unat x < 0x50000"
proof -
  define r where "r = x - 0x30000"
  have "unat (4 * (max_blocks s div 32) + 4) \<le> 0x10004"
    using assms(2) by (simp add: word_le_nat_alt unat_word_ariths unat_div)
  then have "unat r < 0x20000" "x = 0x30000 + r" using assms(1,3) by (simp_all add: r_def map_byte_def in_region_def word_less_nat_alt)
  then show ?thesis by (simp add: unat_word_ariths)
qed

lemma boot_kernel_uses:
  assumes wf: "vmm_wf s" and map: "memory_map s = MEMMAP_ADDRESS"
  shows "\<not> kernel_uses s 0"
    and "mmu_walk (ram s) (curdir s) = kernel_space \<Longrightarrow> (\<And>p. table_frame s p \<Longrightarrow> unat (p div 4096) < 0x400) \<Longrightarrow> self_mapped s"
proof -
  have mx: "max_blocks s \<le> 0x80000" "block_used s 0" using wf by (simp_all add: vmm_wf_def memory_wf_def pmm_wf_def)
  have m: "0x30 \<le> unat (x div PAGE_SIZE) \<and> unat (x div PAGE_SIZE) < 0x400" if "map_byte s x" for x
    using boot_map_byte [OF map mx(1) that] by (simp add: unat_div) linarith
  have "q div PAGE_SIZE \<noteq> 0" if "table_frame s q" for q
  proof -
    have "q mod 4096 = 0" "q \<noteq> 0" using table_frame_reserved [OF wf that] by (auto simp: reserved_frame_def)
    then show ?thesis using word_mod_div_equality [of q 4096] by auto
  qed
  moreover have "x div PAGE_SIZE \<noteq> 0" if "map_byte s x" for x using m [OF that] by (auto simp: word_unat_eq_iff)
  ultimately show "\<not> kernel_uses s 0" by (auto simp: kernel_uses_def)
  assume walk: "mmu_walk (ram s) (curdir s) = kernel_space" and low: "\<And>p. table_frame s p \<Longrightarrow> unat (p div 4096) < 0x400"
  show "self_mapped s"
    by (rule kernel_space_self_mapped [OF walk]) (use m low in \<open>auto simp: kernel_uses_def word_less_nat_alt\<close>)
qed

lemma kmain_run:
  fixes s :: "'a fat"
  assumes drive: "drive_ok disk s" "drive_idle s" "\<not> read_command (fifo_out (io_log s))"
    and tables: "length (gdt h) = unat GDT_SIZE" "length (idt h) = unat IDT_SIZE" "linked img"
    and volume: "disk_word disk 11 \<noteq> 0" "0 < length (file_system s)" and room: "room (boot_memory s) b"
  obtains h' t where "kmain img stack h s = Some (h', t)" "vmm_wf t" "cr3 t = curdir t" "bit (cr0 t) 31"
    "mmu_walk (ram t) (cr3 t) = kernel_space" "entry_present (pde t 0)" "int_flag t" "devices_up disk s t" "disp_wf t"
    "\<not> block_used t (b + 5)" "in_map t (b + 5) 1" "1 < pmmngr_get_free_block_count t"
    "\<And>p. table_frame t p \<Longrightarrow> \<not> block_used (boot_memory s) (p div 4096)"
    "\<And>c. block_in_map (boot_memory s) c \<Longrightarrow> block_used (boot_memory s) c \<Longrightarrow> block_used t c"
    "cpu_idtr h' = \<lparr>tp_limit = 2047, tp_base = idt_addr img\<rparr>" "\<forall>v < 256. idt h' ! v = kernel_gate img v"
    "unat b + 6 \<le> 0x400 \<Longrightarrow> self_mapped t" "\<not> kernel_uses t 0"
proof -
  let ?m = "init_memory (clear_screen s)" and ?k = "load32 (ram (clear_screen s)) KERNEL_SIZE_ADDRESS"
  have e: "early s ?m" by (rule early_trans [OF early_clear early_pmm [OF pmm_only_init]])
  note d = early_drive [OF e]
  have dm: "drive_ok disk ?m" "drive_idle ?m" "\<not> read_command (fifo_out (io_log ?m))" 
    "0 < length (file_system ?m)"
    using drive volume(2) d(1) [of disk] d(2,3) e by (simp_all add: early_def)
  obtain h1 s1 h2 s2 s3 s4 where dev: "hal_init img h ?m = Some (h1, s1)" "setup_interrupt_handlers img h1 s1 = Some (h2, s2)"
    "fd_init 0 s2 = Some s3" "fat_init s3 = Some s4" and up: "devices_up disk ?m s4" and ram: "ram s4 = put_sector (disk 0) (ram ?m)"
    and pmm: "used_blocks s4 = used_blocks ?m" "max_blocks s4 = max_blocks ?m" "memory_map s4 = memory_map ?m"
    and cur: "cursor_x s4 = cursor_x ?m" "cursor_y s4 = cursor_y ?m"
    and gates: "cpu_idtr h2 = \<lparr>tp_limit = 2047, tp_base = idt_addr img\<rparr>" "\<forall>v < 256. idt h2 ! v = kernel_gate img v"
    by (rule boot_devices [OF dm(1-3) tables volume(1) dm(4)])
  let ?r = "reserve_memory ?k s4" and ?t = "jmp_userspace (vmmngr_init (reserve_memory ?k s4))"
  have mx: "max_blocks ?m \<le> 0x80000" using room by (simp add: room_def memory_wf_def boot_memory_def reserve_memory_effect)
  have sb: "same_blocks (boot_memory s) ?r"
    unfolding boot_memory_def by (rule same_blocks_reserve [OF boot_memory_sector [OF mx init_memory_map ram pmm]])
  have wf: "memory_wf ?r" "6 < pmmngr_get_free_block_count ?r" "in_map ?r b 6" "\<forall>c. c - b < 6 \<longrightarrow> \<not> block_used ?r c"
    using same_blocks_room [OF sb room] by (simp_all add: room_def)
  note v = vmmngr_init_run [OF wf]
  have "early s4 (vmmngr_init ?r)" by (rule early_trans [OF early_pmm [OF pmm_only_reserve] early_vmm [OF v(6)]])
  then have "early s4 ?t" by (simp add: jmp_userspace_def)
  then have up': "devices_up disk s ?t" by (rule devices_up_early(1) [OF devices_up_early(2) [OF up e]])
  have c: "cursor_x ?t = cursor_x (clear_screen s)" "cursor_y ?t = cursor_y (clear_screen s)"
    using v(6) pmm_only_reserve [of s4 ?k] pmm_only_init [of "clear_screen s"] cur by (simp_all add: jmp_userspace_def vmm_only_def pmm_only_def)
  have run: "kmain img stack h s = Some (tss_set_stack 0x10 (ucast stack) h2, ?t)"
    by (simp only: kmain_def Let_def dev bind.bind_lunit prod.case)
  have u: "block_in_map (boot_memory s) c \<Longrightarrow> block_in_map ?r c \<and> block_used (boot_memory s) c = block_used ?r c" for c
    using sb by (simp add: same_blocks_def block_in_map_def)
  have b: "block_in_map (boot_memory s) (p div 4096)" if "table_frame ?t p" for p
    using table_frame_reserved [OF v(1), of p] that sb v(12)
    by (simp add: jmp_userspace_def reserved_frame_def block_in_map_def same_blocks_def)
  show thesis
  proof (rule that [OF run])
    show "table_frame ?t p \<Longrightarrow> \<not> block_used (boot_memory s) (p div 4096)" for p
      using v(10) [of p] u [OF b] by (simp add: jmp_userspace_def)
    show "block_used ?t c" if "block_in_map (boot_memory s) c" "block_used (boot_memory s) c" for c
      using v(11) [of c] u [OF that(1)] that(2) by (simp add: jmp_userspace_def)
    have "memory_map (boot_memory s) = MEMMAP_ADDRESS" by (simp add: boot_memory_def reserve_memory_def Let_def deinit_region_effect init_memory_map)
    then have mm: "memory_map (vmmngr_init ?r) = MEMMAP_ADDRESS" using sb v(13) by (simp add: same_blocks_def)
    note K = boot_kernel_uses [OF v(1) mm]
    show "\<not> kernel_uses ?t 0" using K(1) by (simp add: kernel_uses_int jmp_userspace_def)
    show "self_mapped ?t" if "unat b + 6 \<le> 0x400"
    proof -
      have "unat (p div 4096) < 0x400" if "table_frame (vmmngr_init ?r) p" for p using v(14) [OF that] \<open>unat b + 6 \<le> 0x400\<close> by linarith
      then have "self_mapped (vmmngr_init ?r)" by (rule K(2) [OF v(4) [unfolded v(2)]])
      then show ?thesis by (simp add: kernel_uses_int jmp_userspace_def)
    qed
    show "devices_up disk s ?t" by (rule up')
    show "disp_wf ?t" using clear_screen_effect(1) [of s] by (simp add: disp_wf_def c)
  qed (use v gates in \<open>simp_all add: jmp_userspace_def tss_set_stack_def\<close>)
qed

end
