(* ===== verification/Read_props.thy ===== *)
theory Read_props
  imports Session_props
begin

text \<open>
  The command \<^verbatim>\<open>read\<close>: it opens a file, allocates a buffer of 128 bytes and reads sectors of 512 bytes into it. The
  theory composes volumes, FAT, floppy driver, heap, system calls and formatted output: what the first
  read leaves behind the buffer, and where the next allocation of \<open>printf\<close> then goes.
\<close>

unbundle bit_operations_syntax

section \<open>Disk and heap in one address space\<close>

text \<open>Memory that devices write: the frame buffer and the sector buffer of the floppy driver.\<close>

definition io_region :: "u32 \<Rightarrow> bool" where
  "io_region x \<longleftrightarrow> on_screen x \<or> in_region DMA_BUFFER 512 x"

text \<open>
  A working drive with the file system mounted, the heap in consecutive frames apart from page tables and devices,
  and the sector buffer mapped to itself.
\<close>

definition disk_ready :: "(nat \<Rightarrow> nat \<Rightarrow> u8) \<Rightarrow> u32 \<Rightarrow> 'a user \<Rightarrow> bool" where
  "disk_ready disk E s \<longleftrightarrow> drive_ok disk s \<and> region_apart io_region E s \<and> mapped_at s DMA_BUFFER DMA_BUFFER \<and>
     (\<exists>a. \<forall>va < E. translate s va = Some (a + va)) \<and> (\<exists>fs. file_system s = Some Fat12 # fs) \<and>
     unat (root_offset (mount_info s)) + 14 \<le> 2880"

lemma disk_ready_cong:
  assumes r: "disk_ready disk E s" and ok: "drive_ok disk t"
    and t: "cr0 t = cr0 s" "cr3 t = cr3 s" "mount_info t = mount_info s" "file_system t = file_system s"
    and same: "\<And>x. x \<notin> heap_bytes E s \<Longrightarrow> \<not> io_region x \<Longrightarrow> ram t x = ram s x"
  shows "disk_ready disk E t" "translate t va = translate s va" "heap_bytes E t = heap_bytes E s"
proof -
  have ap: "region_apart io_region E s" using r by (simp add: disk_ready_def)
  have tr: "translate t va = translate s va" "heap_bytes E t = heap_bytes E s" "region_apart io_region E t" for va
    by (rule region_apart_change [OF ap t(1,2)]; rule same; assumption)+
  then show "translate t va = translate s va" "heap_bytes E t = heap_bytes E s" by blast+
  show "disk_ready disk E t" using r ok t(3,4) tr by (simp add: disk_ready_def mapped_at_def)
qed

lemma disk_ready_since:
  assumes "disk_ready disk E s0" "since E s0 s"
  shows "disk_ready disk E s"
proof (rule disk_ready_cong [OF assms(1)])
  show "drive_ok disk s" using assms disk_same_ok [of s0 s disk] by (simp add: disk_ready_def since_def)
qed (use assms(2) in \<open>auto simp: since_def disk_same_def io_region_def\<close>)

text \<open>What an access to the disk does to a session.\<close>

lemma session_disk:
  assumes s: "session s0 E bs codes s" and r: "disk_ready disk E s" and fr: "fat_frame s t" and ok: "drive_ok disk t"
    and same: "\<And>x. \<not> in_region DMA_BUFFER 512 x \<Longrightarrow> ram t x = ram s x"
  shows "session t E bs codes t" "disk_ready disk E t" "translate t va = translate s va"
proof -
  have f: "cr0 t = cr0 s" "cr3 t = cr3 s" "mount_info t = mount_info s" "file_system t = file_system s" "int_flag t = int_flag s"
    "halted t = halted s" "cursor_x t = cursor_x s" "cursor_y t = cursor_y s" "scancode t = scancode s" "dev_b t = dev_b s"
    "dev_timer t = dev_timer s" and m: "fat_state.more t = fat_state.more s"
    using fr by (simp_all add: fat_frame_def)
  have h: "malloc_list_head t = malloc_list_head s" "malloc_iniited t = malloc_iniited s" "dev_input t = dev_input s"
    using m by (cases s rule: user_state.cases_scheme; cases t rule: user_state.cases_scheme; simp)+
  obtain l where l: "io_log t = io_log s @ l" "key_reads l = 0" using fr by (auto simp: fat_frame_def log_grows_def)
  have io: "\<And>x. \<not> io_region x \<Longrightarrow> ram t x = ram s x" using same by (simp add: io_region_def)
  note c = disk_ready_cong [OF r ok f(1-4)]
  show "disk_ready disk E t" "translate t va = translate s va" by (rule c, rule io, assumption)+
  have ap: "region_apart io_region E s" "region_apart io_region E t"
    using r c(1) io by (auto simp: disk_ready_def)
  then have "screen_apart E t" by (rule_tac region_apart_mono [of io_region]) (simp_all add: io_region_def)
  moreover have "heap_view E t M" if "heap_view E s M" for M by (rule region_view [OF ap(1) f(1,2) io that])
  then have "heap_inv E bs t" using sessionD(1) [OF s] h(1) by (auto simp: heap_inv_def)
  moreover have "typing (drop 0 codes) t"
    by (rule typing_later [of _ s, OF _ f(10) h(3) f(11,5) _ l(1)]) (use s f(9) l(2) in \<open>simp_all add: session_def typing_def\<close>)
  ultimately show "session t E bs codes t"
    using s f h by (simp add: session_def console_def disp_wf_def)
qed

section \<open>Reading into the heap\<close>

lemma in_region_bytes: "in_region q 512 x \<longleftrightarrow> (\<exists>k < 512. x = q + of_nat k)"
proof
  assume "in_region q 512 x"
  then show "\<exists>k < 512. x = q + of_nat k" by (intro exI [of _ "unat (x - q)"]) (simp add: in_region_def word_less_nat_alt)
qed (auto simp: in_region_def word_less_nat_alt unat_of_nat_small)

lemma apart_bytes:
  assumes "\<And>k. k < 512 \<Longrightarrow> \<not> in_region q 512 (p + of_nat k)"
  shows "apart p 512 q 512"
proof -
  have "512 \<le> q - p"
  proof (rule ccontr)
    assume "\<not> 512 \<le> q - p"
    then have "unat (q - p) < 512" by (simp add: word_le_nat_alt)
    then show False using assms [of "unat (q - p)"] by (simp add: in_region_def)
  qed
  moreover have "512 \<le> p - q" using assms [of 0] by (simp add: in_region_def not_less)
  ultimately show ?thesis by (simp add: apart_def)
qed

text \<open>The frames behind 512 bytes of the heap.\<close>

lemma heap_span:
  assumes r: "disk_ready disk E s" and p: "p + 512 \<le> unat E"
  obtains a where "\<And>va. va < E \<Longrightarrow> translate s va = Some (a + va)" "mapped_at s (of_nat p) (a + of_nat p)"
    "apart (a + of_nat p) 512 DMA_BUFFER 512" "\<And>x. in_region (a + of_nat p) 512 x \<Longrightarrow> x \<in> heap_bytes E s"
    "\<And>va. in_region (a + of_nat p) 512 (a + va) \<longleftrightarrow> p \<le> unat va \<and> unat va < p + 512"
proof -
  obtain a where a: "\<forall>va < E. translate s va = Some (a + va)" using r by (auto simp: disk_ready_def)
  let ?q = "a + of_nat p"
  have in_E: "of_nat (p + k) < E" "unat (of_nat (p + k) :: u32) = p + k" if "k < 512" for k
    using that p unat_u32_bound [of E] by (simp_all add: word_less_nat_alt unat_of_nat_small del: of_nat_add)
  have q: "translate s (of_nat p + of_nat k) = Some (?q + of_nat k)" if "k < 512" for k
    using a in_E(1) [OF that] by (simp add: add.assoc)
  then have "mapped_at s (of_nat p) ?q" by (simp add: mapped_at_def list_all_iff)
  moreover have hb: "x \<in> heap_bytes E s" if "in_region ?q 512 x" for x
    using that q in_E(1) unfolding in_region_bytes heap_bytes_def by fastforce
  moreover have "apart ?q 512 DMA_BUFFER 512"
  proof (rule apart_bytes)
    fix k :: nat assume "k < 512"
    then have "?q + of_nat k \<in> heap_bytes E s" by (intro hb) (auto simp: in_region_bytes)
    then show "\<not> in_region DMA_BUFFER 512 (?q + of_nat k)" using r by (auto simp: disk_ready_def region_apart_def io_region_def)
  qed
  moreover have "in_region ?q 512 (a + va) \<longleftrightarrow> p \<le> unat va \<and> unat va < p + 512" for va
  proof
    assume "in_region ?q 512 (a + va)"
    then obtain k where k: "k < 512" "va = of_nat (p + k)" unfolding in_region_bytes by (auto simp: add.assoc)
    then show "p \<le> unat va \<and> unat va < p + 512" using in_E(2) [OF k(1)] by simp
  next
    assume "p \<le> unat va \<and> unat va < p + 512"
    then show "in_region ?q 512 (a + va)"
      unfolding in_region_bytes by (intro exI [of _ "unat va - p"]) (auto simp: of_nat_diff)
  qed
  ultimately show thesis using that a by blast
qed

lemma user_read_writes:
  fixes s :: "'a user" and f :: FILE
  defines "c \<equiv> unat (f_current_cluster f)" and "d \<equiv> unat (data_offset (mount_info s))"
  assumes r: "disk_ready disk E s" and view: "heap_view E s M" and p: "p + 512 \<le> unat E"
    and c: "2 \<le> c" "c < 4096" "c - 2 + d < 2880" and dev: "f_device_id f = 0x61"
  shows "\<exists>s'. user_read_file f (of_nat p) s = Some (cluster_step disk f, s') \<and> fat_frame s s' \<and>
    heap_view E s' (written M p (cluster_bytes disk d c)) \<and> (\<forall>va. translate s' va = translate s va)"
proof -
  obtain a where a: "\<And>va. va < E \<Longrightarrow> translate s va = Some (a + va)" "mapped_at s (of_nat p) (a + of_nat p)"
    "apart (a + of_nat p) 512 DMA_BUFFER 512" and hb: "\<And>x. in_region (a + of_nat p) 512 x \<Longrightarrow> x \<in> heap_bytes E s"
    and reg: "\<And>va. in_region (a + of_nat p) 512 (a + va) \<longleftrightarrow> p \<le> unat va \<and> unat va < p + 512"
    by (rule heap_span [OF r p]) (rule that; assumption)
  let ?q = "a + of_nat p"
  have ok: "drive_ok disk s" using r by (simp add: disk_ready_def)
  obtain s' where s': "fat_read_file (Some f) ?q s = Some (Some (cluster_step disk f), s')" "drive_ok disk s'" "fat_frame s s'"
    "mount_info s' = mount_info s" "\<And>k. k < 512 \<Longrightarrow> ram s' (?q + of_nat k) = disk (c - 2 + d) k"
    "\<And>x. \<not> in_region ?q 512 x \<Longrightarrow> \<not> in_region DMA_BUFFER 512 x \<Longrightarrow> ram s' x = ram s x"
    by (rule fat_read_file_step [OF ok a(3), of f]) (use c in \<open>simp_all add: c_def d_def\<close>)
  have same: "ram s' x = ram s x" if "x \<notin> heap_bytes E s" "\<not> io_region x" for x
    using s'(6) [of x] that hb [of x] by (auto simp: io_region_def)
  have "of_nat p < E" using p unat_u32_bound [of E] by (simp add: word_less_nat_alt unat_of_nat_small)
  then have "translate s (of_nat p) = Some ?q" by (rule a(1))
  then have "user_read_file f (of_nat p) s = Some (cluster_step disk f, s')"
    using r s'(1) dev a(2) by (auto simp: user_read_file_def disk_ready_def vol_read_file_def file_system_at_def)
  moreover have fr: "cr0 s' = cr0 s" "cr3 s' = cr3 s" "mount_info s' = mount_info s" "file_system s' = file_system s"
    using s'(3) by (simp_all add: fat_frame_def)
  have tr: "translate s' va = translate s va" for va by (rule disk_ready_cong [OF r s'(2) fr]) (rule same; assumption)
  moreover have "ram s' (a + va) = written M p (cluster_bytes disk d c) va" if va: "va < E" for va
  proof (cases "p \<le> unat va \<and> unat va < p + 512")
    case True
    then have "a + va = ?q + of_nat (unat va - p)" by (simp add: of_nat_diff)
    moreover have "unat va - p < 512" using True by linarith
    ultimately show ?thesis using s'(5) [of "unat va - p"] True by (simp add: written_def cluster_bytes_def)
  next
    case False
    have "a + va \<in> heap_bytes E s" using a(1) va by (auto simp: heap_bytes_def)
    then have "\<not> io_region (a + va)" using r by (auto simp: disk_ready_def region_apart_def)
    then have "ram s' (a + va) = M va" using s'(6) [of "a + va"] reg [of va] False view a(1) va
      by (simp add: io_region_def heap_view_def vload8_def)
    then show ?thesis using False by (auto simp: written_def cluster_bytes_def)
  qed
  moreover have "heap_mapped E s'"
    by (rule region_mapped [of io_region, OF _ fr(1,2)]) (use r view same in \<open>auto simp: disk_ready_def heap_view_def\<close>)
  ultimately show ?thesis using s'(3) a(1) by (auto simp: heap_view_def vload8_def tr)
qed

section \<open>An allocation behind a broken header\<close>

lemma malloc_find_skip:
  assumes "block_next cur s = Some nx" "nx \<noteq> 0" "block_size cur s = Some n" "n < sz \<or> block_free cur s = Some False"
  shows "malloc_find sz cur s = malloc_find sz nx s"
  using assms by (subst malloc_find.simps) auto

lemma malloc_find_fault: "vload8 (q + 8) s = None \<Longrightarrow> malloc_find sz q s = None"
  by (subst malloc_find.simps) (simp add: block_next_def vload32_def)

lemma malloc_fault:
  fixes s :: "'a heap"
  assumes "malloc_iniited s" "malloc_list_head s = 0" "sz \<noteq> 0"
    and "block_size 0 (s\<lparr>int_flag := False\<rparr>) = Some n" "n \<noteq> 0" "malloc_find sz 0 (s\<lparr>int_flag := False\<rparr>) = None"
  shows "malloc sz s = None"
proof -
  have "malloc_next_block sz (s\<lparr>int_flag := False\<rparr>) = None" using assms by (simp add: malloc_next_block_def)
  then show ?thesis using assms(1)
    by (simp add: malloc_def int_0x80_def syscall_dispatcher_def call_regs_def syscalls_def syscall_malloc_def gate_0x80
        is_malloc_inited_def)
qed

text \<open>The word at an offset of a sector, as the processor reads it.\<close>

definition sector_word :: "(nat \<Rightarrow> u8) \<Rightarrow> nat \<Rightarrow> u32" where
  "sector_word f k = load32 (\<lambda>x. f (unat x)) (of_nat k)"

lemma load32_written:
  assumes "k + 4 \<le> 512" "p + 512 < 2 ^ 32"
  shows "load32 (written M p (cluster_bytes disk d c)) (of_nat (p + k)) = sector_word (disk (c - 2 + d)) k"
proof -
  have "written M p (cluster_bytes disk d c) (of_nat (p + k) + of_nat j) = disk (c - 2 + d) (unat (of_nat k + of_nat j :: u32))"
    if "j < 4" for j
  proof -
    have "unat (of_nat (p + k) + of_nat j :: u32) = p + (k + j)" "unat (of_nat k + of_nat j :: u32) = k + j"
      using that assms unat_of_nat_small [of "p + (k + j)", where 'a = 32] unat_of_nat_small [of "k + j", where 'a = 32]
      by (simp_all add: add.assoc)
    then show ?thesis using that assms by (simp add: written_def cluster_bytes_def)
  qed
  from this [of 0] this [of 1] this [of 2] this [of 3] show ?thesis
    by (simp add: sector_word_def load32_def)
qed

text \<open>The blocks while the command runs, and the search for the next block of \<open>printf\<close> after a read.\<close>

definition read_blocks :: "nat \<Rightarrow> block list" where
  "read_blocks n = [(99, False), (128, False), (5, True), (256, True), (n, True)]"

lemma overrun_headers:
  fixes s :: "'a heap"
  assumes ch: "chain M 0 (read_blocks n) 0" and view: "heap_view E s (written M 123 (cluster_bytes disk d c))" and E: "635 \<le> unat E"
  defines "f \<equiv> disk (c - 2 + d)"
  shows "block_size 0 s = Some 99" "block_size 251 s = Some (sector_word f 128)" "block_next 251 s = Some (sector_word f 136)"
    "sector_word f 136 \<noteq> 0 \<Longrightarrow> sector_word f 128 < 256 \<or> sector_word f 132 = 0 \<Longrightarrow>
      malloc_find 256 0 s = malloc_find 256 (sector_word f 136) s"
proof -
  let ?M = "written M 123 (cluster_bytes disk d c)"
  have h: "header ?M 0 (99, False) 111" "header ?M 111 (128, False) 251"
  proof -
    have "header M 0 (99, False) 111" "header M 111 (128, False) 251"
      using ch by (simp_all add: read_blocks_def)
    moreover have "header ?M a b nx = header M a b nx" if "a + 12 \<le> 123" for a b nx
      by (rule header_cong) (use that in \<open>auto simp: written_def\<close>)
    ultimately show "header ?M 0 (99, False) 111" "header ?M 111 (128, False) 251" by simp_all
  qed
  note r0 = read_header [OF view _ h(1)] and r1 = read_header [OF view _ h(2)]
  note ld = heap_mem.ld32_view [OF view inside_of_nat(1), unfolded heap_words]
  show b0: "block_size 0 s = Some 99" using r0(1) E by simp
  show n2: "block_size 251 s = Some (sector_word f 128)"
    using ld [of 251] load32_written [of 128 123 M disk d c] E by (simp add: block_size_def f_def)
  show q2: "block_next 251 s = Some (sector_word f 136)"
    using ld [of 259] load32_written [of 136 123 M disk d c] E by (simp add: block_next_def f_def)
  have f2: "block_free 251 s = Some (sector_word f 132 \<noteq> 0)"
    using ld [of 255] load32_written [of 132 123 M disk d c] E by (simp add: block_free_def f_def)
  assume q: "sector_word f 136 \<noteq> 0" "sector_word f 128 < 256 \<or> sector_word f 132 = 0"
  have "malloc_find 256 0 s = malloc_find 256 111 s" by (rule malloc_find_skip) (use r0 E in simp_all)
  also have "\<dots> = malloc_find 256 251 s" by (rule malloc_find_skip) (use r1 E in simp_all)
  also have "\<dots> = malloc_find 256 (sector_word f 136) s" by (rule malloc_find_skip [OF q2 q(1) n2]) (use q(2) f2 in auto)
  finally show "malloc_find 256 0 s = malloc_find 256 (sector_word f 136) s" .
qed

section \<open>The command\<close>

abbreviation krnl_name :: "u8 list" where
  "krnl_name \<equiv> map of_char ''KRNL    SYS''"

definition krnl_entry :: "(nat \<Rightarrow> nat \<Rightarrow> u8) \<Rightarrow> MOUNT_INFO \<Rightarrow> DIRECTORY option" where
  "krnl_entry disk mi = find (\<lambda>d. krnl_name = dir_filename d) (dir_entries disk (unat (root_offset mi)) 14)"

lemma open_krnl:
  fixes s :: "'a user"
  assumes s: "session s0 E bs codes s" and r: "disk_ready disk E s" and junk: "length (f_name junk) = 32"
    and d: "krnl_entry disk (mount_info s) = Some d" "dir_attrib d \<noteq> 0x10"
  shows "\<exists>t. user_open_file junk (cstr ''KRNL    SYS'') s = Some ((entry_file junk krnl_name d)\<lparr>f_device_id := 0x61\<rparr>, t) \<and>
    session t E bs codes t \<and> disk_ready disk E t \<and> mount_info t = mount_info s \<and> (\<forall>va. translate t va = translate s va)"
proof -
  have pn: "plain_name krnl_name" by (simp add: plain_name_def)
  have ok: "drive_ok disk s" "unat (root_offset (mount_info s)) + 14 \<le> 2880" using r by (simp_all add: disk_ready_def)
  obtain t where t: "fat_open_file junk (krnl_name @ [0]) s = Some (entry_file junk krnl_name d, t)"
    "drive_ok disk t" "fat_kept s t" "\<And>x. \<not> in_region DMA_BUFFER 512 x \<Longrightarrow> ram t x = ram s x"
    by (rule open_plain_name [OF pn junk ok]) (use d in \<open>simp add: krnl_entry_def\<close>)
  have "user_open_file junk (cstr ''KRNL    SYS'') s = Some ((entry_file junk krnl_name d)\<lparr>f_device_id := 0x61\<rparr>, t)"
    using r t(1) plain_name_device [OF pn]
    by (auto simp: disk_ready_def user_open_file_def vol_open_file_def vol_open_file_impl_def file_system_at_def cstr_def)
  moreover have "session t E bs codes t" "disk_ready disk E t" "translate t va = translate s va" for va
    by (rule session_disk [OF s r fat_keptD(1) [OF t(3)] t(2)]; rule t(4); assumption)+
  ultimately show ?thesis using fat_keptD(3) [OF t(3)] by blast
qed

lemma read_starts:
  fixes s :: "'a user"
  assumes s: "session s0 E (shell_blocks n False) codes s" and r: "disk_ready disk E s"
    and junk: "length (f_name junk) = 32" "0 \<in> set (drop 11 (f_name junk))"
    and d: "krnl_entry disk (mount_info s) = Some d" "dir_attrib d \<noteq> 0x10"
  shows "\<exists>t s1. cmd_read junk s = read_loop ((entry_file junk krnl_name d)\<lparr>f_device_id := 0x61\<rparr>) 123 s1 \<and>
    session t E (read_blocks n) codes s1 \<and> disk_ready disk E s1 \<and> mount_info s1 = mount_info s \<and> (\<forall>va. translate s1 va = translate s va)"
proof -
  let ?f = "(entry_file junk krnl_name d)\<lparr>f_device_id := 0x61\<rparr>"
  obtain t where t: "user_open_file junk (cstr ''KRNL    SYS'') s = Some (?f, t)" "session t E (shell_blocks n False) codes t"
    "disk_ready disk E t" "mount_info t = mount_info s" "\<forall>va. translate t va = translate s va"
    using open_krnl [OF s r junk(1) d] by blast
  have "stops_at 128 (shell_blocks n False) = 1" by (simp add: shell_blocks_def)
  then obtain u where u: "malloc 128 t = Some (123, u)" "session t E (read_blocks n) codes u"
    using session_malloc [OF t(2), of 128] by (auto simp: shell_blocks_def read_blocks_def alloc_at_def block_at_def)
  define w where "w = takeWhile (\<lambda>c. c \<noteq> 0) (drop 11 (f_name junk))"
  have w: "0 \<notin> set w" "length w \<le> 21"
    using length_takeWhile_le [of "\<lambda>c. c \<noteq> 0" "drop 11 (f_name junk)"] junk(1)
    by (auto simp: w_def dest: set_takeWhileD)
  let ?fmt = "[10, 10, 13] @ map of_char ''---------[%s]---------'' @ [10, 13]"
  let ?v = "[10, 10, 13] @ map of_char ''---------['' @ (krnl_name @ w) @ map of_char '']---------'' @ [10, 13]"
  have nm: "f_name ?f = krnl_name @ drop 11 (f_name junk)" by (simp add: entry_file_def eval_nat_numeral)
  have "formatted ?fmt [String_arg (f_name ?f)] = Some ?v"
    unfolding nm using junk(2) by (simp add: conversion_def w_def)
  moreover have "stops_at 256 (read_blocks n) = 3" by (simp add: read_blocks_def)
  ultimately obtain v where v: "printf (?fmt @ [0]) [String_arg (f_name ?f)] u = Some v" "session t E (read_blocks n) codes v"
    using session_format [OF u(2), of ?fmt "[String_arg (f_name ?f)]" ?v] w
    by (auto simp: read_blocks_def alloc_at_def free_blocks_def numeral_3_eq_3)
  have "disk_ready disk E v" by (rule disk_ready_since [OF t(3) sessionD(6) [OF v(2)]])
  moreover have "mount_info v = mount_info s" "\<forall>va. translate v va = translate s va"
    using sessionD(6) [OF v(2)] t(4,5) by (simp_all add: since_def disk_same_def)
  moreover have "cmd_read junk s = read_loop ?f 123 v" using t(1) u(1) v(1) by (simp add: cmd_read_def)
  ultimately show ?thesis using v(2) by blast
qed

text \<open>A byte of the dump needs memory for \<open>printf\<close>.\<close>

lemma dump_fault:
  fixes s :: "'a user"
  assumes "malloc 256 (s\<lparr>write_len := 0\<rparr>) = None"
  shows "dump_buffer buf s = None"
proof -
  have "printf fmt args s = None" for fmt args using assms by (simp add: printf_def Let_def)
  then have first: "dump_buffer buf s = for_u32 (0 + 1) 128 (\<lambda>i r. do {
     s \<leftarrow> r;
     b \<leftarrow> vload8 (buf + i) s;
     printf (cstr ''%x '') [Word_arg (ucast b)] s
   }) None"
    unfolding dump_buffer_def by (subst for_u32.simps) (cases "vload8 buf s"; simp)
  show ?thesis unfolding first by (rule for_u32_invariant) simp_all
qed

text \<open>
  The file is on the disk with its first cluster in sector \<open>k\<close>, and the uninitialised local ends the name that is copied into
  it without a terminator.
\<close>

definition krnl_sector :: "(nat \<Rightarrow> nat \<Rightarrow> u8) \<Rightarrow> MOUNT_INFO \<Rightarrow> nat \<Rightarrow> bool" where
  "krnl_sector disk mi k \<longleftrightarrow> (case krnl_entry disk mi of None \<Rightarrow> False | Some d \<Rightarrow>
     dir_attrib d \<noteq> 0x10 \<and> 2 \<le> unat (dir_first_cluster d) \<and> unat (dir_first_cluster d) < 4096 \<and>
     k = unat (dir_first_cluster d) - 2 + unat (data_offset mi) \<and> k < 2880)"

definition named_local :: "FILE \<Rightarrow> bool" where
  "named_local junk \<longleftrightarrow> length (f_name junk) = 32 \<and> 0 \<in> set (drop 11 (f_name junk))"

lemma read_overrun:
  fixes s :: "'a user"
  assumes s: "session s0 E (shell_blocks n False) codes s" "635 \<le> unat E" "disk_ready disk E s"
    and krnl: "named_local junk" "krnl_sector disk (mount_info s) k"
  obtains f s1 s2 M d c where "cmd_read junk s = read_loop f 123 s1" "heap_inv E (read_blocks n) s1" "f_end f = 0"
    "user_read_file f 123 s1 = Some (cluster_step disk f, s2)" "heap_view E s2 (written M 123 (cluster_bytes disk d c))"
    "chain M 0 (read_blocks n) 0" "c - 2 + d = k" "malloc_iniited s2" "malloc_list_head s2 = 0" "\<forall>va. translate s2 va = translate s va"
proof -
  obtain e where e: "krnl_entry disk (mount_info s) = Some e" "dir_attrib e \<noteq> 0x10" "2 \<le> unat (dir_first_cluster e)"
    "unat (dir_first_cluster e) < 4096" "k = unat (dir_first_cluster e) - 2 + unat (data_offset (mount_info s))" "k < 2880"
    using krnl(2) by (auto simp: krnl_sector_def split: option.splits)
  let ?f = "(entry_file junk krnl_name e)\<lparr>f_device_id := 0x61\<rparr>"
  obtain t s1 where s1: "cmd_read junk s = read_loop ?f 123 s1" "session t E (read_blocks n) codes s1" "disk_ready disk E s1"
    "mount_info s1 = mount_info s" "\<forall>va. translate s1 va = translate s va"
    using read_starts [OF s(1,3) _ _ e(1,2)] krnl(1) unfolding named_local_def by blast
  obtain M where M: "heap_view E s1 M" "chain M 0 (read_blocks n) 0" by (rule heap_invE [OF sessionD(1) [OF s1(2)]])
  have c: "unat (f_current_cluster ?f) = unat (dir_first_cluster e)" "f_device_id ?f = 0x61" "f_end ?f = 0"
    by (simp_all add: entry_file_def unat_ucast_up)
  obtain s2 where s2: "user_read_file ?f 123 s1 = Some (cluster_step disk ?f, s2)" "fat_frame s1 s2"
    "heap_view E s2 (written M 123 (cluster_bytes disk (unat (data_offset (mount_info s))) (unat (dir_first_cluster e))))"
    "\<forall>va. translate s2 va = translate s1 va"
    using user_read_writes [OF s1(3) M(1), of 123 ?f] s(2) e c s1(4) by auto
  have "malloc_iniited s2" "malloc_list_head s2 = 0"
    using s2(2) sessionD(1,2) [OF s1(2)]
    by (cases s1 rule: user_state.cases_scheme; cases s2 rule: user_state.cases_scheme; simp add: fat_frame_def heap_inv_def)+
  then show thesis using that [OF s1(1) sessionD(1) [OF s1(2)] c(3) s2(1,3) M(2)] e(5) s1(5) s2(4) by simp
qed

text \<open>When the bytes behind the buffer lead to an address that is not mapped, the command does not come back.\<close>

definition leads_astray :: "'a machine_scheme \<Rightarrow> (nat \<Rightarrow> u8) \<Rightarrow> bool" where
  "leads_astray s f \<longleftrightarrow> sector_word f 136 \<noteq> 0 \<and> (sector_word f 128 < 256 \<or> sector_word f 132 = 0) \<and> translate s (sector_word f 136 + 8) = None"

lemma read_faults:
  fixes s :: "'a user"
  assumes "session s0 E (shell_blocks n False) codes s" "635 \<le> unat E" "disk_ready disk E s"
    and "named_local junk" "krnl_sector disk (mount_info s) k" and q: "leads_astray s (disk k)"
  shows "cmd_read junk s = None"
proof -
  obtain f s1 s2 M d c where r: "cmd_read junk s = read_loop f 123 s1" "f_end f = 0"
    "user_read_file f 123 s1 = Some (cluster_step disk f, s2)" "heap_view E s2 (written M 123 (cluster_bytes disk d c))"
    "chain M 0 (read_blocks n) 0" "c - 2 + d = k" "malloc_iniited s2" "malloc_list_head s2 = 0" "\<forall>va. translate s2 va = translate s va"
    by (rule read_overrun [OF assms(1-5)])
  let ?s = "s2\<lparr>write_len := 0, int_flag := False\<rparr>" and ?q = "sector_word (disk k) 136"
  have "heap_view E ?s (written M 123 (cluster_bytes disk d c))" using r(4) by simp
  note h = overrun_headers [OF r(5) this assms(2), unfolded r(6)]
  have "vload8 (?q + 8) ?s = None" using q r(9) by (simp add: leads_astray_def vload8_def)
  then have "malloc_find 256 0 ?s = None" using h(4) malloc_find_fault [of ?q ?s 256] q by (simp add: leads_astray_def)
  then have "malloc 256 (s2\<lparr>write_len := 0\<rparr>) = None"
    using malloc_fault [of "s2\<lparr>write_len := 0\<rparr>" 256 99] r(7,8) h(1) by simp
  then have "dump_buffer 123 s2 = None" by (rule dump_fault)
  then show ?thesis unfolding r(1) using r(2,3) by (subst read_loop.simps) simp
qed

text \<open>
  C12. The command \<^verbatim>\<open>read\<close> overruns its buffer. In a running session, with the file \<^verbatim>\<open>KRNL.SYS\<close> on the disk, the command
  gets a buffer of 128 bytes at address 123 of a well-formed heap, with the header of the next block at 251, and its first
  read puts the 512 bytes of the file's first sector there: size and successor of the next block become bytes of
  the file. When these bytes lead to an address that is not mapped, the search for memory of the
  next \<open>printf\<close> follows them into a page fault, and the command never comes back.
\<close>

theorem cmd_read_overruns_heap:
  fixes s :: "'a user"
  assumes "session s0 E (shell_blocks n False) codes s" and "635 \<le> unat E" and "disk_ready disk E s"
    and "named_local junk" and "krnl_sector disk (mount_info s) k"
  shows "\<exists>file s1 s2. cmd_read junk s = read_loop file 123 s1 \<and> heap_inv E [(99, False), (128, False), (5, True), (256, True), (n, True)] s1 \<and>
    user_read_file file 123 s1 = Some (cluster_step disk file, s2) \<and> (\<forall>i < 512. vload8 (123 + of_nat i) s2 = Some (disk k i)) \<and>
    block_size 251 s2 = Some (sector_word (disk k) 128) \<and> block_next 251 s2 = Some (sector_word (disk k) 136) \<and>
    (leads_astray s (disk k) \<longrightarrow> cmd_read junk s = None)"
proof -
  obtain f s1 s2 M d c where r: "cmd_read junk s = read_loop f 123 s1" "heap_inv E (read_blocks n) s1"
    "user_read_file f 123 s1 = Some (cluster_step disk f, s2)" "heap_view E s2 (written M 123 (cluster_bytes disk d c))"
    "chain M 0 (read_blocks n) 0" "c - 2 + d = k"
    by (rule read_overrun [OF assms])
  have bytes: "vload8 (123 + of_nat i) s2 = Some (disk k i)" if "i < 512" for i
  proof -
    have "123 + of_nat i = (of_nat (123 + i) :: u32)" by simp
    moreover have u: "unat (of_nat (123 + i) :: u32) = 123 + i" using that by (intro unat_of_nat_small) simp
    moreover have "(of_nat (123 + i) :: u32) < E" using that assms(2) u by (simp add: word_less_nat_alt del: of_nat_add)
    ultimately show ?thesis using r(4,6) that by (auto simp: heap_view_def written_def cluster_bytes_def)
  qed
  note h = overrun_headers(2,3) [OF r(5,4) assms(2), unfolded r(6)]
  show ?thesis
    using r(2) read_faults [OF assms]
    by (intro exI [of _ f] exI [of _ s1] exI [of _ s2] conjI r(1,3) h) (simp_all add: bytes read_blocks_def)
qed

text \<open>A session whose last command is \<^verbatim>\<open>read\<close>.\<close>

lemma session_read_faults:
  fixes s :: "'a user"
  assumes s: "session s0 E [(n, True)] (concat lines) s" "635 \<le> n"
    and lines: "list_all2 types_line lines (ws @ [map of_char ''read''])"
      "\<forall>w \<in> set ws. w \<noteq> map of_char ''exit'' \<and> w \<noteq> map of_char ''read''"
    and disk: "disk_ready disk E s0" "named_local junk" "krnl_sector disk (mount_info s0) k" "leads_astray s0 (disk k)"
  shows "userspace junk s = None"
proof -
  have n: "536 \<le> n" using s(2) by simp
  obtain s' M where s': "session s0 E (shell_blocks (n - 536) False) [] s'"
    and line: "heap_view E s' M" "holds M 12 (map of_char ''read'' @ [0])" "0 \<notin> set (map of_char ''read'' :: u8 list)"
      "12 + length (map of_char ''read'' :: u8 list) < unat E"
    and us: "userspace junk s = do {
       (quit, s) \<leftarrow> run_cmd junk (of_nat 12) s';
       s \<leftarrow> (if quit then Some s else run_loop junk 12 s);
       s \<leftarrow> free 12 s;
       s \<leftarrow> printf (10 # cstr ''Exit command received; program halted'') [] s;
       exit 0 s }"
    by (rule session_last_line [OF s(1) n lines])
  have E: "635 \<le> unat E" using sessionD(1) [OF s(1)] s(2) by (simp add: heap_inv_def)
  have since: "since E s0 s'" by (rule sessionD(6) [OF s'])
  then have m: "mount_info s' = mount_info s0" "leads_astray s' (disk k)"
    using disk(4) by (simp_all add: since_def disk_same_def leads_astray_def)
  have "cmd_read junk s' = None"
    by (rule read_faults [OF s' E disk_ready_since [OF disk(1) since] disk(2) _ m(2)]) (use disk(3) m(1) in simp)
  then have "run_cmd junk (of_nat 12) s' = None" using run_cmd_line [OF line(1,2,4,3), of junk] by simp
  then show ?thesis unfolding us by simp
qed

section \<open>A concrete session\<close>

lemma demo_disk_ready: "disk_ready demo_img 4096 (demo_user codes)" "krnl_sector demo_img (mount_info (demo_user codes)) 33"
proof -
  let ?s = "demo_user codes"
  have f: "cr0 ?s = 0" "file_system ?s = [Some Fat12]" "mount_info ?s = demo_mount"
    by (simp_all add: demo_user_def demo_stdio_def demo_heap_def demo_fat_def demo_fd_def fd_state.defs fat_state.defs
        heap_state.defs stdio_state.defs user_state.defs)
  have t: "translate ?s va = Some va" "translate (?s\<lparr>ram := m\<rparr>) va = Some va" for va m using f(1) by (simp_all add: translate_def)
  have "\<not> on_screen x" if "x < 4096" for x
    using demo_user_ok(2) [of codes] that by (simp add: console_def region_apart_def heap_bytes_def t)
  moreover have "\<not> in_region DMA_BUFFER 512 x" if "x < 4096" for x
    using that by (simp add: in_region_def word_less_nat_alt unat_sub_if')
  ultimately have "region_apart io_region 4096 ?s" by (simp add: region_apart_def heap_bytes_def t io_region_def)
  moreover have "\<exists>a. \<forall>va < 4096. translate ?s va = Some (a + va)" by (rule exI [of _ 0]) (simp add: t)
  ultimately show "disk_ready demo_img 4096 ?s"
    using demo_user_drive(1) [of codes] by (simp add: disk_ready_def mapped_at_def list_all_iff t f demo_mount_def)
  obtain rest where "dir_entries demo_img 19 14 = disk_entry (demo_img 19) 0 # rest"
    by (simp add: dir_entries_def upt_conv_Cons)
  moreover have "disk_entry (demo_img 19) 0 = \<lparr>dir_filename = krnl_name, dir_attrib = 0, dir_first_cluster = 2, dir_filesize = 1024\<rparr>"
    by code_simp
  ultimately show "krnl_sector demo_img (mount_info ?s) 33"
    by (simp add: krnl_sector_def krnl_entry_def f demo_mount_def)
qed

lemma demo_sector: "sector_word (demo_img 33) 136 = 0x80808080" "sector_word (demo_img 33) 128 = 0" "named_local demo_file"
proof -
  show "sector_word (demo_img 33) 136 = 0x80808080" "sector_word (demo_img 33) 128 = 0" by code_simp+
  show "named_local demo_file" by (simp add: named_local_def demo_file_def)
qed

theorem cmd_read_overruns_heap_witness:
  "\<exists>(s :: user_state) file s1 s2. cmd_read demo_file s = read_loop file 123 s1 \<and> user_read_file file 123 s1 = Some (cluster_step demo_img file, s2) \<and>
     block_next 251 s2 = Some 0x80808080"
proof -
  let ?s = "demo_user []"
  have "session ?s 4096 [(1000, True)] [] ?s"
    using demo_user_heap [of "[]"] demo_user_ok(1,2) [of "[]"] by (simp add: session_def)
  then obtain s3 where s3: "session ?s 4096 [(99, False), (145, True), (732, True)] [] s3" using shell_start by fastforce
  obtain s4 where s4: "session ?s 4096 (shell_blocks 464 False) [] s4"
    using shell_prompt [OF s3, of 464] by (auto simp: shell_ready_def)
  have since: "since 4096 ?s s4" by (rule sessionD(6) [OF s4])
  have "krnl_sector demo_img (mount_info s4) 33" using demo_disk_ready(2) [of "[]"] since by (simp add: since_def disk_same_def)
  moreover have "635 \<le> unat (4096 :: u32)" by simp
  ultimately obtain f s5 s6 where r: "cmd_read demo_file s4 = read_loop f 123 s5"
    "user_read_file f 123 s5 = Some (cluster_step demo_img f, s6)" "block_next 251 s6 = Some (sector_word (demo_img 33) 136)"
    using cmd_read_overruns_heap [OF s4 _ disk_ready_since [OF demo_disk_ready(1) since] demo_sector(3)] by blast
  show ?thesis using r(1,2) r(3) [unfolded demo_sector(1)] by blast
qed

end
