(* ===== verification/System_props.thy ===== *)
theory System_props
  imports Boot_props Read_props
begin

text \<open>
  The step from the kernel to the command interpreter: the first allocation of user code sets up the heap in the
  address space that \<open>kmain\<close> left, outside frame buffer and page tables. A concrete machine that boots.
\<close>

unbundle bit_operations_syntax

section \<open>The first allocation\<close>

lemma first_malloc:
  assumes "\<not> malloc_iniited s" "malloc_init bytes (s\<lparr>int_flag := False\<rparr>) = Some u" "malloc_iniited u" "\<not> int_flag u"
  shows "malloc bytes s = malloc bytes (u\<lparr>int_flag := int_flag s\<rparr>)"
proof -
  have e: "u\<lparr>int_flag := int_flag s, int_flag := False\<rparr> = u" using assms(4) by (cases u) simp
  have "syscall_dispatcher 0 [] (call_regs SYSCALL_MALLOC bytes) (s\<lparr>int_flag := False\<rparr>) =
      syscall_dispatcher 0 [] (call_regs SYSCALL_MALLOC bytes) u"
    using assms(1-3) by (simp add: syscall_dispatcher_def syscalls_def syscall_malloc_def call_regs_def is_malloc_inited_def)
  then show ?thesis unfolding malloc_def int_0x80_def gate_0x80 e by (simp cong: if_cong)
qed

text \<open>The heap's page and the page tables lie outside the frame buffer.\<close>

lemma screen_block: "on_screen x \<Longrightarrow> x div 4096 = 0xB8"
proof -
  assume "on_screen x"
  moreover define r where "r = x - 0xB8000"
  ultimately have "unat r < 4000" "x = 0xB8000 + r" by (simp_all add: on_screen_def in_region_def word_less_nat_alt)
  then show ?thesis by (simp add: word_unat_eq_iff unat_div unat_word_ariths)
qed

lemma region_apart_page:
  fixes t u :: "'a vmm"
  assumes t: "vmm_wf t" "bit (cr0 t) 31" "cr3 t = curdir t" and kept: "heap_kept 4096 t u"
    and walk: "\<And>va. unat va < 4096 \<Longrightarrow> translate u va = Some (a + va)" and a: "a mod 4096 = 0" "a div 4096 \<notin> B"
    and region: "\<And>x. R x \<Longrightarrow> x div 4096 \<in> B"
    and frames: "\<And>p. table_frame t p \<Longrightarrow> p div 4096 \<notin> B \<and> p div 4096 \<noteq> a div 4096"
  shows "region_apart R 4096 u"
proof -
  have hb: "x div 4096 = a div 4096" if "x \<in> heap_bytes 4096 u" for x
    using that walk page_block [OF a(1)] by (auto simp: heap_bytes_def word_less_nat_alt)
  have "translate (u\<lparr>ram := m\<rparr>) va = translate u va" if m: "\<forall>x. x \<notin> heap_bytes 4096 u \<and> \<not> R x \<longrightarrow> m x = ram u x" for m va
  proof -
    have "m x = ram t x" if "table_frame t p" "x div 4096 = p div 4096" for x p
    proof -
      have "x \<notin> heap_bytes 4096 u" "\<not> R x" using hb [of x] region [of x] frames [OF that(1)] that(2) by auto
      then show ?thesis using m kept heap_kept_bytes [OF kept] by (simp add: heap_kept_def)
    qed
    then have "mmu_walk m (curdir t) va = mmu_walk (ram t) (curdir t) va" by (rule walk_cong [OF t(1)])
    moreover have "cr0 u = cr0 t" "cr3 u = cr3 t" "translate u va = translate t va" using kept by (auto simp: heap_kept_def)
    ultimately show ?thesis using t(2,3) by (simp add: translate_def)
  qed
  moreover have "\<not> R x" if "x \<in> heap_bytes 4096 u" for x using hb [OF that] region [of x] a(2) by auto
  ultimately show ?thesis by (auto simp: region_apart_def)
qed

lemma user_pmm_only:
  fixes s t :: "'a user"
  assumes "pmm_only s t"
  shows "dev_b t = dev_b s" "io_log t = io_log s" "halted t = halted s" "int_flag t = int_flag s" "cursor_x t = cursor_x s"
    "cursor_y t = cursor_y s" "scancode t = scancode s" "dev_timer t = dev_timer s" "dev_input t = dev_input s" "write_len t = write_len s"
    "disk_same s t"
  using assms by (cases s; cases t; simp add: pmm_only_def disk_same_def)+

text \<open>The blocks of the frame buffer and of the sector buffer.\<close>

abbreviation io_blocks :: "u32 set" where
  "io_blocks \<equiv> {1, 0xB8}"

lemma io_block: "io_region x \<Longrightarrow> x div 4096 \<in> io_blocks"
proof -
  have "x div 4096 = 1" if "in_region DMA_BUFFER 512 x"
  proof -
    define r where "r = x - 0x1000"
    have "unat r < 512" "x = 0x1000 + r" using that by (simp_all add: r_def in_region_def word_less_nat_alt)
    then show ?thesis by (simp add: word_unat_eq_iff unat_div unat_word_ariths)
  qed
  then show "io_region x \<Longrightarrow> x div 4096 \<in> io_blocks" using screen_block by (auto simp: io_region_def)
qed

lemma first_page:
  fixes s :: "'a user"
  assumes wf: "vmm_wf s" and on: "bit (cr0 s) 31" "cr3 s = curdir s" and pres: "entry_present (pde s 0)"
    and heap: "malloc_virt_addr s = 0" "\<not> malloc_iniited s" and room: "1 < pmmngr_get_free_block_count s" "in_map s b 1" "\<not> block_used s b"
    and io: "\<And>c. c \<in> io_blocks \<Longrightarrow> block_used s c" "\<And>p. table_frame s p \<Longrightarrow> p div 4096 \<notin> io_blocks" "disp_wf s"
    and s: "\<not> halted s" "typing codes s"
  obtains t a where "printf fmt args s = printf fmt args t" "session t 4096 [(4084, True)] codes t" "region_apart io_region 4096 t"
    "disk_same s t" "dev_b t = dev_b s" "dev_timer t = dev_timer s"
    "\<And>va. translate t va = (if unat va < 4096 then Some (a + va) else translate s va)"
proof -
  let ?s = "s\<lparr>write_len := 0, int_flag := False\<rparr>"
  have p1: "pages_for 256 = 1" by (simp add: pages_for_def)
  then have n1: "0 < pages_for 256" "pages_for 256 \<le> 32" by simp_all
  have c: "c - b < 1 \<longleftrightarrow> c = b" for c by (simp add: word_less_nat_alt unat_eq_0)
  note d = memory_defs fun_eq_iff in_map_def table_frame_def pmmngr_get_free_block_count_def
  have s': "vmm_wf ?s" "bit (cr0 ?s) 31" "cr3 ?s = curdir ?s" "entry_present (pde ?s 0)" "malloc_virt_addr ?s = 0"
    "of_nat (pages_for 256) < pmmngr_get_free_block_count ?s" "in_map ?s b (of_nat (pages_for 256))"
    "\<forall>c. c - b < of_nat (pages_for 256) \<longrightarrow> \<not> block_used ?s c" "block_used ?s = block_used s" "table_frame ?s = table_frame s"
    using wf on pres heap(1) room by (simp_all add: p1 c d)
  obtain a s1 t u where al: "pmmngr_alloc_blocks 1 (?s\<lparr>total_malloc_pages := 1\<rparr>) = (a, s1)"
    and t: "\<exists>m. t = s1\<lparr>malloc_phys_addr := a, malloc_list_head := 0, ram := m\<rparr>" "vmm_wf t" "\<And>p. table_frame t p = table_frame s p"
      "bit (cr0 t) 31" "cr3 t = curdir t" and u: "heap_kept 4096 t u"
    and init: "malloc_init 256 ?s = Some (u\<lparr>malloc_iniited := True\<rparr>)" "heap_inv 4096 [(4084, True)] (u\<lparr>malloc_iniited := True\<rparr>)"
    and a: "a mod 4096 = 0" "\<not> block_used s (a div 4096)" and tr: "\<And>va. translate u va = (if unat va < 4096 then Some (a + va) else translate ?s va)"
    by (rule malloc_init_run [OF s'(1-5) n1 s'(6-8), unfolded p1 s'(9,10), simplified]) (rule that; assumption)
  let ?t = "u\<lparr>malloc_iniited := True, int_flag := int_flag s\<rparr>"
  have "region_apart io_region 4096 u"
  proof (rule region_apart_page [OF t(2,4,5) u _ a(1), of io_blocks])
    show "unat va < 4096 \<Longrightarrow> translate u va = Some (a + va)" for va using tr by simp
    show "a div 4096 \<notin> io_blocks" using a(2) io(1) by auto
    show "io_region x \<Longrightarrow> x div 4096 \<in> io_blocks" for x by (rule io_block)
    show "p div 4096 \<notin> io_blocks \<and> p div 4096 \<noteq> a div 4096" if "table_frame t p" for p
      using that t(3) io(2) a(2) table_frame_reserved [OF wf, of p] by (auto simp: reserved_frame_def)
  qed
  then have apart: "region_apart io_region 4096 ?t" by (rule region_apart_change(3)) simp_all
  then have screen: "screen_apart 4096 ?t" by (rule region_apart_mono) (simp add: io_region_def)
  obtain m where m: "u = s1\<lparr>malloc_phys_addr := a, malloc_list_head := 0, ram := m\<rparr>" using t(1) u by (auto simp: heap_kept_def)
  have "pmm_only (?s\<lparr>total_malloc_pages := 1\<rparr>) s1" using pmm_only_alloc [of "?s\<lparr>total_malloc_pages := 1\<rparr>" 1] al by simp
  note f = user_pmm_only [OF this]
  have "disp_wf ?t" "typing codes ?t" "\<not> halted ?t"
    using f io(3) s by (simp_all add: m disp_wf_def typing_def)
  then have ses: "session ?t 4096 [(4084, True)] codes ?t"
    using init(2) screen by (simp add: session_def console_def)
  have "malloc 256 (s\<lparr>write_len := 0\<rparr>) = malloc 256 (?t\<lparr>write_len := 0\<rparr>)"
  proof -
    have w: "?t\<lparr>write_len := 0\<rparr> = ?t" using f(10) unfolding m by (cases s1 rule: stdio_state.cases_scheme) simp
    have "malloc 256 (s\<lparr>write_len := 0\<rparr>) = malloc 256 (u\<lparr>malloc_iniited := True, int_flag := int_flag (s\<lparr>write_len := 0\<rparr>)\<rparr>)"
      by (rule first_malloc) (use init(1) heap(2) f(4) in \<open>simp_all add: m\<close>)
    then show ?thesis unfolding w by simp
  qed
  then have "printf fmt args s = printf fmt args ?t" by (simp add: printf_def Let_def)
  moreover have "disk_same s ?t" "dev_b ?t = dev_b s" "dev_timer ?t = dev_timer s" using f by (simp_all add: m disk_same_def)
  moreover have "translate ?t va = (if unat va < 4096 then Some (a + va) else translate s va)" for va
  proof -
    have "translate ?t va = translate u va" "translate ?s va = translate s va" by (simp_all add: translate_def)
    then show ?thesis using tr [of va] by simp
  qed
  ultimately show thesis using ses apart by (intro that)
qed

section \<open>From the boot loader to user code\<close>

text \<open>
  What a machine needs for a session: a working and idle drive with a mountable disk, tables of the declared lengths, room
  in the first 4 MiB of memory (where the page tables stay within reach once paging is on), a frame buffer that the memory map leaves in use, a heap that is not set up, and a keyboard where codes are typed.
\<close>

definition bootable :: "(nat \<Rightarrow> nat \<Rightarrow> u8) \<Rightarrow> kernel_image \<Rightarrow> hal_state \<Rightarrow> u8 list \<Rightarrow> 'a user \<Rightarrow> bool" where
  "bootable disk img h codes s \<longleftrightarrow> drive_ok disk s \<and> drive_idle s \<and> \<not> read_command (fifo_out (io_log s)) \<and>
     length (gdt h) = unat GDT_SIZE \<and> length (idt h) = unat IDT_SIZE \<and> linked img \<and>
     disk_word disk 11 \<noteq> 0 \<and> 0 < length (file_system s) \<and> (\<exists>b. room (boot_memory s) b \<and> unat b + 6 \<le> 0x400) \<and>
     block_in_map (boot_memory s) 0xB8 \<and> block_used (boot_memory s) 0xB8 \<and>
     malloc_virt_addr s = 0 \<and> \<not> malloc_iniited s \<and> \<not> halted s \<and> typing codes (s\<lparr>int_flag := True\<rparr>)"

lemma boot_blocks:
  assumes "room (boot_memory s) b"
  shows "block_in_map (boot_memory s) 1" "block_used (boot_memory s) 1"
proof -
  have "0 < unat (max_blocks (boot_memory s) div 32)" using assms by (simp add: room_def in_map_def)
  then show "block_in_map (boot_memory s) 1" by (simp add: block_in_map_def word_less_nat_alt)
  show "block_used (boot_memory s) 1" by (simp add: boot_memory_def reserve_memory_effect reserved_def)
qed

lemma user_code_starts:
  fixes s :: "'a user"
  assumes boot: "bootable disk img h codes s"
  obtains h' t t' where "kmain img stack h s = Some (h', t)" "userspace junk t = userspace junk t'"
    "session t' 4096 [(4084, True)] codes t'" "boot_geometry disk (mount_info t')"
    "unat (root_offset (mount_info t')) + 14 \<le> 2880 \<longrightarrow> disk_ready disk 4096 t'"
    "\<forall>va. 4096 \<le> unat va \<longrightarrow> translate t' va = kernel_space va" "self_mapped t" "\<not> kernel_uses t 0"
proof -
  note boot' = boot [unfolded bootable_def]
  obtain b where b: "room (boot_memory s) b" and low: "unat b + 6 \<le> 0x400" using boot' by blast
  obtain h' t where run: "kmain img stack h s = Some (h', t)" and t: "vmm_wf t" "cr3 t = curdir t" "bit (cr0 t) 31"
    "entry_present (pde t 0)" "int_flag t" "disp_wf t" "mmu_walk (ram t) (cr3 t) = kernel_space" and up: "devices_up disk s t"
    and room: "\<not> block_used t (b + 5)" "in_map t (b + 5) 1" "1 < pmmngr_get_free_block_count t"
    and frames: "\<And>p. table_frame t p \<Longrightarrow> \<not> block_used (boot_memory s) (p div 4096)"
    and used: "\<And>c. block_in_map (boot_memory s) c \<Longrightarrow> block_used (boot_memory s) c \<Longrightarrow> block_used t c"
    and self: "self_mapped t" "\<not> kernel_uses t 0"
    by (rule kmain_run [OF _ _ _ _ _ _ _ _ b, of disk h img stack]) (use boot' low in \<open>simp_all\<close>)
  have m: "malloc_virt_addr t = malloc_virt_addr s" "malloc_iniited t = malloc_iniited s" "dev_input t = dev_input s"
    using up unfolding devices_up_def by (cases s; cases t; simp)+
  obtain l where "io_log t = io_log s @ l" "key_reads l = 0" using up by (auto simp: devices_up_def log_grows_def)
  then have "typing (drop 0 codes) t"
    by (intro typing_later [of codes "s\<lparr>int_flag := True\<rparr>"]) (use boot' up m t(5) in \<open>simp_all add: devices_up_def typing_def\<close>)
  then have ty: "typing codes t" by simp
  have blocks: "block_used t c" "block_used (boot_memory s) c" if "c \<in> io_blocks" for c
    using that boot_blocks [OF b] boot' used [of c] by auto
  then have fr: "p div 4096 \<notin> io_blocks" if "table_frame t p" for p using frames [OF that] by blast
  obtain t' a where t': "printf logo [] t = printf logo [] t'" "session t' 4096 [(4084, True)] codes t'"
    "region_apart io_region 4096 t'" "disk_same t t'" "dev_b t' = dev_b t" "dev_timer t' = dev_timer t"
    "\<And>va. translate t' va = (if unat va < 4096 then Some (a + va) else translate t va)"
    by (rule first_page [OF t(1,3,2,4) _ _ room(3,2,1) blocks(1) fr t(6) _ ty, of logo "[]"])
      (use m boot' up in \<open>simp_all add: devices_up_def\<close>)
  have tr: "translate t' va = kernel_space va" if "4096 \<le> unat va" for va using that t'(7) [of va] t(3,7) by (simp add: translate_def)
  have "userspace junk t = userspace junk t'" using t'(1) by (simp add: userspace_def)
  moreover have geo: "boot_geometry disk (mount_info t')" using up t'(4) by (simp add: devices_up_def disk_same_def)
  moreover have "disk_ready disk 4096 t'" if "unat (root_offset (mount_info t')) + 14 \<le> 2880"
  proof -
    have "drive_ok disk t'" using up disk_same_ok [OF t'(4-6), of disk] by (simp add: devices_up_def)
    moreover have "\<exists>fs. file_system t' = Some Fat12 # fs"
      using up t'(4) boot' by (cases "file_system s") (auto simp: devices_up_def disk_same_def)
    moreover have "translate t' (DMA_BUFFER + of_nat k) = Some (DMA_BUFFER + of_nat k)" if "k < 512" for k
    proof -
      have "unat (DMA_BUFFER + of_nat k) = 4096 + k" using that by (simp add: unat_word_ariths unat_of_nat_small)
      then show ?thesis using tr [of "DMA_BUFFER + of_nat k"] that by (simp add: kernel_space_def word_less_nat_alt)
    qed
    then have "mapped_at t' DMA_BUFFER DMA_BUFFER" by (simp add: mapped_at_def list_all_iff)
    moreover have "\<forall>va < 4096. translate t' va = Some (a + va)" using t'(7) by (simp add: word_less_nat_alt)
    ultimately show ?thesis using that t'(3) by (auto simp: disk_ready_def)
  qed
  ultimately show thesis using that [OF run _ t'(2)] tr self by blast
qed

section \<open>A machine for the witnesses\<close>

text \<open>The boot loader reports one region, from 1 MiB to 32 MiB, and a kernel of 90 sectors.\<close>

definition demo_ram :: memory where
  "demo_ram x = (if x = 0x1000 then 1 else if x = 0x1006 then 0x10 else if x = 0x100E then 0xF0 else if x = 0x100F then 1
     else if x = 0x1014 then 1 else if x = 0x8000 then 90 else 0)"

lemma demo_ram_loads:
  assumes m: "\<And>x. x < 0x30000 \<Longrightarrow> m x = demo_ram x"
  shows "load32 m 0x1000 = 1" "load32 m 0x8000 = 90"
    "read_SMAP_entry m 0x1004 = \<lparr>smap_base = 0x100000, smap_size = 0x1F00000, smap_type = 1, smap_acpi = 0\<rparr>"
  by (simp_all add: read_SMAP_entry_def load64_def load32_def m demo_ram_def)

lemma demo_init_memory:
  fixes s :: "'a pmm"
  assumes m: "\<And>x. x < 0x30000 \<Longrightarrow> ram s x = demo_ram x"
  shows "init_memory s = pmmngr_init_region 0x100000 0x1F00000 (pmmngr_init MEMMAP_ADDRESS 0x1FFFFFF s)"
proof -
  let ?t = "pmmngr_init MEMMAP_ADDRESS 0x1FFFFFF s"
  have "ram ?t x = demo_ram x" if "x < 0x30000" for x
  proof -
    have "\<not> in_region 0x30000 1023 x" using that by (simp add: in_region_def word_less_nat_alt unat_sub_if')
    then show ?thesis using m [OF that] by (simp add: pmmngr_init_def Let_def memset_apply pmmngr_get_block_count_def pmmngr_get_memory_size_def)
  qed
  note l = demo_ram_loads [OF this] demo_ram_loads [OF m]
  have "init_memory s = init_regions 1 ?t" using l(4-6) by (simp add: init_memory_def Let_def)
  also have "\<dots> = pmmngr_init_region 0x100000 0x1F00000 ?t" using l(3) by (simp add: init_regions_def for_u32.simps Let_def)
  finally show ?thesis .
qed

lemma demo_boot_room:
  fixes s :: "'a fat"
  assumes m: "ram s = demo_ram"
  shows "room (boot_memory s) 0x10B" "block_in_map (boot_memory s) 0xB8" "block_used (boot_memory s) 0xB8"
proof -
  let ?c = "clear_screen s" and ?m = "boot_memory s"
  have c: "ram ?c x = demo_ram x" if "x < 0x30000" for x
  proof -
    have "\<not> on_screen x" using that screen_block [of x] by (auto simp: word_less_nat_alt word_unat_eq_iff unat_div)
    then show ?thesis using clear_screen_effect(2) [of x s] m by simp
  qed
  let ?i = "pmmngr_init MEMMAP_ADDRESS 0x1FFFFFF ?c"
  have bm: "?m = reserve_memory 90 (pmmngr_init_region 0x100000 0x1F00000 ?i)"
    using demo_ram_loads(2) [of "ram ?c", OF c] demo_init_memory [of ?c, OF c] by (simp add: boot_memory_def)
  have i: "memory_map ?i = 0x30000" "max_blocks ?i = 8191" "used_blocks ?i = 8191"
    by (simp_all add: pmmngr_init_def Let_def pmmngr_get_block_count_def pmmngr_get_memory_size_def)
  have mx: "max_blocks ?m = 8191" "memory_map ?m = 0x30000" "used_blocks ?m = 287"
    unfolding bm by (simp_all add: reserve_memory_def Let_def deinit_region_effect init_region_effect i pmmngr_get_block_count_def)
  have u: "block_used ?m c \<longleftrightarrow> c - 1 < 0x15 \<or> c - 0x100 < 11 \<or> c = 0 \<or> \<not> c - 0x100 < 0x1F00 \<and> block_used ?i c" for c
    unfolding bm reserve_memory_effect by (auto simp: reserved_def init_region_effect i)
  have used: "block_used ?i c" if "c < 8184" for c
    by (rule block_used_init) (use that in \<open>simp add: word_less_nat_alt unat_div\<close>)
  show "block_in_map ?m 0xB8" by (simp add: block_in_map_def mx)
  show "block_used ?m 0xB8" unfolding u using used [of "0xB8"] by simp
  have free: "\<not> block_used ?m c" if "c - 0x10B < 6" for c
  proof -
    have "unat (c - 0x10B) < 6" using that by (simp add: word_less_nat_alt)
    then have "0x10B \<le> unat c" "unat c < 0x111" using unat_u32_bound [of c] by (auto simp: unat_sub_if' split: if_splits)
    then have "c \<noteq> 0" "\<not> c - 1 < 0x15" "\<not> c - 0x100 < 11" "c - 0x100 < 0x1F00" by (auto simp: word_less_nat_alt unat_sub_if')
    then show ?thesis unfolding u by blast
  qed
  have "x div 4096 = 0x30" if "map_byte ?m x" for x
  proof -
    define r where "r = x - 0x30000"
    have "unat r < 1024" "x = 0x30000 + r" using that by (simp_all add: r_def map_byte_def in_region_def mx word_less_nat_alt)
    then show ?thesis by (simp add: word_unat_eq_iff unat_div unat_word_ariths)
  qed
  moreover have "block_used ?m 0x30" unfolding u using used [of "0x30"] by simp
  ultimately have "memory_wf ?m" by (auto simp: memory_wf_def pmm_wf_def map_reserved_def block_in_map_def mx u)
  then show "room ?m 0x10B" using free by (simp add: room_def in_map_def pmmngr_get_free_block_count_def pmmngr_get_block_count_def mx)
qed

definition demo_machine :: "u8 list \<Rightarrow> user_state" where
  "demo_machine codes = (demo_user codes)\<lparr>ram := demo_ram, int_flag := False, malloc_iniited := False, malloc_virt_addr := 0\<rparr>"

lemma demo_machine_ok:
  "drive_ok demo_img (demo_machine codes)" "drive_idle (demo_machine codes)" "\<not> read_command (fifo_out (io_log (demo_machine codes)))"
  "0 < length (file_system (demo_machine codes))" "typing codes ((demo_machine codes)\<lparr>int_flag := True\<rparr>)"
  "ram (demo_machine codes) = demo_ram" "malloc_virt_addr (demo_machine codes) = 0" "\<not> malloc_iniited (demo_machine codes)"
  "\<not> halted (demo_machine codes)"
proof -
  note defs = demo_machine_def demo_user_def demo_stdio_def demo_heap_def demo_fat_def demo_fd_def fd_state.defs fat_state.defs
    heap_state.defs stdio_state.defs user_state.defs
  let ?s = "demo_machine codes"
  show "drive_ok demo_img ?s" "drive_idle ?s"
    using demo_user_drive [of codes] disk_same_ok [of "demo_user codes" ?s demo_img]
    by (simp_all add: demo_machine_def disk_same_def drive_idle_def)
  show "typing codes (?s\<lparr>int_flag := True\<rparr>)" using demo_user_ok(1) [of codes] by (simp add: demo_machine_def typing_def)
  have f: "io_log ?s = []" "file_system ?s = [Some Fat12]" by (simp_all add: defs)
  show "\<not> read_command (fifo_out (io_log ?s))" "0 < length (file_system ?s)" by (simp_all add: f read_command_def)
  show "ram ?s = demo_ram" "malloc_virt_addr ?s = 0" "\<not> malloc_iniited ?s" "\<not> halted ?s" by (simp_all add: defs)
qed

lemma demo_bootable: "bootable demo_img demo_image demo_hal codes (demo_machine codes)"
proof -
  have "length (gdt demo_hal) = unat GDT_SIZE" "length (idt demo_hal) = unat IDT_SIZE" "linked demo_image"
    by (simp_all add: demo_hal_def linked_def demo_image_def)
  moreover have "disk_word demo_img 11 \<noteq> 0" by (simp add: disk_word_def demo_img_def)
  moreover have "\<exists>b. room (boot_memory (demo_machine codes)) b \<and> unat b + 6 \<le> 0x400"
    using demo_boot_room(1) [OF demo_machine_ok(6)] by (intro exI [of _ "0x10B"]) simp
  ultimately show ?thesis using demo_machine_ok [of codes] demo_boot_room(2,3) [OF demo_machine_ok(6) [of codes]]
    by (simp add: bootable_def)
qed

text \<open>The geometry of the disk, and the keys r, e, a, d, Return.\<close>

lemma demo_geometry:
  assumes "boot_geometry demo_img mi"
  shows "unat (root_offset mi) + 14 \<le> 2880 \<and> krnl_sector demo_img mi 33"
proof -
  have "disk_word demo_img 11 = 512" "disk_word demo_img 14 = 1" "disk_word demo_img 17 = 224" "disk_word demo_img 22 = 9"
    "unat (demo_img 0 16) = 2"
    by (simp_all add: disk_word_def demo_img_def)
  then have m: "unat (root_offset mi) = 19" "unat (data_offset mi) = 33" using assms by (simp_all add: boot_geometry_def)
  moreover have "unat (root_offset demo_mount) = 19" "unat (data_offset demo_mount) = 33" by (simp_all add: demo_mount_def)
  ultimately have "krnl_sector demo_img mi 33 = krnl_sector demo_img demo_mount 33"
    unfolding krnl_sector_def krnl_entry_def by (simp only:)
  moreover have "mount_info (demo_user []) = demo_mount"
    by (simp add: demo_user_def demo_stdio_def demo_heap_def demo_fat_def demo_fd_def fd_state.defs fat_state.defs
        heap_state.defs stdio_state.defs user_state.defs)
  ultimately show ?thesis using demo_disk_ready(2) [of "[]"] m(1) by simp
qed

definition demo_read :: "u8 list" where
  "demo_read = [0x13, 0x12, 0x1E, 0x20, 0x1C]"

lemma demo_read_typed: "types_line demo_read (map of_char ''read'')"
proof -
  have "list_all2 types [0x13, 0x12, 0x1E, 0x20] [KEY_R, KEY_E, KEY_A, KEY_D]" "types 0x1C KEY_RETURN"
    "edit 99 [] [KEY_R, KEY_E, KEY_A, KEY_D] = Some (map of_char ''read'')" by code_simp+
  then show ?thesis unfolding types_line_def demo_read_def by (metis append.simps)
qed

lemma demo_kernel_space: "kernel_space 0x80808088 = None"
  by (simp add: kernel_space_def)

end
