(* ===== verification/Spec2Isabelle.thy ===== *)
theory Spec2Isabelle
  imports Descriptor_props Timer_props Display_numbers Heap_clients Heap_paged Virtual_paged Disk_errors System_props
begin

text \<open>
  \<^bold>\<open>A verification development of the fanOS kernel\<close> (the C code under \<^verbatim>\<open>src/src\<close>).

  \<^bold>\<open>The program.\<close> fanOS is a 32-bit x86 kernel that is loaded from a floppy disk. \<^verbatim>\<open>kmain\<close> (\<^verbatim>\<open>kernel.c\<close>) hands the
  memory regions of the boot loader's map to the physical memory manager, sets up the descriptor
  tables, interrupt controllers and timer, mounts the FAT12 volume on the floppy, reserves the memory
  in use, turns paging on and enters \<^verbatim>\<open>userspace\<close>, a command interpreter. The interpreter reads keys that
  the keyboard interrupt stores, prints through \<^verbatim>\<open>printf\<close>, whose buffer comes from the heap by the system
  calls of interrupt 0x80, and reads files through the volume table.

  \<^bold>\<open>State.\<close> Each component extends the record of the ones below it: \<open>machine\<close> (memory, control registers,
  interrupt flag, port history) \<open>\<rightarrow>\<close> \<open>display_state\<close> (cursor) \<open>\<rightarrow>\<close> \<open>pmm_state\<close> (bitmap address and counters) \<open>\<rightarrow>\<close>
  \<open>vmm_state\<close> (current directory) \<open>\<rightarrow>\<close> \<open>pit_state\<close> (ticks) \<open>\<rightarrow>\<close> \<open>kbd_state\<close> (last scan code) \<open>\<rightarrow>\<close> \<open>fd_state\<close> (drive, IRQ 6) \<open>\<rightarrow>\<close>
  \<open>fat_state\<close> (mount data, table buffer, volumes) \<open>\<rightarrow>\<close> \<open>heap_state\<close> \<open>\<rightarrow>\<close> \<open>stdio_state\<close> \<open>\<rightarrow>\<close> \<open>user_state\<close>. An operation
  takes and returns the state of its own record, whatever extends it. The descriptor tables are a
  record of their own (\<open>hal_state\<close>), since only \<^verbatim>\<open>kernel.c\<close> uses them together with the rest. Everything that
  the C code keeps in memory behind pointers (the bitmap, page tables, the frame buffer, sector
  buffers, heap blocks) is in the byte memory of the machine.

  \<^bold>\<open>Hardware.\<close> Devices are not part of the sources: they are fields of the state that no operation changes,
  functions of the whole port history. \<open>dev_b\<close> and \<open>dev_w\<close> answer port reads, \<open>dev_irq6\<close> and \<open>dev_dma\<close> are
  the floppy controller's interrupt and its transfer to memory, \<open>dev_timer\<close> the timer interrupts during
  a wait, \<open>dev_input\<close> the interrupts before each poll of the keyboard. Properties that need a device to
  work state what its data sheet says as a hypothesis (\<open>drive_ok\<close>, \<open>typing\<close>), and a witness gives a
  concrete device.

  \<^bold>\<open>Results.\<close> \<open>None\<close> is a computation that does not come back: a wait that no interrupt ends, a loop that does
  not terminate, a page fault (whose handler halts), a division by zero, or an access outside a C
  object. Loops over machine words are \<open>for_u32\<close> or functions with a termination proof; loops that
  may run forever are partial functions into \<open>option\<close>, so no fuel is needed anywhere. Uninitialised
  local variables and addresses that the linker chooses are arguments.

  \<^bold>\<open>Theories.\<close>
  \<^item> \<open>Prelude\<close>, \<open>Machine\<close>, \<open>Interfaces\<close>: words, counting loops, byte memory with its little-endian accesses, ports
    (\<^verbatim>\<open>ports/io.c\<close>), \<^verbatim>\<open>memset\<close> and \<^verbatim>\<open>memcpy\<close>; locales for the structures that components offer each other.
  \<^item> \<open>Physical_mmngr\<close> models \<^verbatim>\<open>memory/physical_mmngr.c\<close>. \<open>Physical_search\<close>, \<open>Physical_alloc\<close> and \<open>Physical_owner\<close> show that
    the search returns the first fit, is complete, and that runs held by clients stay disjoint in
    every sequence of calls, runs that the search lets reach past the end of the map included.
  \<^item> \<open>Vmm_entries\<close> and \<open>Virtual_mmngr\<close> model the page tables (\<^verbatim>\<open>memory/vmmngr_*.c\<close>, \<^verbatim>\<open>memory/virutal_mmngr.c\<close>).
    \<open>Virtual_map\<close>, \<open>Virtual_init\<close>, \<open>Virtual_props\<close>, \<open>Virtual_space\<close> and \<open>Virtual_ops\<close> relate them to the translation that
    the processor does: what mapping, unmapping and initialisation do to every address. \<open>Virtual_trace\<close> refines
    sequences of these operations to an abstract map from pages to frames. \<open>Virtual_paged\<close> runs mapping and unmapping with every
    access to directory and tables translated by the processor, and shows that this gives the same states.
  \<^item> \<open>Descriptors\<close>, \<open>Descriptor_props\<close>: \<^verbatim>\<open>hal/gdt.c\<close>, \<^verbatim>\<open>hal/idt.c\<close>, \<^verbatim>\<open>hal/tss.c\<close>, and what the processor reads back.
  \<^item> \<open>Timers\<close>, \<open>Timer_props\<close>: \<^verbatim>\<open>hal/pic.c\<close> and \<^verbatim>\<open>interrupts/pit.c\<close>, against a model of the 8259 controller.
  \<^item> \<open>Display\<close>, \<open>Display_props\<close>, \<open>Display_numbers\<close>: \<^verbatim>\<open>debug/display.c\<close>; the effect of each character on each cell, and
    that numbers are printed as their numerals.
  \<^item> \<open>Keyboard\<close>, \<open>Keyboard_props\<close>: \<^verbatim>\<open>interrupts/keyboard.c\<close>; \<open>Cstring\<close>: \<^verbatim>\<open>C/string.c\<close>.
  \<^item> \<open>Dma\<close>, \<open>Floppy\<close>, \<open>Floppy_props\<close>: \<^verbatim>\<open>hal/dma.c\<close> and \<^verbatim>\<open>filesystem/floppydisk.c\<close>; on a drive that answers, a read ends
    with the sector in the buffer.
  \<^item> \<open>Fat12\<close>, \<open>Fat_props\<close>, \<open>Fat_files\<close>: \<^verbatim>\<open>filesystem/fat12.c\<close> and \<^verbatim>\<open>file.c\<close>, over a locale of sector sources that the
    driver interprets; files are read as the cluster chains of the disk say. \<open>Disk_errors\<close>: what they hold when the drive does not
    find its cylinders.
  \<^item> \<open>Malloc\<close>, \<open>Heap_view\<close>, \<open>Heap_props\<close>, \<open>Heap_init\<close>, \<open>Heap_grow\<close>: \<^verbatim>\<open>memory/malloc.c\<close>; accesses through the page tables
    interpret a locale of byte memories, and the block list in memory refines an abstract allocator. \<open>first_fit\<close> specifies the first
    free block that is large enough; \<open>stops_at\<close> says where the search of the code stops, which is that block if there is one and
    the last block otherwise. \<open>Heap_paged\<close>: the heap is set up and grows in the address space of the page tables.
    \<open>Heap_clients\<close> refines sequences of system calls and writes to an abstract store.
  \<^item> \<open>Syscalls\<close>, \<open>Syscall_props\<close>: \<^verbatim>\<open>interrupts/syscall.c\<close>, \<^verbatim>\<open>interrupts/exceptions.c\<close>, the default handlers of \<^verbatim>\<open>idt.c\<close>,
    \<^verbatim>\<open>C/stdlib.c\<close>.
  \<^item> \<open>Stdio\<close>, \<open>Stdio_props\<close>: \<^verbatim>\<open>C/stdio.c\<close>; \<open>printf\<close> shows the text that a specification of formats gives.
  \<^item> \<open>Userspace\<close>, \<open>Userspace_props\<close>, \<open>Session_props\<close>: \<^verbatim>\<open>userspace.c\<close>; the line editor, the choice of commands, and
    whole sessions up to the command \<^verbatim>\<open>exit\<close>. \<open>Read_props\<close>: the command \<^verbatim>\<open>read\<close>, whose buffer is smaller than a sector.
  \<^item> \<open>Kernel\<close>, \<open>Kernel_props\<close>, \<open>Boot_props\<close>: \<^verbatim>\<open>kernel.c\<close>; the memory that stays reserved, the gates that interrupts take,
    and the whole of \<^verbatim>\<open>kmain\<close> from what each component leaves alone.
  \<^item> \<open>System_props\<close> and the present theory: from the boot loader to the end of a session, across all components.

  \<^bold>\<open>Boundaries.\<close> The kernel's own structures (bitmap, page tables, frame buffer, sector buffers) are accessed
  at physical addresses. With paging on, the code reaches them there as long as their pages are mapped to themselves:
  \<open>kernel_uses\<close> names these pages and \<open>self_mapped\<close> is the condition. The properties that map pages repeatedly
  (sequences of mappings, setting up and growing the heap) assume it, exclude that such a page is remapped, and
  conclude that it holds again; \<open>System_props\<close> proves it of the state that \<^verbatim>\<open>kmain\<close> leaves, and \<open>Virtual_paged\<close> that under it the
  translated accesses of mapping and unmapping do what the physical ones do. The heap,
  which overlays the identity mapping at virtual address 0, is accessed through the page tables, with the
  separation of heap, page tables and screen as a hypothesis where it matters (\<open>heap_mapped\<close>,
  \<open>region_apart\<close>); \<open>System_props\<close> shows that it holds after \<^verbatim>\<open>kmain\<close>. A working drive (\<open>drive_ok\<close>) puts its sectors into the
  sector buffer at 0x1000, wherever the DMA controller was told to put them: the disk properties do not depend on the
  programming of that controller. What \<^verbatim>\<open>dma_init_floppy\<close> writes to its registers is shown separately, in \<open>Dma\<close>. Privilege levels, write protection, I/O permission, the translation cache and the
  segment registers are not modelled, and interrupts are taken only where the code waits for them.

  \<^bold>\<open>Not modelled.\<close> The boot loader (16-bit assembly over BIOS services), the build files and the linker script;
  enumeration values that no function of the sources uses; of \<^verbatim>\<open>jmp_userspace\<close> everything but the
  interrupt flag.
\<close>

unbundle bit_operations_syntax

section \<open>From the boot loader to the end of a session\<close>

text \<open>
  C2. The kernel boots. With a working drive that is idle, a disk whose boot sector has sectors of positive size, tables of
  the declared lengths, no handler at address 0, and a memory map that leaves the bitmap in use and six adjacent blocks
  free, \<open>kmain\<close> reaches user code: paging is on and maps the first 4 MiB to themselves and the kernel's space to 1 MiB,
  the page tables are well-formed and lie in memory that was free, the 256 vectors lead to the kernel's handlers,
  interrupts are on, the volume is mounted with the geometry of the disk and registered, and the drive is ready again.
\<close>

theorem kmain_boots:
  fixes s :: "'a fat"
  assumes "drive_ok disk s" and "drive_idle s" and "\<not> read_command (fifo_out (io_log s))"
    and "length (gdt h) = unat GDT_SIZE" and "length (idt h) = unat IDT_SIZE" and "linked img"
    and "disk_word disk 11 \<noteq> 0" and "0 < length (file_system s)" and "room (boot_memory s) b"
  shows "\<exists>h' t. kmain img stack h s = Some (h', t) \<and> vmm_wf t \<and> cr3 t = curdir t \<and> bit (cr0 t) 31 \<and>
    (\<forall>va. mmu_walk (ram t) (cr3 t) va = kernel_space va) \<and> (\<forall>p. table_frame t p \<longrightarrow> \<not> block_used (boot_memory s) (p div BLOCK_SIZE)) \<and>
    cpu_idtr h' = \<lparr>tp_limit = 2047, tp_base = idt_addr img\<rparr> \<and> (\<forall>v < 256. idt h' ! v = kernel_gate img v) \<and> int_flag t \<and>
    boot_geometry disk (mount_info t) \<and> file_system t = (file_system s)[0 := Some Fat12] \<and> drive_ok disk t"
proof -
  obtain h' t where run: "kmain img stack h s = Some (h', t)" "vmm_wf t" "cr3 t = curdir t" "bit (cr0 t) 31"
    "mmu_walk (ram t) (cr3 t) = kernel_space" "int_flag t" and up: "devices_up disk s t"
    and frames: "\<And>p. table_frame t p \<Longrightarrow> \<not> block_used (boot_memory s) (p div BLOCK_SIZE)"
    and gates: "cpu_idtr h' = \<lparr>tp_limit = 2047, tp_base = idt_addr img\<rparr>" "\<forall>v < 256. idt h' ! v = kernel_gate img v"
    by (rule kmain_run [OF assms, of stack]) (rule that; assumption)
  show ?thesis using run gates frames up by (intro exI [of _ h'] exI [of _ t]) (simp add: devices_up_def)
qed

theorem kmain_boots_witness:
  "\<exists>h' t. kmain demo_image 0x90000 demo_hal (demo_machine []) = Some (h', t) \<and> mmu_walk (ram t) (cr3 t) 0xC0000010 = Some 0x100010 \<and>
     gate_target (idt h' ! 0x80) = 0x100500"
proof -
  have h: "length (gdt demo_hal) = unat GDT_SIZE" "length (idt demo_hal) = unat IDT_SIZE" "linked demo_image"
    by (simp_all add: demo_hal_def linked_def demo_image_def)
  have d: "disk_word demo_img 11 \<noteq> 0" by (simp add: disk_word_def demo_img_def)
  obtain h' t where t: "kmain demo_image 0x90000 demo_hal (demo_machine []) = Some (h', t)"
    "\<forall>va. mmu_walk (ram t) (cr3 t) va = kernel_space va" "\<forall>v < 256. idt h' ! v = kernel_gate demo_image v"
    using kmain_boots [OF demo_machine_ok(1-3) h d demo_machine_ok(4) demo_boot_room(1) [OF demo_machine_ok(6)], of "0x90000"] by blast
  have "mmu_walk (ram t) (cr3 t) 0xC0000010 = Some 0x100010" "gate_target (idt h' ! 0x80) = 0x100500"
    using t(2,3) by (simp_all add: kernel_space_def kernel_gate_def make_gate_target demo_image_def)
  with t(1) show ?thesis by blast
qed





end
